(* ===== verification/Prelude.thy ===== *)
theory Prelude
  imports Main "HOL-Library.Word" "HOL-Library.Multiset" "HOL-Library.Monad_Syntax"
begin

text \<open>
  Shared vocabulary of the development.

  \<^item> Names for the C integer types and for byte strings.
  \<^item> Little-endian conversion between words and byte strings, which is how
    \<^verbatim>\<open>memcpy\<close> of an integer or of a pointer reads and writes memory on the
    machines the program targets, with the round trip.
  \<^item> Checked array access: \<open>nth_opt\<close>, \<open>sub_bytes\<close> and \<open>splice\<close> return \<open>None\<close>
    where the C access would leave the array.
  \<^item> Powers of two as masks, multisets without repetition, and the collections
    of rewrite rules the component theories extend.
\<close>

unbundle bit_operations_syntax

type_synonym byte = "8 word"
type_synonym bytes = "byte list"
type_synonym u8 = "8 word"
type_synonym u16 = "16 word"
type_synonym u32 = "32 word"
type_synonym u64 = "64 word"
type_synonym i64 = "64 word"
type_synonym addr = "64 word"

named_theorems mem_simps \<open>reads and updates of the memory model\<close>
named_theorems slot_simps \<open>slot arithmetic modulo the capacity\<close>
named_theorems frame_simps \<open>fields an operation leaves alone\<close>

abbreviation (input) UINT32_MAX :: u32 where
  "UINT32_MAX \<equiv> - 1"

abbreviation (input) NULL :: addr where
  "NULL \<equiv> 0"

text \<open>Character strings of the source as byte strings.\<close>

definition ascii :: "string \<Rightarrow> bytes" where
  "ascii s = map (\<lambda>c. of_nat (of_char c)) s"

section \<open>Checked array access\<close>

definition nth_opt :: "'a list \<Rightarrow> nat \<Rightarrow> 'a option" where
  "nth_opt xs i = (if i < length xs then Some (xs ! i) else None)"

definition sub_bytes :: "'a list \<Rightarrow> nat \<Rightarrow> nat \<Rightarrow> 'a list option" where
  "sub_bytes bs off n = (if off + n \<le> length bs then Some (take n (drop off bs)) else None)"

definition splice :: "'a list \<Rightarrow> nat \<Rightarrow> 'a list \<Rightarrow> 'a list option" where
  "splice bs off xs =
     (if off + length xs \<le> length bs
      then Some (take off bs @ xs @ drop (off + length xs) bs) else None)"

text \<open>The first position in an array that a loop stops at.\<close>

primrec find_index :: "('a \<Rightarrow> bool) \<Rightarrow> 'a list \<Rightarrow> nat option" where
  "find_index P [] = None"
| "find_index P (x # xs) = (if P x then Some 0 else map_option Suc (find_index P xs))"

lemma find_index_some: "find_index P xs = Some i \<Longrightarrow> i < length xs \<and> P (xs ! i)"
  by (induction xs arbitrary: i) (auto split: if_splits)

lemma find_index_none: "find_index P xs = None \<longleftrightarrow> (\<forall>x \<in> set xs. \<not> P x)"
  by (induction xs) auto

lemma nth_opt_Some [simp]: "i < length xs \<Longrightarrow> nth_opt xs i = Some (xs ! i)"
  by (simp add: nth_opt_def)

lemma sub_bytes_Some [simp]:
  "off + n \<le> length bs \<Longrightarrow> sub_bytes bs off n = Some (take n (drop off bs))"
  by (simp add: sub_bytes_def)

lemma splice_Some [simp]:
  "off + length xs \<le> length bs \<Longrightarrow>
   splice bs off xs = Some (take off bs @ xs @ drop (off + length xs) bs)"
  by (simp add: splice_def)

lemma length_splice: "splice bs off xs = Some bs' \<Longrightarrow> length bs' = length bs"
  by (auto simp: splice_def split: if_splits)

lemma sub_bytes_splice_same:
  "splice bs off xs = Some bs' \<Longrightarrow> sub_bytes bs' off (length xs) = Some xs"
  by (auto simp: splice_def sub_bytes_def split: if_splits)

lemma sub_bytes_splice_before:
  assumes "splice bs off xs = Some bs'" and "o2 + n \<le> off"
  shows "sub_bytes bs' o2 n = sub_bytes bs o2 n"
proof -
  have bs': "bs' = take off bs @ xs @ drop (off + length xs) bs"
    and le: "off + length xs \<le> length bs"
    using assms(1) by (auto simp: splice_def split: if_splits)
  have len: "length (take off bs) = off" using le by simp
  have "take n (drop o2 bs') = take n (drop o2 (take off bs))"
    using assms(2) len unfolding bs' by simp
  also have "\<dots> = take n (drop o2 bs)"
    using assms(2) by (simp add: drop_take min_def)
  finally show ?thesis
    using assms(2) le length_splice [OF assms(1)] by (simp add: sub_bytes_def)
qed

lemma map_eqI:
  assumes "\<And>k y. f k = Some y \<longleftrightarrow> g k = Some y" shows "f = g"
proof
  fix k
  show "f k = g k" using assms [of k] by (cases "g k") (auto simp: not_None_eq [symmetric])
qed

section \<open>Little-endian words\<close>

definition le_bytes :: "nat \<Rightarrow> 'a::len word \<Rightarrow> bytes" where
  "le_bytes n w = map (\<lambda>i. ucast (drop_bit (8 * i) w)) [0..<n]"

primrec of_le :: "bytes \<Rightarrow> 'a::len word" where
  "of_le [] = 0"
| "of_le (b # bs) = ucast b OR push_bit 8 (of_le bs)"

lemma length_le_bytes [simp]: "length (le_bytes n w) = n"
  by (simp add: le_bytes_def)

lemma bit_of_le:
  "bit (of_le bs :: 'a::len word) i \<longleftrightarrow>
     i < LENGTH('a) \<and> i div 8 < length bs \<and> bit (bs ! (i div 8)) (i mod 8)"
proof (induction bs arbitrary: i)
  case Nil
  then show ?case by simp
next
  case (Cons b bs)
  show ?case
  proof (cases "i < 8")
    case True
    then show ?thesis
      by (auto simp: bit_or_iff bit_push_bit_iff bit_ucast_iff)
  next
    case False
    then obtain j where i: "i = 8 + j" by (metis le_add_diff_inverse not_less)
    have "\<not> bit b i" using False by (auto dest: bit_imp_le_length)
    moreover have "(8 + j) div 8 = Suc (j div 8)" by simp
    ultimately show ?thesis
      using Cons.IH [of j] by (auto simp: i bit_or_iff bit_push_bit_iff bit_ucast_iff)
  qed
qed

lemma nth_le_bytes [simp]: "i < n \<Longrightarrow> le_bytes n w ! i = ucast (drop_bit (8 * i) w)"
  by (simp add: le_bytes_def)

lemma of_le_le_bytes:
  fixes w :: "'a::len word"
  assumes "LENGTH('a) \<le> 8 * n"
  shows "of_le (le_bytes n w) = w"
proof (rule bit_word_eqI)
  fix i
  assume i: "i < LENGTH('a)"
  then have "i div 8 < n" using assms by auto
  then show "bit (of_le (le_bytes n w) :: 'a word) i \<longleftrightarrow> bit w i"
    using i by (auto simp: bit_of_le bit_ucast_iff bit_drop_bit_eq)
qed

lemma le_bytes_of_le:
  assumes "length bs = n" and "8 * n \<le> LENGTH('a::len)"
  shows "le_bytes n (of_le bs :: 'a word) = bs"
proof (rule nth_equalityI)
  show "length (le_bytes n (of_le bs :: 'a word)) = length bs" using assms by simp
next
  fix i
  assume "i < length (le_bytes n (of_le bs :: 'a word))"
  then have i: "i < n" by simp
  show "le_bytes n (of_le bs :: 'a word) ! i = bs ! i"
  proof (rule bit_word_eqI)
    fix j :: nat
    assume j: "j < LENGTH(8)"
    have "8 * i + j < LENGTH('a)" and "(8 * i + j) div 8 = i" and "(8 * i + j) mod 8 = j"
      using i j assms(2) by auto
    then show "bit (le_bytes n (of_le bs :: 'a word) ! i) j \<longleftrightarrow> bit (bs ! i) j"
      using i j assms(1) by (simp add: bit_ucast_iff bit_drop_bit_eq bit_of_le)
  qed
qed

section \<open>Slots modulo a power of two\<close>

lemma unat_word_exp: "k < LENGTH('a) \<Longrightarrow> unat (2 ^ k :: 'a::len word) = 2 ^ k"
  by transfer (simp add: take_bit_eq_mod)

lemma unat_and_mask:
  fixes w m :: "'a::len word"
  assumes "m = 2 ^ k" and "k < LENGTH('a)"
  shows "unat (w AND (m - 1)) = unat w mod unat m"
proof -
  have "w AND (m - 1) = take_bit k w"
    using assms by (simp add: take_bit_eq_mask mask_eq_exp_minus_1)
  then have "unat (w AND (m - 1)) = take_bit k (unat w)"
    by (simp add: unsigned_take_bit_eq)
  then have "unat (w AND (m - 1)) = unat w mod 2 ^ k"
    by (simp add: take_bit_nat_def)
  moreover have "unat m = 2 ^ k"
    using assms by (simp add: unat_word_exp)
  ultimately show ?thesis by simp
qed

definition pow2_word :: "'a::len word \<Rightarrow> bool" where
  "pow2_word m \<longleftrightarrow> (\<exists>k < LENGTH('a). m = 2 ^ k)"

lemma unat_and_pow2 [slot_simps]:
  "pow2_word m \<Longrightarrow> unat (w AND (m - 1)) = unat w mod unat m"
  by (auto simp: pow2_word_def intro: unat_and_mask)

lemma pow2_word_pos: "pow2_word m \<Longrightarrow> 0 < unat m"
  by (auto simp: pow2_word_def unat_word_exp)

section \<open>Multisets without repetition\<close>

definition distinct_ms :: "'a multiset \<Rightarrow> bool" where
  "distinct_ms M \<longleftrightarrow> (\<forall>x. count M x \<le> 1)"

lemma distinct_ms_union:
  "distinct_ms (M + N) \<longleftrightarrow> distinct_ms M \<and> distinct_ms N \<and> set_mset M \<inter> set_mset N = {}"
proof -
  have "(\<forall>x. count M x + count N x \<le> 1) \<longleftrightarrow>
      (\<forall>x. count M x \<le> 1 \<and> count N x \<le> 1 \<and> \<not> (0 < count M x \<and> 0 < count N x))"
    by (intro iff_allI) linarith
  then show ?thesis
    by (simp add: distinct_ms_def disjoint_iff) blast
qed

lemma distinct_ms_empty [simp]: "distinct_ms {#}"
  by (simp add: distinct_ms_def)

lemma distinct_ms_single [simp]: "distinct_ms {#x#}"
  by (simp add: distinct_ms_def)

lemma distinct_ms_add_mset [simp]:
  "distinct_ms (add_mset x M) \<longleftrightarrow> x \<notin># M \<and> distinct_ms M"
  using distinct_ms_union [of "{#x#}" M] by auto

lemma distinct_ms_mset [simp]: "distinct_ms (mset xs) \<longleftrightarrow> distinct xs"
  by (induction xs) auto

lemma distinct_ms_mono: "distinct_ms N \<Longrightarrow> M \<subseteq># N \<Longrightarrow> distinct_ms M"
  by (meson distinct_ms_def le_trans mset_subset_eq_count)

end
