(* ===== verification/Memory.thy ===== *)
theory Memory
  imports Prelude
begin

text \<open>
  The memory the cache allocates outside its tables. A block is named by its first
  address, which is the only address of it the program keeps; \<open>blocks\<close> says how it was
  obtained and what it holds. A read or a write outside a block, a \<^verbatim>\<open>free\<close> of something
  \<^verbatim>\<open>malloc\<close> did not return and an \<^verbatim>\<open>munmap\<close> beyond a mapping have the result \<open>None\<close>:
  the operations of the model return a value only where the C code stays within its
  memory. What \<^verbatim>\<open>malloc\<close> and \<^verbatim>\<open>mmap\<close> return is an argument (\<open>None\<close> when they fail);
  that the address is new is the hypothesis \<open>fresh\<close>.
\<close>

datatype bkind = MallocBlk | MmapBlk | SlabBlk

record cmem =
  blocks :: "addr \<rightharpoonup> bkind \<times> bytes"
  tails :: "(addr \<times> nat) list"

definition fresh :: "cmem \<Rightarrow> addr \<Rightarrow> bool" where
  "fresh m p \<longleftrightarrow> p \<noteq> NULL \<and> blocks m p = None"

definition mem_read :: "cmem \<Rightarrow> addr \<Rightarrow> nat \<Rightarrow> nat \<Rightarrow> bytes option" where
  "mem_read m p off n =
     (case blocks m p of None \<Rightarrow> None | Some (k, bs) \<Rightarrow> sub_bytes bs off n)"

definition mem_write :: "cmem \<Rightarrow> addr \<Rightarrow> nat \<Rightarrow> bytes \<Rightarrow> cmem option" where
  "mem_write m p off xs =
     (case blocks m p of None \<Rightarrow> None
      | Some (k, bs) \<Rightarrow> do {
          bs' \<leftarrow> splice bs off xs;
          Some (m\<lparr>blocks := (blocks m)(p \<mapsto> (k, bs'))\<rparr>)
        })"

definition c_malloc :: "cmem \<Rightarrow> nat \<Rightarrow> addr option \<Rightarrow> addr \<times> cmem" where
  "c_malloc m n ret =
     (case ret of None \<Rightarrow> (NULL, m)
      | Some p \<Rightarrow> (p, m\<lparr>blocks := (blocks m)(p \<mapsto> (MallocBlk, replicate n 0))\<rparr>))"

definition c_free :: "cmem \<Rightarrow> addr \<Rightarrow> cmem option" where
  "c_free m p =
     (if p = NULL then Some m
      else case blocks m p of
             Some (MallocBlk, bs) \<Rightarrow> Some (m\<lparr>blocks := (blocks m)(p := None)\<rparr>)
           | _ \<Rightarrow> None)"

text \<open>Anonymous mappings come in whole pages.\<close>

definition page_round :: "nat \<Rightarrow> nat" where
  "page_round n = (n + 4095) div 4096 * 4096"

definition c_mmap :: "cmem \<Rightarrow> nat \<Rightarrow> addr option \<Rightarrow> addr option \<times> cmem" where
  "c_mmap m n ret =
     (case ret of None \<Rightarrow> (None, m)
      | Some p \<Rightarrow>
          (Some p, m\<lparr>blocks := (blocks m)(p \<mapsto> (MmapBlk, replicate (page_round n) 0))\<rparr>))"

text \<open>
  \<^verbatim>\<open>munmap(p, n)\<close> removes the first \<open>page_round n\<close> bytes of a mapping. What is left of
  a longer mapping stays mapped and is recorded in \<open>tails\<close>.
\<close>

definition c_munmap :: "cmem \<Rightarrow> addr \<Rightarrow> nat \<Rightarrow> cmem option" where
  "c_munmap m p n =
     (case blocks m p of
        Some (MmapBlk, bs) \<Rightarrow>
          (let r = page_round n in
           if n = 0 then Some m
           else if length bs < r then None
           else Some (m\<lparr>blocks := (blocks m)(p := None),
                        tails := (if r < length bs then (p + of_nat r, length bs - r) # tails m
                                  else tails m)\<rparr>))
      | _ \<Rightarrow> None)"

section \<open>Laws\<close>

lemma page_round_ge: "n \<le> page_round n"
  using div_mult_mod_eq [of "n + 4095" 4096] mod_less_divisor [of 4096 "n + 4095"]
  unfolding page_round_def by linarith

lemma page_round_mono: "m \<le> n \<Longrightarrow> page_round m \<le> page_round n"
  unfolding page_round_def by (simp add: div_le_mono)

lemma mem_read_Some [mem_simps]:
  "blocks m p = Some (k, bs) \<Longrightarrow> mem_read m p off n = sub_bytes bs off n"
  by (simp add: mem_read_def)

lemma mem_write_Some [mem_simps]:
  "blocks m p = Some (k, bs) \<Longrightarrow> off + length xs \<le> length bs \<Longrightarrow>
   mem_write m p off xs =
     Some (m\<lparr>blocks := (blocks m)(p \<mapsto> (k, take off bs @ xs @ drop (off + length xs) bs))\<rparr>)"
  by (simp add: mem_write_def)

lemma mem_read_cong:
  "blocks m p = blocks m' p \<Longrightarrow> mem_read m p off n = mem_read m' p off n"
  by (simp add: mem_read_def)

lemma c_free_Some [mem_simps]:
  "blocks m p = Some (MallocBlk, bs) \<Longrightarrow> p \<noteq> NULL \<Longrightarrow>
   c_free m p = Some (m\<lparr>blocks := (blocks m)(p := None)\<rparr>)"
  by (simp add: c_free_def)

end
