(* ===== verification/Slab.thy ===== *)
theory Slab
  imports Memory
begin

text \<open>
  The slab allocator of \<^verbatim>\<open>src/voidcache.c\<close>. Each of the 16 size classes keeps its free
  blocks on a Treiber stack whose links are stored in the first eight bytes of the free
  blocks themselves; \<open>flist\<close> relates such a stack to the list of its blocks. An arena is
  one mapping in the code; here each block of it has its own entry in the memory.
\<close>

datatype vc_err = VC_OK | VC_ERR_OOM | VC_ERR_FULL | VC_ERR_NOTFND | VC_ERR_EXPIRED
  | VC_ERR_WAL | VC_ERR_INVAL

record slab_class =
  sc_head :: addr
  sc_arena :: addr
  sc_block_size :: nat
  sc_arena_size :: nat
  sc_alloc_count :: u64
  sc_free_count :: u64

type_synonym slab = "slab_class list"

abbreviation (input) VC_SLAB_CLASSES :: nat where "VC_SLAB_CLASSES \<equiv> 16"
abbreviation (input) VC_SLAB_BASE :: nat where "VC_SLAB_BASE \<equiv> 64"
abbreviation (input) SLAB_ARENA_MB :: nat where "SLAB_ARENA_MB \<equiv> 16"

section \<open>Size classes\<close>

definition slab_class_size :: "nat \<Rightarrow> nat" where
  "slab_class_size cls = VC_SLAB_BASE * 2 ^ cls"

function slab_class_loop :: "nat \<Rightarrow> nat \<Rightarrow> nat \<Rightarrow> nat" where
  "slab_class_loop sz s cls =
     (if s < sz \<and> cls < VC_SLAB_CLASSES - 1 then slab_class_loop sz (2 * s) (cls + 1) else cls)"
  by pat_completeness auto
termination
  by (relation "measure (\<lambda>(sz, s, cls). VC_SLAB_CLASSES - 1 - cls)") auto

definition slab_class_for :: "nat \<Rightarrow> nat" where
  "slab_class_for sz = (if sz \<le> VC_SLAB_BASE then 0 else slab_class_loop sz VC_SLAB_BASE 0)"

declare slab_class_loop.simps [simp del]

lemma slab_class_loop_spec:
  assumes "s = slab_class_size cls" and "cls < 16"
    and "\<forall>c < cls. slab_class_size c < sz"
  shows "slab_class_loop sz s cls < 16
    \<and> (slab_class_loop sz s cls = 15 \<or> sz \<le> slab_class_size (slab_class_loop sz s cls))
    \<and> (\<forall>c < slab_class_loop sz s cls. slab_class_size c < sz)"
  using assms
proof (induction sz s cls rule: slab_class_loop.induct)
  case (1 sz s cls)
  show ?case
  proof (cases "s < sz \<and> cls < 15")
    case True
    then have eq: "slab_class_loop sz s cls = slab_class_loop sz (2 * s) (cls + 1)"
      by (subst slab_class_loop.simps) simp
    have "2 * s = slab_class_size (cls + 1)" using "1.prems"(1) by (simp add: slab_class_size_def)
    moreover have "\<forall>c < cls + 1. slab_class_size c < sz"
      using True "1.prems" by (auto simp: less_Suc_eq)
    ultimately show ?thesis
      unfolding eq using True by (intro "1.IH") auto
  next
    case False
    then have eq: "slab_class_loop sz s cls = cls" by (subst slab_class_loop.simps) auto
    from False "1.prems" have "cls = 15 \<or> sz \<le> slab_class_size cls" by auto
    then show ?thesis using "1.prems" unfolding eq by blast
  qed
qed

lemma slab_class_for_spec:
  "slab_class_for sz < 16
   \<and> (slab_class_for sz = 15 \<or> sz \<le> slab_class_size (slab_class_for sz))
   \<and> (\<forall>c < slab_class_for sz. slab_class_size c < sz)"
proof (cases "sz \<le> 64")
  case True
  then show ?thesis by (simp add: slab_class_for_def slab_class_size_def)
next
  case False
  then show ?thesis
    using slab_class_loop_spec [of 64 0 sz] by (simp add: slab_class_for_def slab_class_size_def)
qed

lemma slab_class_for_less [simp]: "slab_class_for sz < 16"
  using slab_class_for_spec by blast

lemma slab_class_for_fits:
  "sz \<le> slab_class_size 15 \<Longrightarrow> sz \<le> slab_class_size (slab_class_for sz)"
  using slab_class_for_spec [of sz] by auto

lemma slab_class_for_least: "c < slab_class_for sz \<Longrightarrow> slab_class_size c < sz"
  using slab_class_for_spec [of sz] by blast

lemma slab_class_size_mono: "c \<le> d \<Longrightarrow> slab_class_size c \<le> slab_class_size d"
  by (simp add: slab_class_size_def)

lemma slab_class_size_ge: "64 \<le> slab_class_size c"
  by (simp add: slab_class_size_def)

lemma slab_class_for_mono:
  assumes "x \<le> y" shows "slab_class_for x \<le> slab_class_for y"
proof (rule ccontr)
  assume "\<not> ?thesis"
  then have lt: "slab_class_for y < slab_class_for x" by simp
  then have "slab_class_size (slab_class_for y) < x" by (rule slab_class_for_least)
  moreover have "slab_class_for y \<noteq> 15" using lt slab_class_for_less [of x] by linarith
  then have "y \<le> slab_class_size (slab_class_for y)" using slab_class_for_spec [of y] by blast
  ultimately show False using assms by simp
qed

section \<open>Operations\<close>

text \<open>
  \<open>slab_carve\<close> enters the blocks of a new arena into the memory, \<open>slab_link\<close> is the loop
  that links them from the last to the first.
\<close>

definition slab_carve :: "cmem \<Rightarrow> addr \<Rightarrow> nat \<Rightarrow> nat \<Rightarrow> cmem" where
  "slab_carve m arena bsz n =
     m\<lparr>blocks := (\<lambda>p. if \<exists>i<n. p = arena + of_nat (i * bsz)
                       then Some (SlabBlk, replicate bsz 0) else blocks m p)\<rparr>"

primrec slab_link :: "addr \<Rightarrow> nat \<Rightarrow> nat \<Rightarrow> addr \<Rightarrow> cmem \<Rightarrow> (addr \<times> cmem) option" where
  "slab_link arena bsz 0 prev m = Some (prev, m)"
| "slab_link arena bsz (Suc i) prev m = do {
     let node = arena + of_nat (i * bsz);
     m \<leftarrow> mem_write m node 0 (le_bytes 8 prev);
     slab_link arena bsz i node m
   }"

definition slab_init_class :: "cmem \<Rightarrow> nat \<Rightarrow> addr \<Rightarrow> (slab_class \<times> cmem) option" where
  "slab_init_class m c arena =
     (let bsz = slab_class_size c;
          asz = SLAB_ARENA_MB * 1024 * 1024 div bsz * bsz;
          n = asz div bsz in do {
        (head, m) \<leftarrow> slab_link arena bsz n NULL (slab_carve m arena bsz n);
        Some (\<lparr>sc_head = head, sc_arena = arena, sc_block_size = bsz, sc_arena_size = asz,
              sc_alloc_count = 0, sc_free_count = 0\<rparr>, m)
      })"

text \<open>
  \<^verbatim>\<open>slab_init\<close>: class by class; the result of each \<^verbatim>\<open>mmap\<close> is taken from \<open>rets\<close>. The
  first failure returns \<open>VC_ERR_OOM\<close> with the classes set up so far.
\<close>

fun slab_init_from :: "nat \<Rightarrow> addr option list \<Rightarrow> cmem \<Rightarrow> slab \<Rightarrow> (vc_err \<times> slab \<times> cmem) option" where
  "slab_init_from c [] m sl = Some (VC_OK, sl, m)"
| "slab_init_from c (None # rets) m sl = Some (VC_ERR_OOM, sl, m)"
| "slab_init_from c (Some arena # rets) m sl = do {
     (sc, m) \<leftarrow> slab_init_class m c arena;
     slab_init_from (Suc c) rets m (sl @ [sc])
   }"

definition slab_init :: "addr option list \<Rightarrow> cmem \<Rightarrow> (vc_err \<times> slab \<times> cmem) option" where
  "slab_init rets m = slab_init_from 0 (take VC_SLAB_CLASSES rets) m []"

text \<open>The Treiber pop and push, with the compare-and-swap succeeding at once.\<close>

definition slab_alloc :: "cmem \<Rightarrow> slab \<Rightarrow> nat \<Rightarrow> (addr \<times> nat \<times> slab) option" where
  "slab_alloc m sl sz = do {
     let cls = slab_class_for sz;
     sc \<leftarrow> nth_opt sl cls;
     let head = sc_head sc;
     if head = NULL then Some (NULL, cls, sl)
     else do {
       next \<leftarrow> mem_read m head 0 8;
       Some (head, cls, sl[cls := sc\<lparr>sc_head := of_le next, sc_alloc_count := sc_alloc_count sc + 1\<rparr>])
     }
   }"

definition slab_free :: "cmem \<Rightarrow> slab \<Rightarrow> addr \<Rightarrow> nat \<Rightarrow> (cmem \<times> slab) option" where
  "slab_free m sl ptr cls = do {
     sc \<leftarrow> nth_opt sl cls;
     m \<leftarrow> mem_write m ptr 0 (le_bytes 8 (sc_head sc));
     Some (m, sl[cls := sc\<lparr>sc_head := ptr, sc_free_count := sc_free_count sc + 1\<rparr>])
   }"

definition arena_unmap :: "slab_class \<Rightarrow> cmem \<Rightarrow> cmem" where
  "arena_unmap sc m =
     (if sc_arena sc = NULL then m
      else m\<lparr>blocks := (\<lambda>p. if \<exists>i < sc_arena_size sc div sc_block_size sc.
                                 p = sc_arena sc + of_nat (i * sc_block_size sc)
                            then None else blocks m p)\<rparr>)"

definition slab_destroy :: "slab \<Rightarrow> cmem \<Rightarrow> cmem" where
  "slab_destroy sl m = fold arena_unmap sl m"

section \<open>Free lists\<close>

primrec flist :: "cmem \<Rightarrow> addr \<Rightarrow> addr list \<Rightarrow> bool" where
  "flist m p [] \<longleftrightarrow> p = NULL"
| "flist m p (x # xs) \<longleftrightarrow>
     p = x \<and> x \<noteq> NULL \<and> (\<exists>next. mem_read m x 0 8 = Some next \<and> flist m (of_le next) xs)"

definition class_ok :: "cmem \<Rightarrow> nat \<Rightarrow> slab_class \<Rightarrow> addr list \<Rightarrow> bool" where
  "class_ok m c sc fl \<longleftrightarrow>
     sc_block_size sc = slab_class_size c \<and> flist m (sc_head sc) fl
     \<and> (\<forall>x \<in> set fl. \<exists>bs. blocks m x = Some (SlabBlk, bs) \<and> slab_class_size c \<le> length bs)"

definition slab_inv :: "cmem \<Rightarrow> slab \<Rightarrow> addr list list \<Rightarrow> bool" where
  "slab_inv m sl fls \<longleftrightarrow>
     length sl = 16 \<and> length fls = 16 \<and> (\<forall>c<16. class_ok m c (sl ! c) (fls ! c))"

lemma flist_cong:
  "(\<And>x. x \<in> set xs \<Longrightarrow> blocks m x = blocks m' x) \<Longrightarrow> flist m p xs = flist m' p xs"
  by (induction xs arbitrary: p) (auto simp: mem_read_def)

lemma flist_NULL [simp]: "flist m NULL xs \<longleftrightarrow> xs = []"
  by (cases xs) auto

lemma class_ok_cong:
  assumes "\<And>x. x \<in> set fl \<Longrightarrow> blocks m x = blocks m' x"
  shows "class_ok m c sc fl = class_ok m' c sc fl"
  using flist_cong [of fl m m'] assms by (simp add: class_ok_def)

lemma slab_inv_cong:
  assumes "\<And>x. x \<in> set (concat fls) \<Longrightarrow> blocks m x = blocks m' x"
  shows "slab_inv m sl fls = slab_inv m' sl fls"
proof -
  have "class_ok m c (sl ! c) (fls ! c) = class_ok m' c (sl ! c) (fls ! c)" if "c < length fls" for c
    using that by (intro class_ok_cong assms) (auto intro: nth_mem)
  then show ?thesis unfolding slab_inv_def by auto
qed

lemma slab_inv_update:
  "slab_inv m sl fls \<Longrightarrow> class_ok m c sc fl \<Longrightarrow> slab_inv m (sl[c := sc]) (fls[c := fl])"
  by (cases "c < 16") (simp_all add: slab_inv_def nth_list_update)

lemma slab_inv_class: "slab_inv m sl fls \<Longrightarrow> c < 16 \<Longrightarrow> class_ok m c (sl ! c) (fls ! c)"
  by (simp add: slab_inv_def)

lemma slab_inv_nth_opt [simp]: "slab_inv m sl fls \<Longrightarrow> c < 16 \<Longrightarrow> nth_opt sl c = Some (sl ! c)"
  by (simp add: slab_inv_def)

lemma slab_alloc_empty:
  assumes "slab_inv m sl fls" and "fls ! slab_class_for sz = []"
  shows "slab_alloc m sl sz = Some (NULL, slab_class_for sz, sl)"
proof -
  have "sc_head (sl ! slab_class_for sz) = NULL"
    using slab_inv_class [OF assms(1) slab_class_for_less [of sz]] assms(2)
    by (simp add: class_ok_def)
  then show ?thesis
    using assms(1) by (simp add: slab_alloc_def Let_def)
qed

lemma slab_alloc_pop:
  assumes inv: "slab_inv m sl fls" and fl: "fls ! slab_class_for sz = x # xs"
  shows "\<exists>sl'. slab_alloc m sl sz = Some (x, slab_class_for sz, sl')
     \<and> slab_inv m sl' (fls[slab_class_for sz := xs]) \<and> x \<noteq> NULL
     \<and> (\<exists>bs. blocks m x = Some (SlabBlk, bs) \<and> slab_class_size (slab_class_for sz) \<le> length bs)"
proof -
  define c where "c = slab_class_for sz"
  define sc where "sc = sl ! c"
  have c: "c < 16" and nth: "nth_opt sl c = Some sc" using inv by (simp_all add: c_def sc_def)
  have ok: "class_ok m c sc (x # xs)" using slab_inv_class [OF inv c] fl by (simp add: c_def sc_def)
  then obtain nx where h: "sc_head sc = x" "x \<noteq> NULL" "mem_read m x 0 8 = Some nx"
    "flist m (of_le nx) xs" by (auto simp: class_ok_def)
  define sc' where "sc' = sc\<lparr>sc_head := of_le nx, sc_alloc_count := sc_alloc_count sc + 1\<rparr>"
  have "slab_alloc m sl sz = Some (x, c, sl[c := sc'])"
    using nth h by (simp add: slab_alloc_def sc'_def c_def [symmetric] Let_def)
  moreover have "class_ok m c sc' xs" using ok h by (simp add: class_ok_def sc'_def)
  then have "slab_inv m (sl[c := sc']) (fls[c := xs])" by (rule slab_inv_update [OF inv])
  moreover have "\<exists>bs. blocks m x = Some (SlabBlk, bs) \<and> slab_class_size c \<le> length bs"
    using ok by (simp add: class_ok_def)
  ultimately show ?thesis using h(2) unfolding c_def by blast
qed

lemma slab_free_push:
  assumes inv: "slab_inv m sl fls" and c: "c < 16"
    and blk: "blocks m p = Some (SlabBlk, bs)" "slab_class_size c \<le> length bs"
    and p: "p \<noteq> NULL" "p \<notin> set (concat fls)"
  shows "\<exists>m' sl' bs'. slab_free m sl p c = Some (m', sl')
     \<and> slab_inv m' sl' (fls[c := p # fls ! c])
     \<and> m' = m\<lparr>blocks := (blocks m)(p \<mapsto> (SlabBlk, bs'))\<rparr> \<and> length bs' = length bs"
proof -
  have len: "8 \<le> length bs" using blk(2) slab_class_size_ge [of c] by linarith
  define sc where "sc = sl ! c"
  define bs' where "bs' = le_bytes 8 (sc_head sc) @ drop 8 bs"
  define m' where "m' = m\<lparr>blocks := (blocks m)(p \<mapsto> (SlabBlk, bs'))\<rparr>"
  define sc' where "sc' = sc\<lparr>sc_head := p, sc_free_count := sc_free_count sc + 1\<rparr>"
  have len': "length bs' = length bs" using len by (simp add: bs'_def)
  have free: "slab_free m sl p c = Some (m', sl[c := sc'])"
    using inv c blk(1) len by (simp add: slab_free_def m'_def sc'_def sc_def bs'_def mem_simps)
  have "blocks m x = blocks m' x" if "x \<in> set (concat fls)" for x
    using that p(2) by (auto simp: m'_def)
  then have inv': "slab_inv m' sl fls" using inv slab_inv_cong by blast
  have "mem_read m' p 0 8 = Some (le_bytes 8 (sc_head sc))"
    using len by (simp add: m'_def mem_read_def bs'_def)
  then have "class_ok m' c sc' (p # fls ! c)"
    using slab_inv_class [OF inv' c] p(1) blk(2) len'
    by (simp add: class_ok_def sc'_def sc_def of_le_le_bytes) (simp add: m'_def)
  then have "slab_inv m' (sl[c := sc']) (fls[c := p # fls ! c])" by (rule slab_inv_update [OF inv'])
  with free len' show ?thesis unfolding m'_def by blast
qed

section \<open>Initialisation\<close>

abbreviation slab_node :: "addr \<Rightarrow> nat \<Rightarrow> nat \<Rightarrow> addr" where
  "slab_node arena bsz i \<equiv> arena + of_nat (i * bsz)"

lemma slab_link_correct:
  assumes "\<And>j. j < i \<Longrightarrow> \<exists>bs. blocks m (slab_node arena bsz j) = Some (SlabBlk, bs) \<and> length bs = bsz"
    and "inj_on (slab_node arena bsz) {..<i}" and "\<And>j. j < i \<Longrightarrow> slab_node arena bsz j \<noteq> NULL"
    and "flist m prev xs" and "set xs \<inter> slab_node arena bsz ` {..<i} = {}" and "8 \<le> bsz"
  shows "\<exists>head m'. slab_link arena bsz i prev m = Some (head, m')
     \<and> flist m' head (map (slab_node arena bsz) [0..<i] @ xs)
     \<and> (\<forall>p. p \<notin> slab_node arena bsz ` {..<i} \<longrightarrow> blocks m' p = blocks m p)
     \<and> (\<forall>j<i. \<exists>bs. blocks m' (slab_node arena bsz j) = Some (SlabBlk, bs) \<and> length bs = bsz)"
  using assms
proof (induction i arbitrary: prev m xs)
  case 0
  then show ?case by simp
next
  case (Suc i)
  define q where "q = slab_node arena bsz i"
  obtain bs where bs: "blocks m q = Some (SlabBlk, bs)" "length bs = bsz"
    using Suc.prems(1) [of i] by (auto simp: q_def)
  define bs' where "bs' = le_bytes 8 prev @ drop 8 bs"
  define m1 where "m1 = m\<lparr>blocks := (blocks m)(q \<mapsto> (SlabBlk, bs'))\<rparr>"
  have w: "mem_write m q 0 (le_bytes 8 prev) = Some m1"
    using bs Suc.prems(6) by (simp add: m1_def bs'_def mem_simps)
  have qx: "q \<notin> set xs" using Suc.prems(5) by (auto simp: q_def)
  have "blocks m x = blocks m1 x" if "x \<in> set xs" for x
    using that qx by (auto simp: m1_def)
  then have "flist m1 prev xs"
    using Suc.prems(4) flist_cong [of xs m m1 prev] by blast
  moreover have "mem_read m1 q 0 8 = Some (le_bytes 8 prev)"
    using bs Suc.prems(6) by (simp add: m1_def bs'_def mem_read_def)
  ultimately have fl: "flist m1 q (q # xs)"
    using Suc.prems(3) [of i] by (simp add: q_def of_le_le_bytes)
  have qi: "q \<notin> slab_node arena bsz ` {..<i}"
    using Suc.prems(2) unfolding q_def by (auto simp: inj_on_def lessThan_Suc)
  have blk1: "\<exists>bs. blocks m1 (slab_node arena bsz j) = Some (SlabBlk, bs) \<and> length bs = bsz"
    if "j < Suc i" for j
    using Suc.prems(1) [OF that] bs Suc.prems(6) by (auto simp: m1_def bs'_def)
  have "\<exists>head m'. slab_link arena bsz i q m1 = Some (head, m')
     \<and> flist m' head (map (slab_node arena bsz) [0..<i] @ (q # xs))
     \<and> (\<forall>p. p \<notin> slab_node arena bsz ` {..<i} \<longrightarrow> blocks m' p = blocks m1 p)
     \<and> (\<forall>j<i. \<exists>bs. blocks m' (slab_node arena bsz j) = Some (SlabBlk, bs) \<and> length bs = bsz)"
  proof (rule Suc.IH)
    show "inj_on (slab_node arena bsz) {..<i}"
      using Suc.prems(2) by (rule inj_on_subset) auto
    show "set (q # xs) \<inter> slab_node arena bsz ` {..<i} = {}"
      using qi Suc.prems(5) by auto
  qed (use blk1 fl Suc.prems in auto)
  then obtain head m' where l: "slab_link arena bsz i q m1 = Some (head, m')"
    and f: "flist m' head (map (slab_node arena bsz) [0..<i] @ (q # xs))"
    and o: "\<And>p. p \<notin> slab_node arena bsz ` {..<i} \<Longrightarrow> blocks m' p = blocks m1 p"
    and b: "\<And>j. j < i \<Longrightarrow> \<exists>bs. blocks m' (slab_node arena bsz j) = Some (SlabBlk, bs) \<and> length bs = bsz"
    by blast
  have "slab_link arena bsz (Suc i) prev m = Some (head, m')"
    using w l by (simp add: q_def Let_def)
  moreover have "flist m' head (map (slab_node arena bsz) [0..<Suc i] @ xs)"
    using f by (simp add: q_def)
  moreover have "blocks m' p = blocks m p" if "p \<notin> slab_node arena bsz ` {..<Suc i}" for p
    using that o [of p] by (auto simp: m1_def q_def lessThan_Suc)
  moreover have "\<exists>bs. blocks m' (slab_node arena bsz j) = Some (SlabBlk, bs) \<and> length bs = bsz"
    if "j < Suc i" for j
    using that b [of j] o [OF qi] blk1 [of i] by (cases "j = i") (auto simp: q_def)
  ultimately show ?case by blast
qed

text \<open>
  What the program relies on of \<^verbatim>\<open>mmap\<close>: a new mapping starts at a non-null address,
  does not run over the end of the address space and holds no block in use.
\<close>

abbreviation (input) ARENA_BYTES :: nat where "ARENA_BYTES \<equiv> 16777216"

definition in_arena :: "addr \<Rightarrow> addr \<Rightarrow> bool" where
  "in_arena a p \<longleftrightarrow> unat a \<le> unat p \<and> unat p < unat a + ARENA_BYTES"

definition arena_new :: "cmem \<Rightarrow> addr \<Rightarrow> bool" where
  "arena_new m a \<longleftrightarrow> a \<noteq> NULL \<and> unat a + ARENA_BYTES \<le> 2 ^ 64
     \<and> (\<forall>p. in_arena a p \<longrightarrow> blocks m p = None)"

lemma unat_slab_node:
  fixes a :: addr
  assumes "unat a + ARENA_BYTES \<le> 2 ^ 64" and "k < ARENA_BYTES"
  shows "unat (a + of_nat k) = unat a + k"
proof -
  have k: "unat (of_nat k :: addr) = k"
    using assms(2) by (simp add: unat_of_nat)
  have "unat a + unat (of_nat k :: addr) < 2 ^ LENGTH(64)"
    using assms k by simp
  then show ?thesis using k by (simp add: unat_word_ariths)
qed

definition slab_blocks_of :: "nat \<Rightarrow> nat" where
  "slab_blocks_of c = ARENA_BYTES div slab_class_size c"

lemma slab_arena_exact: "c < 16 \<Longrightarrow> slab_blocks_of c * slab_class_size c = ARENA_BYTES"
proof -
  assume "c < 16"
  then have "(2::nat) ^ c dvd 2 ^ 18" by (intro le_imp_power_dvd) simp
  then have "64 * (2::nat) ^ c dvd 64 * 2 ^ 18" by (rule mult_dvd_mono [OF dvd_refl])
  then have "slab_class_size c dvd ARENA_BYTES" by (simp add: slab_class_size_def)
  then show ?thesis by (simp add: slab_blocks_of_def)
qed

definition arena_list :: "nat \<Rightarrow> addr \<Rightarrow> addr list" where
  "arena_list c a = map (slab_node a (slab_class_size c)) [0..<slab_blocks_of c]"

lemma arena_offset:
  assumes "c < 16" and "j < slab_blocks_of c"
  shows "j * slab_class_size c < ARENA_BYTES"
proof -
  have "j * slab_class_size c < slab_blocks_of c * slab_class_size c"
    using assms(2) slab_class_size_ge [of c] by (intro mult_strict_right_mono) auto
  then show ?thesis using slab_arena_exact [OF assms(1)] by simp
qed

lemma unat_arena_node:
  assumes "c < 16" and "arena_new m a" and "j < slab_blocks_of c"
  shows "unat (slab_node a (slab_class_size c) j) = unat a + j * slab_class_size c"
  using unat_slab_node [OF _ arena_offset [OF assms(1,3)]] assms(2) by (simp add: arena_new_def)

lemma arena_node_inj:
  assumes "c < 16" and "arena_new m a"
  shows "inj_on (slab_node a (slab_class_size c)) {..<slab_blocks_of c}"
proof (rule inj_onI)
  fix i j
  assume "i \<in> {..<slab_blocks_of c}" "j \<in> {..<slab_blocks_of c}"
    and "slab_node a (slab_class_size c) i = slab_node a (slab_class_size c) j"
  then have "i * slab_class_size c = j * slab_class_size c"
    using unat_arena_node [OF assms, of i] unat_arena_node [OF assms, of j] by simp
  then show "i = j" using slab_class_size_ge [of c] by simp
qed

lemma distinct_arena_list: "c < 16 \<Longrightarrow> arena_new m a \<Longrightarrow> distinct (arena_list c a)"
  using arena_node_inj by (simp add: arena_list_def distinct_map atLeast0LessThan)

lemma arena_list_in:
  assumes "c < 16" and "arena_new m a" and "p \<in> set (arena_list c a)"
  shows "in_arena a p" and "p \<noteq> NULL"
proof -
  obtain j where j: "j < slab_blocks_of c" "p = slab_node a (slab_class_size c) j"
    using assms(3) by (auto simp: arena_list_def)
  have u: "unat p = unat a + j * slab_class_size c"
    using unat_arena_node [OF assms(1,2) j(1)] j(2) by simp
  then show "in_arena a p" using arena_offset [OF assms(1) j(1)] by (simp add: in_arena_def)
  have "unat a \<noteq> 0" using assms(2) by (simp add: arena_new_def unat_eq_0)
  then show "p \<noteq> NULL" using u by (auto simp: unat_eq_0 [symmetric])
qed

lemma slab_init_class_ok:
  assumes c: "c < 16" and a: "arena_new m a"
  shows "\<exists>sc m'. slab_init_class m c a = Some (sc, m') \<and> class_ok m' c sc (arena_list c a)
     \<and> (\<forall>p. p \<notin> set (arena_list c a) \<longrightarrow> blocks m' p = blocks m p)"
proof -
  define bsz where "bsz = slab_class_size c"
  define n where "n = slab_blocks_of c"
  define m1 where "m1 = slab_carve m a bsz n"
  have b8: "8 \<le> bsz" using slab_class_size_ge [of c] by (simp add: bsz_def)
  have node: "in_arena a (slab_node a bsz j)" "slab_node a bsz j \<noteq> NULL" if "j < n" for j
    using arena_list_in [OF c a, of "slab_node a bsz j"] that
    by (auto simp: arena_list_def bsz_def n_def)
  have "\<exists>bs. blocks m1 (slab_node a bsz j) = Some (SlabBlk, bs) \<and> length bs = bsz" if "j < n" for j
    using that by (auto simp: m1_def slab_carve_def)
  then obtain head m' where l: "slab_link a bsz n NULL m1 = Some (head, m')"
    "flist m' head (map (slab_node a bsz) [0..<n] @ [])"
    "\<And>p. p \<notin> slab_node a bsz ` {..<n} \<Longrightarrow> blocks m' p = blocks m1 p"
    "\<And>j. j < n \<Longrightarrow> \<exists>bs. blocks m' (slab_node a bsz j) = Some (SlabBlk, bs) \<and> length bs = bsz"
    using slab_link_correct [of n m1 a bsz NULL "[]"] b8 node(2) arena_node_inj [OF c a]
    by (auto simp: bsz_def n_def)
  have dims: "SLAB_ARENA_MB * 1024 * 1024 div bsz * bsz = ARENA_BYTES" "ARENA_BYTES div bsz = n"
    using slab_arena_exact [OF c] by (simp_all add: slab_blocks_of_def bsz_def n_def)
  define sc where "sc = \<lparr>sc_head = head, sc_arena = a, sc_block_size = bsz,
    sc_arena_size = ARENA_BYTES, sc_alloc_count = 0, sc_free_count = 0\<rparr>"
  have "slab_init_class m c a = Some (sc, m')"
    using l(1) dims b8 by (simp add: slab_init_class_def Let_def bsz_def [symmetric] m1_def sc_def)
  moreover have "class_ok m' c sc (arena_list c a)"
    using l(2) l(4) by (auto simp: class_ok_def sc_def bsz_def n_def arena_list_def) (metis order_refl)
  moreover have "blocks m' p = blocks m p" if "p \<notin> set (arena_list c a)" for p
  proof -
    have "p \<notin> slab_node a bsz ` {..<n}" using that by (auto simp: arena_list_def bsz_def n_def)
    then show ?thesis using l(3) [of p] by (auto simp: m1_def slab_carve_def)
  qed
  ultimately show ?thesis by blast
qed

definition arena_disj :: "addr \<Rightarrow> addr \<Rightarrow> bool" where
  "arena_disj a b \<longleftrightarrow> unat a + ARENA_BYTES \<le> unat b \<or> unat b + ARENA_BYTES \<le> unat a"

definition arenas_new :: "cmem \<Rightarrow> addr list \<Rightarrow> bool" where
  "arenas_new m as \<longleftrightarrow> (\<forall>a \<in> set as. arena_new m a) \<and> sorted_wrt arena_disj as"

lemma arena_disj_in: "arena_disj a b \<Longrightarrow> in_arena a p \<Longrightarrow> \<not> in_arena b p"
  by (auto simp: arena_disj_def in_arena_def)

fun arena_lists :: "nat \<Rightarrow> addr list \<Rightarrow> addr list list" where
  "arena_lists c [] = []"
| "arena_lists c (a # as) = arena_list c a # arena_lists (Suc c) as"

lemma length_arena_lists [simp]: "length (arena_lists c as) = length as"
  by (induction as arbitrary: c) auto

lemma arenas_new_step:
  assumes "arenas_new m (a # as)" and "\<And>p. \<not> in_arena a p \<Longrightarrow> blocks m' p = blocks m p"
  shows "arenas_new m' as"
proof -
  have "arena_new m' b" if b: "b \<in> set as" for b
  proof -
    have d: "arena_disj a b" and n: "arena_new m b" using assms(1) b by (auto simp: arenas_new_def)
    have "blocks m' p = None" if "in_arena b p" for p
      using assms(2) [of p] arena_disj_in [OF d, of p] n that by (auto simp: arena_new_def)
    then show ?thesis using n by (simp add: arena_new_def)
  qed
  then show ?thesis using assms(1) by (simp add: arenas_new_def)
qed

lemma slab_init_from_ok:
  assumes "arenas_new m as" and "c + length as \<le> 16" and "length sl = c" and "length fls = c"
    and "\<And>d. d < c \<Longrightarrow> class_ok m d (sl ! d) (fls ! d)"
    and "\<And>p. p \<in> set (concat fls) \<Longrightarrow> blocks m p \<noteq> None"
  shows "\<exists>sl' m'. slab_init_from c (map Some as) m sl = Some (VC_OK, sl', m')
     \<and> length sl' = c + length as
     \<and> (\<forall>d < c + length as. class_ok m' d (sl' ! d) ((fls @ arena_lists c as) ! d))
     \<and> (\<forall>p. p \<notin> set (concat (arena_lists c as)) \<longrightarrow> blocks m' p = blocks m p)"
  using assms
proof (induction as arbitrary: c m sl fls)
  case Nil
  then show ?case by simp
next
  case (Cons a as)
  have c: "c < 16" and a: "arena_new m a"
    using Cons.prems(1,2) by (auto simp: arenas_new_def)
  obtain sc m1 where s: "slab_init_class m c a = Some (sc, m1)" "class_ok m1 c sc (arena_list c a)"
    and fr0: "\<And>p. p \<notin> set (arena_list c a) \<Longrightarrow> blocks m1 p = blocks m p"
    using slab_init_class_ok [OF c a] by blast
  have fr: "blocks m1 p = blocks m p" if "\<not> in_arena a p" for p
    using that arena_list_in(1) [OF c a] by (intro fr0) blast
  have old: "blocks m1 p = blocks m p" if "p \<in> set (concat fls)" for p
    using Cons.prems(6) [OF that] a by (intro fr) (auto simp: arena_new_def)
  have ok: "class_ok m1 d ((sl @ [sc]) ! d) ((fls @ [arena_list c a]) ! d)" if "d < Suc c" for d
  proof (cases "d = c")
    case False
    then have d: "d < c" using that by simp
    then have "class_ok m1 d (sl ! d) (fls ! d)"
    proof -
      have "blocks m x = blocks m1 x" if "x \<in> set (fls ! d)" for x
        using that d Cons.prems(4) nth_mem [of d fls] by (intro old [symmetric]) auto
      then show ?thesis using Cons.prems(5) [OF d] class_ok_cong by blast
    qed
    then show ?thesis using d Cons.prems(3,4) by (simp add: nth_append)
  qed (use s(2) Cons.prems(3,4) in \<open>simp add: nth_append\<close>)
  have alloc: "blocks m1 p \<noteq> None" if "p \<in> set (concat (fls @ [arena_list c a]))" for p
  proof (cases "p \<in> set (concat fls)")
    case True
    then show ?thesis using old Cons.prems(6) by metis
  next
    case False
    then have "p \<in> set (arena_list c a)" using that by simp
    then show ?thesis using s(2) by (auto simp: class_ok_def)
  qed
  have "\<exists>sl' m'. slab_init_from (Suc c) (map Some as) m1 (sl @ [sc]) = Some (VC_OK, sl', m')
     \<and> length sl' = Suc c + length as
     \<and> (\<forall>d < Suc c + length as. class_ok m' d (sl' ! d)
          (((fls @ [arena_list c a]) @ arena_lists (Suc c) as) ! d))
     \<and> (\<forall>p. p \<notin> set (concat (arena_lists (Suc c) as)) \<longrightarrow> blocks m' p = blocks m1 p)"
    using arenas_new_step [OF Cons.prems(1) fr] Cons.prems(2-4) ok alloc by (intro Cons.IH) auto
  then show ?case using s(1) fr0 by auto
qed

lemma distinct_arena_lists:
  assumes "arenas_new m as" and "c + length as \<le> 16"
  shows "distinct (concat (arena_lists c as))
     \<and> (\<forall>p \<in> set (concat (arena_lists c as)). \<exists>a \<in> set as. in_arena a p)"
  using assms
proof (induction as arbitrary: c)
  case (Cons a as)
  then have c: "c < 16" and a: "arena_new m a" and "arenas_new m as" "Suc c + length as \<le> 16"
    by (auto simp: arenas_new_def)
  then have IH: "distinct (concat (arena_lists (Suc c) as))"
     "\<forall>p \<in> set (concat (arena_lists (Suc c) as)). \<exists>a \<in> set as. in_arena a p"
    using Cons.IH by blast+
  have "set (arena_list c a) \<inter> set (concat (arena_lists (Suc c) as)) = {}"
  proof -
    have d: "arena_disj a b" if "b \<in> set as" for b
      using Cons.prems(1) that by (simp add: arenas_new_def)
    have "p \<notin> set (concat (arena_lists (Suc c) as))" if "p \<in> set (arena_list c a)" for p
      using IH(2) d arena_disj_in arena_list_in(1) [OF c a that] by blast
    then show ?thesis by blast
  qed
  then show ?case
    using IH distinct_arena_list [OF c a] arena_list_in(1) [OF c a] by auto
qed simp

text \<open>A successful \<^verbatim>\<open>slab_init\<close> puts every block of every arena on its free list.\<close>

lemma slab_init_ok:
  assumes "length as = 16" and "arenas_new m as"
  shows "\<exists>sl m'. slab_init (map Some as) m = Some (VC_OK, sl, m')
     \<and> slab_inv m' sl (arena_lists 0 as) \<and> distinct (concat (arena_lists 0 as))
     \<and> (\<forall>p. p \<notin> set (concat (arena_lists 0 as)) \<longrightarrow> blocks m' p = blocks m p)"
  using slab_init_from_ok [OF assms(2), of 0 "[]" "[]"] distinct_arena_lists [OF assms(2), of 0] assms(1)
  by (auto simp: slab_init_def slab_inv_def)

end
