(* ===== verification/Entry.thy ===== *)
theory Entry
  imports Slab
begin

text \<open>
  The 64-byte table entry and its helpers (\<^verbatim>\<open>vc_entry_t\<close> of \<^verbatim>\<open>include/voidcache.h\<close>,
  the section ENTRY HELPERS of \<^verbatim>\<open>src/voidcache.c\<close>). Key and value lie in the 32 payload
  bytes, or the payload holds pointers to them. \<open>heap_ok\<close> is the ownership discipline: the
  blocks in use are exactly the free slab blocks and the blocks the given entries own, each
  with one owner, so an operation that keeps it neither leaks nor frees twice.
\<close>

datatype vc_state = EMPTY | BUSY | LIVE | DEAD

record vc_entry =
  e_state :: vc_state
  e_flags :: u8
  e_val_len :: u16
  e_key_len :: u32
  e_key_hash :: u64
  e_expire_ns :: i64
  e_clock_bit :: u8
  e_probe_dist :: u8
  e_payload :: bytes

abbreviation (input) VC_EFLAG_KEY_LONG :: u8 where "VC_EFLAG_KEY_LONG \<equiv> 1"
abbreviation (input) VC_EFLAG_VAL_SLAB :: u8 where "VC_EFLAG_VAL_SLAB \<equiv> 2"
abbreviation (input) VC_EFLAG_VAL_MMAP :: u8 where "VC_EFLAG_VAL_MMAP \<equiv> 4"

definition empty_entry :: vc_entry where
  "empty_entry = \<lparr>e_state = EMPTY, e_flags = 0, e_val_len = 0, e_key_len = 0, e_key_hash = 0,
     e_expire_ns = 0, e_clock_bit = 0, e_probe_dist = 0, e_payload = replicate 32 0\<rparr>"

text \<open>A pointer an entry yields: into its own payload, or to a block.\<close>

datatype vptr = PPayload nat | PHeap addr

definition ptr_read :: "cmem \<Rightarrow> vc_entry \<Rightarrow> vptr \<Rightarrow> nat \<Rightarrow> bytes option" where
  "ptr_read m e p n =
     (case p of PPayload off \<Rightarrow> sub_bytes (e_payload e) off n | PHeap a \<Rightarrow> mem_read m a 0 n)"

definition payload_ptr :: "vc_entry \<Rightarrow> nat \<Rightarrow> addr option" where
  "payload_ptr e off = do { bs \<leftarrow> sub_bytes (e_payload e) off 8; Some (of_le bs) }"

definition val_off :: "vc_entry \<Rightarrow> nat" where
  "val_off e = (if e_flags e AND VC_EFLAG_KEY_LONG \<noteq> 0 then 8 else unat (e_key_len e))"

definition entry_key :: "vc_entry \<Rightarrow> vptr option" where
  "entry_key e =
     (if e_flags e AND VC_EFLAG_KEY_LONG \<noteq> 0 then do { p \<leftarrow> payload_ptr e 0; Some (PHeap p) }
      else Some (PPayload 0))"

definition entry_val :: "vc_entry \<Rightarrow> vptr option" where
  "entry_val e =
     (if e_flags e AND (VC_EFLAG_VAL_SLAB OR VC_EFLAG_VAL_MMAP) \<noteq> 0
      then do { p \<leftarrow> payload_ptr e (val_off e); Some (PHeap p) }
      else Some (PPayload (unat (e_key_len e))))"

definition entry_expired :: "u64 \<Rightarrow> vc_entry \<Rightarrow> bool" where
  "entry_expired now e \<longleftrightarrow> e_expire_ns e \<noteq> 0 \<and> sint (e_expire_ns e) < sint now"

definition entry_free_resources :: "cmem \<Rightarrow> slab \<Rightarrow> vc_entry \<Rightarrow> (cmem \<times> slab) option" where
  "entry_free_resources m sl e = do {
     m \<leftarrow> (if e_flags e AND VC_EFLAG_KEY_LONG \<noteq> 0
           then do { kptr \<leftarrow> payload_ptr e 0; c_free m kptr } else Some m);
     if e_flags e AND VC_EFLAG_VAL_SLAB \<noteq> 0 then do {
       vptr \<leftarrow> payload_ptr e (val_off e);
       slab_free m sl vptr (slab_class_for (unat (e_val_len e)))
     }
     else if e_flags e AND VC_EFLAG_VAL_MMAP \<noteq> 0 then do {
       vptr \<leftarrow> payload_ptr e (val_off e);
       m \<leftarrow> c_munmap m vptr (unat (e_val_len e));
       Some (m, sl)
     }
     else Some (m, sl)
   }"

section \<open>Well-formed entries\<close>

abbreviation klen :: "vc_entry \<Rightarrow> nat" where "klen e \<equiv> unat (e_key_len e)"
abbreviation vlen :: "vc_entry \<Rightarrow> nat" where "vlen e \<equiv> unat (e_val_len e)"

definition kaddr :: "vc_entry \<Rightarrow> addr" where
  "kaddr e = of_le (take 8 (e_payload e))"

definition vaddr :: "vc_entry \<Rightarrow> addr" where
  "vaddr e = of_le (take 8 (drop (val_off e) (e_payload e)))"

definition key_blk :: "cmem \<Rightarrow> vc_entry \<Rightarrow> bool" where
  "key_blk m e \<longleftrightarrow> kaddr e \<noteq> NULL
     \<and> (\<exists>bs. blocks m (kaddr e) = Some (MallocBlk, bs) \<and> length bs = klen e)"

definition slab_val :: "cmem \<Rightarrow> vc_entry \<Rightarrow> bool" where
  "slab_val m e \<longleftrightarrow> vaddr e \<noteq> NULL
     \<and> (\<exists>bs. blocks m (vaddr e) = Some (SlabBlk, bs)
          \<and> slab_class_size (slab_class_for (vlen e)) \<le> length bs)"

definition mmap_val :: "cmem \<Rightarrow> vc_entry \<Rightarrow> bool" where
  "mmap_val m e \<longleftrightarrow>
     (\<exists>bs. blocks m (vaddr e) = Some (MmapBlk, bs) \<and> page_round (vlen e) \<le> length bs)"

definition ent_ok :: "cmem \<Rightarrow> vc_entry \<Rightarrow> bool" where
  "ent_ok m e \<longleftrightarrow> length (e_payload e) = 32 \<and> e_key_len e \<noteq> 0 \<and> e_val_len e \<noteq> 0
     \<and> (e_flags e = 0 \<and> klen e + vlen e \<le> 32
        \<or> e_flags e = 2 \<and> klen e \<le> 24 \<and> slab_val m e
        \<or> e_flags e = 3 \<and> key_blk m e \<and> slab_val m e
        \<or> e_flags e = 5 \<and> key_blk m e \<and> mmap_val m e)"

definition owned :: "vc_entry \<Rightarrow> addr list" where
  "owned e = (if e_flags e AND 1 \<noteq> 0 then [kaddr e] else [])
     @ (if e_flags e AND 6 \<noteq> 0 then [vaddr e] else [])"

definition ent_key :: "cmem \<Rightarrow> vc_entry \<Rightarrow> bytes" where
  "ent_key m e = the (do { p \<leftarrow> entry_key e; ptr_read m e p (klen e) })"

definition ent_val :: "cmem \<Rightarrow> vc_entry \<Rightarrow> bytes" where
  "ent_val m e = the (do { p \<leftarrow> entry_val e; ptr_read m e p (vlen e) })"

text \<open>Position and reference bits aside, an entry is its \<open>core\<close>.\<close>

definition core :: "vc_entry \<Rightarrow> vc_entry" where
  "core e = e\<lparr>e_state := LIVE, e_clock_bit := 0, e_probe_dist := 0\<rparr>"

lemma core_sel [simp]:
  "e_flags (core e) = e_flags e" "e_val_len (core e) = e_val_len e"
  "e_key_len (core e) = e_key_len e" "e_key_hash (core e) = e_key_hash e"
  "e_expire_ns (core e) = e_expire_ns e" "e_payload (core e) = e_payload e"
  "e_state (core e) = LIVE"
  by (simp_all add: core_def)

lemma core_idem [simp]: "core (core e) = core e"
  by (simp add: core_def)

lemma core_update [simp]:
  "core (e\<lparr>e_state := s\<rparr>) = core e" "core (e\<lparr>e_clock_bit := b\<rparr>) = core e"
  "core (e\<lparr>e_probe_dist := d\<rparr>) = core e"
  by (simp_all add: core_def)

lemma entry_ops_core [simp]:
  "entry_key (core e) = entry_key e" "entry_val (core e) = entry_val e"
  "val_off (core e) = val_off e" "payload_ptr (core e) off = payload_ptr e off"
  "ptr_read m (core e) p n = ptr_read m e p n"
  "kaddr (core e) = kaddr e" "vaddr (core e) = vaddr e"
  by (simp_all add: entry_key_def entry_val_def val_off_def payload_ptr_def ptr_read_def
      kaddr_def vaddr_def split: vptr.split)

lemma entry_core [simp]:
  "ent_ok m (core e) = ent_ok m e" "owned (core e) = owned e"
  "ent_key m (core e) = ent_key m e" "ent_val m (core e) = ent_val m e"
  "entry_expired now (core e) = entry_expired now e"
  "entry_free_resources m sl (core e) = entry_free_resources m sl e"
  by (simp_all add: ent_ok_def key_blk_def slab_val_def mmap_val_def owned_def ent_key_def ent_val_def
      entry_expired_def entry_free_resources_def)

lemma vlen_less: "vlen e < 65536"
  using unsigned_less [of "e_val_len e"] by simp

lemma ent_ok_cases:
  assumes "ent_ok m e"
  obtains (inl) "e_flags e = 0" "klen e + vlen e \<le> 32" "owned e = []"
  | (slab) "e_flags e = 2" "klen e \<le> 24" "slab_val m e" "owned e = [vaddr e]"
  | (slab_long) "e_flags e = 3" "key_blk m e" "slab_val m e" "owned e = [kaddr e, vaddr e]"
  | (mmap) "e_flags e = 5" "key_blk m e" "mmap_val m e" "owned e = [kaddr e, vaddr e]"
  using assms by (auto simp: ent_ok_def owned_def)

lemma ent_ok_payload: "ent_ok m e \<Longrightarrow> length (e_payload e) = 32"
  by (simp add: ent_ok_def)

lemma slab_val_read:
  assumes "slab_val m e"
  shows "\<exists>bs. blocks m (vaddr e) = Some (SlabBlk, bs) \<and> vlen e \<le> length bs"
proof -
  have "vlen e \<le> slab_class_size 15" using vlen_less [of e] by (simp add: slab_class_size_def)
  then show ?thesis using assms slab_class_for_fits [of "vlen e"]
    by (force simp: slab_val_def)
qed

lemma mmap_val_read:
  "mmap_val m e \<Longrightarrow> \<exists>bs. blocks m (vaddr e) = Some (MmapBlk, bs) \<and> vlen e \<le> length bs"
  using page_round_ge [of "vlen e"] by (force simp: mmap_val_def)

text \<open>Reading the key or the value of a well-formed entry stays within its block.\<close>

lemma payload_ptr_key: "ent_ok m e \<Longrightarrow> payload_ptr e 0 = Some (kaddr e)"
  by (simp add: payload_ptr_def kaddr_def ent_ok_def)

lemma payload_ptr_val:
  "ent_ok m e \<Longrightarrow> e_flags e \<noteq> 0 \<Longrightarrow> payload_ptr e (val_off e) = Some (vaddr e)"
  by (auto simp: payload_ptr_def vaddr_def ent_ok_def val_off_def)

lemma entry_key_reads:
  assumes "ent_ok m e"
  shows "\<exists>p. entry_key e = Some p \<and> ptr_read m e p (klen e) = Some (ent_key m e)"
  using assms
proof (cases rule: ent_ok_cases)
  case inl
  then show ?thesis using ent_ok_payload [OF assms]
    by (simp add: entry_key_def ent_key_def ptr_read_def)
next
  case slab
  then show ?thesis using ent_ok_payload [OF assms]
    by (simp add: entry_key_def ent_key_def ptr_read_def)
next
  case slab_long
  then show ?thesis using payload_ptr_key [OF assms]
    by (auto simp: entry_key_def ent_key_def ptr_read_def key_blk_def mem_simps)
next
  case mmap
  then show ?thesis using payload_ptr_key [OF assms]
    by (auto simp: entry_key_def ent_key_def ptr_read_def key_blk_def mem_simps)
qed

lemma entry_val_reads:
  assumes "ent_ok m e"
  shows "\<exists>p. entry_val e = Some p \<and> ptr_read m e p (vlen e) = Some (ent_val m e)
     \<and> (e_flags e AND 6 \<noteq> 0 \<longrightarrow> p = PHeap (vaddr e))"
  using assms
proof (cases rule: ent_ok_cases)
  case inl
  then show ?thesis using ent_ok_payload [OF assms]
    by (simp add: entry_val_def ent_val_def ptr_read_def)
next
  case slab
  then show ?thesis using payload_ptr_val [OF assms] slab_val_read [of m e]
    by (auto simp: entry_val_def ent_val_def ptr_read_def mem_simps)
next
  case slab_long
  then show ?thesis using payload_ptr_val [OF assms] slab_val_read [of m e]
    by (auto simp: entry_val_def ent_val_def ptr_read_def mem_simps)
next
  case mmap
  then show ?thesis using payload_ptr_val [OF assms] mmap_val_read [of m e]
    by (auto simp: entry_val_def ent_val_def ptr_read_def mem_simps)
qed

section \<open>Ownership\<close>

lemma ent_frame:
  assumes "\<And>p. p \<in> set (owned e) \<Longrightarrow> blocks m p = blocks m' p" and ok: "ent_ok m e"
  shows "ent_ok m' e" "ent_key m' e = ent_key m e" "ent_val m' e = ent_val m e"
proof -
  have "ent_ok m' e \<and> ent_key m' e = ent_key m e \<and> ent_val m' e = ent_val m e"
    using ok
  proof (cases rule: ent_ok_cases)
    case inl
    then show ?thesis using ok
      by (simp add: ent_ok_def ent_key_def ent_val_def entry_key_def entry_val_def ptr_read_def)
  next
    case slab
    then have "blocks m (vaddr e) = blocks m' (vaddr e)" using assms(1) by simp
    then show ?thesis using slab ok payload_ptr_val [OF ok]
      by (simp add: ent_ok_def slab_val_def ent_key_def ent_val_def entry_key_def entry_val_def
          ptr_read_def mem_read_def)
  next
    case slab_long
    then have "blocks m (vaddr e) = blocks m' (vaddr e)" "blocks m (kaddr e) = blocks m' (kaddr e)"
      using assms(1) by simp_all
    then show ?thesis using slab_long ok payload_ptr_val [OF ok] payload_ptr_key [OF ok]
      by (simp add: ent_ok_def slab_val_def key_blk_def ent_key_def ent_val_def entry_key_def
          entry_val_def ptr_read_def mem_read_def)
  next
    case mmap
    then have "blocks m (vaddr e) = blocks m' (vaddr e)" "blocks m (kaddr e) = blocks m' (kaddr e)"
      using assms(1) by simp_all
    then show ?thesis using mmap ok payload_ptr_val [OF ok] payload_ptr_key [OF ok]
      by (simp add: ent_ok_def mmap_val_def key_blk_def ent_key_def ent_val_def entry_key_def
          entry_val_def ptr_read_def mem_read_def)
  qed
  then show "ent_ok m' e" "ent_key m' e = ent_key m e" "ent_val m' e = ent_val m e" by blast+
qed

definition owned_all :: "vc_entry multiset \<Rightarrow> addr multiset" where
  "owned_all E = \<Sum>\<^sub># (image_mset (\<lambda>e. mset (owned e)) E)"

text \<open>\<open>X\<close> holds the addresses a running operation has in hand, \<open>E\<close> the entries of the tables.\<close>

definition heap_inv :: "cmem \<Rightarrow> slab \<Rightarrow> addr list list \<Rightarrow> addr multiset \<Rightarrow> vc_entry multiset \<Rightarrow> bool" where
  "heap_inv m sl fls X E \<longleftrightarrow>
     slab_inv m sl fls \<and> distinct_ms (mset (concat fls) + X + owned_all E)
     \<and> dom (blocks m) = set (concat fls) \<union> set_mset X \<union> set_mset (owned_all E)
     \<and> (\<forall>e \<in># E. ent_ok m e)"

definition heap_ok :: "cmem \<Rightarrow> slab \<Rightarrow> addr multiset \<Rightarrow> vc_entry multiset \<Rightarrow> bool" where
  "heap_ok m sl X E \<longleftrightarrow> (\<exists>fls. heap_inv m sl fls X E)"

definition same_contents :: "cmem \<Rightarrow> cmem \<Rightarrow> vc_entry multiset \<Rightarrow> bool" where
  "same_contents m m' E \<longleftrightarrow>
     (\<forall>e \<in># E. ent_key m' e = ent_key m e \<and> ent_val m' e = ent_val m e)"

lemma owned_all_empty [simp]: "owned_all {#} = {#}"
  by (simp add: owned_all_def)

lemma owned_all_add [simp]: "owned_all (add_mset e E) = mset (owned e) + owned_all E"
  by (simp add: owned_all_def)

lemma owned_all_union [simp]: "owned_all (E + F) = owned_all E + owned_all F"
  by (simp add: owned_all_def)

lemma owned_in_all: "e \<in># E \<Longrightarrow> p \<in> set (owned e) \<Longrightarrow> p \<in># owned_all E"
  by (auto simp: owned_all_def)

lemma heap_ok_ent: "heap_ok m sl X E \<Longrightarrow> e \<in># E \<Longrightarrow> ent_ok m e"
  by (auto simp: heap_ok_def heap_inv_def)

text \<open>Entries keep their contents when the blocks that change belong to none of them.\<close>

lemma frame_all:
  assumes "\<And>p. p \<in># owned_all E \<Longrightarrow> blocks m p = blocks m' p" and "\<forall>e \<in># E. ent_ok m e"
  shows "(\<forall>e \<in># E. ent_ok m' e)" and "same_contents m m' E"
  using ent_frame [of _ m m'] assms owned_in_all unfolding same_contents_def by blast+

lemma slab_inv_nonnull:
  assumes "slab_inv m sl fls" and "p \<in> set (concat fls)" shows "p \<noteq> NULL"
proof -
  have fl: "flist m q xs \<Longrightarrow> p \<in> set xs \<Longrightarrow> p \<noteq> NULL" for q xs
    by (induction xs arbitrary: q) auto
  obtain xs where xs: "xs \<in> set fls" "p \<in> set xs" using assms(2) by auto
  then obtain c where "c < length fls" "fls ! c = xs" by (auto simp: in_set_conv_nth)
  then show ?thesis using assms(1) xs(2) fl by (auto simp: slab_inv_def class_ok_def)
qed

text \<open>Moving one address between a free list and its owner.\<close>

lemma mset_concat_update:
  "c < length xss \<Longrightarrow> mset (concat (xss[c := ys])) + mset (xss ! c) = mset (concat xss) + mset ys"
proof (induction xss arbitrary: c)
  case (Cons xs xss)
  then show ?case by (cases c) (auto simp: ac_simps)
qed simp

lemma mset_concat_push:
  assumes "c < length xss"
  shows "mset (concat (xss[c := p # xss ! c])) = add_mset p (mset (concat xss))"
  using mset_concat_update [OF assms, of "p # xss ! c"] by simp

lemma mset_concat_pop:
  assumes "c < length xss" and "xss ! c = p # ps"
  shows "mset (concat xss) = add_mset p (mset (concat (xss[c := ps])))"
  using mset_concat_update [OF assms(1), of ps] assms(2) by simp

subsection \<open>One allocation or release at a time\<close>

definition changes_only :: "addr \<Rightarrow> cmem \<Rightarrow> cmem \<Rightarrow> bool" where
  "changes_only p m m' \<longleftrightarrow> (\<forall>q. q \<noteq> p \<longrightarrow> blocks m' q = blocks m q)"

lemma changes_only_same:
  assumes "changes_only p m m'" and "p \<notin># owned_all E" and "\<forall>e \<in># E. ent_ok m e"
  shows "(\<forall>e \<in># E. ent_ok m' e)" and "same_contents m m' E"
proof -
  have "blocks m q = blocks m' q" if "q \<in># owned_all E" for q
    using assms(1,2) that by (auto simp: changes_only_def)
  then show "(\<forall>e \<in># E. ent_ok m' e)" "same_contents m m' E" using frame_all assms(3) by blast+
qed

lemma changes_only_dom:
  assumes "changes_only p m m'"
  shows "dom (blocks m') = (if blocks m' p = None then dom (blocks m) - {p} else insert p (dom (blocks m)))"
proof (rule set_eqI)
  fix x
  show "x \<in> dom (blocks m') \<longleftrightarrow>
      x \<in> (if blocks m' p = None then dom (blocks m) - {p} else insert p (dom (blocks m)))"
    using assms by (cases "x = p") (simp_all add: changes_only_def domIff)
qed

lemma changes_only_slab:
  assumes "slab_inv m sl fls" and "changes_only p m m'" and "p \<notin> set (concat fls)"
  shows "slab_inv m' sl fls"
proof -
  have "blocks m x = blocks m' x" if "x \<in> set (concat fls)" for x
    using assms(2,3) that by (metis changes_only_def)
  then show ?thesis using assms(1) slab_inv_cong by blast
qed

lemma heap_inv_held:
  assumes "heap_inv m sl fls (add_mset p X) E"
  shows "p \<notin> set (concat fls)" "p \<notin># X" "p \<notin># owned_all E"
  using assms by (auto simp: heap_inv_def)

lemma heap_release:
  assumes inv: "heap_inv m sl fls (add_mset p X) E" and ch: "changes_only p m m'"
    and "blocks m' p = None"
  shows "heap_inv m' sl fls X E" and "same_contents m m' E"
proof -
  note held = heap_inv_held [OF inv]
  have "slab_inv m' sl fls"
    using inv changes_only_slab [OF _ ch held(1)] by (simp add: heap_inv_def)
  moreover have "dom (blocks m') = dom (blocks m) - {p}"
    using changes_only_dom [OF ch] assms(3) by simp
  ultimately show "heap_inv m' sl fls X E"
    using inv held changes_only_same(1) [OF ch held(3)] by (auto simp: heap_inv_def)
  show "same_contents m m' E"
    using inv changes_only_same(2) [OF ch held(3)] by (simp add: heap_inv_def)
qed

lemma heap_acquire:
  assumes inv: "heap_inv m sl fls X E" and fresh: "blocks m p = None"
    and ch: "changes_only p m m'" and "blocks m' p \<noteq> None"
  shows "heap_inv m' sl fls (add_mset p X) E" and "same_contents m m' E"
proof -
  have "p \<notin> dom (blocks m)" using fresh by (simp add: domIff)
  then have new: "p \<notin> set (concat fls)" "p \<notin># X" "p \<notin># owned_all E"
    using inv by (auto simp: heap_inv_def)
  have "slab_inv m' sl fls"
    using inv changes_only_slab [OF _ ch new(1)] by (simp add: heap_inv_def)
  moreover have "dom (blocks m') = insert p (dom (blocks m))"
    using changes_only_dom [OF ch] assms(4) by simp
  ultimately show "heap_inv m' sl fls (add_mset p X) E"
    using inv new changes_only_same(1) [OF ch new(3)] by (auto simp: heap_inv_def)
  show "same_contents m m' E"
    using inv changes_only_same(2) [OF ch new(3)] by (simp add: heap_inv_def)
qed

lemma heap_write_held:
  assumes inv: "heap_inv m sl fls (add_mset p X) E" and ch: "changes_only p m m'"
    and "blocks m' p \<noteq> None"
  shows "heap_inv m' sl fls (add_mset p X) E" and "same_contents m m' E"
proof -
  define m0 where "m0 = m\<lparr>blocks := (blocks m)(p := None)\<rparr>"
  have ch0: "changes_only p m m0" "blocks m0 p = None" by (simp_all add: m0_def changes_only_def)
  have ch1: "changes_only p m0 m'" using ch by (simp add: m0_def changes_only_def)
  note a = heap_release [OF inv ch0]
  note b = heap_acquire [OF a(1) ch0(2) ch1 assms(3)]
  show "heap_inv m' sl fls (add_mset p X) E" by (rule b(1))
  show "same_contents m m' E" using a(2) b(2) by (simp add: same_contents_def)
qed

lemma heap_adopt:
  "heap_inv m sl fls X (add_mset e E) \<longleftrightarrow>
     ent_ok m e \<and> heap_inv m sl fls (mset (owned e) + X) E"
  by (auto simp: heap_inv_def ac_simps)

lemma same_contents_trans:
  "same_contents m m' E \<Longrightarrow> same_contents m' m'' E \<Longrightarrow> same_contents m m'' E"
  by (simp add: same_contents_def)

lemma heap_slab_free:
  assumes inv: "heap_inv m sl fls (add_mset p X) E" and c: "c < 16"
    and blk: "blocks m p = Some (SlabBlk, bs)" "slab_class_size c \<le> length bs" and p: "p \<noteq> NULL"
  shows "\<exists>m' sl' fls'. slab_free m sl p c = Some (m', sl') \<and> heap_inv m' sl' fls' X E
     \<and> same_contents m m' E"
proof -
  have sl: "slab_inv m sl fls" and len: "length fls = 16"
    using inv by (simp_all add: heap_inv_def slab_inv_def)
  obtain m' sl' bs' where f: "slab_free m sl p c = Some (m', sl')"
    "slab_inv m' sl' (fls[c := p # fls ! c])" "m' = m\<lparr>blocks := (blocks m)(p \<mapsto> (SlabBlk, bs'))\<rparr>"
    using slab_free_push [OF sl c blk p heap_inv_held(1) [OF inv]] by blast
  have ch: "changes_only p m m'" "blocks m' p \<noteq> None" by (simp_all add: f(3) changes_only_def)
  note w = heap_write_held [OF inv ch]
  have m: "mset (concat (fls[c := p # fls ! c])) = add_mset p (mset (concat fls))"
    using c len by (simp add: mset_concat_push)
  then have "set (concat (fls[c := p # fls ! c])) = insert p (set (concat fls))"
    by (metis set_mset_add_mset_insert set_mset_mset)
  then have "heap_inv m' sl' (fls[c := p # fls ! c]) X E"
    using w(1) f(2) m unfolding heap_inv_def by (simp add: ac_simps)
  then show ?thesis using f(1) w(2) by blast
qed

lemma heap_c_free:
  assumes "heap_inv m sl fls (add_mset p X) E" and "blocks m p = Some (MallocBlk, bs)" and "p \<noteq> NULL"
  shows "\<exists>m'. c_free m p = Some m' \<and> changes_only p m m' \<and> heap_inv m' sl fls X E
     \<and> same_contents m m' E"
proof -
  define m' where "m' = m\<lparr>blocks := (blocks m)(p := None)\<rparr>"
  have "changes_only p m m'" "blocks m' p = None" by (simp_all add: m'_def changes_only_def)
  then show ?thesis
    using heap_release [OF assms(1), of m'] assms(2,3) by (simp add: mem_simps m'_def)
qed

lemma heap_c_munmap:
  assumes "heap_inv m sl fls (add_mset p X) E" and "blocks m p = Some (MmapBlk, bs)"
    and "page_round n \<le> length bs" and "n \<noteq> 0"
  shows "\<exists>m'. c_munmap m p n = Some m' \<and> heap_inv m' sl fls X E \<and> same_contents m m' E"
proof -
  obtain m' where m': "c_munmap m p n = Some m'" "changes_only p m m'" "blocks m' p = None"
    using assms(2-4) by (auto simp: c_munmap_def Let_def changes_only_def)
  then show ?thesis using heap_release [OF assms(1) m'(2,3)] by blast
qed

text \<open>
  Freeing the resources of an entry succeeds, hands every block the entry owns back to where
  it came from, and disturbs no other entry.
\<close>

lemma entry_free_resources_ok:
  assumes inv: "heap_inv m sl fls X (add_mset e E)"
  shows "\<exists>m' sl' fls'. entry_free_resources m sl e = Some (m', sl') \<and> heap_inv m' sl' fls' X E
     \<and> same_contents m m' E"
proof -
  have ok: "ent_ok m e" and h: "heap_inv m sl fls (mset (owned e) + X) E"
    using inv by (simp_all add: heap_adopt)
  note ptrs = payload_ptr_key [OF ok] payload_ptr_val [OF ok]
  show ?thesis
    using ok
  proof (cases rule: ent_ok_cases)
    case inl
    then show ?thesis using h by (auto simp: entry_free_resources_def same_contents_def)
  next
    case slab
    then show ?thesis
      using h ptrs heap_slab_free [of m sl fls "vaddr e" X E "slab_class_for (vlen e)"]
      by (auto simp: entry_free_resources_def slab_val_def)
  next
    case slab_long
    have ne: "kaddr e \<noteq> vaddr e" using slab_long(4) h by (auto simp: heap_inv_def)
    have h': "heap_inv m sl fls (add_mset (kaddr e) (add_mset (vaddr e) X)) E"
      using h slab_long(4) by simp
    obtain m1 where m1: "c_free m (kaddr e) = Some m1" "changes_only (kaddr e) m m1"
      "heap_inv m1 sl fls (add_mset (vaddr e) X) E" "same_contents m m1 E"
      using heap_c_free [OF h'] slab_long(2) by (auto simp: key_blk_def)
    have "blocks m1 (vaddr e) = blocks m (vaddr e)" using m1(2) ne by (simp add: changes_only_def)
    then obtain m2 sl' fls' where "slab_free m1 sl (vaddr e) (slab_class_for (vlen e)) = Some (m2, sl')"
      "heap_inv m2 sl' fls' X E" "same_contents m1 m2 E"
      using heap_slab_free [OF m1(3), of "slab_class_for (vlen e)"] slab_long(3)
      by (auto simp: slab_val_def)
    then show ?thesis using ptrs slab_long(1) m1(1,4)
      by (auto simp: entry_free_resources_def intro: same_contents_trans)
  next
    case mmap
    have ne: "kaddr e \<noteq> vaddr e" using mmap(4) h by (auto simp: heap_inv_def)
    have h': "heap_inv m sl fls (add_mset (kaddr e) (add_mset (vaddr e) X)) E"
      using h mmap(4) by simp
    obtain m1 where m1: "c_free m (kaddr e) = Some m1" "changes_only (kaddr e) m m1"
      "heap_inv m1 sl fls (add_mset (vaddr e) X) E" "same_contents m m1 E"
      using heap_c_free [OF h'] mmap(2) by (auto simp: key_blk_def)
    have "blocks m1 (vaddr e) = blocks m (vaddr e)" using m1(2) ne by (simp add: changes_only_def)
    then obtain m2 where "c_munmap m1 (vaddr e) (vlen e) = Some m2"
      "heap_inv m2 sl fls X E" "same_contents m1 m2 E"
      using heap_c_munmap [OF m1(3), of _ "vlen e"] mmap(3) ok
      by (auto simp: mmap_val_def ent_ok_def unat_eq_0)
    then show ?thesis using ptrs mmap(1) m1(1,4)
      by (auto simp: entry_free_resources_def intro: same_contents_trans)
  qed
qed

subsection \<open>The same steps on \<open>heap_ok\<close>\<close>

lemma heap_ok_free:
  assumes "heap_ok m sl X (add_mset e E)"
  shows "\<exists>m' sl'. entry_free_resources m sl e = Some (m', sl') \<and> heap_ok m' sl' X E
     \<and> same_contents m m' E"
  using assms entry_free_resources_ok unfolding heap_ok_def by blast

lemma heap_ok_adopt:
  "heap_ok m sl X (add_mset e E) \<longleftrightarrow> ent_ok m e \<and> heap_ok m sl (mset (owned e) + X) E"
  by (auto simp: heap_ok_def heap_adopt)

lemma heap_ok_slab_alloc:
  assumes "heap_ok m sl X E"
  shows "\<exists>p sl'. slab_alloc m sl sz = Some (p, slab_class_for sz, sl')
     \<and> (if p = NULL then sl' = sl
        else heap_ok m sl' (add_mset p X) E
          \<and> (\<exists>bs. blocks m p = Some (SlabBlk, bs) \<and> slab_class_size (slab_class_for sz) \<le> length bs))"
proof -
  obtain fls where h: "heap_inv m sl fls X E" using assms by (auto simp: heap_ok_def)
  then have inv: "slab_inv m sl fls" and len: "length fls = 16"
    by (simp_all add: heap_inv_def slab_inv_def)
  let ?c = "slab_class_for sz"
  show ?thesis
  proof (cases "fls ! ?c")
    case Nil
    then show ?thesis using slab_alloc_empty [OF inv] by simp
  next
    case (Cons x xs)
    obtain sl' where sl': "slab_alloc m sl sz = Some (x, ?c, sl')" "slab_inv m sl' (fls[?c := xs])"
      "x \<noteq> NULL" "\<exists>bs. blocks m x = Some (SlabBlk, bs) \<and> slab_class_size ?c \<le> length bs"
      using slab_alloc_pop [OF inv Cons] by blast
    have m: "mset (concat fls) = add_mset x (mset (concat (fls[?c := xs])))"
      using len Cons by (intro mset_concat_pop) simp_all
    then have "set (concat fls) = insert x (set (concat (fls[?c := xs])))"
      by (metis set_mset_add_mset_insert set_mset_mset)
    then have "heap_inv m sl' (fls[?c := xs]) (add_mset x X) E"
      using h sl'(2) m unfolding heap_inv_def by (simp add: ac_simps)
    then show ?thesis using sl' by (auto simp: heap_ok_def)
  qed
qed

lemma heap_ok_slab_free:
  assumes "heap_ok m sl (add_mset p X) E" and "c < 16" and "p \<noteq> NULL"
    and "blocks m p = Some (SlabBlk, bs)" and "slab_class_size c \<le> length bs"
  shows "\<exists>m' sl'. slab_free m sl p c = Some (m', sl') \<and> heap_ok m' sl' X E \<and> same_contents m m' E"
  using assms heap_slab_free unfolding heap_ok_def by blast

lemma heap_ok_munmap:
  assumes "heap_ok m sl (add_mset p X) E" and "blocks m p = Some (MmapBlk, bs)"
    and "page_round n \<le> length bs" and "n \<noteq> 0"
  shows "\<exists>m'. c_munmap m p n = Some m' \<and> heap_ok m' sl X E \<and> same_contents m m' E"
  using assms heap_c_munmap unfolding heap_ok_def by blast

lemma heap_ok_write:
  assumes "heap_ok m sl (add_mset p X) E" and "blocks m p = Some (k, bs)" and "length xs \<le> length bs"
  shows "\<exists>m' bs'. mem_write m p 0 xs = Some m' \<and> heap_ok m' sl (add_mset p X) E
     \<and> same_contents m m' E \<and> changes_only p m m'
     \<and> blocks m' p = Some (k, bs') \<and> length bs' = length bs \<and> take (length xs) bs' = xs"
proof -
  define m' where "m' = m\<lparr>blocks := (blocks m)(p \<mapsto> (k, xs @ drop (length xs) bs))\<rparr>"
  have ch: "changes_only p m m'" "blocks m' p \<noteq> None" by (simp_all add: m'_def changes_only_def)
  have "mem_write m p 0 xs = Some m'" using assms(2,3) by (simp add: mem_simps m'_def)
  moreover have "heap_ok m' sl (add_mset p X) E" "same_contents m m' E"
    using assms(1) heap_write_held [OF _ ch] unfolding heap_ok_def by blast+
  ultimately show ?thesis using assms(3) ch(1) by (simp add: m'_def)
qed

lemma heap_ok_malloc:
  assumes "heap_ok m sl X E" and "fresh m p"
  shows "\<exists>m'. c_malloc m n (Some p) = (p, m') \<and> heap_ok m' sl (add_mset p X) E
     \<and> same_contents m m' E \<and> changes_only p m m' \<and> blocks m' p = Some (MallocBlk, replicate n 0)"
proof -
  define m' where "m' = m\<lparr>blocks := (blocks m)(p \<mapsto> (MallocBlk, replicate n 0))\<rparr>"
  have ch: "changes_only p m m'" "blocks m' p \<noteq> None" by (simp_all add: m'_def changes_only_def)
  have "heap_ok m' sl (add_mset p X) E" "same_contents m m' E"
    using assms heap_acquire [OF _ _ ch] unfolding heap_ok_def fresh_def by blast+
  then show ?thesis using ch(1) by (simp add: c_malloc_def m'_def)
qed

lemma heap_ok_mmap:
  assumes "heap_ok m sl X E" and "fresh m p"
  shows "\<exists>m'. c_mmap m n (Some p) = (Some p, m') \<and> heap_ok m' sl (add_mset p X) E
     \<and> same_contents m m' E \<and> changes_only p m m'
     \<and> blocks m' p = Some (MmapBlk, replicate (page_round n) 0)"
proof -
  define m' where "m' = m\<lparr>blocks := (blocks m)(p \<mapsto> (MmapBlk, replicate (page_round n) 0))\<rparr>"
  have ch: "changes_only p m m'" "blocks m' p \<noteq> None" by (simp_all add: m'_def changes_only_def)
  have "heap_ok m' sl (add_mset p X) E" "same_contents m m' E"
    using assms heap_acquire [OF _ _ ch] unfolding heap_ok_def fresh_def by blast+
  then show ?thesis using ch(1) by (simp add: c_mmap_def m'_def)
qed

end
