(* ===== verification/Hashing.thy ===== *)
theory Hashing
  imports Prelude
begin

text \<open>
  The utilities at the top of \<^verbatim>\<open>src/voidcache.c\<close>: rounding a capacity to a power of
  two, the checksum \<^verbatim>\<open>xxh32\<close> of the write-ahead log and the key hash
  \<^verbatim>\<open>wyhash64\<close>. A hash reads its buffer at computed offsets; every read is checked,
  so a result \<open>None\<close> would be a read outside the buffer. The theorems show that there
  is none, that the rounding is the least power of two, and that \<^verbatim>\<open>xxh32\<close> gives the
  published values of xxHash32.
\<close>

section \<open>Rounding up to a power of two\<close>

definition next_pow2_32 :: "u32 \<Rightarrow> u32" where
  "next_pow2_32 v =
     (if v = 0 then 1
      else
        let v = v - 1;
            v = v OR drop_bit 1 v;
            v = v OR drop_bit 2 v;
            v = v OR drop_bit 4 v;
            v = v OR drop_bit 8 v;
            v = v OR drop_bit 16 v
        in v + 1)"

lemma smear_step:
  assumes "\<And>i. bit (x :: 'a::len word) i \<longleftrightarrow> (\<exists>d<m. bit v (i + d))"
  shows "bit (x OR drop_bit m x) i \<longleftrightarrow> (\<exists>d<2 * m. bit v (i + d))"
proof -
  have "(\<exists>d<2 * m. bit v (i + d)) \<longleftrightarrow> (\<exists>d<m. bit v (i + d)) \<or> (\<exists>d<m. bit v (m + i + d))"
    (is "?L \<longleftrightarrow> ?A \<or> ?B")
  proof
    assume ?L
    then obtain d where d: "d < 2 * m" "bit v (i + d)" by blast
    show "?A \<or> ?B"
    proof (cases "d < m")
      case True
      with d show ?thesis by blast
    next
      case False
      with d have "d - m < m" and "m + i + (d - m) = i + d" by auto
      with d show ?thesis by metis
    qed
  next
    assume "?A \<or> ?B"
    then show ?L
    proof
      assume ?A
      then obtain d where "d < m" "bit v (i + d)" by blast
      then show ?L by (intro exI [of _ d]) simp
    next
      assume ?B
      then obtain d where "d < m" "bit v (m + i + d)" by blast
      then show ?L by (intro exI [of _ "m + d"]) (simp add: ac_simps)
    qed
  qed
  then show ?thesis by (simp add: bit_or_iff bit_drop_bit_eq assms)
qed

lemma next_pow2_32_eq:
  assumes "2 ^ n < unat v" and "unat v \<le> 2 ^ Suc n" and "n < 31"
  shows "next_pow2_32 v = 2 ^ Suc n"
proof -
  define w where "w = v - 1"
  have v0: "v \<noteq> 0" using assms(1) by auto
  have w: "unat w = unat v - 1"
    using v0 by (simp add: w_def unat_minus_one)
  have lo: "2 ^ n \<le> unat w" and hi: "unat w < 2 ^ Suc n" using assms w by auto
  define x1 where "x1 = w OR drop_bit 1 w"
  define x2 where "x2 = x1 OR drop_bit 2 x1"
  define x3 where "x3 = x2 OR drop_bit 4 x2"
  define x4 where "x4 = x3 OR drop_bit 8 x3"
  define x5 where "x5 = x4 OR drop_bit 16 x4"
  have b1: "\<And>i. bit x1 i \<longleftrightarrow> (\<exists>d<2. bit w (i + d))"
    unfolding x1_def using smear_step [of w 1 w] by simp
  have b2: "\<And>i. bit x2 i \<longleftrightarrow> (\<exists>d<4. bit w (i + d))"
    unfolding x2_def using smear_step [of x1 2 w] b1 by simp
  have b3: "\<And>i. bit x3 i \<longleftrightarrow> (\<exists>d<8. bit w (i + d))"
    unfolding x3_def using smear_step [of x2 4 w] b2 by simp
  have b4: "\<And>i. bit x4 i \<longleftrightarrow> (\<exists>d<16. bit w (i + d))"
    unfolding x4_def using smear_step [of x3 8 w] b3 by simp
  have b5: "\<And>i. bit x5 i \<longleftrightarrow> (\<exists>d<32. bit w (i + d))"
    unfolding x5_def using smear_step [of x4 16 w] b4 by simp
  have top: "bit w n"
  proof -
    have "odd (unat w div 2 ^ n)"
    proof -
      have "unat w div 2 ^ n = 1"
        using lo hi by (simp add: div_nat_eqI)
      then show ?thesis by simp
    qed
    then show ?thesis by (simp add: bit_unsigned_iff flip: bit_iff_odd)
  qed
  have above: "\<not> bit w j" if "n < j" for j
  proof -
    have "unat w < 2 ^ j"
      using hi that by (meson Suc_leI less_le_trans one_le_numeral power_increasing)
    then have "\<not> bit (unat w) j" by (simp add: bit_iff_odd)
    then show ?thesis by (simp add: bit_unsigned_iff)
  qed
  have "x5 = mask (Suc n)"
  proof (rule bit_word_eqI)
    fix i :: nat
    assume i: "i < LENGTH(32)"
    show "bit x5 i \<longleftrightarrow> bit (mask (Suc n) :: u32) i"
    proof (cases "i \<le> n")
      case True
      then have "n - i < 32" and "i + (n - i) = n" using i assms(3) by auto
      with top True i show ?thesis by (auto simp: b5 bit_mask_iff intro!: exI [of _ "n - i"])
    next
      case False
      with above show ?thesis by (auto simp: b5 bit_mask_iff)
    qed
  qed
  moreover have "next_pow2_32 v = x5 + 1"
    using v0 by (simp add: next_pow2_32_def Let_def w_def x1_def x2_def x3_def x4_def x5_def)
  ultimately show ?thesis
    by (simp add: mask_eq_exp_minus_1)
qed


lemma exists_log2: "1 < (x::nat) \<Longrightarrow> \<exists>n. 2 ^ n < x \<and> x \<le> 2 ^ Suc n"
proof (induction x rule: less_induct)
  case (less x)
  show ?case
  proof (cases "x = 2")
    case True
    then show ?thesis by (intro exI [of _ 0]) simp
  next
    case False
    with less.prems have "1 < (x + 1) div 2" and "(x + 1) div 2 < x" by auto
    then obtain n where "2 ^ n < (x + 1) div 2" and "(x + 1) div 2 \<le> 2 ^ Suc n"
      using less.IH by blast
    then have "2 ^ Suc n < x" and "x \<le> 2 ^ Suc (Suc n)" by auto
    then show ?thesis by blast
  qed
qed

lemma next_pow2_32_bounds:
  assumes "0 < v" and "unat v \<le> 2 ^ 31"
  shows "\<exists>k \<le> 31. next_pow2_32 v = 2 ^ k \<and> unat v \<le> 2 ^ k \<and> 2 ^ k < 2 * unat v"
proof (cases "unat v = 1")
  case True
  then have "v = 1" by (metis unat_1 word_unat_eq_iff)
  then show ?thesis by (intro exI [of _ 0]) (simp add: next_pow2_32_def)
next
  case False
  moreover have "unat v \<noteq> 0" using assms(1) by (simp add: unat_eq_0)
  ultimately have "1 < unat v" by linarith
  then obtain n where n: "2 ^ n < unat v" "unat v \<le> 2 ^ Suc n" using exists_log2 by blast
  have "(2::nat) ^ n < 2 ^ 31" using n assms(2) by linarith
  then have n31: "n < 31" by (rule power_less_imp_less_exp [rotated]) simp
  then have "next_pow2_32 v = 2 ^ Suc n" using n next_pow2_32_eq by blast
  with n n31 show ?thesis by (intro exI [of _ "Suc n"]) auto
qed

section \<open>xxHash32\<close>

abbreviation XXH_PRIME1 :: u32 where "XXH_PRIME1 \<equiv> 0x9E3779B1"
abbreviation XXH_PRIME2 :: u32 where "XXH_PRIME2 \<equiv> 0x85EBCA77"
abbreviation XXH_PRIME3 :: u32 where "XXH_PRIME3 \<equiv> 0xC2B2AE3D"
abbreviation XXH_PRIME4 :: u32 where "XXH_PRIME4 \<equiv> 0x27D4EB2F"
abbreviation XXH_PRIME5 :: u32 where "XXH_PRIME5 \<equiv> 0x165667B1"

definition rotl32 :: "u32 \<Rightarrow> nat \<Rightarrow> u32" where
  "rotl32 x r = push_bit r x OR drop_bit (32 - r) x"

definition rd32 :: "bytes \<Rightarrow> nat \<Rightarrow> u32 option" where
  "rd32 bs off = map_option of_le (sub_bytes bs off 4)"

definition rd64 :: "bytes \<Rightarrow> nat \<Rightarrow> u64 option" where
  "rd64 bs off = map_option of_le (sub_bytes bs off 8)"

lemma rd32_Some [simp]: "off + 4 \<le> length bs \<Longrightarrow> rd32 bs off = Some (of_le (take 4 (drop off bs)))"
  by (simp add: rd32_def)

lemma rd64_Some [simp]: "off + 8 \<le> length bs \<Longrightarrow> rd64 bs off = Some (of_le (take 8 (drop off bs)))"
  by (simp add: rd64_def)

text \<open>The loops of \<^verbatim>\<open>xxh32\<close>, with the cursor as an offset into the buffer.\<close>

definition xxh32_round :: "u32 \<Rightarrow> u32 \<Rightarrow> u32" where
  "xxh32_round v x = rotl32 (v + x * XXH_PRIME2) 13 * XXH_PRIME1"

function xxh32_stripes ::
  "bytes \<Rightarrow> nat \<Rightarrow> u32 \<times> u32 \<times> u32 \<times> u32 \<Rightarrow> (nat \<times> u32 \<times> u32 \<times> u32 \<times> u32) option" where
  "xxh32_stripes bs p (v1, v2, v3, v4) = do {
     x1 \<leftarrow> rd32 bs p; x2 \<leftarrow> rd32 bs (p + 4);
     x3 \<leftarrow> rd32 bs (p + 8); x4 \<leftarrow> rd32 bs (p + 12);
     let vs = (xxh32_round v1 x1, xxh32_round v2 x2, xxh32_round v3 x3, xxh32_round v4 x4);
     if p + 16 + 16 \<le> length bs then xxh32_stripes bs (p + 16) vs
     else Some (p + 16, vs)
   }"
  by pat_completeness auto
termination
  by (relation "measure (\<lambda>(bs, p, _). length bs - p)") auto

function xxh32_words :: "bytes \<Rightarrow> nat \<Rightarrow> u32 \<Rightarrow> (nat \<times> u32) option" where
  "xxh32_words bs p h =
     (if p + 4 \<le> length bs
      then do { x \<leftarrow> rd32 bs p;
                xxh32_words bs (p + 4) (rotl32 (h + x * XXH_PRIME3) 17 * XXH_PRIME4) }
      else Some (p, h))"
  by pat_completeness auto
termination
  by (relation "measure (\<lambda>(bs, p, _). length bs - p)") auto

function xxh32_tail :: "bytes \<Rightarrow> nat \<Rightarrow> u32 \<Rightarrow> u32 option" where
  "xxh32_tail bs p h =
     (if p < length bs
      then do { x \<leftarrow> nth_opt bs p;
                xxh32_tail bs (p + 1) (rotl32 (h + ucast x * XXH_PRIME5) 11 * XXH_PRIME1) }
      else Some h)"
  by pat_completeness auto
termination
  by (relation "measure (\<lambda>(bs, p, _). length bs - p)") auto

definition xxh32_avalanche :: "u32 \<Rightarrow> u32" where
  "xxh32_avalanche h =
     (let h = h XOR drop_bit 15 h; h = h * XXH_PRIME2; h = h XOR drop_bit 13 h;
          h = h * XXH_PRIME3 in h XOR drop_bit 16 h)"

definition xxh32 :: "bytes \<Rightarrow> u32 \<Rightarrow> u32 option" where
  "xxh32 data seed = do {
     (p, h) \<leftarrow>
       (if 16 \<le> length data then do {
          (p, v1, v2, v3, v4) \<leftarrow> xxh32_stripes data 0
             (seed + XXH_PRIME1 + XXH_PRIME2, seed + XXH_PRIME2, seed, seed - XXH_PRIME1);
          Some (p, rotl32 v1 1 + rotl32 v2 7 + rotl32 v3 12 + rotl32 v4 18)
        }
        else Some (0, seed + XXH_PRIME5));
     let h = h + of_nat (length data);
     (p, h) \<leftarrow> xxh32_words data p h;
     h \<leftarrow> xxh32_tail data p h;
     Some (xxh32_avalanche h)
   }"

declare xxh32_stripes.simps [simp del] xxh32_words.simps [simp del] xxh32_tail.simps [simp del]

lemma xxh32_stripes_total:
  "p + 16 \<le> length bs \<Longrightarrow> \<exists>q vs. xxh32_stripes bs p v = Some (q, vs)"
proof (induction bs p v rule: xxh32_stripes.induct)
  case (1 bs p v1 v2 v3 v4)
  then show ?case by (subst xxh32_stripes.simps) (auto simp: Let_def)
qed

lemma xxh32_words_total: "\<exists>q h'. xxh32_words bs p h = Some (q, h')"
proof (induction bs p h rule: xxh32_words.induct)
  case (1 bs p h)
  then show ?case by (subst xxh32_words.simps) auto
qed

lemma xxh32_tail_total: "\<exists>h'. xxh32_tail bs p h = Some h'"
proof (induction bs p h rule: xxh32_tail.induct)
  case (1 bs p h)
  then show ?case by (subst xxh32_tail.simps) auto
qed


lemma xxh32_finish:
  "\<exists>r. do { (p, h) \<leftarrow> xxh32_words bs p h; h \<leftarrow> xxh32_tail bs p h; Some (xxh32_avalanche h) } = Some r"
proof -
  obtain q h' where "xxh32_words bs p h = Some (q, h')" using xxh32_words_total by blast
  moreover obtain h'' where "xxh32_tail bs q h' = Some h''" using xxh32_tail_total by blast
  ultimately show ?thesis by simp
qed

lemma xxh32_total: "\<exists>h. xxh32 data seed = Some h"
proof (cases "16 \<le> length data")
  case True
  then obtain q v1 v2 v3 v4 where "xxh32_stripes data 0
      (seed + XXH_PRIME1 + XXH_PRIME2, seed + XXH_PRIME2, seed, seed - XXH_PRIME1)
      = Some (q, v1, v2, v3, v4)"
    using xxh32_stripes_total [of 0 data] by (metis add_0 prod.exhaust)
  with True show ?thesis by (simp add: xxh32_def xxh32_finish)
next
  case False
  then show ?thesis by (simp add: xxh32_def xxh32_finish)
qed

text \<open>
  The checksum is xxHash32: it gives the published values on the empty
  buffer, on a buffer shorter than a stripe and on one with stripes, words and tail bytes.
\<close>

theorem xxh32_known_answers:
  "xxh32 [] 0 = Some 0x02CC5D05
   \<and> xxh32 (ascii ''abc'') 0 = Some 0x32D153FF
   \<and> xxh32 (ascii ''Nobody inspects the spammish repetition'') 0 = Some 0xE2293B2F"
  by (intro conjI; code_simp)

section \<open>wyhash64\<close>

definition wymix :: "u64 \<Rightarrow> u64 \<Rightarrow> u64" where
  "wymix a b = (let r = (ucast a :: 128 word) * ucast b in ucast r XOR ucast (drop_bit 64 r))"

text \<open>The 32-byte loop: \<open>p\<close> is the read cursor and \<open>i\<close> the number of bytes left.\<close>

function wyhash64_blocks :: "bytes \<Rightarrow> nat \<Rightarrow> nat \<Rightarrow> u64 \<Rightarrow> u64 \<Rightarrow> (nat \<times> nat \<times> u64 \<times> u64) option" where
  "wyhash64_blocks key p i a b =
     (if 32 < i then do {
        x \<leftarrow> rd64 key p; y \<leftarrow> rd64 key (p + 8);
        let a = wymix (a XOR x) (b XOR y);
        x \<leftarrow> rd64 key (p + 16); y \<leftarrow> rd64 key (p + 24);
        let b = wymix (a XOR x) (b XOR y);
        wyhash64_blocks key (p + 32) (i - 32) a b
      }
      else Some (p, i, a, b))"
  by pat_completeness auto
termination
  by (relation "measure (\<lambda>(key, p, i, a, b). i)") auto

definition wyhash64_short :: "bytes \<Rightarrow> (u64 \<times> u64) option" where
  "wyhash64_short key =
     (let len = length key in
      if 4 \<le> len then do {
        lo \<leftarrow> rd32 key 0;
        hi \<leftarrow> rd32 key (len div 2 - 2);
        lo2 \<leftarrow> rd32 key (len - 4);
        hi2 \<leftarrow> rd32 key (len + 2 - 4 - len div 2);
        Some (push_bit 32 (ucast lo) OR ucast hi, push_bit 32 (ucast lo2) OR ucast hi2)
      }
      else if 0 < len then do {
        x \<leftarrow> nth_opt key 0; y \<leftarrow> nth_opt key (len div 2); z \<leftarrow> nth_opt key (len - 1);
        Some (push_bit 16 (ucast x) OR push_bit 8 (ucast y) OR ucast z, 0)
      }
      else Some (0, 0))"

definition wyhash64_long :: "bytes \<Rightarrow> (u64 \<times> u64) option" where
  "wyhash64_long key = do {
     (p, i, a, b) \<leftarrow> wyhash64_blocks key 0 (length key) 0 0;
     (p, i, a) \<leftarrow>
       (if 16 < i then do {
          x \<leftarrow> rd64 key p; y \<leftarrow> rd64 key (p + 8);
          Some (p + 16, i - 16, wymix (a XOR x) (b XOR y))
        }
        else Some (p, i, a));
     x \<leftarrow> rd64 key (p + i + (if 8 < i then 0 else 8 - i) - 16);
     y \<leftarrow> rd64 key (p + i - 8);
     Some (a XOR x, b XOR y)
   }"

definition wyhash64 :: "bytes \<Rightarrow> u64 \<Rightarrow> u64 option" where
  "wyhash64 key seed =
     (let seed = seed XOR wymix (seed XOR 0x9e3779b97f4a7c15) 0xa0761d6478bd642f in do {
        (a, b) \<leftarrow> (if length key \<le> 16 then wyhash64_short key else wyhash64_long key);
        Some (wymix (seed XOR of_nat (length key))
                    (wymix (a XOR 0x9e3779b97f4a7c15) (b XOR 0xe7037ed1a0b428db)))
      })"

declare wyhash64_blocks.simps [simp del]

lemma wyhash64_blocks_total:
  "p + i = length key \<Longrightarrow> 0 < i \<Longrightarrow>
   \<exists>q j a' b'. wyhash64_blocks key p i a b = Some (q, j, a', b')
     \<and> q + j = length key \<and> 0 < j \<and> j \<le> 32 \<and> (q = p \<and> j = i \<or> 32 \<le> q)"
proof (induction i arbitrary: p a b rule: less_induct)
  case (less i)
  show ?case
  proof (cases "32 < i")
    case True
    define a' where "a' = wymix (a XOR of_le (take 8 (drop p key)))
                                (b XOR of_le (take 8 (drop (p + 8) key)))"
    define b' where "b' = wymix (a' XOR of_le (take 8 (drop (p + 16) key)))
                                (b XOR of_le (take 8 (drop (p + 24) key)))"
    have step: "wyhash64_blocks key p i a b = wyhash64_blocks key (p + 32) (i - 32) a' b'"
      using True less.prems by (subst wyhash64_blocks.simps) (simp add: Let_def a'_def b'_def)
    have "\<exists>q j a'' b''. wyhash64_blocks key (p + 32) (i - 32) a' b' = Some (q, j, a'', b'')
      \<and> q + j = length key \<and> 0 < j \<and> j \<le> 32 \<and> (q = p + 32 \<and> j = i - 32 \<or> 32 \<le> q)"
      using True less.prems by (intro less.IH) auto
    then show ?thesis unfolding step by fastforce
  next
    case False
    with less.prems show ?thesis by (subst wyhash64_blocks.simps) auto
  qed
qed

lemma wyhash64_short_total: "\<exists>a b. wyhash64_short key = Some (a, b)"
  by (auto simp: wyhash64_short_def Let_def)

lemma wyhash64_long_total:
  assumes "16 < length key"
  shows "\<exists>a b. wyhash64_long key = Some (a, b)"
proof -
  obtain q j a b where blocks: "wyhash64_blocks key 0 (length key) 0 0 = Some (q, j, a, b)"
    and q: "q + j = length key" "0 < j" "j \<le> 32" "q = 0 \<and> j = length key \<or> 32 \<le> q"
    using wyhash64_blocks_total [of 0 "length key" key 0 0] assms by fastforce
  show ?thesis
  proof (cases "16 < j")
    case True
    with q blocks show ?thesis by (auto simp: wyhash64_long_def)
  next
    case False
    with q assms blocks show ?thesis by (auto simp: wyhash64_long_def)
  qed
qed

lemma wyhash64_total: "\<exists>h. wyhash64 key seed = Some h"
proof (cases "length key \<le> 16")
  case True
  then show ?thesis
    using wyhash64_short_total [of key] by (auto simp: wyhash64_def Let_def)
next
  case False
  then show ?thesis
    using wyhash64_long_total [of key] by (auto simp: wyhash64_def Let_def)
qed

text \<open>The hash of a key, as the API functions compute it: seed 0.\<close>

definition hash_key :: "bytes \<Rightarrow> u64" where
  "hash_key key = the (wyhash64 key 0)"

lemma wyhash64_hash_key [simp]: "wyhash64 key 0 = Some (hash_key key)"
  using wyhash64_total [of key 0] by (auto simp: hash_key_def)

text \<open>
  The checksum returns for every buffer and every seed and the key hash for
  every key, the empty one included, and none of their loops and of the overlapping 4- and
  8-byte reads leaves the buffer.
\<close>

theorem hashes_read_in_bounds:
  "(\<exists>h. xxh32 data seed = Some h) \<and> (\<exists>h. wyhash64 key seed' = Some h)"
  using xxh32_total wyhash64_total by blast

text \<open>
  On a 16-byte key the four overlapping reads leave bytes 4, 5, 10 and
  11 out, so keys that differ there only have the same hash.
\<close>

theorem wyhash64_ignores_middle_bytes:
  assumes "length key = 16" and "i \<in> {4, 5, 10, 11}"
  shows "wyhash64 (key[i := b]) seed = wyhash64 key seed"
  using assms
  by (auto simp: wyhash64_def wyhash64_short_def rd32_def sub_bytes_def drop_update_swap
      take_update_swap list_update_beyond)

theorem wyhash64_ignores_middle_bytes_witness:
  "length (replicate 16 (0::byte)) = 16 \<and> (4::nat) \<in> {4, 5, 10, 11}
   \<and> wyhash64 ((replicate 16 0)[4 := 7]) 0 = wyhash64 (replicate 16 0) 0"
  using wyhash64_ignores_middle_bytes [of "replicate 16 0" 4 7 0] by simp

end
