(* ===== verification/Shard.thy ===== *)
theory Shard
  imports Entry Hashing
begin

text \<open>
  One shard of the cache: the open-addressing table of \<^verbatim>\<open>src/voidcache.c\<close> with its
  lookup, its CLOCK eviction and its Robin Hood insertion, and the lock and sequence
  counter around them as one thread runs them. A slot is a 32-bit index reduced with
  \<open>cap - 1\<close>; the proofs work with the position \<open>(ideal + j) mod cap\<close> of the \<open>j\<close>-th probe.

  \<open>tab_ok\<close> is the table invariant: no slot is left busy and no free slot lies between
  the ideal slot of an entry and the slot that holds it, which is what the lookup relies on.
\<close>

record vc_shard =
  s_table :: "vc_entry list"
  s_cap :: u32
  s_count :: u32
  s_clock_hand :: u32
  s_seq :: u64
  s_wlock :: u32
  s_hits :: u64
  s_misses :: u64
  s_sets :: u64
  s_evictions :: u64
  s_expirations :: u64

section \<open>Lock and sequence counter\<close>

text \<open>
  One thread at a time: taking a lock that is held and waiting for an odd sequence number
  never return.
\<close>

definition shard_lock :: "vc_shard \<Rightarrow> vc_shard option" where
  "shard_lock s = (if s_wlock s = 0 then Some (s\<lparr>s_wlock := 1\<rparr>) else None)"

definition shard_unlock :: "vc_shard \<Rightarrow> vc_shard" where
  "shard_unlock s = s\<lparr>s_wlock := 0\<rparr>"

definition seq_read_begin :: "vc_shard \<Rightarrow> u64 option" where
  "seq_read_begin s = (if s_seq s AND 1 = 0 then Some (s_seq s) else None)"

definition seq_read_retry :: "vc_shard \<Rightarrow> u64 \<Rightarrow> bool" where
  "seq_read_retry s seq \<longleftrightarrow> s_seq s \<noteq> seq"

definition seq_write_begin :: "vc_shard \<Rightarrow> vc_shard" where
  "seq_write_begin s = s\<lparr>s_seq := s_seq s + 1\<rparr>"

definition seq_write_end :: "vc_shard \<Rightarrow> vc_shard" where
  "seq_write_end s = s\<lparr>s_seq := s_seq s + 1\<rparr>"

section \<open>Table operations\<close>

definition shard_idx :: "u64 \<Rightarrow> u32" where
  "shard_idx h = ucast (drop_bit (64 - 6) h)"

definition table_slot :: "u64 \<Rightarrow> u32 \<Rightarrow> u32" where
  "table_slot h cap = ucast (h AND ucast (cap - 1))"

definition probe_dist :: "u64 \<Rightarrow> u32 \<Rightarrow> u32 \<Rightarrow> u32" where
  "probe_dist h slot cap = (slot + cap - table_slot h cap) AND (cap - 1)"

definition next_slot :: "u32 \<Rightarrow> u32 \<Rightarrow> u32" where
  "next_slot slot cap = (slot + 1) AND (cap - 1)"

text \<open>\<^verbatim>\<open>_shard_find\<close>; the first argument of the loop counts the slots left to visit.\<close>

primrec shard_find_loop ::
  "nat \<Rightarrow> cmem \<Rightarrow> u64 \<Rightarrow> vc_shard \<Rightarrow> bytes \<Rightarrow> u32 \<Rightarrow> u64 \<Rightarrow> u32 \<Rightarrow> u32 option" where
  "shard_find_loop 0 m now s key key_len hash slot = Some UINT32_MAX"
| "shard_find_loop (Suc n) m now s key key_len hash slot = do {
     e \<leftarrow> nth_opt (s_table s) (unat slot);
     if e_state e = EMPTY then Some UINT32_MAX
     else do {
       hit \<leftarrow> (if e_state e \<noteq> BUSY \<and> e_state e = LIVE \<and> e_key_hash e = hash \<and> e_key_len e = key_len
               then do {
                 p \<leftarrow> entry_key e;
                 k \<leftarrow> ptr_read m e p (unat key_len);
                 k' \<leftarrow> sub_bytes key 0 (unat key_len);
                 Some (k = k')
               }
               else Some False);
       if hit then Some (if entry_expired now e then UINT32_MAX else slot)
       else shard_find_loop n m now s key key_len hash (next_slot slot (s_cap s))
     }
   }"

definition shard_find :: "cmem \<Rightarrow> u64 \<Rightarrow> vc_shard \<Rightarrow> bytes \<Rightarrow> u32 \<Rightarrow> u64 \<Rightarrow> u32 option" where
  "shard_find m now s key key_len hash =
     shard_find_loop (unat (s_cap s)) m now s key key_len hash (table_slot hash (s_cap s))"

text \<open>\<^verbatim>\<open>_shard_evict_one\<close>.\<close>

primrec shard_evict_loop ::
  "nat \<Rightarrow> cmem \<Rightarrow> slab \<Rightarrow> vc_shard \<Rightarrow> u32 \<Rightarrow> (u32 \<times> cmem \<times> slab \<times> vc_shard) option" where
  "shard_evict_loop 0 m sl s h = Some (UINT32_MAX, m, sl, s)"
| "shard_evict_loop (Suc n) m sl s h = do {
     let h = next_slot h (s_cap s);
     e \<leftarrow> nth_opt (s_table s) (unat h);
     if e_state e \<noteq> LIVE then shard_evict_loop n m sl s h
     else if e_clock_bit e \<noteq> 0
     then shard_evict_loop n m sl
            (s\<lparr>s_table := (s_table s)[unat h := e\<lparr>e_clock_bit := 0\<rparr>]\<rparr>) h
     else do {
       (m, sl) \<leftarrow> entry_free_resources m sl (e\<lparr>e_state := BUSY\<rparr>);
       Some (h, m, sl, s\<lparr>s_table := (s_table s)[unat h := e\<lparr>e_state := DEAD\<rparr>],
                         s_count := s_count s - 1, s_evictions := s_evictions s + 1,
                         s_clock_hand := h\<rparr>)
     }
   }"

definition shard_evict_one :: "cmem \<Rightarrow> slab \<Rightarrow> vc_shard \<Rightarrow> (u32 \<times> cmem \<times> slab \<times> vc_shard) option" where
  "shard_evict_one m sl s = shard_evict_loop (unat (s_cap s)) m sl s (s_clock_hand s)"

text \<open>
  \<^verbatim>\<open>_shard_insert\<close>. \<open>copy_entry\<close> is the field-by-field copy into a slot, which ends with the
  slot live and referenced. The displaced entry keeps every field the loop reads of it.
\<close>

definition copy_entry :: "vc_entry \<Rightarrow> vc_entry \<Rightarrow> vc_entry" where
  "copy_entry incoming e =
     e\<lparr>e_flags := e_flags incoming, e_val_len := e_val_len incoming,
       e_key_len := e_key_len incoming, e_key_hash := e_key_hash incoming,
       e_expire_ns := e_expire_ns incoming, e_clock_bit := 1,
       e_probe_dist := e_probe_dist incoming, e_payload := e_payload incoming,
       e_state := LIVE\<rparr>"

primrec shard_insert_loop ::
  "nat \<Rightarrow> vc_shard \<Rightarrow> vc_entry \<Rightarrow> u32 \<Rightarrow> vc_shard option" where
  "shard_insert_loop 0 s incoming slot = Some s"
| "shard_insert_loop (Suc n) s incoming slot = do {
     e \<leftarrow> nth_opt (s_table s) (unat slot);
     if e_state e = EMPTY \<or> e_state e = DEAD
     then Some (s\<lparr>s_table := (s_table s)[unat slot := copy_entry incoming e]\<rparr>)
     else if e_state e = LIVE \<and> e_probe_dist e < e_probe_dist incoming
     then shard_insert_loop n (s\<lparr>s_table := (s_table s)[unat slot := copy_entry incoming e]\<rparr>)
            (e\<lparr>e_probe_dist := e_probe_dist e + 1\<rparr>) (next_slot slot (s_cap s))
     else shard_insert_loop n s (incoming\<lparr>e_probe_dist := e_probe_dist incoming + 1\<rparr>)
            (next_slot slot (s_cap s))
   }"

definition shard_insert :: "vc_shard \<Rightarrow> vc_entry \<Rightarrow> vc_shard option" where
  "shard_insert s incoming =
     shard_insert_loop (unat (s_cap s)) s (incoming\<lparr>e_probe_dist := 0\<rparr>)
       (table_slot (e_key_hash incoming) (s_cap s))"

section \<open>Slot arithmetic\<close>

lemma pow2_cap_dvd:
  assumes "pow2_word (cap :: u32)" shows "unat cap dvd 2 ^ 32"
proof -
  obtain k where "k < 32" "cap = 2 ^ k" using assms by (auto simp: pow2_word_def)
  moreover from this have "(2::nat) ^ k dvd 2 ^ 32" by (intro le_imp_power_dvd) simp
  ultimately show ?thesis by (simp add: unat_word_exp)
qed

lemma next_slot_mod [slot_simps]:
  assumes "pow2_word cap"
  shows "unat (next_slot slot cap) = Suc (unat slot) mod unat cap"
proof -
  have "unat (next_slot slot cap) = unat (slot + 1) mod unat cap"
    using assms by (simp add: next_slot_def slot_simps)
  also have "unat (slot + 1) = (unat slot + 1) mod 2 ^ 32"
    by (simp add: unat_word_ariths)
  also have "(unat slot + 1) mod 2 ^ 32 mod unat cap = (unat slot + 1) mod unat cap"
    using pow2_cap_dvd [OF assms] by (rule mod_mod_cancel)
  finally show ?thesis by simp
qed

lemma next_slot_probe:
  "pow2_word cap \<Longrightarrow> unat slot = (a + i) mod unat cap \<Longrightarrow>
   unat (next_slot slot cap) = (a + Suc i) mod unat cap"
  by (simp add: slot_simps mod_Suc_eq)

abbreviation ideal :: "u32 \<Rightarrow> u64 \<Rightarrow> nat" where
  "ideal cap h \<equiv> unat h mod unat cap"

lemma table_slot_ideal [slot_simps]:
  assumes "pow2_word cap" shows "unat (table_slot h cap) = ideal cap h"
proof -
  obtain k where k: "k < 32" "cap = 2 ^ k" using assms by (auto simp: pow2_word_def)
  have "cap - 1 = mask k" using k by (simp add: mask_eq_exp_minus_1)
  then have "table_slot h cap = ucast (take_bit k h)"
    using k by (simp add: table_slot_def take_bit_eq_mask ucast_mask_eq)
  then have "unat (table_slot h cap) = take_bit 32 (take_bit k (unat h))"
    by (simp add: unsigned_ucast_eq unsigned_take_bit_eq min.commute)
  also have "\<dots> = take_bit k (unat h)" using k(1) by (simp add: min_def)
  finally show ?thesis using k by (simp add: take_bit_nat_def unat_word_exp)
qed

section \<open>The table invariant\<close>

abbreviation probe :: "vc_entry list \<Rightarrow> nat \<Rightarrow> nat \<Rightarrow> vc_entry" where
  "probe T a j \<equiv> T ! ((a + j) mod length T)"

definition reaches :: "vc_entry list \<Rightarrow> nat \<Rightarrow> nat \<Rightarrow> bool" where
  "reaches T a i \<longleftrightarrow>
     (\<exists>d. (a + d) mod length T = i \<and> (\<forall>j<d. e_state (probe T a j) \<noteq> EMPTY))"

abbreviation home :: "vc_entry list \<Rightarrow> vc_entry \<Rightarrow> nat" where
  "home T e \<equiv> unat (e_key_hash e) mod length T"

definition tab_ok :: "vc_entry list \<Rightarrow> bool" where
  "tab_ok T \<longleftrightarrow> T \<noteq> [] \<and> (\<forall>e \<in> set T. e_state e \<noteq> BUSY)
     \<and> (\<forall>i < length T. e_state (T ! i) = LIVE \<longrightarrow> reaches T (home T (T ! i)) i)"

definition lives :: "vc_entry list \<Rightarrow> vc_entry multiset" where
  "lives T = mset (map core (filter (\<lambda>e. e_state e = LIVE) T))"

abbreviation live1 :: "vc_entry \<Rightarrow> vc_entry multiset" where
  "live1 e \<equiv> (if e_state e = LIVE then {#core e#} else {#})"

lemma lives_Nil [simp]: "lives [] = {#}"
  and lives_Cons [simp]: "lives (e # T) = live1 e + lives T"
  by (simp_all add: lives_def)

lemma lives_update:
  "i < length T \<Longrightarrow> lives (T[i := x]) + live1 (T ! i) = lives T + live1 x"
proof (induction T arbitrary: i)
  case (Cons e T)
  show ?case
  proof (cases i)
    case 0
    then show ?thesis by (simp only: list_update_code nth_Cons_0 lives_Cons ac_simps)
  next
    case (Suc k)
    then have "lives (T[k := x]) + live1 (T ! k) = lives T + live1 x" using Cons by simp
    then have "live1 e + (lives (T[k := x]) + live1 (T ! k)) = live1 e + (lives T + live1 x)"
      by (rule arg_cong)
    then show ?thesis unfolding Suc by (simp only: list_update_code nth_Cons_Suc lives_Cons add.assoc)
  qed
qed simp

lemma in_lives: "e \<in># lives T \<longleftrightarrow> (\<exists>i < length T. e_state (T ! i) = LIVE \<and> e = core (T ! i))"
  by (auto simp: lives_def in_set_conv_nth Bex_def)

lemma lives_nth: "i < length T \<Longrightarrow> e_state (T ! i) = LIVE \<Longrightarrow> core (T ! i) \<in># lives T"
  by (auto simp: in_lives)

lemma reaches_less:
  assumes "reaches T a i" and "T \<noteq> []"
  shows "\<exists>d < length T. (a + d) mod length T = i \<and> (\<forall>j<d. e_state (probe T a j) \<noteq> EMPTY)"
proof -
  obtain d where d: "(a + d) mod length T = i" "\<forall>j<d. e_state (probe T a j) \<noteq> EMPTY"
    using assms(1) by (auto simp: reaches_def)
  have "(a + d mod length T) mod length T = i" using d(1) by (simp add: mod_add_right_eq)
  moreover have "\<forall>j < d mod length T. e_state (probe T a j) \<noteq> EMPTY"
    using d(2) mod_less_eq_dividend [of d "length T"] by (meson less_le_trans)
  moreover have "d mod length T < length T" using assms(2) by simp
  ultimately show ?thesis by blast
qed

text \<open>Slots that stop being empty, or change among the other states, keep every chain.\<close>

lemma reaches_mono:
  assumes "reaches T a i" and "length T' = length T"
    and "\<And>j. j < length T \<Longrightarrow> e_state (T' ! j) = EMPTY \<Longrightarrow> e_state (T ! j) = EMPTY"
  shows "reaches T' a i"
proof (cases "T = []")
  case True
  then show ?thesis using assms(1,2) by (simp add: reaches_def)
next
  case False
  then have "e_state (probe T' a j) = EMPTY \<Longrightarrow> e_state (probe T a j) = EMPTY" for j
    using assms(2) assms(3) [of "(a + j) mod length T"] by simp
  then show ?thesis using assms(1,2) unfolding reaches_def by metis
qed

lemma reaches_Suc:
  assumes "reaches T a i" and "e_state (T ! i) \<noteq> EMPTY" and "T \<noteq> []"
  shows "reaches T a (Suc i mod length T)"
proof -
  obtain d where d: "(a + d) mod length T = i" "\<forall>j<d. e_state (probe T a j) \<noteq> EMPTY"
    using assms(1) by (auto simp: reaches_def)
  have "(a + Suc d) mod length T = Suc i mod length T" using d(1) mod_Suc_eq [of "a + d" "length T"] by simp
  moreover have "\<forall>j < Suc d. e_state (probe T a j) \<noteq> EMPTY"
    using d assms(2) by (auto simp: less_Suc_eq)
  ultimately show ?thesis unfolding reaches_def by blast
qed

lemma tab_ok_update:
  assumes ok: "tab_ok T" and i: "i < length T" and st: "e_state x \<noteq> BUSY" "e_state x \<noteq> EMPTY"
    and new: "e_state x = LIVE \<Longrightarrow> reaches T (home T x) i"
  shows "tab_ok (T[i := x])"
proof -
  let ?T = "T[i := x]"
  have mono: "reaches ?T a j" if "reaches T a j" for a j
  proof (rule reaches_mono [OF that])
    show "e_state (T ! k) = EMPTY" if "k < length T" "e_state (?T ! k) = EMPTY" for k
      using that st(2) i by (cases "k = i") auto
  qed simp
  have "reaches ?T (home ?T (?T ! j)) j" if j: "j < length T" "e_state (?T ! j) = LIVE" for j
  proof (cases "j = i")
    case True
    then show ?thesis using mono [OF new] j i by simp
  next
    case False
    then have "reaches T (home T (T ! j)) j" using ok j by (simp add: tab_ok_def)
    then show ?thesis using mono False by simp
  qed
  moreover have "e_state e \<noteq> BUSY" if "e \<in> set ?T" for e
    using that ok st(1) set_update_subset_insert [of T i x] by (auto simp: tab_ok_def)
  ultimately show ?thesis using ok by (simp add: tab_ok_def)
qed

section \<open>Lookup\<close>

definition ent_matches :: "cmem \<Rightarrow> bytes \<Rightarrow> u64 \<Rightarrow> vc_entry \<Rightarrow> bool" where
  "ent_matches m key hash e \<longleftrightarrow> e_state e = LIVE \<and> e_key_hash e = hash
     \<and> e_key_len e = of_nat (length key) \<and> ent_key m e = key"

definition shard_ok :: "vc_shard \<Rightarrow> bool" where
  "shard_ok s \<longleftrightarrow> pow2_word (s_cap s) \<and> length (s_table s) = unat (s_cap s) \<and> tab_ok (s_table s)"

definition ents_ok :: "cmem \<Rightarrow> vc_entry list \<Rightarrow> bool" where
  "ents_ok m T \<longleftrightarrow> (\<forall>e \<in> set T. e_state e = LIVE \<longrightarrow> ent_ok m e)"

text \<open>The slot the scan stops at: the first empty or matching one in probe order.\<close>

definition scan_stop :: "cmem \<Rightarrow> vc_entry list \<Rightarrow> bytes \<Rightarrow> u64 \<Rightarrow> nat \<Rightarrow> nat \<Rightarrow> nat option" where
  "scan_stop m T key hash a i =
     List.find (\<lambda>j. e_state (probe T a j) = EMPTY \<or> ent_matches m key hash (probe T a j))
       [i..<length T]"

definition scan_result :: "cmem \<Rightarrow> u64 \<Rightarrow> vc_entry list \<Rightarrow> bytes \<Rightarrow> u64 \<Rightarrow> nat \<Rightarrow> nat \<Rightarrow> u32" where
  "scan_result m now T key hash a i =
     (case scan_stop m T key hash a i of None \<Rightarrow> UINT32_MAX
      | Some j \<Rightarrow> (let e = probe T a j in
          if ent_matches m key hash e \<and> \<not> entry_expired now e then of_nat ((a + j) mod length T)
          else UINT32_MAX))"

lemma scan_result_step:
  assumes "i < length T"
  shows "scan_result m now T key hash a i =
    (let e = probe T a i in
     if e_state e = EMPTY then UINT32_MAX
     else if ent_matches m key hash e
     then (if entry_expired now e then UINT32_MAX else of_nat ((a + i) mod length T))
     else scan_result m now T key hash a (Suc i))"
  using assms
  by (auto simp: scan_result_def scan_stop_def upt_conv_Cons Let_def ent_matches_def)

lemma compare_key:
  assumes "ent_ok m e" and "e_key_len e = of_nat (length key)" and "length key < 2 ^ 32"
  shows "\<exists>p. entry_key e = Some p \<and> ptr_read m e p (unat (e_key_len e)) = Some (ent_key m e)
     \<and> sub_bytes key 0 (unat (e_key_len e)) = Some key"
proof -
  have "klen e = length key" using assms(2,3) by (simp add: unat_of_nat)
  then show ?thesis using entry_key_reads [OF assms(1)] by simp
qed

lemma shard_find_loop_scan:
  assumes "length (s_table s) = unat (s_cap s)" "pow2_word (s_cap s)" "ents_ok m (s_table s)"
    and "length key < 2 ^ 32"
    and "unat slot = (a + i) mod length (s_table s)" and "i + k = length (s_table s)"
  shows "shard_find_loop k m now s key (of_nat (length key)) hash slot =
    Some (scan_result m now (s_table s) key hash a i)"
  using assms(5,6)
proof (induction k arbitrary: i slot)
  case 0
  then show ?case by (simp add: scan_result_def scan_stop_def)
next
  case (Suc k)
  let ?T = "s_table s" and ?kl = "of_nat (length key) :: u32"
  define e where "e = probe ?T a i"
  have i: "i < length ?T" using Suc.prems(2) by simp
  have pos: "(a + i) mod length ?T < length ?T" using i by (intro mod_less_divisor) linarith
  then have nth: "nth_opt ?T (unat slot) = Some e" using Suc.prems(1) by (simp add: e_def)
  have in_T: "e \<in> set ?T" using pos by (simp add: e_def)
  have IH: "shard_find_loop k m now s key ?kl hash (next_slot slot (s_cap s)) =
      Some (scan_result m now ?T key hash a (Suc i))"
    using Suc.prems assms(1,2) next_slot_probe [of "s_cap s" slot a i] by (intro Suc.IH) simp_all
  have slot: "slot = of_nat ((a + i) mod length ?T)"
    using Suc.prems(1) by (metis of_nat_unat ucast_id)
  show ?case
  proof (cases "e_state e = LIVE \<and> e_key_hash e = hash \<and> e_key_len e = ?kl")
    case True
    then have "ent_ok m e" using assms(3) in_T by (simp add: ents_ok_def)
    then obtain p where "entry_key e = Some p" "ptr_read m e p (unat ?kl) = Some (ent_key m e)"
      "sub_bytes key 0 (unat ?kl) = Some key"
      using compare_key [of m e key] True assms(4) by auto
    then show ?thesis using True nth IH slot
      by (simp add: scan_result_step [OF i] e_def [symmetric] ent_matches_def)
  next
    case False
    then show ?thesis using nth IH
      by (auto simp: scan_result_step [OF i] e_def [symmetric] ent_matches_def)
  qed
qed

lemma shard_find_scan:
  assumes "shard_ok s" "ents_ok m (s_table s)" "length key < 2 ^ 32"
  shows "shard_find m now s key (of_nat (length key)) hash =
    Some (scan_result m now (s_table s) key hash (unat hash mod length (s_table s)) 0)"
  unfolding shard_find_def
  by (rule shard_find_loop_scan) (use assms in \<open>auto simp: shard_ok_def slot_simps\<close>)

lemma shard_find_cong:
  assumes "s_table s' = s_table s" and "s_cap s' = s_cap s"
  shows "shard_find m now s' key kl hash = shard_find m now s key kl hash"
proof -
  have "shard_find_loop k m now s' key kl hash slot = shard_find_loop k m now s key kl hash slot"
    for k slot by (induction k arbitrary: slot) (simp_all add: assms cong: if_cong)
  then show ?thesis by (simp add: shard_find_def assms)
qed

lemma slot_ne_max:
  assumes "shard_ok s" and "i < length (s_table s)"
  shows "(of_nat i :: u32) \<noteq> UINT32_MAX" and "unat (of_nat i :: u32) = i"
proof -
  have "unat (s_cap s) \<le> 2 ^ 31"
  proof -
    obtain k where k: "k < 32" "s_cap s = 2 ^ k" using assms(1) by (auto simp: shard_ok_def pow2_word_def)
    then have "(2::nat) ^ k \<le> 2 ^ 31" by (intro power_increasing) auto
    then show ?thesis using k by (simp add: unat_word_exp)
  qed
  then have i: "i < 2 ^ 31" using assms by (simp add: shard_ok_def)
  then show u: "unat (of_nat i :: u32) = i" by (simp add: unat_of_nat)
  show "(of_nat i :: u32) \<noteq> UINT32_MAX"
  proof
    assume "(of_nat i :: u32) = UINT32_MAX"
    then have "unat (of_nat i :: u32) = unat (- 1 :: u32)" by simp
    then show False using u i by (simp add: unsigned_minus_1_eq_mask mask_eq_exp_minus_1)
  qed
qed

lemma mod_add_inj:
  fixes a :: nat
  assumes "(a + x) mod n = (a + y) mod n" and "x < n" and "y < n"
  shows "x = y"
proof -
  have le: "u = v" if "(a + u) mod n = (a + v) mod n" "u < n" "v \<le> u" for u v
  proof -
    have "n dvd (a + u) - (a + v)" using that by (simp add: mod_eq_dvd_iff_nat)
    then have "n dvd u - v" by simp
    then show ?thesis using that by (auto dest: dvd_imp_le)
  qed
  show ?thesis using le [of x y] le [of y x] assms by (cases "y \<le> x") auto
qed

text \<open>Every lookup returns, and a slot it returns holds a live, unexpired entry of the key.\<close>

lemma shard_find_sound:
  assumes "shard_ok s" "ents_ok m (s_table s)" "length key < 2 ^ 32"
  shows "\<exists>r. shard_find m now s key (of_nat (length key)) hash = Some r
    \<and> (r = UINT32_MAX \<or> (\<exists>i < length (s_table s). r = of_nat i
         \<and> ent_matches m key hash (s_table s ! i) \<and> \<not> entry_expired now (s_table s ! i)))"
proof -
  have "s_table s \<noteq> []" using assms(1) by (auto simp: shard_ok_def tab_ok_def)
  then have "(a + j) mod length (s_table s) < length (s_table s)" for a j by simp
  then show ?thesis
    unfolding shard_find_scan [OF assms] scan_result_def Let_def
    by (auto split: option.split)
qed

text \<open>An entry that is the only match for its key is found, and hidden when it has expired.\<close>

lemma shard_find_hit:
  assumes s: "shard_ok s" and "ents_ok m (s_table s)" "length key < 2 ^ 32"
    and i: "i < length (s_table s)" "ent_matches m key hash (s_table s ! i)"
    and uniq: "\<And>j. j < length (s_table s) \<Longrightarrow> ent_matches m key hash (s_table s ! j) \<Longrightarrow> j = i"
  shows "shard_find m now s key (of_nat (length key)) hash =
    Some (if entry_expired now (s_table s ! i) then UINT32_MAX else of_nat i)"
proof -
  let ?T = "s_table s" and ?a = "unat hash mod length (s_table s)"
  have ne: "?T \<noteq> []" and hash: "e_key_hash (?T ! i) = hash" and live: "e_state (?T ! i) = LIVE"
    using s i(2) by (auto simp: shard_ok_def tab_ok_def ent_matches_def)
  then have "reaches ?T ?a i" using s i by (auto simp: shard_ok_def tab_ok_def)
  then obtain d where d: "d < length ?T" "(?a + d) mod length ?T = i"
    "\<forall>j<d. e_state (probe ?T ?a j) \<noteq> EMPTY"
    using reaches_less ne by blast
  have pos: "(?a + j) mod length ?T < length ?T" for j using ne by simp
  have "\<not> ent_matches m key hash (probe ?T ?a j)" if "j < d" for j
  proof
    assume "ent_matches m key hash (probe ?T ?a j)"
    then have "(?a + j) mod length ?T = (?a + d) mod length ?T" using uniq [OF pos] d(2) by simp
    then show False using mod_add_inj [of ?a j "length ?T" d] that d(1) by simp
  qed
  then have "scan_stop m ?T key hash ?a 0 = Some d"
    using d i(2) by (auto simp: scan_stop_def find_Some_iff intro!: exI [of _ d])
  then show ?thesis
    unfolding shard_find_scan [OF assms(1-3)] using d(2) i(2) by (simp add: scan_result_def Let_def)
qed

lemma shard_find_miss:
  assumes "shard_ok s" "ents_ok m (s_table s)" "length key < 2 ^ 32"
    and "\<And>i. i < length (s_table s) \<Longrightarrow> \<not> ent_matches m key hash (s_table s ! i)"
  shows "shard_find m now s key (of_nat (length key)) hash = Some UINT32_MAX"
  using shard_find_sound [OF assms(1-3)] assms(4) by blast

section \<open>Insertion\<close>

lemma copy_entry_sel [simp]:
  "core (copy_entry incoming e) = core incoming" "e_state (copy_entry incoming e) = LIVE"
  "e_key_hash (copy_entry incoming e) = e_key_hash incoming"
  "e_clock_bit (copy_entry incoming e) = 1"
  by (cases incoming; cases e; simp add: copy_entry_def core_def)+

lemma shard_ok_table:
  assumes "shard_ok s" and "length T = length (s_table s)" and "tab_ok T"
  shows "shard_ok (s\<lparr>s_table := T\<rparr>)"
  using assms by (simp add: shard_ok_def)

text \<open>
  The loop from \<open>slot\<close> with \<open>k\<close> slots left: if one of them is free, the live entries grow by
  exactly the incoming one; otherwise the table keeps as many as it had and one of them,
  or the incoming one, is gone.
\<close>

definition inserted :: "bool \<Rightarrow> vc_entry \<Rightarrow> vc_entry list \<Rightarrow> vc_entry list \<Rightarrow> bool" where
  "inserted room incoming T T' \<longleftrightarrow>
     (if room then lives T' = add_mset (core incoming) (lives T)
      else (\<exists>d. add_mset d (lives T') = add_mset (core incoming) (lives T)))"

definition room_from :: "vc_entry list \<Rightarrow> nat \<Rightarrow> nat \<Rightarrow> bool" where
  "room_from T a k \<longleftrightarrow> (\<exists>j<k. e_state (probe T a j) \<noteq> LIVE)"

lemma room_from_Suc:
  "room_from T (unat slot) (Suc k) \<longleftrightarrow>
     e_state (T ! (unat slot mod length T)) \<noteq> LIVE \<or> room_from T (Suc (unat slot)) k"
proof -
  have "(\<exists>j < Suc k. P j) \<longleftrightarrow> P 0 \<or> (\<exists>j<k. P (Suc j))" for P
    using less_Suc_eq_0_disj by auto
  then show ?thesis by (simp add: room_from_def)
qed

lemma room_from_mod: "room_from T (a mod length T) k \<longleftrightarrow> room_from T a k"
  by (simp add: room_from_def mod_add_left_eq)

lemma room_from_states:
  assumes "length T' = length T" and "T \<noteq> []"
    and "\<And>i. i < length T \<Longrightarrow> (e_state (T' ! i) = LIVE) = (e_state (T ! i) = LIVE)"
  shows "room_from T' a k \<longleftrightarrow> room_from T a k"
  using assms by (simp add: room_from_def)

lemma shard_insert_loop_spec:
  assumes "shard_ok s" and "unat slot < length (s_table s)"
    and "reaches (s_table s) (home (s_table s) incoming) (unat slot)"
  shows "\<exists>T'. shard_insert_loop k s incoming slot = Some (s\<lparr>s_table := T'\<rparr>)
     \<and> length T' = length (s_table s) \<and> tab_ok T'
     \<and> inserted (room_from (s_table s) (unat slot) k) incoming (s_table s) T'"
  using assms
proof (induction k arbitrary: s incoming slot)
  case 0
  then show ?case
    by (intro exI [of _ "s_table s"]) (auto simp: room_from_def inserted_def shard_ok_def)
next
  case (Suc k)
  let ?T = "s_table s" and ?i = "unat slot" and ?nx = "next_slot slot (s_cap s)"
  define e where "e = ?T ! ?i"
  have cap: "pow2_word (s_cap s)" "length ?T = unat (s_cap s)" and tab: "tab_ok ?T"
    using Suc.prems(1) by (simp_all add: shard_ok_def)
  have ne: "?T \<noteq> []" using tab by (simp add: tab_ok_def)
  have nth: "nth_opt ?T ?i = Some e" using Suc.prems(2) by (simp add: e_def)
  have busy: "e_state e \<noteq> BUSY" using tab Suc.prems(2) by (simp add: e_def tab_ok_def)
  have nx: "unat ?nx = Suc ?i mod length ?T" using cap by (simp add: slot_simps)
  then have nxl: "unat ?nx < length ?T" using ne by simp
  have room: "room_from ?T ?i (Suc k) \<longleftrightarrow> e_state e \<noteq> LIVE \<or> room_from ?T (unat ?nx) k"
    using Suc.prems(2) by (simp add: room_from_Suc e_def nx room_from_mod)
  let ?T1 = "?T[?i := copy_entry incoming e]"
  have T1: "tab_ok ?T1" by (rule tab_ok_update [OF tab Suc.prems(2)]) (use Suc.prems(3) in simp_all)
  have lv: "lives ?T1 + live1 e = lives ?T + {#core incoming#}"
    using lives_update [OF Suc.prems(2), of "copy_entry incoming e"]
    by (simp add: e_def split: if_splits)
  consider (free) "e_state e = EMPTY \<or> e_state e = DEAD"
    | (swap) "e_state e = LIVE" "e_probe_dist e < e_probe_dist incoming"
    | (skip) "e_state e = LIVE" "\<not> e_probe_dist e < e_probe_dist incoming"
    using busy by (cases "e_state e") auto
  then show ?case
  proof cases
    case free
    then have "lives ?T1 = add_mset (core incoming) (lives ?T)" using lv by auto
    then show ?thesis using free nth T1 room
      by (intro exI [of _ ?T1]) (auto simp: inserted_def)
  next
    case swap
    define e' where "e' = e\<lparr>e_probe_dist := e_probe_dist e + 1\<rparr>"
    have "reaches ?T (home ?T e) ?i" using tab Suc.prems(2) swap(1) by (auto simp: tab_ok_def e_def)
    then have "reaches ?T (home ?T e) (unat ?nx)"
      using reaches_Suc swap(1) ne nx by (simp add: e_def)
    then have r1: "reaches ?T1 (home ?T e) (unat ?nx)"
    proof (rule reaches_mono)
      show "e_state (?T ! j) = EMPTY" if "j < length ?T" "e_state (?T1 ! j) = EMPTY" for j
        using that by (cases "j = ?i") auto
    qed simp
    have st: "room_from ?T1 a k \<longleftrightarrow> room_from ?T a k" for a
    proof (rule room_from_states)
      show "(e_state (?T1 ! j) = LIVE) = (e_state (?T ! j) = LIVE)" if "j < length ?T" for j
        using that swap(1) by (cases "j = ?i") (auto simp: e_def)
    qed (use ne in simp_all)
    have "shard_ok (s\<lparr>s_table := ?T1\<rparr>)" using shard_ok_table [OF Suc.prems(1) _ T1] by simp
    then obtain T' where T': "shard_insert_loop k (s\<lparr>s_table := ?T1\<rparr>) e' ?nx = Some (s\<lparr>s_table := T'\<rparr>)"
      "length T' = length ?T" "tab_ok T'" "inserted (room_from ?T1 (unat ?nx) k) e' ?T1 T'"
      using Suc.IH [of "s\<lparr>s_table := ?T1\<rparr>" ?nx e'] nxl r1 by (auto simp: e'_def)
    have "inserted (room_from ?T ?i (Suc k)) incoming ?T T'"
      using T'(4) lv swap(1) room st by (auto simp: inserted_def e'_def)
    then show ?thesis using T' nth swap by (auto simp: e'_def)
  next
    case skip
    have "reaches ?T (home ?T incoming) (unat ?nx)"
      using reaches_Suc [OF Suc.prems(3)] skip(1) ne nx by (simp add: e_def)
    then have "\<exists>T'. shard_insert_loop k s (incoming\<lparr>e_probe_dist := e_probe_dist incoming + 1\<rparr>) ?nx
         = Some (s\<lparr>s_table := T'\<rparr>) \<and> length T' = length ?T \<and> tab_ok T'
       \<and> inserted (room_from ?T (unat ?nx) k)
           (incoming\<lparr>e_probe_dist := e_probe_dist incoming + 1\<rparr>) ?T T'"
      using Suc.prems(1) nxl by (intro Suc.IH) simp_all
    then show ?thesis using nth skip room by (auto simp: inserted_def)
  qed
qed

definition has_room :: "vc_entry list \<Rightarrow> bool" where
  "has_room T \<longleftrightarrow> (\<exists>e \<in> set T. e_state e \<noteq> LIVE)"

lemma probe_covers:
  assumes "i < n" shows "\<exists>j<n. ((a::nat) + j) mod n = i"
proof -
  define j where "j = (i + (n - a mod n)) mod n"
  have "a mod n < n" using assms by simp
  then have "a mod n + (i + (n - a mod n)) = i + n" by simp
  then have "(a + j) mod n = (i + n) mod n"
    unfolding j_def by (metis mod_add_left_eq mod_add_right_eq)
  then show ?thesis using assms by (intro exI [of _ j]) (simp add: j_def)
qed

lemma room_from_all:
  assumes "T \<noteq> []" shows "room_from T a (length T) \<longleftrightarrow> has_room T"
proof
  assume "has_room T"
  then obtain i where "i < length T" "e_state (T ! i) \<noteq> LIVE"
    by (auto simp: has_room_def in_set_conv_nth)
  then show "room_from T a (length T)"
    using probe_covers [of i "length T" a] by (auto simp: room_from_def)
qed (use assms in \<open>auto simp: room_from_def has_room_def\<close>)

lemma shard_insert_spec:
  assumes "shard_ok s"
  shows "\<exists>T'. shard_insert s incoming = Some (s\<lparr>s_table := T'\<rparr>) \<and> shard_ok (s\<lparr>s_table := T'\<rparr>)
     \<and> inserted (has_room (s_table s)) incoming (s_table s) T'"
proof -
  let ?T = "s_table s" and ?slot = "table_slot (e_key_hash incoming) (s_cap s)"
  let ?inc = "incoming\<lparr>e_probe_dist := 0\<rparr>"
  have cap: "pow2_word (s_cap s)" "length ?T = unat (s_cap s)" and ne: "?T \<noteq> []"
    using assms by (auto simp: shard_ok_def tab_ok_def)
  have slot: "unat ?slot = home ?T ?inc" using cap by (simp add: slot_simps)
  have "reaches ?T (home ?T ?inc) (unat ?slot)"
    unfolding reaches_def slot by (intro exI [of _ 0]) simp
  moreover have "unat ?slot < length ?T" using slot ne by simp
  ultimately obtain T' where "shard_insert_loop (length ?T) s ?inc ?slot = Some (s\<lparr>s_table := T'\<rparr>)"
    "length T' = length ?T" "tab_ok T'" "inserted (room_from ?T (unat ?slot) (length ?T)) ?inc ?T T'"
    using shard_insert_loop_spec [OF assms, of ?slot ?inc "length ?T"] by blast
  then show ?thesis
    using cap shard_ok_table [OF assms] room_from_all [OF ne]
    by (auto simp: shard_insert_def inserted_def)
qed

section \<open>Eviction\<close>

text \<open>
  The outcome of a sweep over the table \<open>T\<close> of \<open>s\<close>: either nothing was evicted, and then
  every live entry it visited had its reference bit set, or one live entry is gone and its
  slot is free.
\<close>

definition swept :: "vc_shard \<Rightarrow> vc_shard \<Rightarrow> u32 \<Rightarrow> bool \<Rightarrow> bool" where
  "swept s s' r all_ref \<longleftrightarrow>
     s' = s\<lparr>s_table := s_table s', s_count := s_count s', s_evictions := s_evictions s',
            s_clock_hand := s_clock_hand s'\<rparr>
     \<and> (if r = UINT32_MAX
        then lives (s_table s') = lives (s_table s) \<and> s_count s' = s_count s
          \<and> map e_state (s_table s') = map e_state (s_table s) \<and> all_ref
        else (\<exists>e. lives (s_table s) = add_mset e (lives (s_table s')))
          \<and> s_count s' = s_count s - 1 \<and> has_room (s_table s'))"

definition refd :: "vc_entry list \<Rightarrow> nat \<Rightarrow> nat \<Rightarrow> bool" where
  "refd T a k \<longleftrightarrow> (\<forall>j<k. e_state (probe T a j) = LIVE \<longrightarrow> e_clock_bit (probe T a j) \<noteq> 0)"

lemma refd_Suc:
  "refd T a (Suc k) \<longleftrightarrow>
     (e_state (T ! (a mod length T)) = LIVE \<longrightarrow> e_clock_bit (T ! (a mod length T)) \<noteq> 0)
     \<and> refd T (Suc (a mod length T)) k"
proof -
  have "(Suc (a mod length T) + j) mod length T = (a + Suc j) mod length T" for j
    using mod_add_left_eq [of a "length T" "Suc j"] by simp
  moreover have "(\<forall>j < Suc k. P j) \<longleftrightarrow> P 0 \<and> (\<forall>j<k. P (Suc j))" for P
    using less_Suc_eq_0_disj by auto
  ultimately show ?thesis by (simp add: refd_def)
qed

lemma refd_clear:
  assumes "refd (T[i := (T ! i)\<lparr>e_clock_bit := 0\<rparr>]) a k" and "e_clock_bit (T ! i) \<noteq> 0" and "T \<noteq> []"
  shows "refd T a k"
  unfolding refd_def
proof (intro allI impI)
  fix j assume j: "j < k" "e_state (probe T a j) = LIVE"
  then show "e_clock_bit (probe T a j) \<noteq> 0"
    using assms by (cases "(a + j) mod length T = i") (auto simp: refd_def)
qed

lemma tab_ok_kill:
  assumes "tab_ok T" and "i < length T"
  shows "tab_ok (T[i := (T ! i)\<lparr>e_state := DEAD\<rparr>])"
  by (rule tab_ok_update [OF assms]) simp_all

lemma lives_kill:
  assumes "i < length T" and "e_state (T ! i) = LIVE"
  shows "lives T = add_mset (core (T ! i)) (lives (T[i := (T ! i)\<lparr>e_state := DEAD\<rparr>]))"
  using lives_update [OF assms(1), of "(T ! i)\<lparr>e_state := DEAD\<rparr>"] assms(2) by simp

lemma kill_has_room:
  assumes "i < length T" shows "has_room (T[i := (T ! i)\<lparr>e_state := DEAD\<rparr>])"
  unfolding has_room_def using assms
  by (intro bexI [of _ "(T ! i)\<lparr>e_state := DEAD\<rparr>"]) (simp_all add: set_update_memI)

lemma set_clock_keeps:
  assumes "tab_ok T" and "i < length T"
  shows "tab_ok (T[i := (T ! i)\<lparr>e_clock_bit := b\<rparr>])"
    and "lives (T[i := (T ! i)\<lparr>e_clock_bit := b\<rparr>]) = lives T"
    and "map e_state (T[i := (T ! i)\<lparr>e_clock_bit := b\<rparr>]) = map e_state T"
proof -
  let ?x = "(T ! i)\<lparr>e_clock_bit := b\<rparr>"
  have st: "e_state (T[i := ?x] ! j) = e_state (T ! j)" if "j < length T" for j
    using that by (cases "j = i") auto
  show map: "map e_state (T[i := ?x]) = map e_state T"
    by (rule nth_equalityI) (use st in auto)
  show "lives (T[i := ?x]) = lives T"
    using lives_update [OF assms(2), of ?x] by (auto split: if_splits)
  have "reaches (T[i := ?x]) a j" if "reaches T a j" for a j
    by (rule reaches_mono [OF that]) (use st in auto)
  moreover have "e_key_hash (T[i := ?x] ! j) = e_key_hash (T ! j)" if "j < length T" for j
    using that by (cases "j = i") auto
  moreover have "e_state e \<noteq> BUSY" if e: "e \<in> set (T[i := ?x])" for e
  proof -
    obtain j where "j < length T" "e = T[i := ?x] ! j" using e by (auto simp: in_set_conv_nth)
    then show ?thesis using st [of j] nth_mem [of j T] assms(1) by (simp add: tab_ok_def)
  qed
  ultimately show "tab_ok (T[i := ?x])"
    using assms(1) st by (auto simp: tab_ok_def)
qed

text \<open>\<open>R\<close> stands for the entries of the other shards.\<close>

lemma shard_evict_loop_spec:
  assumes "shard_ok s" and "heap_inv m sl fls X (lives (s_table s) + R)"
  shows "\<exists>r m' sl' s' fls'. shard_evict_loop k m sl s h = Some (r, m', sl', s') \<and> shard_ok s'
     \<and> heap_inv m' sl' fls' X (lives (s_table s') + R) \<and> same_contents m m' (lives (s_table s') + R)
     \<and> swept s s' r (refd (s_table s) (Suc (unat h)) k)"
  using assms
proof (induction k arbitrary: s h)
  case 0
  then show ?case by (auto simp: swept_def refd_def same_contents_def)
next
  case (Suc k)
  let ?T = "s_table s"
  define g where "g = next_slot h (s_cap s)"
  define i where "i = unat g"
  define e where "e = ?T ! i"
  have cap: "pow2_word (s_cap s)" "length ?T = unat (s_cap s)" and tab: "tab_ok ?T"
    using Suc.prems(1) by (simp_all add: shard_ok_def)
  have ne: "?T \<noteq> []" using tab by (simp add: tab_ok_def)
  have i: "i = Suc (unat h) mod length ?T" using cap by (simp add: i_def g_def slot_simps)
  then have il: "i < length ?T" using ne by simp
  have nth: "nth_opt ?T i = Some e" using il by (simp add: e_def)
  have refd: "refd ?T (Suc (unat h)) (Suc k) \<longleftrightarrow>
      (e_state e = LIVE \<longrightarrow> e_clock_bit e \<noteq> 0) \<and> refd ?T (Suc i) k"
    by (simp only: refd_Suc i [symmetric] e_def)
  consider (skip) "e_state e \<noteq> LIVE" | (clear) "e_state e = LIVE" "e_clock_bit e \<noteq> 0"
    | (evict) "e_state e = LIVE" "e_clock_bit e = 0" by blast
  then show ?case
  proof cases
    case skip
    then show ?thesis
      using Suc.IH [OF Suc.prems, of g] nth refd by (simp add: g_def [symmetric] i_def [symmetric])
  next
    case clear
    define s1 where "s1 = s\<lparr>s_table := ?T[i := e\<lparr>e_clock_bit := 0\<rparr>]\<rparr>"
    note keep = set_clock_keeps [OF tab il, of 0, folded e_def]
    have "shard_ok s1" using shard_ok_table [OF Suc.prems(1) _ keep(1)] by (simp add: s1_def)
    moreover have "heap_inv m sl fls X (lives (s_table s1) + R)"
      using Suc.prems(2) keep(2) by (simp add: s1_def)
    ultimately obtain r m' sl' s' fls' where IH: "shard_evict_loop k m sl s1 g = Some (r, m', sl', s')"
      "shard_ok s'" "heap_inv m' sl' fls' X (lives (s_table s') + R)"
      "same_contents m m' (lives (s_table s') + R)" "swept s1 s' r (refd (s_table s1) (Suc i) k)"
      using Suc.IH [of s1 g] by (auto simp: i_def)
    have "refd (s_table s1) (Suc i) k \<Longrightarrow> refd ?T (Suc i) k"
      using refd_clear [of ?T i "Suc i" k] clear(2) ne by (simp add: s1_def e_def)
    then have "swept s s' r (refd ?T (Suc (unat h)) (Suc k))"
      using IH(5) keep(2,3) clear refd by (auto simp: swept_def s1_def)
    moreover have "shard_evict_loop (Suc k) m sl s h = Some (r, m', sl', s')"
      using IH(1) nth clear by (simp add: s1_def g_def [symmetric] i_def [symmetric] Let_def)
    ultimately show ?thesis using IH(2-4) by blast
  next
    case evict
    define T' where "T' = ?T[i := e\<lparr>e_state := DEAD\<rparr>]"
    define s' where "s' = s\<lparr>s_table := T', s_count := s_count s - 1,
      s_evictions := s_evictions s + 1, s_clock_hand := g\<rparr>"
    have lv: "lives ?T = add_mset (core e) (lives T')"
      using lives_kill [OF il] evict(1) by (simp add: T'_def e_def)
    then have "heap_inv m sl fls X (add_mset (core e) (lives T' + R))" using Suc.prems(2) by simp
    then obtain m' sl' fls' where f: "entry_free_resources m sl (core e) = Some (m', sl')"
      "heap_inv m' sl' fls' X (lives T' + R)" "same_contents m m' (lives T' + R)"
      using entry_free_resources_ok by blast
    have "entry_free_resources m sl (e\<lparr>e_state := BUSY\<rparr>) = Some (m', sl')"
      using f(1) entry_core(6) [of m sl "e\<lparr>e_state := BUSY\<rparr>"] by simp
    then have "shard_evict_loop (Suc k) m sl s h = Some (g, m', sl', s')"
      using nth evict
      by (simp add: s'_def T'_def g_def [symmetric] i_def [symmetric] Let_def)
    moreover have "tab_ok T'" using tab_ok_kill [OF tab il] by (simp add: T'_def e_def)
    then have "shard_ok s'" using Suc.prems(1) by (simp add: shard_ok_def s'_def T'_def)
    moreover have "g \<noteq> UINT32_MAX"
      using slot_ne_max(1) [OF Suc.prems(1) il] by (simp add: i_def)
    then have "swept s s' g (refd ?T (Suc (unat h)) (Suc k))"
      using lv kill_has_room [OF il] by (auto simp: swept_def s'_def T'_def e_def)
    ultimately show ?thesis using f(2,3) by (auto simp: s'_def)
  qed
qed

lemma refd_all:
  assumes "T \<noteq> []" and "refd T a (length T)" and "e \<in> set T" and "e_state e = LIVE"
  shows "e_clock_bit e \<noteq> 0"
proof -
  obtain i where i: "i < length T" "e = T ! i" using assms(3) by (auto simp: in_set_conv_nth)
  obtain j where "j < length T" "(a + j) mod length T = i" using probe_covers [OF i(1)] by blast
  then show ?thesis using assms(2,4) i(2) by (auto simp: refd_def)
qed

lemma shard_evict_one_spec:
  assumes s: "shard_ok s" and "heap_inv m sl fls X (lives (s_table s) + R)"
  shows "\<exists>r m' sl' s' fls'. shard_evict_one m sl s = Some (r, m', sl', s') \<and> shard_ok s'
     \<and> heap_inv m' sl' fls' X (lives (s_table s') + R) \<and> same_contents m m' (lives (s_table s') + R)
     \<and> swept s s' r (\<forall>e \<in> set (s_table s). e_state e = LIVE \<longrightarrow> e_clock_bit e \<noteq> 0)"
proof -
  let ?T = "s_table s" and ?a = "Suc (unat (s_clock_hand s))"
  have ne: "?T \<noteq> []" and n: "length ?T = unat (s_cap s)"
    using s by (auto simp: shard_ok_def tab_ok_def)
  obtain r m' sl' s' fls' where *: "shard_evict_one m sl s = Some (r, m', sl', s')" "shard_ok s'"
    "heap_inv m' sl' fls' X (lives (s_table s') + R)" "same_contents m m' (lives (s_table s') + R)"
    "swept s s' r (refd ?T ?a (length ?T))"
    using shard_evict_loop_spec [OF assms, of "length ?T" "s_clock_hand s"]
    by (auto simp: shard_evict_one_def n)
  have "swept s s' r (\<forall>e \<in> set ?T. e_state e = LIVE \<longrightarrow> e_clock_bit e \<noteq> 0)"
    using *(5) refd_all [OF ne, of ?a] by (auto simp: swept_def)
  then show ?thesis using *(1-4) by blast
qed

end
