(* ===== verification/Wal.thy ===== *)
theory Wal
  imports Hashing Slab
begin

text \<open>
  The write-ahead log of \<^verbatim>\<open>src/voidcache.c\<close>: a ring of bytes mapped from a file, to which
  each mutation appends a 64-byte header followed by key and value. The mutex around an
  append is taken and released within it, and flushing to the file (\<^verbatim>\<open>msync\<close>) changes no
  byte of the ring; neither is a field here. What \<^verbatim>\<open>open\<close>, \<^verbatim>\<open>ftruncate\<close> and \<^verbatim>\<open>mmap\<close> return
  is an argument of \<open>wal_init\<close>.
\<close>

record vc_wal =
  w_ring :: "bytes option"
  w_ring_size :: nat
  w_write_pos :: u64
  w_wal_seq :: u64

record vc_wal_hdr =
  h_magic :: u32
  h_op :: u8
  h_key_len :: u32
  h_val_len :: u32
  h_ttl_sec :: u32
  h_crc32 :: u32
  h_seq :: u64
  h_ts_ns :: u64

abbreviation (input) VC_WAL_SET :: u8 where "VC_WAL_SET \<equiv> 0x53"
abbreviation (input) VC_WAL_DEL :: u8 where "VC_WAL_DEL \<equiv> 0x44"
abbreviation (input) WAL_MAGIC_V :: u32 where "WAL_MAGIC_V \<equiv> 0xC0CA1E01"
abbreviation (input) VC_WAL_RING_SIZE :: nat where "VC_WAL_RING_SIZE \<equiv> 64 * 1024 * 1024"

text \<open>The packed header, padding included.\<close>

definition hdr_bytes :: "vc_wal_hdr \<Rightarrow> bytes" where
  "hdr_bytes h = le_bytes 4 (h_magic h) @ [h_op h] @ replicate 3 0 @ le_bytes 4 (h_key_len h)
     @ le_bytes 4 (h_val_len h) @ le_bytes 4 (h_ttl_sec h) @ le_bytes 4 (h_crc32 h)
     @ le_bytes 8 (h_seq h) @ le_bytes 8 (h_ts_ns h) @ replicate 24 0"

definition wal_init :: "bool \<Rightarrow> bool \<Rightarrow> bool \<Rightarrow> bytes option \<Rightarrow> vc_wal \<Rightarrow> vc_err \<times> vc_wal" where
  "wal_init path open_ok trunc_ok mapped w =
     (if \<not> path then (VC_OK, w\<lparr>w_ring := None\<rparr>)
      else (let w = w\<lparr>w_ring_size := VC_WAL_RING_SIZE\<rparr> in
        if \<not> open_ok then (VC_ERR_WAL, w)
        else if \<not> trunc_ok then (VC_ERR_WAL, w)
        else case mapped of None \<Rightarrow> (VC_ERR_WAL, w)
             | Some ring \<Rightarrow> (VC_OK, w\<lparr>w_ring := Some ring, w_write_pos := 0, w_wal_seq := 0\<rparr>)))"

definition wal_destroy :: "vc_wal \<Rightarrow> vc_wal" where
  "wal_destroy w = (case w_ring w of None \<Rightarrow> w | Some _ \<Rightarrow> w\<lparr>w_ring := None\<rparr>)"

definition wal_crc :: "u8 \<Rightarrow> bytes \<Rightarrow> bytes \<Rightarrow> u32 option" where
  "wal_crc op key val = do {
     crc \<leftarrow> xxh32 [op] 0;
     crc \<leftarrow> xxh32 key crc;
     if val \<noteq> [] then xxh32 val crc else Some crc
   }"

text \<open>
  The mask \<^verbatim>\<open>~7u\<close> is a 32-bit constant, so rounding up to 8 bytes also drops the bits of the
  sum above the 32nd.
\<close>

definition wal_total :: "nat \<Rightarrow> nat \<Rightarrow> nat" where
  "wal_total kl vl = ((64 + (kl + vl) + 7) mod 2 ^ 32) div 8 * 8"

definition wal_pos :: "vc_wal \<Rightarrow> nat \<Rightarrow> nat" where
  "wal_pos w tot =
     (let pos = unat (w_write_pos w) mod w_ring_size w in
      if pos + tot > w_ring_size w then 0 else pos)"

definition wal_append ::
  "vc_wal \<Rightarrow> u8 \<Rightarrow> bytes \<Rightarrow> u32 \<Rightarrow> bytes \<Rightarrow> u32 \<Rightarrow> u32 \<Rightarrow> u64 \<Rightarrow> vc_wal option" where
  "wal_append w op key kl val vl ttl_sec wall =
     (case w_ring w of None \<Rightarrow> Some w
      | Some ring \<Rightarrow> do {
          key \<leftarrow> sub_bytes key 0 (unat kl);
          val \<leftarrow> sub_bytes val 0 (unat vl);
          let tot = wal_total (unat kl) (unat vl);
          let pos = wal_pos w tot;
          crc \<leftarrow> wal_crc op key val;
          let hdr = \<lparr>h_magic = WAL_MAGIC_V, h_op = op, h_key_len = kl, h_val_len = vl,
                     h_ttl_sec = ttl_sec, h_crc32 = crc, h_seq = w_wal_seq w, h_ts_ns = wall\<rparr>;
          ring \<leftarrow> splice ring pos (hdr_bytes hdr);
          ring \<leftarrow> splice ring (pos + 64) key;
          ring \<leftarrow> (if unat vl \<noteq> 0 then splice ring (pos + 64 + unat kl) val else Some ring);
          Some (w\<lparr>w_ring := Some ring, w_write_pos := of_nat (pos + tot),
                  w_wal_seq := w_wal_seq w + 1\<rparr>)
        })"

section \<open>Reading a record back\<close>

text \<open>
  The record format as \<^verbatim>\<open>include/voidcache.h\<close> lays it out, read at a position of the ring;
  the result is the header, the key and the value, if magic number and checksum are right.
\<close>

definition wal_record :: "bytes \<Rightarrow> nat \<Rightarrow> (vc_wal_hdr \<times> bytes \<times> bytes) option" where
  "wal_record ring pos = do {
     magic \<leftarrow> rd32 ring pos;
     op \<leftarrow> nth_opt ring (pos + 4);
     kl \<leftarrow> rd32 ring (pos + 8);
     vl \<leftarrow> rd32 ring (pos + 12);
     ttl \<leftarrow> rd32 ring (pos + 16);
     crc \<leftarrow> rd32 ring (pos + 20);
     seq \<leftarrow> rd64 ring (pos + 24);
     ts \<leftarrow> rd64 ring (pos + 32);
     key \<leftarrow> sub_bytes ring (pos + 64) (unat kl);
     val \<leftarrow> sub_bytes ring (pos + 64 + unat kl) (unat vl);
     crc' \<leftarrow> wal_crc op key val;
     if magic = WAL_MAGIC_V \<and> crc = crc'
     then Some (\<lparr>h_magic = magic, h_op = op, h_key_len = kl, h_val_len = vl, h_ttl_sec = ttl,
                 h_crc32 = crc, h_seq = seq, h_ts_ns = ts\<rparr>, key, val)
     else None
   }"

definition wal_inv :: "vc_wal \<Rightarrow> bool" where
  "wal_inv w \<longleftrightarrow> (\<forall>ring. w_ring w = Some ring \<longrightarrow>
     length ring = w_ring_size w \<and> 0 < w_ring_size w \<and> w_ring_size w \<le> 2 ^ 31)"

lemma length_hdr_bytes [simp]: "length (hdr_bytes h) = 64"
  by (simp add: hdr_bytes_def)

lemma wal_crc_total: "\<exists>crc. wal_crc op key val = Some crc"
proof -
  obtain c1 where "xxh32 [op] 0 = Some c1" using xxh32_total by blast
  moreover obtain c2 where "xxh32 key c1 = Some c2" using xxh32_total by blast
  moreover obtain c3 where "xxh32 val c2 = Some c3" using xxh32_total by blast
  ultimately show ?thesis by (simp add: wal_crc_def)
qed

lemma wal_total_ge:
  assumes "64 + kl + vl \<le> 2 ^ 31"
  shows "64 + kl + vl \<le> wal_total kl vl"
proof -
  have "wal_total kl vl = (64 + (kl + vl) + 7) div 8 * 8"
    using assms by (simp add: wal_total_def)
  then show ?thesis
    using div_mult_mod_eq [of "64 + (kl + vl) + 7" 8] mod_less_divisor [of 8 "64 + (kl + vl) + 7"]
    by linarith
qed

lemma wal_pos_fits:
  assumes "64 + kl + vl \<le> w_ring_size w" and "w_ring_size w \<le> 2 ^ 31"
  shows "wal_pos w (wal_total kl vl) + 64 + kl + vl \<le> w_ring_size w"
  using assms wal_total_ge [of kl vl] by (auto simp: wal_pos_def Let_def)

text \<open>The copies of header, key and value replace one stretch of the ring.\<close>

lemma wal_append_ring:
  assumes inv: "wal_inv w" and ring: "w_ring w = Some ring"
    and kl: "unat kl = length key" and vl: "unat vl = length val"
    and fit: "64 + length key + length val \<le> w_ring_size w"
    and crc: "wal_crc op key val = Some crc"
    and pos: "pos = wal_pos w (wal_total (length key) (length val))"
    and hdr: "hdr = \<lparr>h_magic = WAL_MAGIC_V, h_op = op, h_key_len = kl, h_val_len = vl,
                  h_ttl_sec = ttl, h_crc32 = crc, h_seq = w_wal_seq w, h_ts_ns = wall\<rparr>"
  shows "pos + 64 + length key + length val \<le> length ring"
    and "wal_append w op key kl val vl ttl wall =
         Some (w\<lparr>w_ring := Some (take pos ring @ hdr_bytes hdr @ key @ val
                                 @ drop (pos + 64 + length key + length val) ring),
                 w_write_pos := of_nat (pos + wal_total (length key) (length val)),
                 w_wal_seq := w_wal_seq w + 1\<rparr>)"
proof -
  show le: "pos + 64 + length key + length val \<le> length ring"
    using wal_pos_fits [OF fit] inv ring by (simp add: pos wal_inv_def)
  let ?r1 = "take pos ring @ hdr_bytes hdr @ drop (pos + 64) ring"
  let ?r2 = "take pos ring @ hdr_bytes hdr @ key @ drop (pos + 64 + length key) ring"
  let ?r3 = "take pos ring @ hdr_bytes hdr @ key @ val @ drop (pos + 64 + length key + length val) ring"
  have "Prelude.splice ring pos (hdr_bytes hdr) = Some ?r1" using le by simp
  moreover have "Prelude.splice ?r1 (pos + 64) key = Some ?r2" using le by (simp add: ac_simps)
  moreover have "Prelude.splice ?r2 (pos + 64 + length key) val = Some ?r3"
    using le by (simp add: ac_simps)
  moreover have "wal_pos w (wal_total (length key) 0) = pos" if "length val = 0"
    using that by (simp add: pos)
  ultimately show "wal_append w op key kl val vl ttl wall =
         Some (w\<lparr>w_ring := Some ?r3,
                 w_write_pos := of_nat (pos + wal_total (length key) (length val)),
                 w_wal_seq := w_wal_seq w + 1\<rparr>)"
    using ring crc kl vl
    by (cases "length val = 0") (simp_all add: wal_append_def Let_def pos [symmetric] hdr [symmetric])
qed

lemma sub_bytes_skip: "sub_bytes (pre @ xs) (length pre + k) n = sub_bytes xs k n"
  by (simp add: sub_bytes_def)

lemma rd_skip:
  "rd32 (pre @ xs) (length pre + k) = rd32 xs k" "rd64 (pre @ xs) (length pre + k) = rd64 xs k"
  by (simp_all add: rd32_def rd64_def sub_bytes_skip)

lemma nth_opt_skip: "nth_opt (pre @ xs) (length pre + k) = nth_opt xs k"
  by (simp add: nth_opt_def nth_append)

lemma hdr_fields:
  "rd32 (hdr_bytes h @ xs) 0 = Some (h_magic h)" "nth_opt (hdr_bytes h @ xs) 4 = Some (h_op h)"
  "rd32 (hdr_bytes h @ xs) 8 = Some (h_key_len h)" "rd32 (hdr_bytes h @ xs) 12 = Some (h_val_len h)"
  "rd32 (hdr_bytes h @ xs) 16 = Some (h_ttl_sec h)" "rd32 (hdr_bytes h @ xs) 20 = Some (h_crc32 h)"
  "rd64 (hdr_bytes h @ xs) 24 = Some (h_seq h)" "rd64 (hdr_bytes h @ xs) 32 = Some (h_ts_ns h)"
  by (simp_all add: hdr_bytes_def rd32_def rd64_def of_le_le_bytes nth_append)

lemma wal_record_at:
  assumes "h_magic h = WAL_MAGIC_V" and "unat (h_key_len h) = length key"
    and "unat (h_val_len h) = length val" and "wal_crc (h_op h) key val = Some (h_crc32 h)"
  shows "wal_record (pre @ hdr_bytes h @ key @ val @ post) (length pre) = Some (h, key, val)"
proof -
  let ?r = "hdr_bytes h @ key @ val @ post"
  have k: "sub_bytes (pre @ ?r) (length pre + 64) (length key) = Some key"
    using sub_bytes_skip [of pre ?r 64] sub_bytes_skip [of "hdr_bytes h" "key @ val @ post" 0] by simp
  have v: "sub_bytes (pre @ ?r) (length pre + 64 + length key) (length val) = Some val"
    using sub_bytes_skip [of pre ?r "64 + length key"]
      sub_bytes_skip [of "hdr_bytes h @ key" "val @ post" 0] by (simp add: add.assoc)
  have z: "rd32 (pre @ ?r) (length pre) = rd32 ?r 0" using rd_skip(1) [of pre ?r 0] by simp
  show ?thesis
    using assms k v by (simp add: wal_record_def z rd_skip nth_opt_skip hdr_fields)
qed

section \<open>A small log\<close>

definition demo_wal :: vc_wal where
  "demo_wal = \<lparr>w_ring = Some (replicate 128 0), w_ring_size = 128, w_write_pos = 80, w_wal_seq = 1\<rparr>"

lemma demo_wal_ok: "wal_inv demo_wal" "w_ring demo_wal = Some (replicate 128 0)"
  "w_ring_size demo_wal = 128"
  by (simp_all add: demo_wal_def wal_inv_def)

text \<open>
  C34 (roundtrip): appending a record that fits the ring succeeds, keeps the log well
  formed, advances the sequence number, changes no byte outside the record, and the record
  read back at its position is the header, the key and the value that were written, with a
  checksum that verifies.
\<close>

theorem wal_append_roundtrip:
  assumes "wal_inv w" and "w_ring w = Some ring"
    and "unat kl = length key" and "unat vl = length val"
    and "64 + length key + length val \<le> w_ring_size w"
  shows "\<exists>w' ring' hdr pos. wal_append w op key kl val vl ttl wall = Some w'
    \<and> w_ring w' = Some ring' \<and> wal_inv w' \<and> w_wal_seq w' = w_wal_seq w + 1
    \<and> pos = wal_pos w (wal_total (length key) (length val))
    \<and> wal_record ring' pos = Some (hdr, key, val)
    \<and> h_op hdr = op \<and> h_ttl_sec hdr = ttl \<and> h_seq hdr = w_wal_seq w \<and> h_ts_ns hdr = wall
    \<and> take pos ring' = take pos ring
    \<and> drop (pos + 64 + length key + length val) ring' = drop (pos + 64 + length key + length val) ring"
proof -
  define pos where "pos = wal_pos w (wal_total (length key) (length val))"
  obtain crc where crc: "wal_crc op key val = Some crc" using wal_crc_total by blast
  define hdr where "hdr = \<lparr>h_magic = WAL_MAGIC_V, h_op = op, h_key_len = kl, h_val_len = vl,
            h_ttl_sec = ttl, h_crc32 = crc, h_seq = w_wal_seq w, h_ts_ns = wall\<rparr>"
  note app = wal_append_ring [OF assms crc pos_def hdr_def]
  define ring' where "ring' = take pos ring @ hdr_bytes hdr @ key @ val
    @ drop (pos + 64 + length key + length val) ring"
  have le: "pos + 64 + length key + length val \<le> length ring" by (rule app(1))
  then have pre: "length (take pos ring) = pos" by simp
  have rec: "wal_record ring' pos = Some (hdr, key, val)"
    using wal_record_at [of hdr key val "take pos ring" "drop (pos + 64 + length key + length val) ring"]
      assms(3,4) crc pre by (simp add: ring'_def hdr_def)
  have len: "length ring' = length ring" using le by (simp add: ring'_def)
  have tk: "take pos ring' = take pos ring" using pre by (simp add: ring'_def)
  have dr: "drop (pos + 64 + length key + length val) ring' = drop (pos + 64 + length key + length val) ring"
    using le by (simp add: ring'_def)
  show ?thesis
    using app(2) rec len tk dr assms(1,2)
    by (simp add: ring'_def [symmetric] pos_def [symmetric] wal_inv_def) (simp add: hdr_def)
qed

theorem wal_append_roundtrip_witness:
  "\<exists>w' ring' hdr. wal_append demo_wal VC_WAL_SET [107, 49] 2 [118] 1 30 7 = Some w'
    \<and> w_ring w' = Some ring' \<and> wal_record ring' 0 = Some (hdr, [107, 49], [118])
    \<and> h_op hdr = VC_WAL_SET \<and> h_ttl_sec hdr = 30 \<and> h_seq hdr = 1"
proof -
  have "wal_pos demo_wal (wal_total 2 1) = 0"
    by (simp add: wal_pos_def wal_total_def demo_wal_def Let_def)
  then show ?thesis
    using wal_append_roundtrip [OF demo_wal_ok(1,2), of 2 "[107, 49]" 1 "[118]" VC_WAL_SET 30 7]
    by (auto simp: demo_wal_ok(3) numeral_2_eq_2 [symmetric]) (simp add: demo_wal_def)
qed

text \<open>
  With the log enabled, an append writes outside the ring exactly when header,
  key and value together are longer than the ring: such a record is not refused, it is
  written and runs over the end of the mapping.
\<close>

theorem wal_append_overrun:
  assumes "wal_inv w" and "w_ring w = Some ring"
    and "unat kl = length key" and "unat vl = length val"
  shows "wal_append w op key kl val vl ttl wall = None \<longleftrightarrow>
     w_ring_size w < 64 + length key + length val"
proof (cases "64 + length key + length val \<le> w_ring_size w")
  case True
  obtain crc where "wal_crc op key val = Some crc" using wal_crc_total by blast
  then show ?thesis using wal_append_ring(2) [OF assms True _ refl refl] True by simp
next
  case False
  obtain crc where "wal_crc op key val = Some crc" using wal_crc_total by blast
  then show ?thesis
    using False assms by (auto simp: wal_append_def wal_inv_def splice_def Let_def)
qed

theorem wal_append_overrun_witness:
  "wal_append demo_wal VC_WAL_SET [107] 1 (replicate 64 0) 64 0 0 = None"
  using wal_append_overrun [OF demo_wal_ok(1,2), of 1 "[107]" 64 "replicate 64 0" VC_WAL_SET 0 0]
  by (simp add: demo_wal_ok(3))

end
