(* ===== verification/Cache.thy ===== *)
theory Cache
  imports Shard Wal
begin

text \<open>
  The public interface of \<^verbatim>\<open>src/voidcache.c\<close>: creation and destruction, \<^verbatim>\<open>vc_set\<close>,
  \<^verbatim>\<open>vc_get\<close>, \<^verbatim>\<open>vc_del\<close>, \<^verbatim>\<open>vc_flush\<close> and \<^verbatim>\<open>vc_stats\<close>, run by one thread. The cache handle is
  the state, so the null-handle guards have no counterpart. A key or value pointer that may
  be null is an option. What the machine decides is in \<open>env\<close>: the readings of the clocks in
  the order a call makes them, and what \<^verbatim>\<open>malloc\<close> and \<^verbatim>\<open>mmap\<close> return. The result \<open>None\<close>
  means that the call leaves its memory or never returns.
\<close>

record vc_cache =
  c_shards :: "vc_shard list"
  c_slab :: slab
  c_wal :: vc_wal
  c_max_memory :: nat
  c_default_ttl_sec :: u32
  c_total_memory :: u64
  c_mem :: cmem

record env =
  clk1 :: u64
  clk2 :: u64
  wall :: u64
  ret_malloc :: "addr option"
  ret_mmap :: "addr option"

abbreviation (input) VC_NUM_SHARDS :: nat where "VC_NUM_SHARDS \<equiv> 64"
abbreviation (input) VC_SEQLOCK_RETRY :: nat where "VC_SEQLOCK_RETRY \<equiv> 8"

section \<open>Life cycle\<close>

record create_env =
  alloc_ok :: bool
  slab_maps :: "addr option list"
  wal_open :: bool
  wal_trunc :: bool
  wal_map :: "bytes option"
  table_maps :: "bool list"

definition new_shard :: "u32 \<Rightarrow> vc_shard" where
  "new_shard cap = \<lparr>s_table = replicate (unat cap) empty_entry, s_cap = cap, s_count = 0,
     s_clock_hand = 0, s_seq = 0, s_wlock = 0, s_hits = 0, s_misses = 0, s_sets = 0,
     s_evictions = 0, s_expirations = 0\<rparr>"

text \<open>The loop over the shards; mapping a table of no bytes fails.\<close>

primrec create_shards :: "bool list \<Rightarrow> u32 \<Rightarrow> vc_shard list option" where
  "create_shards [] cap = Some []"
| "create_shards (ok # oks) cap =
     (if \<not> ok \<or> cap = 0 then None
      else do { ss \<leftarrow> create_shards oks cap; Some (new_shard cap # ss) })"

definition vc_create ::
  "create_env \<Rightarrow> cmem \<Rightarrow> nat \<Rightarrow> bool \<Rightarrow> u32 \<Rightarrow> (vc_cache option \<times> cmem) option" where
  "vc_create ce m max_mem wal_path shard_slots =
     (if \<not> alloc_ok ce then Some (None, m)
      else do {
        (err, sl, m) \<leftarrow> slab_init (slab_maps ce) m;
        if err \<noteq> VC_OK then Some (None, m)
        else (case wal_init wal_path (wal_open ce) (wal_trunc ce) (wal_map ce)
                     \<lparr>w_ring = None, w_ring_size = 0, w_write_pos = 0, w_wal_seq = 0\<rparr> of
          (err, w) \<Rightarrow>
            if err \<noteq> VC_OK then Some (None, slab_destroy sl m)
            else (let cap = next_pow2_32 (if shard_slots \<noteq> 0 then shard_slots else 1024) in
              case create_shards (take VC_NUM_SHARDS (table_maps ce)) cap of
                None \<Rightarrow> Some (None, slab_destroy sl m)
              | Some ss \<Rightarrow>
                  Some (Some \<lparr>c_shards = ss, c_slab = sl, c_wal = w, c_max_memory = max_mem,
                              c_default_ttl_sec = 0, c_total_memory = 0, c_mem = m\<rparr>, m)))
      })"

primrec destroy_table :: "vc_entry list \<Rightarrow> cmem \<Rightarrow> slab \<Rightarrow> (cmem \<times> slab) option" where
  "destroy_table [] m sl = Some (m, sl)"
| "destroy_table (e # es) m sl = do {
     (m, sl) \<leftarrow> (if e_state e = LIVE then entry_free_resources m sl e else Some (m, sl));
     destroy_table es m sl
   }"

primrec destroy_shards :: "vc_shard list \<Rightarrow> cmem \<Rightarrow> slab \<Rightarrow> (cmem \<times> slab) option" where
  "destroy_shards [] m sl = Some (m, sl)"
| "destroy_shards (s # ss) m sl = do {
     (m, sl) \<leftarrow> destroy_table (s_table s) m sl;
     destroy_shards ss m sl
   }"

text \<open>After \<^verbatim>\<open>vc_destroy\<close> the memory is all that is left.\<close>

definition vc_destroy :: "vc_cache \<Rightarrow> cmem option" where
  "vc_destroy c = do {
     (m, sl) \<leftarrow> destroy_shards (c_shards c) (c_mem c) (c_slab c);
     Some (slab_destroy sl m)
   }"

section \<open>Set\<close>

text \<open>The entry \<^verbatim>\<open>vc_set\<close> builds before it takes the lock, with its allocations.\<close>

definition set_entry0 :: "env \<Rightarrow> bytes \<Rightarrow> bytes \<Rightarrow> u32 \<Rightarrow> u64 \<Rightarrow> vc_entry" where
  "set_entry0 env key val ttl_sec h =
     empty_entry\<lparr>e_key_hash := h, e_key_len := of_nat (length key),
       e_val_len := of_nat (if length val > 65535 then 65535 else length val),
       e_expire_ns := (if ttl_sec \<noteq> 0 then clk1 env + ucast ttl_sec * 1000000000 else 0)\<rparr>"

definition put_payload :: "vc_entry \<Rightarrow> u8 \<Rightarrow> bytes \<Rightarrow> nat \<Rightarrow> bytes \<Rightarrow> vc_entry option" where
  "put_payload ne flags a off b = do {
     p \<leftarrow> Prelude.splice (e_payload ne) 0 a;
     p \<leftarrow> Prelude.splice p off b;
     Some (ne\<lparr>e_flags := flags, e_payload := p\<rparr>)
   }"

definition set_build ::
  "env \<Rightarrow> vc_cache \<Rightarrow> bytes \<Rightarrow> bytes \<Rightarrow> u32 \<Rightarrow> u64 \<Rightarrow> (vc_err \<times> vc_entry \<times> vc_cache) option" where
  "set_build env c key val ttl_sec h =
     (let key_len = length key; val_len = length val; ne = set_entry0 env key val ttl_sec h;
          mem = c_mem c in
      if key_len + val_len \<le> 32 \<and> \<not> 32 < key_len then do {
        ne \<leftarrow> put_payload ne 0 key key_len val;
        Some (VC_OK, ne, c)
      }
      else if val_len \<le> slab_class_size (VC_SLAB_CLASSES - 1) then do {
        (vbuf, cls, sl) \<leftarrow> slab_alloc mem (c_slab c) val_len;
        if vbuf = NULL then Some (VC_ERR_OOM, ne, c)
        else do {
          mem \<leftarrow> mem_write mem vbuf 0 val;
          if key_len \<le> 32 - 8 then do {
            ne \<leftarrow> put_payload ne VC_EFLAG_VAL_SLAB key key_len (le_bytes 8 vbuf);
            Some (VC_OK, ne, c\<lparr>c_mem := mem, c_slab := sl,
                               c_total_memory := c_total_memory c + of_nat val_len\<rparr>)
          }
          else (case c_malloc mem key_len (ret_malloc env) of (kbuf, mem) \<Rightarrow>
            if kbuf = NULL then do {
              (mem, sl) \<leftarrow> slab_free mem sl vbuf cls;
              Some (VC_ERR_OOM, ne, c\<lparr>c_mem := mem, c_slab := sl\<rparr>)
            }
            else do {
              mem \<leftarrow> mem_write mem kbuf 0 key;
              ne \<leftarrow> put_payload ne (VC_EFLAG_VAL_SLAB OR VC_EFLAG_KEY_LONG)
                      (le_bytes 8 kbuf) 8 (le_bytes 8 vbuf);
              Some (VC_OK, ne, c\<lparr>c_mem := mem, c_slab := sl,
                                 c_total_memory := c_total_memory c + of_nat val_len\<rparr>)
            })
        }
      }
      else (case c_mmap mem val_len (ret_mmap env) of
          (None, mem) \<Rightarrow> Some (VC_ERR_OOM, ne, c)
        | (Some vbuf, mem) \<Rightarrow> do {
            mem \<leftarrow> mem_write mem vbuf 0 val;
            (case c_malloc mem key_len (ret_malloc env) of (kbuf, mem) \<Rightarrow>
              if kbuf = NULL then do {
                mem \<leftarrow> c_munmap mem vbuf val_len;
                Some (VC_ERR_OOM, ne, c\<lparr>c_mem := mem\<rparr>)
              }
              else do {
                mem \<leftarrow> mem_write mem kbuf 0 key;
                ne \<leftarrow> put_payload ne (VC_EFLAG_VAL_MMAP OR VC_EFLAG_KEY_LONG)
                        (le_bytes 8 kbuf) 8 (le_bytes 8 vbuf);
                Some (VC_OK, ne, c\<lparr>c_mem := mem,
                                   c_total_memory := c_total_memory c + of_nat val_len\<rparr>)
              })
          }))"

text \<open>
  The part of \<^verbatim>\<open>vc_set\<close> under the lock: remove the old entry, make room, insert.
\<close>

definition kill_slot :: "vc_shard \<Rightarrow> cmem \<Rightarrow> slab \<Rightarrow> u32 \<Rightarrow> (vc_shard \<times> cmem \<times> slab) option" where
  "kill_slot s m sl slot = do {
     e \<leftarrow> nth_opt (s_table s) (unat slot);
     (m, sl) \<leftarrow> entry_free_resources m sl e;
     Some (s\<lparr>s_table := (s_table s)[unat slot := e\<lparr>e_state := DEAD\<rparr>], s_count := s_count s - 1\<rparr>, m, sl)
   }"

definition evict_if_full :: "vc_shard \<Rightarrow> cmem \<Rightarrow> slab \<Rightarrow> (vc_shard \<times> cmem \<times> slab) option" where
  "evict_if_full s m sl =
     (if 85 \<le> s_count s * 100 div s_cap s then do {
        (_, m, sl, s) \<leftarrow> shard_evict_one m sl s;
        Some (s, m, sl)
      }
      else Some (s, m, sl))"

definition set_commit ::
  "u64 \<Rightarrow> vc_shard \<Rightarrow> cmem \<Rightarrow> slab \<Rightarrow> bytes \<Rightarrow> u64 \<Rightarrow> vc_entry \<Rightarrow> (vc_shard \<times> cmem \<times> slab) option" where
  "set_commit now s m sl key h ne = do {
     s \<leftarrow> shard_lock s;
     let s = seq_write_begin s;
     old_slot \<leftarrow> shard_find m now s key (of_nat (length key)) h;
     (s, m, sl) \<leftarrow> (if old_slot \<noteq> UINT32_MAX then kill_slot s m sl old_slot else Some (s, m, sl));
     (s, m, sl) \<leftarrow> evict_if_full s m sl;
     s \<leftarrow> shard_insert s ne;
     let s = s\<lparr>s_count := s_count s + 1, s_sets := s_sets s + 1\<rparr>;
     Some (shard_unlock (seq_write_end s), m, sl)
   }"

definition vc_set ::
  "env \<Rightarrow> vc_cache \<Rightarrow> bytes option \<Rightarrow> bytes option \<Rightarrow> u32 \<Rightarrow> (vc_err \<times> vc_cache) option" where
  "vc_set env c key val ttl_sec =
     (case (key, val) of
        (Some key, Some val) \<Rightarrow>
          if key = [] \<or> val = [] \<or> length key > unat UINT32_MAX then Some (VC_ERR_INVAL, c)
          else do {
            h \<leftarrow> wyhash64 key 0;
            let si = unat (shard_idx h);
            w \<leftarrow> wal_append (c_wal c) VC_WAL_SET key (of_nat (length key))
                   val (of_nat (length val)) ttl_sec (wall env);
            (err, ne, c) \<leftarrow> set_build env (c\<lparr>c_wal := w\<rparr>) key val ttl_sec h;
            if err \<noteq> VC_OK then Some (err, c)
            else do {
              s \<leftarrow> nth_opt (c_shards c) si;
              (s, m, sl) \<leftarrow> set_commit (clk2 env) s (c_mem c) (c_slab c) key h ne;
              Some (VC_OK, c\<lparr>c_shards := (c_shards c)[si := s], c_mem := m, c_slab := sl\<rparr>)
            }
          }
      | _ \<Rightarrow> Some (VC_ERR_INVAL, c))"

section \<open>Get\<close>

text \<open>
  The pointer \<^verbatim>\<open>vc_get\<close> hands out: into a payload (shard, slot, offset) or to a block.
\<close>

datatype cptr = CNull | CEntry nat nat nat | CHeap addr

definition to_cptr :: "nat \<Rightarrow> nat \<Rightarrow> vptr \<Rightarrow> cptr" where
  "to_cptr si slot p = (case p of PPayload off \<Rightarrow> CEntry si slot off | PHeap a \<Rightarrow> CHeap a)"

definition cptr_read :: "vc_cache \<Rightarrow> cptr \<Rightarrow> nat \<Rightarrow> bytes option" where
  "cptr_read c p n =
     (case p of CNull \<Rightarrow> None
      | CEntry si slot off \<Rightarrow> do {
          s \<leftarrow> nth_opt (c_shards c) si;
          e \<leftarrow> nth_opt (s_table s) slot;
          sub_bytes (e_payload e) off n
        }
      | CHeap a \<Rightarrow> mem_read (c_mem c) a 0 n)"

definition put_shard :: "vc_cache \<Rightarrow> nat \<Rightarrow> vc_shard \<Rightarrow> vc_cache" where
  "put_shard c si s = c\<lparr>c_shards := (c_shards c)[si := s]\<rparr>"

definition touch :: "vc_shard \<Rightarrow> nat \<Rightarrow> vc_entry \<Rightarrow> vc_shard" where
  "touch s slot e = s\<lparr>s_table := (s_table s)[slot := e\<lparr>e_clock_bit := 1\<rparr>], s_hits := s_hits s + 1\<rparr>"

type_synonym get_result = "vc_err \<times> cptr \<times> nat \<times> vc_cache"

text \<open>
  The lock-free attempts; the inner \<open>None\<close> is the fall through to the locked path.
\<close>

primrec vc_get_fast :: "nat \<Rightarrow> u64 \<Rightarrow> vc_cache \<Rightarrow> bytes \<Rightarrow> u64 \<Rightarrow> nat \<Rightarrow> get_result option option" where
  "vc_get_fast 0 now c key h si = Some None"
| "vc_get_fast (Suc retry) now c key h si = do {
     s \<leftarrow> nth_opt (c_shards c) si;
     seq \<leftarrow> seq_read_begin s;
     slot \<leftarrow> shard_find (c_mem c) now s key (of_nat (length key)) h;
     if slot = UINT32_MAX then
       (if seq_read_retry s seq then vc_get_fast retry now c key h si
        else Some (Some (VC_ERR_NOTFND, CNull, 0, put_shard c si (s\<lparr>s_misses := s_misses s + 1\<rparr>))))
     else do {
       e \<leftarrow> nth_opt (s_table s) (unat slot);
       if e_flags e AND (VC_EFLAG_VAL_SLAB OR VC_EFLAG_VAL_MMAP) \<noteq> 0 then
         (if seq_read_retry s seq then vc_get_fast retry now c key h si
          else do {
            p \<leftarrow> entry_val e;
            Some (Some (VC_OK, to_cptr si (unat slot) p, unat (e_val_len e),
                        put_shard c si (touch s (unat slot) e)))
          })
       else Some None
     }
   }"

definition vc_get_locked :: "u64 \<Rightarrow> vc_cache \<Rightarrow> bytes \<Rightarrow> u64 \<Rightarrow> nat \<Rightarrow> get_result option" where
  "vc_get_locked now c key h si = do {
     s \<leftarrow> nth_opt (c_shards c) si;
     s \<leftarrow> shard_lock s;
     slot \<leftarrow> shard_find (c_mem c) now s key (of_nat (length key)) h;
     if slot = UINT32_MAX then
       Some (VC_ERR_NOTFND, CNull, 0,
             put_shard c si ((shard_unlock s)\<lparr>s_misses := s_misses s + 1\<rparr>))
     else do {
       e \<leftarrow> nth_opt (s_table s) (unat slot);
       p \<leftarrow> entry_val e;
       Some (VC_OK, to_cptr si (unat slot) p, unat (e_val_len e),
             put_shard c si (shard_unlock (touch s (unat slot) e)))
     }
   }"

definition vc_get :: "env \<Rightarrow> vc_cache \<Rightarrow> bytes option \<Rightarrow> get_result option" where
  "vc_get env c key =
     (case key of None \<Rightarrow> Some (VC_ERR_INVAL, CNull, 0, c)
      | Some key \<Rightarrow> do {
          h \<leftarrow> wyhash64 key 0;
          let si = unat (shard_idx h);
          r \<leftarrow> vc_get_fast VC_SEQLOCK_RETRY (clk1 env) c key h si;
          (case r of Some res \<Rightarrow> Some res | None \<Rightarrow> vc_get_locked (clk2 env) c key h si)
        })"

section \<open>Delete, flush, statistics\<close>

definition vc_del :: "env \<Rightarrow> vc_cache \<Rightarrow> bytes option \<Rightarrow> (vc_err \<times> vc_cache) option" where
  "vc_del env c key =
     (case key of None \<Rightarrow> Some (VC_ERR_INVAL, c)
      | Some key \<Rightarrow> do {
          h \<leftarrow> wyhash64 key 0;
          let si = unat (shard_idx h);
          w \<leftarrow> wal_append (c_wal c) VC_WAL_DEL key (of_nat (length key)) [] 0 0 (wall env);
          let c = c\<lparr>c_wal := w\<rparr>;
          s \<leftarrow> nth_opt (c_shards c) si;
          s \<leftarrow> shard_lock s;
          let s = seq_write_begin s;
          slot \<leftarrow> shard_find (c_mem c) (clk1 env) s key (of_nat (length key)) h;
          if slot = UINT32_MAX
          then Some (VC_ERR_NOTFND, put_shard c si (shard_unlock (seq_write_end s)))
          else do {
            (s, m, sl) \<leftarrow> kill_slot s (c_mem c) (c_slab c) slot;
            Some (VC_OK, (put_shard c si (shard_unlock (seq_write_end s)))\<lparr>c_mem := m, c_slab := sl\<rparr>)
          }
        })"

primrec flush_table :: "vc_entry list \<Rightarrow> cmem \<Rightarrow> slab \<Rightarrow> (vc_entry list \<times> cmem \<times> slab) option" where
  "flush_table [] m sl = Some ([], m, sl)"
| "flush_table (e # es) m sl = do {
     (e, m, sl) \<leftarrow> (if e_state e = LIVE then do {
                      (m, sl) \<leftarrow> entry_free_resources m sl e;
                      Some (e\<lparr>e_state := DEAD\<rparr>, m, sl)
                    }
                    else Some (e, m, sl));
     (es, m, sl) \<leftarrow> flush_table es m sl;
     Some (e # es, m, sl)
   }"

primrec flush_shards :: "vc_shard list \<Rightarrow> cmem \<Rightarrow> slab \<Rightarrow> (vc_shard list \<times> cmem \<times> slab) option" where
  "flush_shards [] m sl = Some ([], m, sl)"
| "flush_shards (s # ss) m sl = do {
     s \<leftarrow> shard_lock s;
     let s = seq_write_begin s;
     (T, m, sl) \<leftarrow> flush_table (s_table s) m sl;
     let s = shard_unlock (seq_write_end (s\<lparr>s_table := T, s_count := 0\<rparr>));
     (ss, m, sl) \<leftarrow> flush_shards ss m sl;
     Some (s # ss, m, sl)
   }"

definition vc_flush :: "vc_cache \<Rightarrow> vc_cache option" where
  "vc_flush c = do {
     (ss, m, sl) \<leftarrow> flush_shards (c_shards c) (c_mem c) (c_slab c);
     Some (c\<lparr>c_shards := ss, c_mem := m, c_slab := sl\<rparr>)
   }"

record vc_global_stats =
  gs_hits :: u64
  gs_misses :: u64
  gs_sets :: u64
  gs_evictions :: u64
  gs_expirations :: u64
  gs_total_keys :: u64
  gs_memory_bytes :: u64

definition stats_add :: "vc_shard \<Rightarrow> vc_global_stats \<Rightarrow> vc_global_stats" where
  "stats_add s g = g\<lparr>gs_hits := gs_hits g + s_hits s, gs_misses := gs_misses g + s_misses s,
     gs_sets := gs_sets g + s_sets s, gs_evictions := gs_evictions g + s_evictions s,
     gs_expirations := gs_expirations g + s_expirations s,
     gs_total_keys := gs_total_keys g + ucast (s_count s)\<rparr>"

definition vc_stats :: "vc_cache \<Rightarrow> vc_global_stats" where
  "vc_stats c =
     (fold stats_add (c_shards c)
        \<lparr>gs_hits = 0, gs_misses = 0, gs_sets = 0, gs_evictions = 0, gs_expirations = 0,
         gs_total_keys = 0, gs_memory_bytes = 0\<rparr>)\<lparr>gs_memory_bytes := c_total_memory c\<rparr>"

end
