(* ===== verification/CacheInv.thy ===== *)
theory CacheInv
  imports Cache
begin

text \<open>
  The invariant of the cache and that every operation keeps it. \<open>cache_inv\<close> says that all
  shards are well formed and at rest, that every entry sits in the shard its hash selects,
  that the shard counters are the numbers of live entries, and that the memory in use is
  exactly what the live entries and the free lists own. Each operation is shown to return,
  so it stays within its memory, and to leave the contents of all entries it does not
  mention as they were.
\<close>

section \<open>Building an entry\<close>

lemma put_payload_ok:
  assumes "length (e_payload ne) = 32" and "length a \<le> off" and "off + length b \<le> 32"
  shows "\<exists>p. put_payload ne fl a off b = Some (ne\<lparr>e_flags := fl, e_payload := p\<rparr>)
     \<and> length p = 32 \<and> take (length a) p = a \<and> take (length b) (drop off p) = b"
proof -
  define p1 where "p1 = a @ drop (length a) (e_payload ne)"
  define p2 where "p2 = take off p1 @ b @ drop (off + length b) p1"
  have len: "length p1 = 32" using assms by (simp add: p1_def)
  have "Prelude.splice (e_payload ne) 0 a = Some p1" using assms by (simp add: p1_def)
  moreover have "Prelude.splice p1 off b = Some p2" using assms len by (simp add: p2_def)
  moreover have "take (length a) p1 = a" by (simp add: p1_def)
  then have "take (length a) p2 = a" using assms len by (simp add: p2_def min_def)
  moreover have "take (length b) (drop off p2) = b" using assms len by (simp add: p2_def)
  moreover have "length p2 = 32" using assms len by (simp add: p2_def)
  ultimately show ?thesis by (auto simp: put_payload_def)
qed

definition env_ok :: "cmem \<Rightarrow> env \<Rightarrow> bool" where
  "env_ok m env \<longleftrightarrow> (\<forall>p. ret_malloc env = Some p \<longrightarrow> fresh m p)
     \<and> (\<forall>p. ret_mmap env = Some p \<longrightarrow> fresh m p \<and> ret_malloc env \<noteq> Some p)"

text \<open>What the new entry stands for once \<open>set_build\<close> has succeeded.\<close>

definition built :: "env \<Rightarrow> bytes \<Rightarrow> bytes \<Rightarrow> u32 \<Rightarrow> u64 \<Rightarrow> cmem \<Rightarrow> vc_entry \<Rightarrow> bool" where
  "built env key val ttl h m ne \<longleftrightarrow>
     ent_key m ne = key \<and> ent_val m ne = take 65535 val \<and> e_key_hash ne = h
     \<and> e_expire_ns ne = (if ttl \<noteq> 0 then clk1 env + ucast ttl * 1000000000 else 0)"

lemma set_entry0_sel [simp]:
  "e_key_hash (set_entry0 env key val ttl h) = h"
  "e_key_len (set_entry0 env key val ttl h) = of_nat (length key)"
  "length (e_payload (set_entry0 env key val ttl h)) = 32"
  "e_expire_ns (set_entry0 env key val ttl h) = (if ttl \<noteq> 0 then clk1 env + ucast ttl * 1000000000 else 0)"
  "e_flags (set_entry0 env key val ttl h) = 0"
  by (simp_all add: set_entry0_def empty_entry_def)

lemma vlen_set_entry0 [simp]: "vlen (set_entry0 env key val ttl h) = min 65535 (length val)"
proof -
  have "unat (of_nat (min 65535 (length val)) :: u16) = min 65535 (length val)"
    by (simp add: unat_of_nat min_def)
  then show ?thesis by (simp add: set_entry0_def min_def split: if_splits)
qed

lemma nonzero_lens:
  assumes "key \<noteq> []" and "val \<noteq> []" and "length key < 2 ^ 32"
  shows "unat (of_nat (length key) :: u32) = length key"
    and "(of_nat (length key) :: u32) \<noteq> 0" and "e_val_len (set_entry0 env key val ttl h) \<noteq> 0"
proof -
  show u: "unat (of_nat (length key) :: u32) = length key" using assms(3) by (simp add: unat_of_nat)
  then show "(of_nat (length key) :: u32) \<noteq> 0" using assms(1) by (metis length_0_conv unat_0)
  have "vlen (set_entry0 env key val ttl h) \<noteq> 0" using assms(2) by simp
  then show "e_val_len (set_entry0 env key val ttl h) \<noteq> 0" by (metis unat_0)
qed

text \<open>The entry of each storage path is well formed and reads back what was stored.\<close>

lemma built_inline:
  assumes "key \<noteq> []" "val \<noteq> []" "length key + length val \<le> 32"
    and "length p = 32" "take (length key) p = key" "take (length val) (drop (length key) p) = val"
    and ne_def: "ne = (set_entry0 env key val ttl h)\<lparr>e_flags := 0, e_payload := p\<rparr>"
  shows "ent_ok m ne \<and> built env key val ttl h m ne \<and> owned ne = []"
proof -
  have k: "length key < 2 ^ 32" using assms(3) by simp
  note n = nonzero_lens [OF assms(1,2) k]
  have v: "min 65535 (length val) = length val" "take 65535 val = val" using assms(3) by simp_all
  show ?thesis
    using assms(3-6) n v
    by (simp add: ne_def ent_ok_def built_def owned_def ent_key_def ent_val_def entry_key_def
        entry_val_def ptr_read_def)
qed

lemma stored_value:
  assumes "take (length val) bs = val" and "length val \<le> length bs"
  shows "take (min 65535 (length val)) bs = take 65535 val"
  using assms by (metis min.commute take_take)

lemma built_slab:
  assumes ne0: "key \<noteq> []" "val \<noteq> []" "length key \<le> 24"
    and p: "length p = 32" "take (length key) p = key"
      "take 8 (drop (length key) p) = le_bytes 8 (v :: addr)"
    and v: "v \<noteq> NULL" "blocks m v = Some (SlabBlk, bs)" "take (length val) bs = val"
      "slab_class_size (slab_class_for (length val)) \<le> length bs" "length val \<le> length bs"
    and ne_def: "ne = (set_entry0 env key val ttl h)\<lparr>e_flags := 2, e_payload := p\<rparr>"
  shows "ent_ok m ne \<and> built env key val ttl h m ne \<and> owned ne = [v]"
proof -
  have k: "length key < 2 ^ 32" using ne0(3) by simp
  note n = nonzero_lens [OF ne0(1,2) k]
  have va: "vaddr ne = v" using p(3) n(1) by (simp add: ne_def vaddr_def val_off_def of_le_le_bytes)
  have "slab_class_for (min 65535 (length val)) \<le> slab_class_for (length val)"
    by (rule slab_class_for_mono) simp
  then have "slab_class_size (slab_class_for (min 65535 (length val))) \<le> length bs"
    using v(4) slab_class_size_mono le_trans by blast
  then have ok: "ent_ok m ne"
    using ne0(3) p n v va by (simp add: ent_ok_def slab_val_def) (simp add: ne_def)
  have "payload_ptr ne (val_off ne) = Some v"
    using payload_ptr_val [OF ok] va by (simp add: ne_def)
  then show ?thesis
    using ok va p n v ne0(3) stored_value [OF v(3,5)]
    by (simp add: built_def owned_def ent_key_def ent_val_def entry_key_def entry_val_def
        ptr_read_def mem_read_def) (simp add: ne_def)
qed

lemma built_long:
  assumes ne0: "key \<noteq> []" "val \<noteq> []" "length key < 2 ^ 32"
    and p: "length p = 32" "take 8 p = le_bytes 8 (q :: addr)" "take 8 (drop 8 p) = le_bytes 8 (v :: addr)"
    and q: "q \<noteq> NULL" "blocks m q = Some (MallocBlk, kb)" "length kb = length key" "take (length key) kb = key"
    and v: "blocks m v = Some (kind, bs)" "take (length val) bs = val" "length val \<le> length bs"
      "fl = 3 \<and> kind = SlabBlk \<and> v \<noteq> NULL \<and> slab_class_size (slab_class_for (length val)) \<le> length bs
       \<or> fl = 5 \<and> kind = MmapBlk \<and> page_round (length val) \<le> length bs"
    and ne_def: "ne = (set_entry0 env key val ttl h)\<lparr>e_flags := fl, e_payload := p\<rparr>"
  shows "ent_ok m ne \<and> built env key val ttl h m ne \<and> owned ne = [q, v]"
proof -
  note n = nonzero_lens [OF ne0]
  have fl: "fl AND 1 \<noteq> 0" "fl AND 6 \<noteq> 0" "fl \<noteq> 0" using v(4) by auto
  have va: "vaddr ne = v" and ka: "kaddr ne = q"
    using p(2,3) fl by (simp_all add: ne_def vaddr_def kaddr_def val_off_def of_le_le_bytes)
  have "slab_class_for (min 65535 (length val)) \<le> slab_class_for (length val)"
    by (rule slab_class_for_mono) simp
  then have cl: "slab_class_size (slab_class_for (min 65535 (length val))) \<le> length bs" if "fl = 3"
    using v(4) that slab_class_size_mono le_trans by fastforce
  have pr: "page_round (min 65535 (length val)) \<le> length bs" if "fl = 5"
    using v(4) that page_round_mono [of "min 65535 (length val)" "length val"] by auto
  have sel: "e_flags ne = fl" "e_payload ne = p" "klen ne = length key" "e_key_len ne \<noteq> 0"
    "e_val_len ne \<noteq> 0" "vlen ne = min 65535 (length val)"
    using n vlen_set_entry0 [of env key val ttl h] by (simp_all add: ne_def)
  have kb: "key_blk m ne" using q ka sel(3) by (simp add: key_blk_def)
  have ok: "ent_ok m ne"
  proof (cases "fl = 3")
    case True
    then have "slab_val m ne" using v cl va sel(6) by (auto simp: slab_val_def)
    then show ?thesis using True kb sel p(1) by (simp add: ent_ok_def)
  next
    case False
    then have "fl = 5" "mmap_val m ne" using v pr va sel(6) by (auto simp: mmap_val_def)
    then show ?thesis using kb sel p(1) by (simp add: ent_ok_def)
  qed
  have "payload_ptr ne (val_off ne) = Some v" "payload_ptr ne 0 = Some q"
    using payload_ptr_val [OF ok] payload_ptr_key [OF ok] va ka fl by (simp_all add: ne_def)
  then show ?thesis
    using ok va ka sel fl q v(1,3) stored_value [OF v(2,3)]
    by (simp add: built_def owned_def ent_key_def ent_val_def entry_key_def entry_val_def
        ptr_read_def mem_read_def) (simp add: ne_def)
qed

text \<open>When an allocation of \<^verbatim>\<open>vc_set\<close> fails.\<close>

definition alloc_fails :: "env \<Rightarrow> slab \<Rightarrow> bytes \<Rightarrow> bytes \<Rightarrow> bool" where
  "alloc_fails env sl key val \<longleftrightarrow> 32 < length key + length val
     \<and> (if length val \<le> slab_class_size 15
        then sc_head (sl ! slab_class_for (length val)) = NULL
          \<or> 24 < length key \<and> ret_malloc env = None
        else ret_mmap env = None \<or> ret_malloc env = None)"

lemma slab_alloc_head:
  "slab_alloc m sl sz = Some (p, cls, sl') \<Longrightarrow> slab_class_for sz < length sl \<Longrightarrow>
   p = sc_head (sl ! slab_class_for sz)"
  by (auto simp: slab_alloc_def Let_def bind_eq_Some_conv split: if_splits)

definition build_result ::
  "env \<Rightarrow> vc_cache \<Rightarrow> bytes \<Rightarrow> bytes \<Rightarrow> u32 \<Rightarrow> u64 \<Rightarrow> vc_entry multiset \<Rightarrow>
   vc_err \<times> vc_entry \<times> vc_cache \<Rightarrow> bool" where
  "build_result env c key val ttl h E = (\<lambda>(err, ne, c').
     c' = c\<lparr>c_mem := c_mem c', c_slab := c_slab c', c_total_memory := c_total_memory c'\<rparr>
     \<and> same_contents (c_mem c) (c_mem c') E
     \<and> (if alloc_fails env (c_slab c) key val
        then err = VC_ERR_OOM \<and> heap_ok (c_mem c') (c_slab c') {#} E
        else err = VC_OK \<and> heap_ok (c_mem c') (c_slab c') {#} (add_mset (core ne) E)
          \<and> built env key val ttl h (c_mem c') ne))"

lemma heap_ok_adopt_core:
  assumes "ent_ok m ne" and "owned ne = ps" and "heap_ok m sl (mset ps) E"
  shows "heap_ok m sl {#} (add_mset (core ne) E)"
  using assms by (simp add: heap_ok_adopt)

lemma same_contents_refl [simp]: "same_contents m m E"
  by (simp add: same_contents_def)

text \<open>A long key goes to a block of its own; this is shared by the two paths for big values.\<close>

lemma store_long_key:
  assumes arg: "key \<noteq> []" "val \<noteq> []" "length key < 2 ^ 32"
    and h: "heap_ok m sl {#v#} E" and q: "fresh m q"
    and v: "blocks m v = Some (kind, bs)" "take (length val) bs = val" "length val \<le> length bs"
      "fl = 3 \<and> kind = SlabBlk \<and> v \<noteq> NULL \<and> slab_class_size (slab_class_for (length val)) \<le> length bs
       \<or> fl = 5 \<and> kind = MmapBlk \<and> page_round (length val) \<le> length bs"
  shows "\<exists>m2 m3 ne. c_malloc m (length key) (Some q) = (q, m2) \<and> mem_write m2 q 0 key = Some m3
     \<and> put_payload (set_entry0 env key val ttl hash) fl (le_bytes 8 q) 8 (le_bytes 8 v) = Some ne
     \<and> heap_ok m3 sl {#} (add_mset (core ne) E) \<and> built env key val ttl hash m3 ne
     \<and> same_contents m m3 E"
proof -
  let ?ne = "set_entry0 env key val ttl hash"
  have qv: "q \<noteq> v" and q0: "q \<noteq> NULL" using q v(1) by (auto simp: fresh_def)
  obtain m2 where m2: "c_malloc m (length key) (Some q) = (q, m2)" "heap_ok m2 sl {#q, v#} E"
    "same_contents m m2 E" "changes_only q m m2" "blocks m2 q = Some (MallocBlk, replicate (length key) 0)"
    using heap_ok_malloc [OF h q] by blast
  obtain m3 kb where m3: "mem_write m2 q 0 key = Some m3" "heap_ok m3 sl {#q, v#} E"
    "same_contents m2 m3 E" "changes_only q m2 m3" "blocks m3 q = Some (MallocBlk, kb)"
    "length kb = length key" "take (length key) kb = key"
    using heap_ok_write [OF m2(2,5), of key] by auto
  have v3: "blocks m3 v = Some (kind, bs)" using v(1) m2(4) m3(4) qv by (simp add: changes_only_def)
  obtain p where p: "put_payload ?ne fl (le_bytes 8 q) 8 (le_bytes 8 v) =
      Some (?ne\<lparr>e_flags := fl, e_payload := p\<rparr>)" "length p = 32" "take 8 p = le_bytes 8 q"
    "take 8 (drop 8 p) = le_bytes 8 v"
    using put_payload_ok [of ?ne "le_bytes 8 q" 8 "le_bytes 8 v" fl] by auto
  note b = built_long [OF arg p(2-4) q0 m3(5,6,7) v3 v(2-4) refl, of env ttl hash]
  have "heap_ok m3 sl {#} (add_mset (core (?ne\<lparr>e_flags := fl, e_payload := p\<rparr>)) E)"
    using heap_ok_adopt_core [of m3 _ "[q, v]"] b m3(2) by simp
  moreover have "same_contents m m3 E" using m2(3) m3(3) same_contents_trans by blast
  ultimately show ?thesis using m2(1) m3(1) p(1) b by blast
qed

text \<open>A short key shares the payload with the pointer to the slab block.\<close>

lemma store_short_key:
  assumes arg: "key \<noteq> []" "val \<noteq> []" "length key \<le> 24" and h: "heap_ok m sl {#v#} E"
    and v: "v \<noteq> NULL" "blocks m v = Some (SlabBlk, bs)" "take (length val) bs = val"
      "slab_class_size (slab_class_for (length val)) \<le> length bs" "length val \<le> length bs"
  shows "\<exists>ne. put_payload (set_entry0 env key val ttl hash) 2 key (length key) (le_bytes 8 v) = Some ne
     \<and> heap_ok m sl {#} (add_mset (core ne) E) \<and> built env key val ttl hash m ne"
proof -
  let ?ne = "set_entry0 env key val ttl hash"
  obtain p where p: "put_payload ?ne 2 key (length key) (le_bytes 8 v) =
      Some (?ne\<lparr>e_flags := 2, e_payload := p\<rparr>)" "length p = 32" "take (length key) p = key"
    "take 8 (drop (length key) p) = le_bytes 8 v"
    using put_payload_ok [of ?ne key "length key" "le_bytes 8 v" 2] arg(3) by auto
  note b = built_slab [OF arg p(2-4) v refl, of env ttl hash]
  have "heap_ok m sl {#} (add_mset (core (?ne\<lparr>e_flags := 2, e_payload := p\<rparr>)) E)"
    using heap_ok_adopt_core [of m _ "[v]"] b h by simp
  then show ?thesis using p(1) b by blast
qed

lemma set_build_slab:
  assumes h: "heap_ok (c_mem c) (c_slab c) {#} E" and env: "env_ok (c_mem c) env"
    and arg: "key \<noteq> []" "val \<noteq> []" "length key < 2 ^ 32"
    and path: "32 < length key + length val" "length val \<le> slab_class_size 15"
  shows "\<exists>r. set_build env c key val ttl hash = Some r \<and> build_result env c key val ttl hash E r"
proof -
  let ?cls = "slab_class_for (length val)" and ?m = "c_mem c"
  have not_inline: "\<not> (length key + length val \<le> 32 \<and> \<not> 32 < length key)" using path(1) by simp
  have len: "length (c_slab c) = 16" using h by (auto simp: heap_ok_def heap_inv_def slab_inv_def)
  obtain v sl where al: "slab_alloc ?m (c_slab c) (length val) = Some (v, ?cls, sl)"
    and alv: "v \<noteq> NULL \<Longrightarrow> heap_ok ?m sl {#v#} E
       \<and> (\<exists>bs. blocks ?m v = Some (SlabBlk, bs) \<and> slab_class_size ?cls \<le> length bs)"
    using heap_ok_slab_alloc [OF h, of "length val"] by (auto split: if_splits)
  have head: "v = sc_head (c_slab c ! ?cls)" using slab_alloc_head [OF al] len by simp
  note unf = set_build_def Let_def build_result_def alloc_fails_def
  show ?thesis
  proof (cases "v = NULL")
    case True
    then show ?thesis using al h head path not_inline by (auto simp: unf)
  next
    case v: False
    then obtain bs where bs: "blocks ?m v = Some (SlabBlk, bs)" "slab_class_size ?cls \<le> length bs"
      and h1: "heap_ok ?m sl {#v#} E" using alv by blast
    have fit: "length val \<le> length bs" using bs(2) slab_class_for_fits [OF path(2)] by simp
    obtain m1 bs1 where m1: "mem_write ?m v 0 val = Some m1" "heap_ok m1 sl {#v#} E"
      "same_contents ?m m1 E" "changes_only v ?m m1" "blocks m1 v = Some (SlabBlk, bs1)"
      "length bs1 = length bs" "take (length val) bs1 = val"
      using heap_ok_write [OF h1 bs(1) fit] by blast
    have bs1: "slab_class_size ?cls \<le> length bs1" "length val \<le> length bs1"
      using bs(2) fit m1(6) by simp_all
    consider (short) "length key \<le> 24" | (nokey) "24 < length key" "ret_malloc env = None"
      | (long) q where "24 < length key" "ret_malloc env = Some q" by fastforce
    then show ?thesis
    proof cases
      case short
      then show ?thesis
        using store_short_key [OF arg(1,2) short m1(2) v m1(5,7) bs1, of env ttl hash]
          al m1(1,3) v head path not_inline by (auto simp: unf)
    next
      case nokey
      obtain m2 sl2 where "slab_free m1 sl v ?cls = Some (m2, sl2)" "heap_ok m2 sl2 {#} E"
        "same_contents m1 m2 E"
        using heap_ok_slab_free [OF m1(2) slab_class_for_less [of "length val"] v m1(5) bs1(1)] by blast
      then show ?thesis using al m1(1,3) v nokey path not_inline
        by (auto simp: unf c_malloc_def intro: same_contents_trans)
    next
      case long
      have fq: "fresh ?m q" using env long(2) by (simp add: env_ok_def)
      then have "q \<noteq> v" using bs(1) by (auto simp: fresh_def)
      then have "fresh m1 q" "q \<noteq> NULL" using fq m1(4) by (simp_all add: fresh_def changes_only_def)
      then obtain m2 m3 ne where "c_malloc m1 (length key) (Some q) = (q, m2)" "mem_write m2 q 0 key = Some m3"
        "put_payload (set_entry0 env key val ttl hash) 3 (le_bytes 8 q) 8 (le_bytes 8 v) = Some ne"
        "heap_ok m3 sl {#} (add_mset (core ne) E)" "built env key val ttl hash m3 ne" "same_contents m1 m3 E"
        using store_long_key [OF arg m1(2) _ m1(5,7) bs1(2), of q 3 env ttl hash] v bs1(1) by auto
      then show ?thesis
        using al m1(1,3) v head long path not_inline \<open>q \<noteq> NULL\<close>
        by (auto simp: unf intro: same_contents_trans)
    qed
  qed
qed

lemma set_build_mmap:
  assumes h: "heap_ok (c_mem c) (c_slab c) {#} E" and env: "env_ok (c_mem c) env"
    and arg: "key \<noteq> []" "val \<noteq> []" "length key < 2 ^ 32"
    and path: "\<not> length val \<le> slab_class_size 15"
  shows "\<exists>r. set_build env c key val ttl hash = Some r \<and> build_result env c key val ttl hash E r"
proof -
  let ?m = "c_mem c"
  have big: "32 < length val" using path slab_class_size_ge [of 15] by linarith
  note unf = set_build_def Let_def build_result_def alloc_fails_def
  show ?thesis
  proof (cases "ret_mmap env")
    case None
    then show ?thesis using h path big by (auto simp: unf c_mmap_def)
  next
    case (Some v)
    then have fv: "fresh ?m v" using env by (simp add: env_ok_def)
    obtain m0 where m0: "c_mmap ?m (length val) (Some v) = (Some v, m0)" "heap_ok m0 (c_slab c) {#v#} E"
      "same_contents ?m m0 E" "changes_only v ?m m0"
      "blocks m0 v = Some (MmapBlk, replicate (page_round (length val)) 0)"
      using heap_ok_mmap [OF h fv] by blast
    obtain m1 bs1 where m1: "mem_write m0 v 0 val = Some m1" "heap_ok m1 (c_slab c) {#v#} E"
      "same_contents m0 m1 E" "changes_only v m0 m1" "blocks m1 v = Some (MmapBlk, bs1)"
      "length bs1 = page_round (length val)" "take (length val) bs1 = val"
      using heap_ok_write [OF m0(2,5), of val] page_round_ge [of "length val"] by auto
    have fit: "length val \<le> length bs1" using m1(6) page_round_ge by simp
    show ?thesis
    proof (cases "ret_malloc env")
      case None
      obtain m2 where "c_munmap m1 v (length val) = Some m2" "heap_ok m2 (c_slab c) {#} E"
        "same_contents m1 m2 E"
        using heap_ok_munmap [OF m1(2,5), of "length val"] m1(6) arg(2) by auto
      then show ?thesis using m0(1,3) m1(1,3) path big None Some
        by (auto simp: unf c_malloc_def intro: same_contents_trans)
    next
      case q: (Some q)
      have "fresh ?m q" "q \<noteq> v" using env q Some by (auto simp: env_ok_def)
      then have "fresh m1 q" "q \<noteq> NULL" using m0(4) m1(4) by (simp_all add: fresh_def changes_only_def)
      then obtain m2 m3 ne where "c_malloc m1 (length key) (Some q) = (q, m2)" "mem_write m2 q 0 key = Some m3"
        "put_payload (set_entry0 env key val ttl hash) 5 (le_bytes 8 q) 8 (le_bytes 8 v) = Some ne"
        "heap_ok m3 (c_slab c) {#} (add_mset (core ne) E)" "built env key val ttl hash m3 ne"
        "same_contents m1 m3 E"
        using store_long_key [OF arg m1(2) _ m1(5,7) fit, of q 5 env ttl hash] m1(6) by auto
      then show ?thesis
        using m0(1,3) m1(1,3) q Some path big \<open>q \<noteq> NULL\<close>
        by (auto simp: unf intro: same_contents_trans)
    qed
  qed
qed

text \<open>Every path of the construction, the failing ones included.\<close>

lemma set_build_ok:
  assumes "heap_ok (c_mem c) (c_slab c) {#} E" and "env_ok (c_mem c) env"
    and "key \<noteq> []" "val \<noteq> []" "length key < 2 ^ 32"
  shows "\<exists>r. set_build env c key val ttl hash = Some r \<and> build_result env c key val ttl hash E r"
proof (cases "length key + length val \<le> 32")
  case True
  let ?ne = "set_entry0 env key val ttl hash"
  obtain p where p: "put_payload ?ne 0 key (length key) val = Some (?ne\<lparr>e_flags := 0, e_payload := p\<rparr>)"
    "length p = 32" "take (length key) p = key" "take (length val) (drop (length key) p) = val"
    using put_payload_ok [of ?ne key "length key" val 0] True by auto
  define ne where "ne = ?ne\<lparr>e_flags := 0, e_payload := p\<rparr>"
  have b: "ent_ok (c_mem c) ne \<and> built env key val ttl hash (c_mem c) ne \<and> owned ne = []"
    by (rule built_inline [OF assms(3,4) True p(2-4) ne_def])
  then have "heap_ok (c_mem c) (c_slab c) {#} (add_mset (core ne) E)"
    using heap_ok_adopt_core [of _ ne "[]"] assms(1) by simp
  then show ?thesis
    using True p(1) b by (simp add: set_build_def Let_def build_result_def alloc_fails_def ne_def)
next
  case False
  then show ?thesis
    using set_build_slab [OF assms] set_build_mmap [OF assms] by (meson not_le)
qed

section \<open>The invariant\<close>

definition shards_lives :: "vc_shard multiset \<Rightarrow> vc_entry multiset" where
  "shards_lives S = \<Sum>\<^sub># (image_mset (\<lambda>s. lives (s_table s)) S)"

definition homed :: "cmem \<Rightarrow> nat \<Rightarrow> vc_entry multiset \<Rightarrow> bool" where
  "homed m i E \<longleftrightarrow>
     (\<forall>e \<in># E. e_key_hash e = hash_key (ent_key m e) \<and> unat (shard_idx (e_key_hash e)) = i)"

definition at_rest :: "vc_shard \<Rightarrow> bool" where
  "at_rest s \<longleftrightarrow> s_wlock s = 0 \<and> even (s_seq s)"

definition count_ok :: "vc_shard \<Rightarrow> bool" where
  "count_ok s \<longleftrightarrow> s_count s = of_nat (size (lives (s_table s)))"

definition shard_inv :: "cmem \<Rightarrow> nat \<Rightarrow> vc_shard \<Rightarrow> bool" where
  "shard_inv m i s \<longleftrightarrow> shard_ok s \<and> at_rest s \<and> count_ok s \<and> homed m i (lives (s_table s))"

definition cache_inv :: "vc_cache \<Rightarrow> bool" where
  "cache_inv c \<longleftrightarrow> length (c_shards c) = 64
     \<and> (\<forall>i<64. shard_inv (c_mem c) i (c_shards c ! i))
     \<and> heap_ok (c_mem c) (c_slab c) {#} (shards_lives (mset (c_shards c)))
     \<and> wal_inv (c_wal c)"

abbreviation others :: "vc_shard list \<Rightarrow> nat \<Rightarrow> vc_entry multiset" where
  "others ss i \<equiv> shards_lives (mset ss - {#ss ! i#})"

lemma shards_lives_simps [simp]:
  "shards_lives {#} = {#}" "shards_lives (add_mset s S) = lives (s_table s) + shards_lives S"
  by (simp_all add: shards_lives_def)

lemma shards_lives_nth:
  "i < length ss \<Longrightarrow> shards_lives (mset ss) = lives (s_table (ss ! i)) + others ss i"
  by (metis insert_DiffM nth_mem_mset shards_lives_simps(2))

lemma shards_lives_update:
  "i < length ss \<Longrightarrow> shards_lives (mset (ss[i := s])) = lives (s_table s) + others ss i"
  by (simp add: mset_update)

lemma in_others: "i < length ss \<Longrightarrow> j < length ss \<Longrightarrow> i \<noteq> j \<Longrightarrow> e \<in># lives (s_table (ss ! j)) \<Longrightarrow> e \<in># others ss i"
proof -
  assume ij: "i < length ss" "j < length ss" "i \<noteq> j" and e: "e \<in># lives (s_table (ss ! j))"
  let ?s0 = "(ss ! i)\<lparr>s_table := []\<rparr>"
  have "shards_lives (mset (ss[i := ?s0])) = others ss i"
    using shards_lives_update [OF ij(1), of ?s0] by simp
  moreover have "shards_lives (mset (ss[i := ?s0])) = lives (s_table (ss ! j)) + others (ss[i := ?s0]) j"
    using shards_lives_nth [of j "ss[i := ?s0]"] ij by simp
  ultimately show "e \<in># others ss i" using e by (metis union_iff)
qed

lemma homed_same:
  assumes "homed m i E" and "same_contents m m' F" and "\<And>e. e \<in># E \<Longrightarrow> e \<in># F"
  shows "homed m' i E"
  using assms unfolding homed_def same_contents_def by metis

lemma homed_subset: "homed m i E \<Longrightarrow> F \<subseteq># E \<Longrightarrow> homed m i F"
  unfolding homed_def by (meson mset_subset_eqD)

lemma homed_add:
  "homed m i (add_mset e E) \<longleftrightarrow>
     e_key_hash e = hash_key (ent_key m e) \<and> unat (shard_idx (e_key_hash e)) = i \<and> homed m i E"
  by (auto simp: homed_def)

lemma ents_ok_lives:
  assumes "\<And>e. e \<in># lives T \<Longrightarrow> ent_ok m e" shows "ents_ok m T"
  unfolding ents_ok_def
proof (intro ballI impI)
  fix e assume "e \<in> set T" "e_state e = LIVE"
  then have "core e \<in># lives T" by (auto simp: lives_def)
  then show "ent_ok m e" using assms by fastforce
qed

lemma heap_ents_ok: "heap_ok m sl X (lives T + R) \<Longrightarrow> ents_ok m T"
  by (rule ents_ok_lives) (auto intro: heap_ok_ent)

lemma shard_idx_less: "unat (shard_idx h) < 64"
proof -
  have l: "unat h < 2 ^ 64" using unsigned_less [of h] by simp
  have "unat (shard_idx h) \<le> unat (drop_bit 58 h)"
    by (simp add: shard_idx_def unsigned_ucast_eq take_bit_nat_less_eq_self)
  also have "\<dots> = unat h div 2 ^ 58"
    using l by (simp only: unsigned_drop_bit_eq) (simp add: drop_bit_eq_div take_bit_nat_eq_self)
  also have "\<dots> < 64" using l by (simp add: less_mult_imp_div_less)
  finally show ?thesis .
qed

text \<open>Replacing one shard: what has to hold of it and of the memory.\<close>

lemma cache_inv_update:
  assumes c: "cache_inv c" and i: "i < 64" and s: "shard_inv m i s"
    and h: "heap_ok m sl {#} (lives (s_table s) + others (c_shards c) i)"
    and same: "same_contents (c_mem c) m (others (c_shards c) i)" and w: "wal_inv w"
  shows "cache_inv (c\<lparr>c_wal := w, c_total_memory := t, c_shards := (c_shards c)[i := s],
                      c_mem := m, c_slab := sl\<rparr>)"
proof -
  have len: "length (c_shards c) = 64" using c by (simp add: cache_inv_def)
  have "shard_inv m j ((c_shards c)[i := s] ! j)" if j: "j < 64" for j
  proof (cases "j = i")
    case False
    then have "homed m j (lives (s_table (c_shards c ! j)))"
      using c j i len in_others homed_same [OF _ same] by (auto simp: cache_inv_def shard_inv_def)
    then show ?thesis using c j False by (simp add: cache_inv_def shard_inv_def)
  qed (use s i len in simp)
  then show ?thesis using len i h w by (simp add: cache_inv_def shards_lives_update)
qed

section \<open>Under the lock\<close>

lemma kill_slot_ok:
  assumes s: "shard_ok s" and i: "i < length (s_table s)" "e_state (s_table s ! i) = LIVE"
    and h: "heap_ok m sl {#} (lives (s_table s) + R)"
  shows "\<exists>T' m' sl'. kill_slot s m sl (of_nat i) = Some (s\<lparr>s_table := T', s_count := s_count s - 1\<rparr>, m', sl')
     \<and> shard_ok (s\<lparr>s_table := T', s_count := s_count s - 1\<rparr>)
     \<and> lives (s_table s) = add_mset (core (s_table s ! i)) (lives T')
     \<and> has_room T' \<and> heap_ok m' sl' {#} (lives T' + R) \<and> same_contents m m' (lives T' + R)"
proof -
  let ?T = "s_table s" and ?e = "s_table s ! i"
  define T' where "T' = ?T[i := ?e\<lparr>e_state := DEAD\<rparr>]"
  have lv: "lives ?T = add_mset (core ?e) (lives T')" using lives_kill [OF i] by (simp add: T'_def)
  have tab: "tab_ok ?T" using s by (simp add: shard_ok_def)
  have "heap_ok m sl {#} (add_mset (core ?e) (lives T' + R))" using h lv by simp
  then obtain m' sl' where f: "entry_free_resources m sl ?e = Some (m', sl')"
    "heap_ok m' sl' {#} (lives T' + R)" "same_contents m m' (lives T' + R)"
    using heap_ok_free by (metis entry_core(6))
  have "kill_slot s m sl (of_nat i) = Some (s\<lparr>s_table := T', s_count := s_count s - 1\<rparr>, m', sl')"
    using f(1) i(1) slot_ne_max(2) [OF s i(1)] by (simp add: kill_slot_def T'_def)
  moreover have "shard_ok (s\<lparr>s_table := T', s_count := s_count s - 1\<rparr>)"
    using s tab_ok_kill [OF tab i(1)] by (simp add: shard_ok_def T'_def)
  ultimately show ?thesis using lv f kill_has_room [OF i(1)] unfolding T'_def by blast
qed

text \<open>
  When an insertion into \<open>s\<close> finds a free slot, by eviction if need be: a slot is free, or an
  unreferenced entry can be evicted. The bound on the capacity keeps the 32-bit product
  of the load test from wrapping around.
\<close>

definition can_make_room :: "vc_shard \<Rightarrow> bool" where
  "can_make_room s \<longleftrightarrow> has_room (s_table s)
     \<or> unat (s_cap s) \<le> 2 ^ 25 \<and> (\<exists>e \<in> set (s_table s). e_clock_bit e = 0)"

lemma full_lives: "\<not> has_room T \<Longrightarrow> size (lives T) = length T"
  by (simp add: has_room_def lives_def)

lemma has_room_states: "map e_state T = map e_state T' \<Longrightarrow> has_room T = has_room T'"
proof -
  have "has_room T \<longleftrightarrow> (\<exists>x \<in> set (map e_state T). x \<noteq> LIVE)" for T by (auto simp: has_room_def)
  then show "map e_state T = map e_state T' \<Longrightarrow> has_room T = has_room T'" by metis
qed

lemma full_triggers:
  assumes "shard_ok s" "count_ok s" "\<not> has_room (s_table s)" "unat (s_cap s) \<le> 2 ^ 25"
  shows "85 \<le> s_count s * 100 div s_cap s"
proof -
  have n: "length (s_table s) = unat (s_cap s)" using assms(1) by (simp add: shard_ok_def)
  have pos: "0 < unat (s_cap s)" using assms(1) pow2_word_pos by (auto simp: shard_ok_def)
  have "s_count s = of_nat (unat (s_cap s))"
    using assms(2,3) full_lives n by (simp add: count_ok_def)
  then have "s_count s = s_cap s" by simp
  moreover have "unat (s_cap s * 100) = unat (s_cap s) * 100"
    using assms(4) by (simp add: unat_word_ariths)
  ultimately have "unat (s_count s * 100 div s_cap s) = 100" using pos by (simp add: unat_div_distrib)
  then show ?thesis by (simp add: word_le_nat_alt)
qed

lemma evict_if_full_ok:
  assumes s: "shard_ok s" and c: "count_ok s" and h: "heap_ok m sl {#} (lives (s_table s) + R)"
    and room: "can_make_room s"
  shows "\<exists>s' m' sl' V. evict_if_full s m sl = Some (s', m', sl') \<and> shard_ok s' \<and> count_ok s'
     \<and> has_room (s_table s') \<and> heap_ok m' sl' {#} (lives (s_table s') + R)
     \<and> same_contents m m' (lives (s_table s') + R)
     \<and> lives (s_table s) = V + lives (s_table s') \<and> size V \<le> 1
     \<and> (s_count s * 100 div s_cap s < 85 \<longrightarrow> V = {#})
     \<and> s_seq s' = s_seq s \<and> s_wlock s' = s_wlock s \<and> s_cap s' = s_cap s"
proof (cases "85 \<le> s_count s * 100 div s_cap s")
  case True
  obtain fls where "heap_inv m sl fls {#} (lives (s_table s) + R)" using h by (auto simp: heap_ok_def)
  then obtain r m' sl' s' where e: "shard_evict_one m sl s = Some (r, m', sl', s')" "shard_ok s'"
    "heap_ok m' sl' {#} (lives (s_table s') + R)" "same_contents m m' (lives (s_table s') + R)"
    "swept s s' r (\<forall>e \<in> set (s_table s). e_state e = LIVE \<longrightarrow> e_clock_bit e \<noteq> 0)"
    using shard_evict_one_spec [OF s] unfolding heap_ok_def by blast
  have fr: "s_seq s' = s_seq s \<and> s_wlock s' = s_wlock s \<and> s_cap s' = s_cap s"
    using e(5) by (cases s; cases s') (simp add: swept_def)
  have ev: "evict_if_full s m sl = Some (s', m', sl')" using True e(1) by (simp add: evict_if_full_def)
  show ?thesis
  proof (cases "r = UINT32_MAX")
    case r: True
    then have k: "lives (s_table s') = lives (s_table s)" "s_count s' = s_count s"
      "has_room (s_table s') = has_room (s_table s)"
      "\<forall>e \<in> set (s_table s). e_state e = LIVE \<longrightarrow> e_clock_bit e \<noteq> 0"
      using e(5) has_room_states [of "s_table s'" "s_table s"] by (simp_all add: swept_def)
    have "has_room (s_table s)" using room k(4) by (auto simp: can_make_room_def has_room_def)
    then show ?thesis using ev e k fr c by (intro exI [of _ s']) (auto simp: count_ok_def)
  next
    case r: False
    then obtain v where k: "lives (s_table s) = add_mset v (lives (s_table s'))"
      "s_count s' = s_count s - 1" "has_room (s_table s')"
      using e(5) by (auto simp: swept_def)
    have "count_ok s'" using c k(1,2) by (simp add: count_ok_def)
    then show ?thesis using ev e k fr True by (intro exI [of _ s'] exI [of _ m'] exI [of _ sl'] exI [of _ "{#v#}"]) auto
  qed
next
  case False
  then have "has_room (s_table s)" using room full_triggers [OF s c] by (auto simp: can_make_room_def)
  then show ?thesis using False s c h by (auto simp: evict_if_full_def)
qed

text \<open>The entry the lookup of an operation finds, as a multiset of at most one.\<close>

definition found_in :: "vc_entry list \<Rightarrow> u32 \<Rightarrow> vc_entry multiset" where
  "found_in T r = (if r = UINT32_MAX then {#} else {#core (T ! unat r)#})"

lemma same_contents_mono: "same_contents m m' E \<Longrightarrow> (\<And>e. e \<in># F \<Longrightarrow> e \<in># E) \<Longrightarrow> same_contents m m' F"
  by (auto simp: same_contents_def)

lemma remove_found_ok:
  assumes s: "shard_ok s" and c: "count_ok s" and h: "heap_ok m sl {#} (lives (s_table s) + R)"
    and key: "length key < 2 ^ 32" and room: "can_make_room s"
  shows "\<exists>r s' m' sl'. shard_find m now s key (of_nat (length key)) hash = Some r
     \<and> (if r \<noteq> UINT32_MAX then kill_slot s m sl r else Some (s, m, sl)) = Some (s', m', sl')
     \<and> shard_ok s' \<and> count_ok s' \<and> can_make_room s' \<and> heap_ok m' sl' {#} (lives (s_table s') + R)
     \<and> same_contents m m' (lives (s_table s') + R)
     \<and> lives (s_table s) = found_in (s_table s) r + lives (s_table s')
     \<and> s_seq s' = s_seq s \<and> s_wlock s' = s_wlock s \<and> s_cap s' = s_cap s
     \<and> (r = UINT32_MAX \<longrightarrow> s' = s)"
proof -
  obtain r where f: "shard_find m now s key (of_nat (length key)) hash = Some r"
    and r: "r = UINT32_MAX \<or> (\<exists>i < length (s_table s). r = of_nat i
         \<and> ent_matches m key hash (s_table s ! i) \<and> \<not> entry_expired now (s_table s ! i))"
    using shard_find_sound [OF s heap_ents_ok [OF h] key] by blast
  show ?thesis
  proof (cases "r = UINT32_MAX")
    case True
    then show ?thesis using f s c h room by (auto simp: found_in_def)
  next
    case False
    then obtain i where i: "i < length (s_table s)" "r = of_nat i" "e_state (s_table s ! i) = LIVE"
      using r by (auto simp: ent_matches_def)
    obtain T' m' sl' where k: "kill_slot s m sl r = Some (s\<lparr>s_table := T', s_count := s_count s - 1\<rparr>, m', sl')"
      "shard_ok (s\<lparr>s_table := T', s_count := s_count s - 1\<rparr>)"
      "lives (s_table s) = add_mset (core (s_table s ! i)) (lives T')" "has_room T'"
      "heap_ok m' sl' {#} (lives T' + R)" "same_contents m m' (lives T' + R)"
      using kill_slot_ok [OF s i(1,3) h] i(2) by blast
    moreover have "count_ok (s\<lparr>s_table := T', s_count := s_count s - 1\<rparr>)"
      using c k(3) by (simp add: count_ok_def)
    moreover have "unat r = i" using slot_ne_max(2) [OF s i(1)] i(2) by simp
    ultimately show ?thesis
      using f False by (intro exI [of _ r]) (simp add: found_in_def can_make_room_def)
  qed
qed

lemma set_commit_ok:
  assumes s: "shard_ok s" "at_rest s" "count_ok s" and key: "length key < 2 ^ 32"
    and h: "heap_ok m sl {#} (add_mset (core ne) (lives (s_table s) + R))"
    and room: "can_make_room s"
  shows "\<exists>s' m' sl' r V L. set_commit now s m sl key hash ne = Some (s', m', sl')
     \<and> shard_ok s' \<and> at_rest s' \<and> count_ok s' \<and> s_cap s' = s_cap s
     \<and> shard_find m now s key (of_nat (length key)) hash = Some r
     \<and> lives (s_table s) = found_in (s_table s) r + V + L \<and> size V \<le> 1
     \<and> (s_count s * 100 div s_cap s < 85 \<and> r = UINT32_MAX \<longrightarrow> V = {#})
     \<and> lives (s_table s') = add_mset (core ne) L
     \<and> heap_ok m' sl' {#} (lives (s_table s') + R) \<and> same_contents m m' (lives (s_table s') + R)"
proof -
  define s1 where "s1 = seq_write_begin (s\<lparr>s_wlock := 1\<rparr>)"
  have lock: "shard_lock s = Some (s\<lparr>s_wlock := 1\<rparr>)" using s(2) by (simp add: shard_lock_def at_rest_def)
  have s1: "s_table s1 = s_table s" "s_cap s1 = s_cap s" "s_count s1 = s_count s" "s_seq s1 = s_seq s + 1"
    by (simp_all add: s1_def seq_write_begin_def)
  let ?R = "add_mset (core ne) R"
  have h1: "heap_ok m sl {#} (lives (s_table s1) + ?R)" using h by (simp add: s1)
  have ok1: "shard_ok s1" "count_ok s1" "can_make_room s1"
    using s room by (simp_all add: s1 shard_ok_def count_ok_def can_make_room_def)
  obtain r s2 m2 sl2 where 2: "shard_find m now s1 key (of_nat (length key)) hash = Some r"
    "(if r \<noteq> UINT32_MAX then kill_slot s1 m sl r else Some (s1, m, sl)) = Some (s2, m2, sl2)"
    "shard_ok s2" "count_ok s2" "can_make_room s2" "heap_ok m2 sl2 {#} (lives (s_table s2) + ?R)"
    "same_contents m m2 (lives (s_table s2) + ?R)"
    "lives (s_table s) = found_in (s_table s) r + lives (s_table s2)"
    "s_seq s2 = s_seq s1" "s_cap s2 = s_cap s1" "r = UINT32_MAX \<longrightarrow> s2 = s1"
    using remove_found_ok [OF ok1(1,2) h1 key ok1(3), of now hash] unfolding s1 by blast
  obtain s3 m3 sl3 V where 3: "evict_if_full s2 m2 sl2 = Some (s3, m3, sl3)" "shard_ok s3" "count_ok s3"
    "has_room (s_table s3)" "heap_ok m3 sl3 {#} (lives (s_table s3) + ?R)"
    "same_contents m2 m3 (lives (s_table s3) + ?R)" "lives (s_table s2) = V + lives (s_table s3)"
    "size V \<le> 1" "s_count s2 * 100 div s_cap s2 < 85 \<longrightarrow> V = {#}"
    "s_seq s3 = s_seq s2" "s_cap s3 = s_cap s2"
    using evict_if_full_ok [OF 2(3,4,6,5)] by blast
  obtain T4 where 4: "shard_insert s3 ne = Some (s3\<lparr>s_table := T4\<rparr>)" "shard_ok (s3\<lparr>s_table := T4\<rparr>)"
    "lives T4 = add_mset (core ne) (lives (s_table s3))"
    using shard_insert_spec [OF 3(2), of ne] 3(4) by (auto simp: inserted_def)
  define s' where "s' = shard_unlock (seq_write_end
    (s3\<lparr>s_table := T4, s_count := s_count s3 + 1, s_sets := s_sets s3 + 1\<rparr>))"
  have s': "s_table s' = T4" "s_seq s' = s_seq s + 2" "s_wlock s' = 0" "s_count s' = s_count s3 + 1"
    "s_cap s' = s_cap s3"
    using 2(9) 3(10) by (simp_all add: s'_def shard_unlock_def seq_write_end_def s1)
  have "set_commit now s m sl key hash ne = Some (s', m3, sl3)"
    using lock 2(1,2) 3(1) 4(1)
    by (cases "r = UINT32_MAX") (simp_all add: set_commit_def Let_def s1_def [symmetric] s'_def)
  moreover have "shard_ok s'" using 4(2) by (simp add: shard_ok_def s')
  moreover have "s_cap s' = s_cap s" using 2(10) 3(11) s1 s' by simp
  moreover have "at_rest s'" using s(2) by (simp add: at_rest_def s')
  moreover have "count_ok s'" using 3(3) 4(3) by (simp add: count_ok_def s')
  moreover have "same_contents m m3 (lives T4 + R)"
    using 2(7) 3(6,7) 4(3) by (auto simp: same_contents_def)
  moreover have "shard_find m now s key (of_nat (length key)) hash = Some r"
    using 2(1) shard_find_cong [of s1 s] s1 by simp
  moreover have "heap_ok m3 sl3 {#} (lives T4 + R)" using 3(5) 4(3) by simp
  ultimately show ?thesis
    using 2(8,11) 3(7-9) 4(3) s'(1) s1 by (intro exI [of _ s'] exI) (auto simp: add.assoc)
qed

lemma shard_find_same:
  assumes "shard_ok s" "ents_ok m (s_table s)" "ents_ok m' (s_table s)" "length key < 2 ^ 32"
    and same: "same_contents m m' (lives (s_table s))"
  shows "shard_find m' now s key (of_nat (length key)) hash =
         shard_find m now s key (of_nat (length key)) hash"
proof -
  let ?T = "s_table s"
  have ne: "?T \<noteq> []" using assms(1) by (auto simp: shard_ok_def tab_ok_def)
  have "ent_matches m' key hash (?T ! i) = ent_matches m key hash (?T ! i)" if i: "i < length ?T" for i
  proof (cases "e_state (?T ! i) = LIVE")
    case True
    then have "ent_key m' (?T ! i) = ent_key m (?T ! i)"
      using same lives_nth [OF i True] by (auto simp: same_contents_def)
    then show ?thesis by (simp add: ent_matches_def)
  qed (simp add: ent_matches_def)
  then have "ent_matches m' key hash (probe ?T a j) = ent_matches m key hash (probe ?T a j)" for a j
    using ne by simp
  then have "scan_result m' now ?T key hash a 0 = scan_result m now ?T key hash a 0" for a
    by (simp add: scan_result_def scan_stop_def split: option.split)
  then show ?thesis
    using shard_find_scan [OF assms(1,2,4)] shard_find_scan [OF assms(1,3,4)] by simp
qed

section \<open>Set\<close>

definition wal_accepts :: "vc_wal \<Rightarrow> bytes \<Rightarrow> bytes \<Rightarrow> bool" where
  "wal_accepts w key val \<longleftrightarrow> w_ring w = None
     \<or> length key < 2 ^ 32 \<and> length val < 2 ^ 32 \<and> 64 + length key + length val \<le> w_ring_size w"

lemma wal_append_ok:
  assumes "wal_inv w" and "wal_accepts w key val"
  shows "\<exists>w'. wal_append w op key (of_nat (length key)) val (of_nat (length val)) ttl wl = Some w'
     \<and> wal_inv w' \<and> (w_ring w' = None \<longleftrightarrow> w_ring w = None) \<and> w_ring_size w' = w_ring_size w"
proof (cases "w_ring w")
  case None
  then show ?thesis using assms(1) by (simp add: wal_append_def)
next
  case (Some ring)
  then have u: "unat (of_nat (length key) :: u32) = length key" "unat (of_nat (length val) :: u32) = length val"
    and fit: "64 + length key + length val \<le> w_ring_size w"
    using assms(2) by (simp_all add: wal_accepts_def unat_of_nat)
  obtain crc where "wal_crc op key val = Some crc" using wal_crc_total by blast
  note a = wal_append_ring [OF assms(1) Some u fit this refl refl]
  show ?thesis using a assms(1) Some by (simp add: wal_inv_def)
qed

lemma cache_inv_nth:
  "cache_inv c \<Longrightarrow> i < 64 \<Longrightarrow> nth_opt (c_shards c) i = Some (c_shards c ! i)"
  "cache_inv c \<Longrightarrow> i < 64 \<Longrightarrow> shard_inv (c_mem c) i (c_shards c ! i)"
  "cache_inv c \<Longrightarrow> i < 64 \<Longrightarrow>
     heap_ok (c_mem c) (c_slab c) {#} (lives (s_table (c_shards c ! i)) + others (c_shards c) i)"
  using shards_lives_nth [of i "c_shards c"] by (simp_all add: cache_inv_def)

text \<open>
  What is needed to use the memory safely, without the counters and the homes of the keys:
  the blocks belong to the live entries, to the free lists, and to entries that were lost when
  they were inserted into a full table.
\<close>

definition safe_inv :: "vc_cache \<Rightarrow> bool" where
  "safe_inv c \<longleftrightarrow> length (c_shards c) = 64
     \<and> (\<forall>i<64. shard_ok (c_shards c ! i) \<and> at_rest (c_shards c ! i))
     \<and> (\<exists>lost. heap_ok (c_mem c) (c_slab c) {#} (shards_lives (mset (c_shards c)) + lost))
     \<and> wal_inv (c_wal c)"

lemma cache_inv_safe: "cache_inv c \<Longrightarrow> safe_inv c"
  unfolding cache_inv_def safe_inv_def shard_inv_def by (metis add.right_neutral)

lemma safe_inv_nth:
  assumes "safe_inv c" and "i < 64"
  shows "nth_opt (c_shards c) i = Some (c_shards c ! i)" "shard_ok (c_shards c ! i)" "at_rest (c_shards c ! i)"
    "\<exists>R. heap_ok (c_mem c) (c_slab c) {#} (lives (s_table (c_shards c ! i)) + R)"
proof -
  show "nth_opt (c_shards c) i = Some (c_shards c ! i)" "shard_ok (c_shards c ! i)" "at_rest (c_shards c ! i)"
    using assms by (simp_all add: safe_inv_def)
  obtain lost where "heap_ok (c_mem c) (c_slab c) {#} (shards_lives (mset (c_shards c)) + lost)"
    using assms(1) by (auto simp: safe_inv_def)
  moreover have "i < length (c_shards c)" using assms by (simp add: safe_inv_def)
  ultimately show "\<exists>R. heap_ok (c_mem c) (c_slab c) {#} (lives (s_table (c_shards c ! i)) + R)"
    unfolding shards_lives_nth [OF \<open>i < length (c_shards c)\<close>] by (auto simp: add.assoc)
qed

abbreviation shard_of :: "bytes \<Rightarrow> nat" where
  "shard_of key \<equiv> unat (shard_idx (hash_key key))"

abbreviation table_of :: "vc_cache \<Rightarrow> nat \<Rightarrow> vc_entry list" where
  "table_of c i \<equiv> s_table (c_shards c ! i)"

text \<open>The effect of a successful \<^verbatim>\<open>vc_set\<close> on the live entries.\<close>

definition set_effect :: "env \<Rightarrow> vc_cache \<Rightarrow> bytes \<Rightarrow> bytes \<Rightarrow> u32 \<Rightarrow> vc_cache \<Rightarrow> bool" where
  "set_effect env c key val ttl c' \<longleftrightarrow>
     (let si = shard_of key; s = c_shards c ! si in
      \<exists>s' r V L ne. c_shards c' = (c_shards c)[si := s'] \<and> s_cap s' = s_cap s
       \<and> shard_find (c_mem c) (clk2 env) s key (of_nat (length key)) (hash_key key) = Some r
       \<and> lives (s_table s) = found_in (s_table s) r + V + L \<and> size V \<le> 1
       \<and> (s_count s * 100 div s_cap s < 85 \<and> r = UINT32_MAX \<longrightarrow> V = {#})
       \<and> lives (s_table s') = add_mset (core ne) L
       \<and> built env key val ttl (hash_key key) (c_mem c') ne
       \<and> same_contents (c_mem c) (c_mem c') (L + others (c_shards c) si))"

text \<open>The part of \<^verbatim>\<open>vc_set\<close> before the lock: the log record and the new entry.\<close>

lemma vc_set_prefix:
  assumes c: "safe_inv c" and heap: "heap_ok (c_mem c) (c_slab c) {#} E" and env: "env_ok (c_mem c) env"
    and arg: "key \<noteq> []" "val \<noteq> []" "length key < 2 ^ 32" and wal: "wal_accepts (c_wal c) key val"
  shows "\<exists>w err ne m sl t.
     build_result env c key val ttl (hash_key key) E
       (err, ne, c\<lparr>c_mem := m, c_slab := sl, c_total_memory := t\<rparr>)
     \<and> wal_inv w \<and> (w_ring w = None \<longleftrightarrow> w_ring (c_wal c) = None) \<and> w_ring_size w = w_ring_size (c_wal c)
     \<and> vc_set env c (Some key) (Some val) ttl =
        (let c1 = c\<lparr>c_wal := w, c_mem := m, c_slab := sl, c_total_memory := t\<rparr> in
         if err \<noteq> VC_OK then Some (err, c1)
         else do { (s', m, sl) \<leftarrow> set_commit (clk2 env) (c_shards c ! shard_of key) m sl key (hash_key key) ne;
                   Some (VC_OK, c1\<lparr>c_shards := (c_shards c)[shard_of key := s'], c_mem := m, c_slab := sl\<rparr>) })"
proof -
  have "wal_inv (c_wal c)" using c by (simp add: safe_inv_def)
  then obtain w where w: "wal_append (c_wal c) VC_WAL_SET key (of_nat (length key)) val
      (of_nat (length val)) ttl (wall env) = Some w" "wal_inv w"
      "w_ring w = None \<longleftrightarrow> w_ring (c_wal c) = None" "w_ring_size w = w_ring_size (c_wal c)"
    using wal_append_ok [OF _ wal] by metis
  define cw where "cw = c\<lparr>c_wal := w\<rparr>"
  have "heap_ok (c_mem cw) (c_slab cw) {#} E" "env_ok (c_mem cw) env"
    using heap env by (simp_all add: cw_def)
  then obtain err ne c1 where b: "set_build env cw key val ttl (hash_key key) = Some (err, ne, c1)"
    "build_result env cw key val ttl (hash_key key) E (err, ne, c1)"
    using set_build_ok [of cw E env key val ttl "hash_key key"] arg by auto
  obtain m sl t where c1: "c1 = cw\<lparr>c_mem := m, c_slab := sl, c_total_memory := t\<rparr>"
    using b(2) by (auto simp: build_result_def)
  have "\<not> (key = [] \<or> val = [] \<or> length key > unat UINT32_MAX)"
    using arg by (simp add: unsigned_minus_1_eq_mask mask_eq_exp_minus_1)
  then have "vc_set env c (Some key) (Some val) ttl =
      (if err \<noteq> VC_OK then Some (err, c1)
       else do { (s', m, sl) \<leftarrow> set_commit (clk2 env) (c_shards c ! shard_of key) (c_mem c1) (c_slab c1) key (hash_key key) ne;
                 Some (VC_OK, c1\<lparr>c_shards := (c_shards c1)[shard_of key := s'], c_mem := m, c_slab := sl\<rparr>) })"
    using w(1) b(1) safe_inv_nth(1) [OF c shard_idx_less] by (simp add: vc_set_def Let_def cw_def c1)
  moreover have "build_result env c key val ttl (hash_key key) E
      (err, ne, c\<lparr>c_mem := m, c_slab := sl, c_total_memory := t\<rparr>)"
    using b(2) by (simp add: build_result_def cw_def c1 split: if_splits)
  ultimately show ?thesis using w(2-4) unfolding c1 cw_def
    by (intro exI [of _ w] exI [of _ err] exI [of _ ne] exI [of _ m] exI [of _ sl] exI [of _ t])
      (simp add: Let_def)
qed

lemma vc_set_fails:
  assumes c: "cache_inv c" and "i < 64" and w: "wal_inv w"
    and h: "heap_ok m sl {#} (shards_lives (mset (c_shards c)))"
    and same: "same_contents (c_mem c) m (shards_lives (mset (c_shards c)))"
  shows "cache_inv (c\<lparr>c_wal := w, c_mem := m, c_slab := sl, c_total_memory := t\<rparr>)"
proof -
  have len: "length (c_shards c) = 64" using c by (simp add: cache_inv_def)
  have "homed m i (lives (table_of c i))" if "i < 64" for i
    using cache_inv_nth(2) [OF c that] homed_same [OF _ same] shards_lives_nth [of i "c_shards c"] that len
    by (auto simp: shard_inv_def)
  then show ?thesis using c h w by (simp add: cache_inv_def shard_inv_def)
qed

lemma vc_set_ok:
  assumes c: "cache_inv c" and env: "env_ok (c_mem c) env"
    and arg: "key \<noteq> []" "val \<noteq> []" "length key < 2 ^ 32"
    and wal: "wal_accepts (c_wal c) key val" and room: "can_make_room (c_shards c ! shard_of key)"
  shows "\<exists>err c'. vc_set env c (Some key) (Some val) ttl = Some (err, c') \<and> cache_inv c'
     \<and> (if alloc_fails env (c_slab c) key val
        then err = VC_ERR_OOM \<and> c_shards c' = c_shards c
          \<and> same_contents (c_mem c) (c_mem c') (shards_lives (mset (c_shards c)))
        else err = VC_OK \<and> set_effect env c key val ttl c')"
proof -
  define h where "h = hash_key key"
  define si where "si = shard_of key"
  define s where "s = c_shards c ! si"
  let ?E = "shards_lives (mset (c_shards c))" and ?R = "others (c_shards c) si"
  have si: "si < 64" by (simp add: si_def shard_idx_less)
  note at = cache_inv_nth [OF c si, folded s_def]
  have E: "?E = lives (s_table s) + ?R"
    using shards_lives_nth [of si "c_shards c"] c si by (simp add: s_def cache_inv_def)
  obtain w err ne m1 sl1 t where w: "wal_inv w"
    and b: "build_result env c key val ttl h ?E (err, ne, c\<lparr>c_mem := m1, c_slab := sl1, c_total_memory := t\<rparr>)"
    and step: "vc_set env c (Some key) (Some val) ttl =
      (let c1 = c\<lparr>c_wal := w, c_mem := m1, c_slab := sl1, c_total_memory := t\<rparr> in
       if err \<noteq> VC_OK then Some (err, c1)
       else do { (s', m, sl) \<leftarrow> set_commit (clk2 env) s m1 sl1 key h ne;
                 Some (VC_OK, c1\<lparr>c_shards := (c_shards c)[si := s'], c_mem := m, c_slab := sl\<rparr>) })"
    using vc_set_prefix [OF cache_inv_safe [OF c] _ env arg wal, of ?E] c
    unfolding h_def si_def s_def cache_inv_def by metis
  have same1: "same_contents (c_mem c) m1 ?E" using b by (simp add: build_result_def)
  show ?thesis
  proof (cases "alloc_fails env (c_slab c) key val")
    case True
    then show ?thesis
      using b step vc_set_fails [OF c si w _ same1, of sl1 t] by (simp add: build_result_def Let_def)
  next
    case False
    then have f: "err = VC_OK" "heap_ok m1 sl1 {#} (add_mset (core ne) (lives (s_table s) + ?R))"
      "built env key val ttl h m1 ne"
      using b E by (simp_all add: build_result_def)
    have s: "shard_ok s" "at_rest s" "count_ok s" "can_make_room s"
      using at(2) room by (simp_all add: shard_inv_def s_def si_def)
    obtain s' m' sl' r V L where k: "set_commit (clk2 env) s m1 sl1 key h ne = Some (s', m', sl')"
      "shard_ok s'" "at_rest s'" "count_ok s'" "s_cap s' = s_cap s"
      "shard_find m1 (clk2 env) s key (of_nat (length key)) h = Some r"
      "lives (s_table s) = found_in (s_table s) r + V + L" "size V \<le> 1"
      "s_count s * 100 div s_cap s < 85 \<and> r = UINT32_MAX \<longrightarrow> V = {#}"
      "lives (s_table s') = add_mset (core ne) L"
      "heap_ok m' sl' {#} (lives (s_table s') + ?R)" "same_contents m1 m' (lives (s_table s') + ?R)"
      using set_commit_ok [OF s(1-3) arg(3) f(2) s(4), of "clk2 env" h] by blast
    have same: "same_contents (c_mem c) m' (L + ?R)"
      using same1 k(7,10,12) E by (auto simp: same_contents_def)
    have bu: "built env key val ttl h m' ne"
      using f(3) k(10,12) by (auto simp: built_def same_contents_def)
    have "L \<subseteq># lives (s_table s)" unfolding k(7) by simp
    then have "homed (c_mem c) si L" using at(2) homed_subset unfolding shard_inv_def by blast
    then have "homed m' si L" using homed_same [OF _ same] by simp
    moreover have "e_key_hash ne = hash_key (ent_key m' ne)" "unat (shard_idx (e_key_hash ne)) = si"
      using bu by (simp_all add: built_def h_def si_def)
    ultimately have "homed m' si (lives (s_table s'))" by (simp add: k(10) homed_add)
    then have inv: "cache_inv (c\<lparr>c_wal := w, c_total_memory := t, c_shards := (c_shards c)[si := s'],
        c_mem := m', c_slab := sl'\<rparr>)"
      using k(2-4,11) same w
      by (intro cache_inv_update [OF c si]) (auto simp: shard_inv_def intro: same_contents_mono)
    have "ents_ok (c_mem c) (s_table s)" "ents_ok m1 (s_table s)"
      using heap_ents_ok [OF at(3)] heap_ents_ok [of m1 sl1 "{#}" "s_table s" "add_mset (core ne) ?R"] f(2)
      by simp_all
    then have "shard_find (c_mem c) (clk2 env) s key (of_nat (length key)) h = Some r"
      using shard_find_same [OF s(1) _ _ arg(3), of "c_mem c" m1] same_contents_mono [OF same1] E k(6)
      by simp
    then have "set_effect env c key val ttl (c\<lparr>c_wal := w, c_total_memory := t,
        c_shards := (c_shards c)[si := s'], c_mem := m', c_slab := sl'\<rparr>)"
      using k(5,7-10) bu same
      unfolding set_effect_def Let_def si_def [symmetric] unfolding h_def [symmetric] s_def [symmetric]
      by - (rule exI [of _ s'], rule exI [of _ r], rule exI [of _ V], rule exI [of _ L],
          rule exI [of _ ne], simp)
    then show ?thesis using step f(1) k(1) False inv by (simp add: Let_def)
  qed
qed

end
