(* ===== verification/CacheOps.thy ===== *)
theory CacheOps
  imports CacheInv
begin

text \<open>
  The other operations of the cache keep the invariant: lookup, deletion, flushing, creation
  and destruction.
\<close>

section \<open>Get\<close>

lemma shard_inv_cong:
  assumes "shard_inv m i s" and "tab_ok T" "length T = length (s_table s)" "lives T = lives (s_table s)"
    and "s_table s' = T" "s_cap s' = s_cap s" "s_count s' = s_count s"
    and "s_wlock s' = s_wlock s" "s_seq s' = s_seq s"
  shows "shard_inv m i s'"
  using assms by (simp add: shard_inv_def shard_ok_def at_rest_def count_ok_def)

lemma cache_inv_put:
  assumes "cache_inv c" and "i < 64" and "shard_inv (c_mem c) i s"
    and "lives (s_table s) = lives (table_of c i)"
  shows "cache_inv (put_shard c i s)"
proof -
  have "cache_inv (c\<lparr>c_wal := c_wal c, c_total_memory := c_total_memory c,
      c_shards := (c_shards c)[i := s], c_mem := c_mem c, c_slab := c_slab c\<rparr>)"
    using assms cache_inv_nth(3) [OF assms(1,2)]
    by (intro cache_inv_update) (simp_all add: cache_inv_def)
  then show ?thesis by (simp add: put_shard_def)
qed

lemma ptr_read_length: "ptr_read m e p n = Some xs \<Longrightarrow> length xs = n"
  by (auto simp: ptr_read_def mem_read_def sub_bytes_def split: vptr.splits option.splits if_splits)

lemma length_ent_val: "ent_ok m e \<Longrightarrow> length (ent_val m e) = vlen e"
  using entry_val_reads [of m e] ptr_read_length by blast

text \<open>A pointer into an entry or to its block reads the value of the entry.\<close>

lemma to_cptr_read:
  assumes e: "ent_ok (c_mem c) e" and p: "entry_val e = Some p"
    and c': "c_mem c' = c_mem c" "nth_opt (c_shards c') si = Some s" "nth_opt (s_table s) i = Some e'"
    and e': "e_payload e' = e_payload e"
  shows "cptr_read c' (to_cptr si i p) (vlen e) = Some (ent_val (c_mem c) e)"
  using entry_val_reads [OF e] p c' e'
  by (cases p) (auto simp: to_cptr_def cptr_read_def ptr_read_def)

definition misses_one :: "vc_cache \<Rightarrow> nat \<Rightarrow> vc_cache" where
  "misses_one c i = put_shard c i ((c_shards c ! i)\<lparr>s_misses := s_misses (c_shards c ! i) + 1\<rparr>)"

definition hits_one :: "vc_cache \<Rightarrow> nat \<Rightarrow> nat \<Rightarrow> vc_cache" where
  "hits_one c i j = put_shard c i (touch (c_shards c ! i) j (table_of c i ! j))"

lemma misses_one_inv: "cache_inv c \<Longrightarrow> i < 64 \<Longrightarrow> cache_inv (misses_one c i)"
  unfolding misses_one_def using cache_inv_nth(2) [of c i]
  by (intro cache_inv_put) (auto simp: shard_inv_def shard_ok_def at_rest_def count_ok_def)

lemma hits_one_inv:
  assumes c: "cache_inv c" and i: "i < 64" and j: "j < length (table_of c i)"
  shows "cache_inv (hits_one c i j)" and "lives (table_of (hits_one c i j) i) = lives (table_of c i)"
proof -
  have s: "shard_inv (c_mem c) i (c_shards c ! i)" by (rule cache_inv_nth(2) [OF c i])
  then have "tab_ok (table_of c i)" by (simp add: shard_inv_def shard_ok_def)
  note k = set_clock_keeps [OF this j, of 1]
  show "cache_inv (hits_one c i j)"
    unfolding hits_one_def using k(1,2)
    by (intro cache_inv_put [OF c i]) (auto simp: touch_def intro: shard_inv_cong [OF s k(1) _ k(2)])
  show "lives (table_of (hits_one c i j) i) = lives (table_of c i)"
    using k(2) i c by (simp add: hits_one_def put_shard_def touch_def cache_inv_def)
qed

text \<open>
  The slot a lookup answers from: the one of the lock-free attempt for a value outside the
  entry, the one found again under the lock for a value inside it.
\<close>

definition get_slot :: "env \<Rightarrow> vc_cache \<Rightarrow> bytes \<Rightarrow> u32 option" where
  "get_slot env c key =
     (let s = c_shards c ! shard_of key; find = (\<lambda>now. shard_find (c_mem c) now s key (of_nat (length key)) (hash_key key)) in
      do {
        r1 \<leftarrow> find (clk1 env);
        if r1 = UINT32_MAX then Some UINT32_MAX
        else if e_flags (s_table s ! unat r1) AND 6 \<noteq> 0 then Some r1
        else find (clk2 env)
      })"

definition get_effect :: "vc_cache \<Rightarrow> bytes \<Rightarrow> u32 \<Rightarrow> get_result \<Rightarrow> bool" where
  "get_effect c key r = (\<lambda>(err, p, n, c').
     if r = UINT32_MAX then err = VC_ERR_NOTFND \<and> c' = misses_one c (shard_of key)
     else err = VC_OK \<and> c' = hits_one c (shard_of key) (unat r)
       \<and> n = vlen (table_of c (shard_of key) ! unat r)
       \<and> cptr_read c' p n = Some (ent_val (c_mem c) (table_of c (shard_of key) ! unat r)))"

lemma hit_reads:
  assumes c: "safe_inv c" and i: "i < 64" and j: "j < length (table_of c i)"
    and live: "e_state (table_of c i ! j) = LIVE"
  shows "\<exists>p. entry_val (table_of c i ! j) = Some p
     \<and> cptr_read (hits_one c i j) (to_cptr i j p) (vlen (table_of c i ! j))
         = Some (ent_val (c_mem c) (table_of c i ! j))"
proof -
  let ?e = "table_of c i ! j"
  have "core ?e \<in># lives (table_of c i)" using lives_nth j live by blast
  moreover obtain R where "heap_ok (c_mem c) (c_slab c) {#} (lives (table_of c i) + R)"
    using safe_inv_nth(4) [OF c i] by blast
  ultimately have e: "ent_ok (c_mem c) ?e" using heap_ok_ent by (metis entry_core(1) union_iff)
  then obtain p where p: "entry_val ?e = Some p" using entry_val_reads by blast
  have len: "i < length (c_shards c)" using c i by (simp add: safe_inv_def)
  have "cptr_read (hits_one c i j) (to_cptr i j p) (vlen ?e) = Some (ent_val (c_mem c) ?e)"
    by (rule to_cptr_read [OF e p, where s = "touch (c_shards c ! i) j ?e" and e' = "?e\<lparr>e_clock_bit := 1\<rparr>"])
      (use len j in \<open>simp_all add: hits_one_def put_shard_def touch_def\<close>)
  then show ?thesis using p by blast
qed

lemma live_found:
  assumes c: "safe_inv c" and key: "length key < 2 ^ 32"
  shows "\<exists>r. shard_find (c_mem c) now (c_shards c ! shard_of key) key (of_nat (length key)) (hash_key key) = Some r
    \<and> (r = UINT32_MAX \<or> unat r < length (table_of c (shard_of key))
         \<and> ent_matches (c_mem c) key (hash_key key) (table_of c (shard_of key) ! unat r)
         \<and> \<not> entry_expired now (table_of c (shard_of key) ! unat r))"
proof -
  let ?s = "c_shards c ! shard_of key"
  have si: "shard_of key < 64" by (rule shard_idx_less)
  have s: "shard_ok ?s" by (rule safe_inv_nth(2) [OF c si])
  obtain R where h: "heap_ok (c_mem c) (c_slab c) {#} (lives (s_table ?s) + R)"
    using safe_inv_nth(4) [OF c si] by blast
  show ?thesis
    using shard_find_sound [OF s heap_ents_ok [OF h] key, of now "hash_key key"]
      slot_ne_max(2) [OF s] by auto
qed

lemma vc_get_fast_eq:
  assumes c: "safe_inv c" and key: "length key < 2 ^ 32"
    and r: "shard_find (c_mem c) now (c_shards c ! shard_of key) key (of_nat (length key)) (hash_key key) = Some r"
    and k: "0 < k"
  shows "vc_get_fast k now c key (hash_key key) (shard_of key) =
    (if r = UINT32_MAX then Some (Some (VC_ERR_NOTFND, CNull, 0, misses_one c (shard_of key)))
     else let e = table_of c (shard_of key) ! unat r in
       if e_flags e AND 6 \<noteq> 0
       then do { p \<leftarrow> entry_val e;
                 Some (Some (VC_OK, to_cptr (shard_of key) (unat r) p, vlen e,
                             hits_one c (shard_of key) (unat r))) }
       else Some None)"
proof -
  let ?i = "shard_of key"
  have si: "?i < 64" by (rule shard_idx_less)
  have "even (s_seq (c_shards c ! ?i))"
    using safe_inv_nth(3) [OF c si] by (simp add: at_rest_def)
  then have "s_seq (c_shards c ! ?i) AND 1 = 0" by (simp add: and_one_eq even_iff_mod_2_eq_zero)
  then have "seq_read_begin (c_shards c ! ?i) = Some (s_seq (c_shards c ! ?i))"
    by (simp add: seq_read_begin_def)
  moreover have "r \<noteq> UINT32_MAX \<Longrightarrow> unat r < length (table_of c ?i)" using live_found [OF c key, of now] r by auto
  ultimately show ?thesis
    using safe_inv_nth(1) [OF c si] r k
    by (cases k) (simp_all add: seq_read_retry_def misses_one_def hits_one_def Let_def)
qed

lemma vc_get_locked_eq:
  assumes c: "safe_inv c" and key: "length key < 2 ^ 32"
    and r: "shard_find (c_mem c) now (c_shards c ! shard_of key) key (of_nat (length key)) (hash_key key) = Some r"
  shows "vc_get_locked now c key (hash_key key) (shard_of key) =
    (if r = UINT32_MAX then Some (VC_ERR_NOTFND, CNull, 0, misses_one c (shard_of key))
     else let e = table_of c (shard_of key) ! unat r in
       do { p \<leftarrow> entry_val e;
            Some (VC_OK, to_cptr (shard_of key) (unat r) p, vlen e, hits_one c (shard_of key) (unat r)) })"
proof -
  let ?i = "shard_of key" and ?s = "c_shards c ! shard_of key"
  have si: "?i < 64" by (rule shard_idx_less)
  have wl: "s_wlock ?s = 0" using safe_inv_nth(3) [OF c si] by (simp add: at_rest_def)
  then have "shard_lock ?s = Some (?s\<lparr>s_wlock := 1\<rparr>)" by (simp add: shard_lock_def)
  moreover have "shard_find (c_mem c) now (?s\<lparr>s_wlock := 1\<rparr>) key (of_nat (length key)) (hash_key key) = Some r"
    using r shard_find_cong [of "?s\<lparr>s_wlock := 1\<rparr>" ?s] by simp
  moreover have "r \<noteq> UINT32_MAX \<Longrightarrow> unat r < length (table_of c ?i)" using live_found [OF c key, of now] r by auto
  moreover have "shard_unlock (?s\<lparr>s_wlock := 1\<rparr>) = ?s" "shard_unlock (touch (?s\<lparr>s_wlock := 1\<rparr>) j e) = touch ?s j e" for j e
    using wl by (cases ?s; simp add: shard_unlock_def touch_def)+
  ultimately show ?thesis
    using safe_inv_nth(1) [OF c si] by (simp add: vc_get_locked_def misses_one_def hits_one_def Let_def)
qed

lemma vc_get_ok:
  assumes c: "safe_inv c" and key: "length key < 2 ^ 32"
  shows "\<exists>r res. get_slot env c key = Some r \<and> vc_get env c (Some key) = Some res \<and> get_effect c key r res"
proof -
  let ?i = "shard_of key" and ?T = "table_of c (shard_of key)"
  have si: "?i < 64" by (rule shard_idx_less)
  obtain r1 where r1: "shard_find (c_mem c) (clk1 env) (c_shards c ! ?i) key (of_nat (length key)) (hash_key key) = Some r1"
    "r1 = UINT32_MAX \<or> unat r1 < length ?T \<and> e_state (?T ! unat r1) = LIVE"
    using live_found [OF c key, of "clk1 env"] by (auto simp: ent_matches_def)
  obtain r2 where r2: "shard_find (c_mem c) (clk2 env) (c_shards c ! ?i) key (of_nat (length key)) (hash_key key) = Some r2"
    "r2 = UINT32_MAX \<or> unat r2 < length ?T \<and> e_state (?T ! unat r2) = LIVE"
    using live_found [OF c key, of "clk2 env"] by (auto simp: ent_matches_def)
  note eqs = vc_get_fast_eq [OF c key r1(1), of VC_SEQLOCK_RETRY, simplified] vc_get_locked_eq [OF c key r2(1)]
  have read: "\<exists>p. entry_val (?T ! unat r) = Some p
     \<and> cptr_read (hits_one c ?i (unat r)) (to_cptr ?i (unat r) p) (vlen (?T ! unat r))
         = Some (ent_val (c_mem c) (?T ! unat r))"
    if "r = r1 \<or> r = r2" "r \<noteq> UINT32_MAX" for r
    using hit_reads [OF c si, of "unat r"] r1(2) r2(2) that by auto
  show ?thesis
  proof (cases "r1 = UINT32_MAX")
    case True
    then show ?thesis
      using r1(1) eqs(1) by (simp add: get_slot_def vc_get_def get_effect_def Let_def)
  next
    case F1: False
    show ?thesis
    proof (cases "e_flags (?T ! unat r1) AND 6 \<noteq> 0")
      case True
      then show ?thesis
        using F1 r1(1) eqs(1) read [of r1] by (auto simp: get_slot_def vc_get_def get_effect_def Let_def)
    next
      case False
      then show ?thesis
        using F1 r1(1) r2(1) eqs read [of r2]
        by (cases "r2 = UINT32_MAX") (auto simp: get_slot_def vc_get_def get_effect_def Let_def)
    qed
  qed
qed

section \<open>Delete\<close>

definition del_effect :: "u64 \<Rightarrow> vc_cache \<Rightarrow> bytes \<Rightarrow> vc_err \<Rightarrow> vc_cache \<Rightarrow> bool" where
  "del_effect now c key err c' \<longleftrightarrow>
     (let si = shard_of key; s = c_shards c ! si in
      \<exists>s' r. c_shards c' = (c_shards c)[si := s']
       \<and> shard_find (c_mem c) now s key (of_nat (length key)) (hash_key key) = Some r
       \<and> err = (if r = UINT32_MAX then VC_ERR_NOTFND else VC_OK)
       \<and> lives (s_table s) = found_in (s_table s) r + lives (s_table s')
       \<and> same_contents (c_mem c) (c_mem c') (lives (s_table s') + others (c_shards c) si))"

lemma vc_del_ok:
  assumes c: "cache_inv c" and key: "length key < 2 ^ 32" and wal: "wal_accepts (c_wal c) key []"
  shows "\<exists>err c'. vc_del env c (Some key) = Some (err, c') \<and> cache_inv c' \<and> del_effect (clk1 env) c key err c'"
proof -
  define si where "si = shard_of key"
  define s where "s = c_shards c ! si"
  let ?R = "others (c_shards c) si"
  have si: "si < 64" by (simp add: si_def shard_idx_less)
  note at = cache_inv_nth(1,2) [OF c si, folded s_def]
  have hp: "heap_ok (c_mem c) (c_slab c) {#} (lives (s_table s) + ?R)"
    using cache_inv_nth(3) [OF c si] by (simp add: s_def)
  have s: "shard_ok s" "at_rest s" "count_ok s" "homed (c_mem c) si (lives (s_table s))"
    using at(2) by (simp_all add: shard_inv_def)
  have "wal_inv (c_wal c)" using c by (simp add: cache_inv_def)
  then obtain w where w: "wal_append (c_wal c) VC_WAL_DEL key (of_nat (length key)) [] 0 0 (wall env) = Some w" "wal_inv w"
    using wal_append_ok [OF _ wal, of VC_WAL_DEL 0 "wall env"] by auto
  define s1 where "s1 = seq_write_begin (s\<lparr>s_wlock := 1\<rparr>)"
  have s1: "s_table s1 = s_table s" "s_cap s1 = s_cap s" "s_count s1 = s_count s" "s_seq s1 = s_seq s + 1"
    by (simp_all add: s1_def seq_write_begin_def)
  have lock: "shard_lock s = Some (s\<lparr>s_wlock := 1\<rparr>)" using s(2) by (simp add: shard_lock_def at_rest_def)
  obtain r where r: "shard_find (c_mem c) (clk1 env) s key (of_nat (length key)) (hash_key key) = Some r"
    "r = UINT32_MAX \<or> unat r < length (s_table s) \<and> e_state (s_table s ! unat r) = LIVE"
    using live_found [OF cache_inv_safe [OF c] key, of "clk1 env"] by (auto simp: ent_matches_def s_def si_def)
  have r1: "shard_find (c_mem c) (clk1 env) s1 key (of_nat (length key)) (hash_key key) = Some r"
    using r(1) shard_find_cong [of s1 s] s1 by simp
  have "\<exists>s2 m sl. (if r = UINT32_MAX then Some (s1, c_mem c, c_slab c)
        else kill_slot s1 (c_mem c) (c_slab c) r) = Some (s2, m, sl)
      \<and> shard_ok s2 \<and> count_ok s2 \<and> s_seq s2 = s_seq s + 1
      \<and> lives (s_table s) = found_in (s_table s) r + lives (s_table s2)
      \<and> heap_ok m sl {#} (lives (s_table s2) + ?R) \<and> same_contents (c_mem c) m (lives (s_table s2) + ?R)"
  proof (cases "r = UINT32_MAX")
    case True
    then show ?thesis using s hp s1 by (simp add: shard_ok_def count_ok_def found_in_def)
  next
    case False
    have ok1: "shard_ok s1" using s(1) s1 by (simp add: shard_ok_def)
    obtain T' m sl where k: "kill_slot s1 (c_mem c) (c_slab c) (of_nat (unat r)) =
        Some (s1\<lparr>s_table := T', s_count := s_count s1 - 1\<rparr>, m, sl)"
      "shard_ok (s1\<lparr>s_table := T', s_count := s_count s1 - 1\<rparr>)"
      "lives (s_table s1) = add_mset (core (s_table s1 ! unat r)) (lives T')"
      "heap_ok m sl {#} (lives T' + ?R)" "same_contents (c_mem c) m (lives T' + ?R)"
      using kill_slot_ok [OF ok1, of "unat r" "c_mem c" "c_slab c" ?R] r(2) False hp s1 by auto
    then show ?thesis using False s(3) s1 by (simp add: count_ok_def found_in_def)
  qed
  then obtain s2 m sl where 2: "(if r = UINT32_MAX then Some (s1, c_mem c, c_slab c)
        else kill_slot s1 (c_mem c) (c_slab c) r) = Some (s2, m, sl)"
      "shard_ok s2" "count_ok s2" "s_seq s2 = s_seq s + 1"
      "lives (s_table s) = found_in (s_table s) r + lives (s_table s2)"
      "heap_ok m sl {#} (lives (s_table s2) + ?R)" "same_contents (c_mem c) m (lives (s_table s2) + ?R)"
    by blast
  define s' where "s' = shard_unlock (seq_write_end s2)"
  have s': "s_table s' = s_table s2" "s_cap s' = s_cap s2" "s_count s' = s_count s2"
    "s_seq s' = s_seq s + 2" "s_wlock s' = 0"
    using 2(4) by (simp_all add: s'_def shard_unlock_def seq_write_end_def)
  define c' where "c' = c\<lparr>c_wal := w, c_total_memory := c_total_memory c,
    c_shards := (c_shards c)[si := s'], c_mem := m, c_slab := sl\<rparr>"
  have eq: "vc_del env c (Some key) = Some (if r = UINT32_MAX then VC_ERR_NOTFND else VC_OK, c')"
    using w(1) at(1) lock r1 2(1)
    by (cases "r = UINT32_MAX")
      (auto simp: vc_del_def Let_def si_def [symmetric] s1_def [symmetric] put_shard_def c'_def s'_def)
  have "lives (s_table s2) \<subseteq># lives (s_table s)" unfolding 2(5) by simp
  then have "homed m si (lives (s_table s2))"
    using homed_subset [OF s(4)] homed_same [OF _ 2(7)] by (meson union_iff)
  then have "shard_inv m si s'" using 2(2,3) s(2) s' by (simp add: shard_inv_def shard_ok_def at_rest_def count_ok_def)
  then have "cache_inv c'"
    unfolding c'_def using 2(6,7) s' w(2)
    by (intro cache_inv_update [OF c si]) (auto intro: same_contents_mono)
  moreover have "del_effect (clk1 env) c key (if r = UINT32_MAX then VC_ERR_NOTFND else VC_OK) c'"
    unfolding del_effect_def Let_def si_def [symmetric]
    using r(1) 2(5,7) s'(1) by (intro exI [of _ s'] exI [of _ r]) (simp add: c'_def s_def)
  ultimately show ?thesis using eq by blast
qed

section \<open>Flush and destroy\<close>

lemma heap_ok_free_live:
  assumes "heap_ok m sl {#} (lives (e # T) + R)" and "e_state e = LIVE"
  shows "\<exists>m' sl'. entry_free_resources m sl e = Some (m', sl')
     \<and> heap_ok m' sl' {#} (lives T + R) \<and> same_contents m m' (lives T + R)"
  using heap_ok_free [of m sl "{#}" "core e" "lives T + R"] assms by simp

lemma flush_table_ok:
  assumes "heap_ok m sl {#} (lives T + R)"
  shows "\<exists>m' sl'. flush_table T m sl =
       Some (map (\<lambda>e. if e_state e = LIVE then e\<lparr>e_state := DEAD\<rparr> else e) T, m', sl')
     \<and> heap_ok m' sl' {#} R \<and> same_contents m m' R"
  using assms
proof (induction T arbitrary: m sl)
  case (Cons e T)
  show ?case
  proof (cases "e_state e = LIVE")
    case True
    then obtain m1 sl1 where f: "entry_free_resources m sl e = Some (m1, sl1)"
      "heap_ok m1 sl1 {#} (lives T + R)" "same_contents m m1 (lives T + R)"
      using heap_ok_free_live [OF Cons.prems] by blast
    show ?thesis using Cons.IH [OF f(2)] f True by (auto simp: same_contents_def)
  next
    case False
    then show ?thesis using Cons.IH [of m sl] Cons.prems by auto
  qed
qed simp

lemma flushed_tab_ok:
  fixes T :: "vc_entry list"
  defines "T' \<equiv> map (\<lambda>e. if e_state e = LIVE then e\<lparr>e_state := DEAD\<rparr> else e) T"
  assumes "tab_ok T" shows "tab_ok T'" and "lives T' = {#}"
  using assms by (auto simp: tab_ok_def lives_def T'_def filter_empty_conv)

lemma flush_shards_ok:
  assumes "heap_ok m sl {#} (shards_lives (mset ss) + R)" and "\<And>s. s \<in> set ss \<Longrightarrow> shard_ok s \<and> at_rest s"
  shows "\<exists>ss' m' sl'. flush_shards ss m sl = Some (ss', m', sl') \<and> length ss' = length ss
     \<and> heap_ok m' sl' {#} R \<and> same_contents m m' R
     \<and> (\<forall>s \<in> set ss'. shard_ok s \<and> at_rest s \<and> s_count s = 0 \<and> lives (s_table s) = {#})"
  using assms
proof (induction ss arbitrary: m sl)
  case (Cons s ss)
  have s: "shard_ok s" "at_rest s" using Cons.prems(2) by simp_all
  define T' where "T' = map (\<lambda>e. if e_state e = LIVE then e\<lparr>e_state := DEAD\<rparr> else e) (s_table s)"
  have tab: "tab_ok T'" "lives T' = {#}"
    using flushed_tab_ok [of "s_table s"] s(1) by (simp_all add: T'_def shard_ok_def)
  have "heap_ok m sl {#} (lives (s_table s) + (shards_lives (mset ss) + R))"
    using Cons.prems(1) by (simp add: add.assoc)
  then obtain m1 sl1 where f: "flush_table (s_table s) m sl = Some (T', m1, sl1)"
    "heap_ok m1 sl1 {#} (shards_lives (mset ss) + R)" "same_contents m m1 (shards_lives (mset ss) + R)"
    using flush_table_ok unfolding T'_def by blast
  obtain ss' m2 sl2 where IH: "flush_shards ss m1 sl1 = Some (ss', m2, sl2)" "length ss' = length ss"
    "heap_ok m2 sl2 {#} R" "same_contents m1 m2 R"
    "\<forall>s \<in> set ss'. shard_ok s \<and> at_rest s \<and> s_count s = 0 \<and> lives (s_table s) = {#}"
    using Cons.IH [OF f(2)] Cons.prems(2) by auto
  define s' where "s' = s\<lparr>s_wlock := 0, s_seq := s_seq s + 1 + 1, s_table := T', s_count := 0\<rparr>"
  have "flush_shards (s # ss) m sl = Some (s' # ss', m2, sl2)"
    using f(1) IH(1) s(2)
    by (simp add: s'_def Let_def shard_lock_def at_rest_def shard_unlock_def seq_write_begin_def seq_write_end_def)
  moreover have "shard_ok s'" using s(1) tab(1) by (simp add: s'_def shard_ok_def T'_def)
  moreover have "at_rest s'" using s(2) by (simp add: s'_def at_rest_def)
  moreover have "same_contents m m2 R" using f(3) IH(4) by (auto simp: same_contents_def)
  ultimately show ?case using IH tab(2) by (auto simp: s'_def)
qed simp

lemma cache_inv_shards:
  assumes "cache_inv c" "s \<in> set (c_shards c)" shows "shard_ok s \<and> at_rest s"
proof -
  obtain i where "i < 64" "s = c_shards c ! i" using assms by (auto simp: in_set_conv_nth cache_inv_def)
  then show ?thesis using cache_inv_nth(2) [OF assms(1)] by (auto simp: shard_inv_def)
qed

lemma vc_flush_ok:
  assumes c: "cache_inv c"
  shows "\<exists>c'. vc_flush c = Some c' \<and> cache_inv c' \<and> shards_lives (mset (c_shards c')) = {#}
     \<and> (\<forall>s \<in> set (c_shards c'). s_count s = 0)"
proof -
  have "heap_ok (c_mem c) (c_slab c) {#} (shards_lives (mset (c_shards c)) + {#})"
    using c by (simp add: cache_inv_def)
  then obtain ss m sl where f: "flush_shards (c_shards c) (c_mem c) (c_slab c) = Some (ss, m, sl)"
    "length ss = length (c_shards c)" "heap_ok m sl {#} {#}"
    "\<forall>s \<in> set ss. shard_ok s \<and> at_rest s \<and> s_count s = 0 \<and> lives (s_table s) = {#}"
    using flush_shards_ok [of "c_mem c" "c_slab c" "c_shards c" "{#}"] cache_inv_shards [OF c] by blast
  have none: "shards_lives (mset ss) = {#}" using f(4) by (induction ss) auto
  have "shard_inv m i (ss ! i)" if "i < 64" for i
    using f(2,4) c that by (simp add: cache_inv_def shard_inv_def count_ok_def homed_def)
  then have "cache_inv (c\<lparr>c_shards := ss, c_mem := m, c_slab := sl\<rparr>)"
    using f c none by (simp add: cache_inv_def)
  then show ?thesis using f none by (simp add: vc_flush_def)
qed

lemma destroy_table_ok:
  assumes "heap_ok m sl {#} (lives T + R)"
  shows "\<exists>m' sl'. destroy_table T m sl = Some (m', sl') \<and> heap_ok m' sl' {#} R"
  using assms
proof (induction T arbitrary: m sl)
  case (Cons e T)
  then show ?case
    using heap_ok_free_live [OF Cons.prems] by (cases "e_state e = LIVE") auto
qed simp

lemma destroy_shards_ok:
  assumes "heap_ok m sl {#} (shards_lives (mset ss) + R)"
  shows "\<exists>m' sl'. destroy_shards ss m sl = Some (m', sl') \<and> heap_ok m' sl' {#} R"
  using assms
proof (induction ss arbitrary: m sl)
  case (Cons s ss)
  then have "heap_ok m sl {#} (lives (s_table s) + (shards_lives (mset ss) + R))" by (simp add: add.assoc)
  then show ?case using destroy_table_ok Cons.IH by fastforce
qed simp

section \<open>Create\<close>

text \<open>
  The environment of a creation in which every request to the system succeeds: the sixteen
  arenas are new and disjoint, the log file maps in full and all tables are mapped.
\<close>

definition create_ok :: "create_env \<Rightarrow> cmem \<Rightarrow> bool \<Rightarrow> bool" where
  "create_ok ce m path \<longleftrightarrow> alloc_ok ce
     \<and> (\<exists>as. slab_maps ce = map Some as \<and> length as = 16 \<and> arenas_new m as)
     \<and> (path \<longrightarrow> wal_open ce \<and> wal_trunc ce
          \<and> (\<exists>ring. wal_map ce = Some ring \<and> length ring = VC_WAL_RING_SIZE))
     \<and> table_maps ce = replicate VC_NUM_SHARDS True"

lemma create_shards_all: "cap \<noteq> 0 \<Longrightarrow> create_shards (replicate n True) cap = Some (replicate n (new_shard cap))"
  by (induction n) auto

lemma lives_empty_table: "lives (replicate n empty_entry) = {#}"
  by (simp add: lives_def filter_empty_conv empty_entry_def)

lemma new_shard_inv:
  assumes "pow2_word cap" shows "shard_inv m i (new_shard cap)"
proof -
  have "tab_ok (replicate (unat cap) empty_entry)"
    using pow2_word_pos [OF assms] by (auto simp: tab_ok_def empty_entry_def)
  then show ?thesis
    using assms lives_empty_table
    by (simp add: shard_inv_def shard_ok_def at_rest_def count_ok_def homed_def new_shard_def)
qed

lemma next_pow2_pow2:
  assumes "unat v \<le> 2 ^ 31" shows "pow2_word (next_pow2_32 (if v \<noteq> 0 then v else 1024))"
proof -
  let ?v = "if v \<noteq> 0 then v else 1024 :: u32"
  have "0 < ?v" "unat ?v \<le> 2 ^ 31" using assms by (auto simp: word_neq_0_conv)
  then obtain k where "k \<le> 31" "next_pow2_32 ?v = 2 ^ k" using next_pow2_32_bounds by blast
  then show ?thesis unfolding pow2_word_def by (intro exI [of _ k]) simp
qed

lemma wal_init_ok:
  assumes "path \<longrightarrow> wo \<and> wt \<and> (\<exists>ring. wm = Some ring \<and> length ring = VC_WAL_RING_SIZE)"
    and "w_ring w0 = None"
  shows "\<exists>w. wal_init path wo wt wm w0 = (VC_OK, w) \<and> wal_inv w"
  using assms by (auto simp: wal_init_def wal_inv_def Let_def)

lemma vc_create_ok:
  assumes ce: "create_ok ce m path" and m: "blocks m = Map.empty" and slots: "unat slots \<le> 2 ^ 31"
  shows "\<exists>c m'. vc_create ce m max_mem path slots = Some (Some c, m') \<and> cache_inv c
     \<and> shards_lives (mset (c_shards c)) = {#}
     \<and> (\<forall>i<64. s_cap (c_shards c ! i) = next_pow2_32 (if slots \<noteq> 0 then slots else 1024))"
proof -
  define cap where "cap = next_pow2_32 (if slots \<noteq> 0 then slots else 1024)"
  have cap: "pow2_word cap" using next_pow2_pow2 [OF slots] by (simp add: cap_def)
  then have cap0: "cap \<noteq> 0" using pow2_word_pos by fastforce
  obtain as where as: "slab_maps ce = map Some as" "length as = 16" "arenas_new m as"
    using ce by (auto simp: create_ok_def)
  obtain sl m' where s: "slab_init (map Some as) m = Some (VC_OK, sl, m')"
    "slab_inv m' sl (arena_lists 0 as)" "distinct (concat (arena_lists 0 as))"
    "\<And>p. p \<notin> set (concat (arena_lists 0 as)) \<Longrightarrow> blocks m' p = blocks m p"
    using slab_init_ok [OF as(2,3)] by blast
  have "p \<in> dom (blocks m')" if p: "p \<in> set (concat (arena_lists 0 as))" for p
  proof -
    obtain xs where xs: "xs \<in> set (arena_lists 0 as)" "p \<in> set xs" using p by auto
    then obtain cl where "cl < length (arena_lists 0 as)" "arena_lists 0 as ! cl = xs"
      by (meson in_set_conv_nth)
    then have "cl < 16" "p \<in> set (arena_lists 0 as ! cl)" using xs as(2) by simp_all
    then show ?thesis using s(2) by (auto simp: slab_inv_def class_ok_def)
  qed
  moreover have "p \<in> set (concat (arena_lists 0 as))" if "p \<in> dom (blocks m')" for p
    using that s(4) [of p] m by (metis domIff)
  ultimately have "dom (blocks m') = set (concat (arena_lists 0 as))" by blast
  then have h: "heap_ok m' sl {#} {#}"
    using s(2,3) unfolding heap_ok_def heap_inv_def by (intro exI [of _ "arena_lists 0 as"]) simp
  let ?w0 = "\<lparr>w_ring = None, w_ring_size = 0, w_write_pos = 0, w_wal_seq = 0\<rparr> :: vc_wal"
  obtain w where w: "wal_init path (wal_open ce) (wal_trunc ce) (wal_map ce) ?w0 = (VC_OK, w)" "wal_inv w"
    using wal_init_ok [of path "wal_open ce" "wal_trunc ce" "wal_map ce" ?w0] ce by (auto simp: create_ok_def)
  define c where "c = \<lparr>c_shards = replicate 64 (new_shard cap), c_slab = sl, c_wal = w,
    c_max_memory = max_mem, c_default_ttl_sec = 0, c_total_memory = 0, c_mem = m'\<rparr>"
  have none: "shards_lives (mset (replicate n (new_shard cap))) = {#}" for n
    by (induction n) (simp_all add: new_shard_def lives_empty_table)
  have "vc_create ce m max_mem path slots = Some (Some c, m')"
    using ce as(1) s(1) w(1) create_shards_all [OF cap0, of 64]
    by (simp add: vc_create_def create_ok_def c_def Let_def cap_def)
  moreover have "cache_inv c"
    using h w(2) none new_shard_inv [OF cap] by (simp add: cache_inv_def c_def)
  ultimately show ?thesis using none by (simp add: c_def new_shard_def cap_def)
qed

end
