(* ===== verification/CacheSpec.thy ===== *)
theory CacheSpec
  imports CacheOps
begin

text \<open>
  The abstract store and the refinement. \<open>cache_map\<close> reads a cache as a finite map from keys
  to values with their expiry times; the theorems say what each operation of the cache does
  to that map, on every branch. They need \<open>keys_distinct\<close>, that no key has two live entries,
  which holds of a new cache and is kept by every operation except a \<^verbatim>\<open>vc_set\<close> of a key
  whose entry has expired.
\<close>

section \<open>The abstract store\<close>

type_synonym store = "bytes \<rightharpoonup> bytes \<times> i64"

definition kv :: "cmem \<Rightarrow> vc_entry \<Rightarrow> bytes \<times> bytes \<times> i64" where
  "kv m e = (ent_key m e, ent_val m e, e_expire_ns e)"

definition cache_list :: "vc_cache \<Rightarrow> (bytes \<times> bytes \<times> i64) list" where
  "cache_list c =
     concat (map (\<lambda>s. map (kv (c_mem c)) (filter (\<lambda>e. e_state e = LIVE) (s_table s))) (c_shards c))"

definition cache_map :: "vc_cache \<Rightarrow> store" where
  "cache_map c = map_of (cache_list c)"

definition keys_distinct :: "vc_cache \<Rightarrow> bool" where
  "keys_distinct c \<longleftrightarrow> distinct (map fst (cache_list c))"

definition expired_at :: "u64 \<Rightarrow> i64 \<Rightarrow> bool" where
  "expired_at now x \<longleftrightarrow> x \<noteq> 0 \<and> sint x < sint now"

text \<open>What a lookup at time \<open>now\<close> may see of a key.\<close>

definition visible :: "store \<Rightarrow> u64 \<Rightarrow> bytes \<Rightarrow> bytes option" where
  "visible M now k = (case M k of None \<Rightarrow> None
     | Some (v, x) \<Rightarrow> if expired_at now x then None else Some v)"

lemma kv_core [simp]: "kv m (core e) = kv m e"
  by (simp add: kv_def)

lemma entry_expired_kv: "entry_expired now e = expired_at now (snd (snd (kv m e)))"
  by (simp add: entry_expired_def expired_at_def kv_def)

lemma mset_kv_lives:
  "mset (map (kv m) (filter (\<lambda>e. e_state e = LIVE) T)) = image_mset (kv m) (lives T)"
proof -
  have "image_mset (kv m) (lives T) = image_mset (kv m \<circ> core) (mset (filter (\<lambda>e. e_state e = LIVE) T))"
    by (simp add: lives_def multiset.map_comp)
  also have "kv m \<circ> core = kv m" by (simp add: fun_eq_iff)
  finally show ?thesis by simp
qed

lemma mset_cache_list:
  "mset (cache_list c) = image_mset (kv (c_mem c)) (shards_lives (mset (c_shards c)))"
proof -
  have "mset (concat (map (\<lambda>s. map (kv m) (filter (\<lambda>e. e_state e = LIVE) (s_table s))) ss))
      = image_mset (kv m) (shards_lives (mset ss))" for m ss
  proof (induction ss)
    case (Cons s ss)
    then show ?case
      using mset_kv_lives [of m "s_table s"] by (simp del: mset_map mset_filter)
  qed simp
  then show ?thesis by (simp add: cache_list_def)
qed

lemma cache_map_iff:
  assumes "keys_distinct c"
  shows "cache_map c k = Some vx \<longleftrightarrow> (k, vx) \<in># mset (cache_list c)"
  using assms by (simp add: cache_map_def keys_distinct_def)

lemma keys_distinct_ms: "keys_distinct c \<longleftrightarrow> distinct_ms (image_mset fst (mset (cache_list c)))"
  using distinct_ms_mset [of "map fst (cache_list c)"] by (simp add: keys_distinct_def)

text \<open>Caches with the same entries, as multisets, are the same map.\<close>

lemma cache_map_cong:
  assumes "mset (cache_list c') = mset (cache_list c)"
  shows "keys_distinct c' = keys_distinct c" and "keys_distinct c \<Longrightarrow> cache_map c' = cache_map c"
proof -
  show kd: "keys_distinct c' = keys_distinct c" using assms by (simp add: keys_distinct_ms)
  assume "keys_distinct c"
  then have "cache_map c' k = Some vx \<longleftrightarrow> cache_map c k = Some vx" for k vx
    using kd assms by (simp add: cache_map_iff)
  then show "cache_map c' = cache_map c" by (rule map_eqI)
qed

text \<open>Removing and adding one entry of the multiset, seen as a map.\<close>

lemma cache_map_remove:
  assumes "keys_distinct c" and "mset (cache_list c) = add_mset (k, vx) (mset (cache_list c'))"
  shows "keys_distinct c'" and "cache_map c' = (cache_map c)(k := None)" and "cache_map c k = Some vx"
proof -
  have d: "distinct_ms (add_mset k (image_mset fst (mset (cache_list c'))))"
    using assms by (simp add: keys_distinct_ms)
  then show kd: "keys_distinct c'" by (simp add: keys_distinct_ms)
  show "cache_map c k = Some vx" using assms by (simp add: cache_map_iff)
  have "cache_map c' k' = Some y \<longleftrightarrow> ((cache_map c)(k := None)) k' = Some y" for k' y
  proof (cases "k' = k")
    case True
    have "(k, y) \<notin># mset (cache_list c')" using d by force
    then show ?thesis using True cache_map_iff [OF kd] by simp
  next
    case False
    then show ?thesis using cache_map_iff [OF kd] cache_map_iff [OF assms(1)] assms(2) by simp
  qed
  then show "cache_map c' = (cache_map c)(k := None)" by (rule map_eqI)
qed

lemma cache_map_set:
  assumes kd: "keys_distinct c" and c: "mset (cache_list c) = D + V + L"
    and c': "mset (cache_list c') = add_mset (k, vx) L"
    and D: "\<And>x. x \<in># D \<Longrightarrow> fst x = k" and new: "\<And>x. x \<in># V + L \<Longrightarrow> fst x \<noteq> k"
  shows "keys_distinct c'" and "cache_map c' = (cache_map c |` (- fst ` set_mset V))(k \<mapsto> vx)"
proof -
  have d: "distinct_ms (image_mset fst V + image_mset fst L)"
    using kd c by (auto simp: keys_distinct_ms distinct_ms_union add.assoc)
  then show kd': "keys_distinct c'"
    using c' new by (auto simp: keys_distinct_ms distinct_ms_union)
  have "cache_map c' k' = Some y \<longleftrightarrow> ((cache_map c |` (- fst ` set_mset V))(k \<mapsto> vx)) k' = Some y" for k' y
  proof (cases "k' = k")
    case True
    then show ?thesis using cache_map_iff [OF kd'] c' new [of "(k, y)"] by auto
  next
    case False
    have L: "k' \<notin> fst ` set_mset V" if "(k', y) \<in># L"
      using d that by (force simp: distinct_ms_union)
    have V: "(k', y) \<notin># V" if "k' \<notin> fst ` set_mset V" using that by force
    have "cache_map c' k' = Some y \<longleftrightarrow> (k', y) \<in># L" using cache_map_iff [OF kd'] c' False by simp
    moreover have "cache_map c k' = Some y \<longleftrightarrow> (k', y) \<in># V \<or> (k', y) \<in># L"
      using cache_map_iff [OF kd] c D [of "(k', y)"] False by auto
    ultimately show ?thesis using False L V by (auto simp: restrict_map_def)
  qed
  then show "cache_map c' = (cache_map c |` (- fst ` set_mset V))(k \<mapsto> vx)" by (rule map_eqI)
qed

section \<open>Lookup in the shard of a key\<close>

lemma length_ent_key: "ent_ok m e \<Longrightarrow> length (ent_key m e) = klen e"
  using entry_key_reads [of m e] ptr_read_length by blast

lemma ent_matches_key:
  assumes "ent_ok m e" and "e_state e = LIVE" and "e_key_hash e = hash_key (ent_key m e)"
  shows "ent_matches m key (hash_key key) e \<longleftrightarrow> ent_key m e = key"
  using assms length_ent_key [OF assms(1)] by (auto simp: ent_matches_def)

lemma shard_entry:
  assumes c: "cache_inv c" and i: "i < 64" and j: "j < length (table_of c i)" "e_state (table_of c i ! j) = LIVE"
  shows "ent_ok (c_mem c) (table_of c i ! j)"
    and "e_key_hash (table_of c i ! j) = hash_key (ent_key (c_mem c) (table_of c i ! j))"
    and "shard_of (ent_key (c_mem c) (table_of c i ! j)) = i"
proof -
  have in_l: "core (table_of c i ! j) \<in># lives (table_of c i)" using lives_nth j by blast
  then show "ent_ok (c_mem c) (table_of c i ! j)"
    using heap_ok_ent [OF cache_inv_nth(3) [OF c i]] by (metis entry_core(1) union_iff)
  show "e_key_hash (table_of c i ! j) = hash_key (ent_key (c_mem c) (table_of c i ! j))"
    "shard_of (ent_key (c_mem c) (table_of c i ! j)) = i"
    using cache_inv_nth(2) [OF c i] in_l by (force simp: shard_inv_def homed_def)+
qed

lemma in_cache_list:
  assumes c: "cache_inv c"
  shows "(k, vx) \<in># mset (cache_list c) \<longleftrightarrow>
     (\<exists>j < length (table_of c (shard_of k)). e_state (table_of c (shard_of k) ! j) = LIVE
        \<and> kv (c_mem c) (table_of c (shard_of k) ! j) = (k, vx))" (is "?L \<longleftrightarrow> ?R")
proof
  have len: "length (c_shards c) = 64" using c by (simp add: cache_inv_def)
  assume ?L
  then obtain s e where s: "s \<in> set (c_shards c)" "e \<in> set (s_table s)" "e_state e = LIVE" "kv (c_mem c) e = (k, vx)"
    by (auto simp: cache_list_def)
  then obtain i j where "i < 64" "s = c_shards c ! i" "j < length (table_of c i)" "e = table_of c i ! j"
    using len by (metis in_set_conv_nth)
  moreover from this s have "shard_of k = i"
    using shard_entry(3) [OF c, of i j] by (simp add: kv_def)
  ultimately show ?R using s by auto
next
  have len: "length (c_shards c) = 64" using c by (simp add: cache_inv_def)
  assume ?R
  then obtain j where j: "j < length (table_of c (shard_of k))" "e_state (table_of c (shard_of k) ! j) = LIVE"
    "kv (c_mem c) (table_of c (shard_of k) ! j) = (k, vx)" by blast
  have "c_shards c ! shard_of k \<in> set (c_shards c)" using shard_idx_less [of "hash_key k"] len by simp
  moreover have "table_of c (shard_of k) ! j \<in> set (table_of c (shard_of k))" using j(1) by simp
  ultimately show ?L using j(2,3) unfolding cache_list_def by force
qed

text \<open>No other slot of the shard holds the key of a live entry.\<close>

lemma unique_slot:
  assumes c: "cache_inv c" and kd: "keys_distinct c" and i: "i < 64"
    and j: "j < length (table_of c i)" "e_state (table_of c i ! j) = LIVE"
    and j': "j' < length (table_of c i)" "e_state (table_of c i ! j') = LIVE"
    and key: "ent_key (c_mem c) (table_of c i ! j') = ent_key (c_mem c) (table_of c i ! j)"
  shows "j' = j"
proof (rule ccontr)
  assume ne: "j' \<noteq> j"
  let ?T = "table_of c i" and ?m = "c_mem c"
  let ?T' = "?T[j := (?T ! j)\<lparr>e_state := DEAD\<rparr>]"
  have lv: "lives ?T = add_mset (core (?T ! j)) (lives ?T')" by (rule lives_kill [OF j])
  have "core (?T ! j') \<in># lives ?T'" using lives_nth [of j' ?T'] j' ne by simp
  then obtain M where M: "lives ?T' = add_mset (core (?T ! j')) M" by (meson mset_add)
  have len: "i < length (c_shards c)" using c i by (simp add: cache_inv_def)
  have "mset (cache_list c) = image_mset (kv ?m) (lives ?T + others (c_shards c) i)"
    using mset_cache_list [of c] shards_lives_nth [OF len] by simp
  then have "\<not> keys_distinct c"
    using lv M key by (simp add: keys_distinct_ms kv_def)
  then show False using kd by blast
qed

text \<open>The slot the lookup of a key yields, in terms of the abstract map.\<close>

lemma find_cache_map:
  assumes c: "cache_inv c" and kd: "keys_distinct c" and key: "length key < 2 ^ 32"
    and r: "shard_find (c_mem c) now (c_shards c ! shard_of key) key (of_nat (length key)) (hash_key key) = Some r"
  shows "(case cache_map c key of None \<Rightarrow> r = UINT32_MAX
     | Some (v, x) \<Rightarrow> if expired_at now x then r = UINT32_MAX
         else r \<noteq> UINT32_MAX \<and> kv (c_mem c) (table_of c (shard_of key) ! unat r) = (key, v, x))"
proof -
  let ?i = "shard_of key" and ?T = "table_of c (shard_of key)" and ?m = "c_mem c"
  have i: "?i < 64" by (rule shard_idx_less)
  have s: "shard_ok (c_shards c ! ?i)" using cache_inv_nth(2) [OF c i] by (simp add: shard_inv_def)
  have ents: "ents_ok ?m ?T" using heap_ents_ok [OF cache_inv_nth(3) [OF c i]] .
  have m: "ent_matches ?m key (hash_key key) (?T ! j) \<longleftrightarrow> e_state (?T ! j) = LIVE \<and> ent_key ?m (?T ! j) = key"
    if "j < length ?T" for j
    using ent_matches_key shard_entry [OF c i that] by (auto simp: ent_matches_def)
  show ?thesis
  proof (cases "cache_map c key")
    case None
    then have "\<not> (e_state (?T ! j) = LIVE \<and> ent_key ?m (?T ! j) = key)" if "j < length ?T" for j
      using that in_cache_list [OF c, of key] cache_map_iff [OF kd, of key] by (force simp: kv_def)
    then show ?thesis using shard_find_miss [OF s ents key] m r None by auto
  next
    case (Some vx)
    then obtain j where j: "j < length ?T" "e_state (?T ! j) = LIVE" "kv ?m (?T ! j) = (key, vx)"
      using in_cache_list [OF c] cache_map_iff [OF kd] by blast
    have uniq: "j' = j" if "j' < length ?T" "ent_matches ?m key (hash_key key) (?T ! j')" for j'
      using unique_slot [OF c kd i j(1,2)] that m j(3) by (auto simp: kv_def)
    have "ent_matches ?m key (hash_key key) (?T ! j)" using m [OF j(1)] j by (simp add: kv_def)
    then have "r = (if entry_expired now (?T ! j) then UINT32_MAX else of_nat j)"
      using shard_find_hit [OF s ents key j(1) _ uniq] r by simp
    then show ?thesis
      using Some j(3) slot_ne_max [OF s j(1)] entry_expired_kv [of now "?T ! j" ?m]
      by (cases vx) simp
  qed
qed

section \<open>The operations on the abstract map\<close>

lemma expired_mono: "sint t \<le> sint t' \<Longrightarrow> expired_at t x \<Longrightarrow> expired_at t' x"
  by (auto simp: expired_at_def)

lemma cache_list_put:
  assumes "length (c_shards c) = 64" and "i < 64" and "lives (s_table s) = lives (table_of c i)"
  shows "mset (cache_list (put_shard c i s)) = mset (cache_list c)"
  using assms shards_lives_update [of i "c_shards c" s] shards_lives_nth [of i "c_shards c"]
  by (simp add: mset_cache_list put_shard_def)

lemma hits_misses_list:
  assumes "cache_inv c" and "i < 64"
  shows "mset (cache_list (misses_one c i)) = mset (cache_list c)"
    and "j < length (table_of c i) \<Longrightarrow> mset (cache_list (hits_one c i j)) = mset (cache_list c)"
proof -
  have len: "length (c_shards c) = 64" using assms(1) by (simp add: cache_inv_def)
  show "mset (cache_list (misses_one c i)) = mset (cache_list c)"
    unfolding misses_one_def using len assms(2) by (intro cache_list_put) simp_all
  assume j: "j < length (table_of c i)"
  have "lives (s_table (touch (c_shards c ! i) j (table_of c i ! j))) = lives (table_of c i)"
    using hits_one_inv(2) [OF assms j] len assms(2) by (simp add: hits_one_def put_shard_def)
  then show "mset (cache_list (hits_one c i j)) = mset (cache_list c)"
    unfolding hits_one_def using len assms(2) by (intro cache_list_put)
qed

lemma hits_misses_sel [simp]:
  "c_mem (misses_one c i) = c_mem c" "c_slab (misses_one c i) = c_slab c" "c_wal (misses_one c i) = c_wal c"
  "c_mem (hits_one c i j) = c_mem c" "c_slab (hits_one c i j) = c_slab c" "c_wal (hits_one c i j) = c_wal c"
  by (simp_all add: misses_one_def hits_one_def put_shard_def)

lemma get_refines:
  assumes c: "cache_inv c" and kd: "keys_distinct c" and key: "length key < 2 ^ 32"
  shows "\<exists>err p n c'. vc_get env c (Some key) = Some (err, p, n, c') \<and> cache_inv c'
     \<and> mset (cache_list c') = mset (cache_list c) \<and> c_slab c' = c_slab c \<and> c_wal c' = c_wal c
     \<and> c_mem c' = c_mem c
     \<and> (err = VC_OK \<and> (\<exists>v. visible (cache_map c) (clk1 env) key = Some v \<and> n = length v
            \<and> cptr_read c' p n = Some v)
        \<or> err = VC_ERR_NOTFND \<and> (visible (cache_map c) (clk1 env) key = None
            \<or> visible (cache_map c) (clk2 env) key = None))"
proof -
  let ?i = "shard_of key" and ?T = "table_of c (shard_of key)"
  have i: "?i < 64" by (rule shard_idx_less)
  obtain r res where g: "get_slot env c key = Some r" "vc_get env c (Some key) = Some res" "get_effect c key r res"
    using vc_get_ok [OF cache_inv_safe [OF c] key] by blast
  obtain err p n c' where res: "res = (err, p, n, c')" by (metis prod_cases4)
  obtain r1 where r1: "shard_find (c_mem c) (clk1 env) (c_shards c ! ?i) key (of_nat (length key)) (hash_key key) = Some r1"
    using live_found [OF cache_inv_safe [OF c] key] by blast
  obtain r2 where r2: "shard_find (c_mem c) (clk2 env) (c_shards c ! ?i) key (of_nat (length key)) (hash_key key) = Some r2"
    "r2 = UINT32_MAX \<or> unat r2 < length ?T \<and> e_state (?T ! unat r2) = LIVE"
    using live_found [OF cache_inv_safe [OF c] key, of "clk2 env"] by (auto simp: ent_matches_def)
  note f = find_cache_map [OF c kd key r1] find_cache_map [OF c kd key r2(1)]
  have r: "r = r1 \<or> r = r2" "r = UINT32_MAX \<Longrightarrow> r1 = UINT32_MAX \<or> r2 = UINT32_MAX"
    "r1 = UINT32_MAX \<Longrightarrow> r = UINT32_MAX"
    using g(1) r1 r2(1) by (auto simp: get_slot_def Let_def split: if_splits)
  show ?thesis
  proof (cases "r = UINT32_MAX")
    case True
    then have "visible (cache_map c) (clk1 env) key = None \<or> visible (cache_map c) (clk2 env) key = None"
      using f r(2) by (auto simp: visible_def split: option.splits if_splits)
    then show ?thesis
      using g(2,3) res True misses_one_inv [OF c i] hits_misses_list(1) [OF c i]
      by (simp add: get_effect_def)
  next
    case False
    then have "r1 \<noteq> UINT32_MAX" using r(3) by blast
    then obtain v x where vx: "cache_map c key = Some (v, x)" "\<not> expired_at (clk1 env) x"
      using f(1) by (auto split: option.splits if_splits)
    have kv: "kv (c_mem c) (?T ! unat r) = (key, v, x)"
      using f vx r(1) False by (auto split: if_splits)
    have l: "unat r < length ?T" "e_state (?T ! unat r) = LIVE"
      using live_found [OF cache_inv_safe [OF c] key, of "clk1 env"] r1 r2(2) r(1) False by (auto simp: ent_matches_def)
    have e: "ent_ok (c_mem c) (?T ! unat r)" by (rule shard_entry(1) [OF c i l])
    have "vlen (?T ! unat r) = length v" using length_ent_val [OF e] kv by (simp add: kv_def)
    then show ?thesis
      using g(2,3) res False kv vx hits_one_inv(1) [OF c i l(1)] hits_misses_list(2) [OF c i l(1)]
      by (auto simp: get_effect_def kv_def visible_def)
  qed
qed

definition set_expiry :: "env \<Rightarrow> u32 \<Rightarrow> i64" where
  "set_expiry env ttl = (if ttl \<noteq> 0 then clk1 env + ucast ttl * 1000000000 else 0)"

text \<open>No entry of the key has outlived its time.\<close>

definition not_stale :: "vc_cache \<Rightarrow> u64 \<Rightarrow> bytes \<Rightarrow> bool" where
  "not_stale c now key \<longleftrightarrow> (case cache_map c key of None \<Rightarrow> True | Some (v, x) \<Rightarrow> \<not> expired_at now x)"

lemma set_refines:
  assumes c: "cache_inv c" and kd: "keys_distinct c" and env: "env_ok (c_mem c) env"
    and arg: "key \<noteq> []" "val \<noteq> []" "length key < 2 ^ 32"
    and wal: "wal_accepts (c_wal c) key val" and room: "can_make_room (c_shards c ! shard_of key)"
    and stale: "not_stale c (clk2 env) key"
  shows "\<exists>err c'. vc_set env c (Some key) (Some val) ttl = Some (err, c') \<and> cache_inv c' \<and> keys_distinct c'
     \<and> (if alloc_fails env (c_slab c) key val then err = VC_ERR_OOM \<and> cache_map c' = cache_map c
        else err = VC_OK \<and> (\<exists>V. finite V \<and> card V \<le> 1 \<and> key \<notin> V
          \<and> (s_count (c_shards c ! shard_of key) * 100 div s_cap (c_shards c ! shard_of key) < 85
              \<and> cache_map c key = None \<longrightarrow> V = {})
          \<and> cache_map c' = (cache_map c |` (- V))(key \<mapsto> (take 65535 val, set_expiry env ttl))))"
proof -
  obtain err c' where s: "vc_set env c (Some key) (Some val) ttl = Some (err, c')" "cache_inv c'"
    "if alloc_fails env (c_slab c) key val
        then err = VC_ERR_OOM \<and> c_shards c' = c_shards c
          \<and> same_contents (c_mem c) (c_mem c') (shards_lives (mset (c_shards c)))
        else err = VC_OK \<and> set_effect env c key val ttl c'"
    using vc_set_ok [OF c env arg wal room] by blast
  show ?thesis
  proof (cases "alloc_fails env (c_slab c) key val")
    case True
    then have "mset (cache_list c') = mset (cache_list c)"
      using s(3) by (auto simp: mset_cache_list same_contents_def kv_def intro!: image_mset_cong)
    note m = cache_map_cong [OF this]
    show ?thesis using s True m kd by simp
  next
    case False
    let ?i = "shard_of key" and ?s = "c_shards c ! shard_of key"
    let ?R = "others (c_shards c) ?i" and ?m = "c_mem c"
    have i: "?i < length (c_shards c)" using c shard_idx_less by (simp add: cache_inv_def)
    have "set_effect env c key val ttl c'" using s(3) False by simp
    then obtain s' r V L ne where e: "c_shards c' = (c_shards c)[?i := s']"
      "shard_find ?m (clk2 env) ?s key (of_nat (length key)) (hash_key key) = Some r"
      "lives (s_table ?s) = found_in (s_table ?s) r + V + L" "size V \<le> 1"
      "s_count ?s * 100 div s_cap ?s < 85 \<and> r = UINT32_MAX \<longrightarrow> V = {#}"
      "lives (s_table s') = add_mset (core ne) L" "built env key val ttl (hash_key key) (c_mem c') ne"
      "same_contents ?m (c_mem c') (L + ?R)"
      unfolding set_effect_def Let_def by blast
    let ?kv = "image_mset (kv ?m)"
    have same: "image_mset (kv (c_mem c')) (L + ?R) = ?kv (L + ?R)"
      using e(8) by (intro image_mset_cong) (simp add: same_contents_def kv_def)
    have old: "mset (cache_list c) = ?kv (found_in (s_table ?s) r) + ?kv V + ?kv (L + ?R)"
      using shards_lives_nth [OF i] e(3) by (simp add: mset_cache_list ac_simps)
    have new: "mset (cache_list c') = add_mset (key, take 65535 val, set_expiry env ttl) (?kv (L + ?R))"
      using same shards_lives_update [OF i, of s'] e(1,6,7)
      by (simp add: mset_cache_list kv_def built_def set_expiry_def)
    note f = find_cache_map [OF c kd arg(3) e(2)]
    have D: "fst y = key" if "y \<in># ?kv (found_in (s_table ?s) r)" for y
      using that f by (auto simp: found_in_def split: if_splits option.splits)
    have nokey: "fst y \<noteq> key" if y: "y \<in># ?kv V + ?kv (L + ?R)" for y
    proof
      assume "fst y = key"
      then have "(key, snd y) \<in># mset (cache_list c)" using old y by (metis prod.collapse union_iff)
      then have cm: "cache_map c key = Some (snd y)" using cache_map_iff [OF kd] by blast
      then have "key \<in># image_mset fst (?kv (found_in (s_table ?s) r))"
        using f stale by (auto simp: not_stale_def found_in_def kv_def split: if_splits)
      moreover have "key \<in># image_mset fst (?kv V + ?kv (L + ?R))"
        using y \<open>fst y = key\<close> by (metis image_eqI set_image_mset)
      moreover have "distinct_ms (image_mset fst (?kv (found_in (s_table ?s) r)) + image_mset fst (?kv V + ?kv (L + ?R)))"
        using kd unfolding keys_distinct_ms old by (simp only: image_mset_union add.assoc)
      ultimately show False unfolding distinct_ms_union by blast
    qed
    note m = cache_map_set [OF kd old new D nokey]
    have V: "finite (fst ` set_mset (?kv V))" "card (fst ` set_mset (?kv V)) \<le> 1"
      using e(4) by (cases V; simp)+
    have kV: "key \<notin> fst ` set_mset (?kv V)"
    proof
      assume "key \<in> fst ` set_mset (?kv V)"
      then obtain y where y: "key = fst y" "y \<in># ?kv V" by (rule imageE)
      then have "y \<in># ?kv V + ?kv (L + ?R)" by (simp only: union_iff simp_thms)
      then show False using nokey y(1) by blast
    qed
    let ?K = "fst ` set_mset (?kv V)"
    have "?K = {}" if "s_count ?s * 100 div s_cap ?s < 85 \<and> cache_map c key = None"
      using that e(5) f by simp
    then have "\<exists>K. finite K \<and> card K \<le> 1 \<and> key \<notin> K
        \<and> (s_count ?s * 100 div s_cap ?s < 85 \<and> cache_map c key = None \<longrightarrow> K = {})
        \<and> cache_map c' = (cache_map c |` (- K))(key \<mapsto> (take 65535 val, set_expiry env ttl))"
      using V kV m(2) by blast
    then show ?thesis using s False m(1) by (simp only: if_False simp_thms) blast
  qed
qed

lemma del_refines:
  assumes c: "cache_inv c" and kd: "keys_distinct c" and key: "length key < 2 ^ 32"
    and wal: "wal_accepts (c_wal c) key []"
  shows "\<exists>err c'. vc_del env c (Some key) = Some (err, c') \<and> cache_inv c' \<and> keys_distinct c'
     \<and> (if visible (cache_map c) (clk1 env) key = None
        then err = VC_ERR_NOTFND \<and> cache_map c' = cache_map c
        else err = VC_OK \<and> cache_map c' = (cache_map c)(key := None))"
proof -
  let ?i = "shard_of key" and ?s = "c_shards c ! shard_of key" and ?m = "c_mem c"
  let ?R = "others (c_shards c) ?i"
  have i: "?i < length (c_shards c)" using c shard_idx_less by (simp add: cache_inv_def)
  obtain err c' where d: "vc_del env c (Some key) = Some (err, c')" "cache_inv c'"
    "del_effect (clk1 env) c key err c'"
    using vc_del_ok [OF c key wal] by blast
  then obtain s' r where e: "c_shards c' = (c_shards c)[?i := s']"
    "shard_find ?m (clk1 env) ?s key (of_nat (length key)) (hash_key key) = Some r"
    "err = (if r = UINT32_MAX then VC_ERR_NOTFND else VC_OK)"
    "lives (s_table ?s) = found_in (s_table ?s) r + lives (s_table s')"
    "same_contents ?m (c_mem c') (lives (s_table s') + ?R)"
    unfolding del_effect_def Let_def by blast
  note f = find_cache_map [OF c kd key e(2)]
  have same: "image_mset (kv (c_mem c')) (lives (s_table s') + ?R) = image_mset (kv ?m) (lives (s_table s') + ?R)"
    using e(5) by (intro image_mset_cong) (simp add: same_contents_def kv_def)
  have "mset (cache_list c) = image_mset (kv ?m) (found_in (s_table ?s) r) + mset (cache_list c')"
    using shards_lives_nth [OF i] shards_lives_update [OF i, of s'] e(1,4) same
    by (simp add: mset_cache_list ac_simps)
  note old = this
  show ?thesis
  proof (cases "r = UINT32_MAX")
    case True
    then have "mset (cache_list c') = mset (cache_list c)" using old by (simp add: found_in_def)
    note m = cache_map_cong [OF this]
    have "visible (cache_map c) (clk1 env) key = None"
      using f True by (auto simp: visible_def split: option.splits if_splits)
    then show ?thesis using d(1,2) e(3) True m kd by simp
  next
    case False
    then obtain v x where vx: "cache_map c key = Some (v, x)" "\<not> expired_at (clk1 env) x"
      "kv ?m (s_table ?s ! unat r) = (key, v, x)"
      using f by (auto split: option.splits if_splits)
    then have "mset (cache_list c) = add_mset (key, v, x) (mset (cache_list c'))"
      using old False by (simp add: found_in_def)
    note m = cache_map_remove [OF kd this]
    have "visible (cache_map c) (clk1 env) key \<noteq> None" using vx by (simp add: visible_def)
    then show ?thesis using d(1,2) e(3) False m by simp
  qed
qed

section \<open>The contract of a key-value store\<close>

text \<open>
  What the clients of the cache rely on. The environment \<open>e\<close> of a call carries the time it
  runs at; \<open>can_put\<close> says that the call has the memory and the room it needs. A store that
  evicts may lose other keys on a \<open>put\<close>, never the one that is written.
\<close>

locale kv_store =
  fixes inv :: "'s \<Rightarrow> bool" and view :: "'s \<Rightarrow> store"
    and get :: "'e \<Rightarrow> 's \<Rightarrow> bytes \<Rightarrow> (bytes option \<times> 's) option"
    and put :: "'e \<Rightarrow> 's \<Rightarrow> bytes \<Rightarrow> bytes \<Rightarrow> u32 \<Rightarrow> (vc_err \<times> 's) option"
    and del :: "'e \<Rightarrow> 's \<Rightarrow> bytes \<Rightarrow> (vc_err \<times> 's) option"
    and time :: "'e \<Rightarrow> u64" and expiry :: "'e \<Rightarrow> u32 \<Rightarrow> i64"
    and can_get :: "'e \<Rightarrow> bytes \<Rightarrow> bool" and can_put :: "'e \<Rightarrow> 's \<Rightarrow> bytes \<Rightarrow> bytes \<Rightarrow> bool"
    and can_del :: "'e \<Rightarrow> 's \<Rightarrow> bytes \<Rightarrow> bool"
  assumes get_law: "inv s \<Longrightarrow> can_get e k \<Longrightarrow>
      \<exists>s'. get e s k = Some (visible (view s) (time e) k, s') \<and> inv s' \<and> view s' = view s"
    and put_law: "inv s \<Longrightarrow> can_put e s k v \<Longrightarrow>
      \<exists>s' V. put e s k v ttl = Some (VC_OK, s') \<and> inv s' \<and> k \<notin> V
        \<and> view s' = (view s |` (- V))(k \<mapsto> (v, expiry e ttl))"
    and del_law: "inv s \<Longrightarrow> can_del e s k \<Longrightarrow>
      \<exists>err s'. del e s k = Some (err, s') \<and> inv s'
        \<and> err = (if visible (view s) (time e) k = None then VC_ERR_NOTFND else VC_OK)
        \<and> visible (view s') (time e) = (visible (view s) (time e))(k := None)"
begin

lemma read_back:
  assumes "inv s" and "can_put e s k v" and "can_get e' k" and "\<not> expired_at (time e') (expiry e ttl)"
  shows "\<exists>s' s''. put e s k v ttl = Some (VC_OK, s') \<and> get e' s' k = Some (Some v, s'') \<and> inv s''"
proof -
  obtain s' V where p: "put e s k v ttl = Some (VC_OK, s')" "inv s'"
    "view s' = (view s |` (- V))(k \<mapsto> (v, expiry e ttl))"
    using put_law [OF assms(1,2), of ttl] by blast
  then have "visible (view s') (time e') k = Some v" using assms(4) by (simp add: visible_def)
  then show ?thesis using p(1) get_law [OF p(2) assms(3)] by auto
qed

text \<open>A \<open>put\<close> never makes another key show anything but its old value or nothing.\<close>

lemma others_kept_or_evicted:
  assumes "inv s" and "can_put e s k v" and "k' \<noteq> k"
  shows "\<exists>s'. put e s k v ttl = Some (VC_OK, s')
     \<and> (view s' k' = view s k' \<or> view s' k' = None)"
proof -
  obtain s' V where p: "put e s k v ttl = Some (VC_OK, s')"
    "view s' = (view s |` (- V))(k \<mapsto> (v, expiry e ttl))"
    using put_law [OF assms(1,2), of ttl] by blast
  have "view s' k' = view s k' \<or> view s' k' = None"
    unfolding p(2) using assms(3) by (simp add: restrict_map_def)
  then show ?thesis using p(1) by blast
qed

lemma deleted_is_gone:
  assumes "inv s" and "can_del e s k" and "can_get e' k" and "time e' = time e"
  shows "\<exists>err s' s''. del e s k = Some (err, s') \<and> get e' s' k = Some (None, s'') \<and> inv s''"
proof -
  obtain err s' where d: "del e s k = Some (err, s')" "inv s'"
    "visible (view s') (time e) = (visible (view s) (time e))(k := None)"
    using del_law [OF assms(1,2)] by blast
  have "visible (view s') (time e') k = None" unfolding assms(4) d(3) by simp
  then show ?thesis using d(1) get_law [OF d(2) assms(3)] by auto
qed

end

section \<open>The cache keeps the contract\<close>

text \<open>A lookup whose caller copies the value out at once, as all callers in the server do.\<close>

definition get_copy :: "env \<Rightarrow> vc_cache \<Rightarrow> bytes \<Rightarrow> (bytes option \<times> vc_cache) option" where
  "get_copy env c key = do {
     (err, p, n, c) \<leftarrow> vc_get env c (Some key);
     if err = VC_OK then do { v \<leftarrow> cptr_read c p n; Some (Some v, c) } else Some (None, c)
   }"

definition can_get :: "env \<Rightarrow> bytes \<Rightarrow> bool" where
  "can_get env key \<longleftrightarrow> length key < 2 ^ 32 \<and> clk1 env = clk2 env"

definition can_put :: "env \<Rightarrow> vc_cache \<Rightarrow> bytes \<Rightarrow> bytes \<Rightarrow> bool" where
  "can_put env c key val \<longleftrightarrow> key \<noteq> [] \<and> length key < 2 ^ 32 \<and> val \<noteq> [] \<and> length val \<le> 65535
     \<and> env_ok (c_mem c) env \<and> \<not> alloc_fails env (c_slab c) key val \<and> wal_accepts (c_wal c) key val
     \<and> can_make_room (c_shards c ! shard_of key)
     \<and> not_stale c (clk2 env) key"

definition can_del :: "env \<Rightarrow> vc_cache \<Rightarrow> bytes \<Rightarrow> bool" where
  "can_del env c key \<longleftrightarrow> length key < 2 ^ 32 \<and> wal_accepts (c_wal c) key []"

definition store_inv :: "vc_cache \<Rightarrow> bool" where
  "store_inv c \<longleftrightarrow> cache_inv c \<and> keys_distinct c"

lemma get_copy_law:
  assumes "store_inv c" and "can_get env key"
  shows "\<exists>c'. get_copy env c key = Some (visible (cache_map c) (clk1 env) key, c')
     \<and> store_inv c' \<and> cache_map c' = cache_map c"
proof -
  have c: "cache_inv c" "keys_distinct c" "length key < 2 ^ 32" "clk2 env = clk1 env"
    using assms by (simp_all add: store_inv_def can_get_def)
  obtain err p n c' where g: "vc_get env c (Some key) = Some (err, p, n, c')" "cache_inv c'"
    "mset (cache_list c') = mset (cache_list c)"
    "err = VC_OK \<and> (\<exists>v. visible (cache_map c) (clk1 env) key = Some v \<and> n = length v
            \<and> cptr_read c' p n = Some v)
        \<or> err = VC_ERR_NOTFND \<and> (visible (cache_map c) (clk1 env) key = None
            \<or> visible (cache_map c) (clk2 env) key = None)"
    using get_refines [OF c(1-3), of env] by blast
  then show ?thesis
    using cache_map_cong [OF g(3)] c(2,4) by (auto simp: get_copy_def store_inv_def)
qed

lemma put_law_cache:
  assumes "store_inv c" and "can_put env c key val"
  shows "\<exists>c' V. vc_set env c (Some key) (Some val) ttl = Some (VC_OK, c') \<and> store_inv c' \<and> key \<notin> V
     \<and> cache_map c' = (cache_map c |` (- V))(key \<mapsto> (val, set_expiry env ttl))"
proof -
  have c: "cache_inv c" "keys_distinct c" using assms(1) by (simp_all add: store_inv_def)
  have p: "env_ok (c_mem c) env" "key \<noteq> []" "val \<noteq> []" "length key < 2 ^ 32"
    "wal_accepts (c_wal c) key val" "can_make_room (c_shards c ! shard_of key)"
    "not_stale c (clk2 env) key"
    "\<not> alloc_fails env (c_slab c) key val" "length val \<le> 65535"
    using assms(2) by (auto simp: can_put_def)
  then show ?thesis
    using set_refines [OF c p(1-7), where ttl = ttl] by (auto simp: store_inv_def)
qed

lemma del_law_cache:
  assumes "store_inv c" and "can_del env c key"
  shows "\<exists>err c'. vc_del env c (Some key) = Some (err, c') \<and> store_inv c'
     \<and> err = (if visible (cache_map c) (clk1 env) key = None then VC_ERR_NOTFND else VC_OK)
     \<and> visible (cache_map c') (clk1 env) = (visible (cache_map c) (clk1 env))(key := None)"
proof -
  obtain err c' where d: "vc_del env c (Some key) = Some (err, c')" "cache_inv c'" "keys_distinct c'"
    "if visible (cache_map c) (clk1 env) key = None
        then err = VC_ERR_NOTFND \<and> cache_map c' = cache_map c
        else err = VC_OK \<and> cache_map c' = (cache_map c)(key := None)"
    using del_refines [of c key env] assms by (auto simp: store_inv_def can_del_def)
  then have "visible (cache_map c') (clk1 env) = (visible (cache_map c) (clk1 env))(key := None)"
    by (auto simp: fun_eq_iff visible_def split: if_splits)
  then show ?thesis using d by (auto simp: store_inv_def split: if_splits)
qed

interpretation vc: kv_store store_inv cache_map get_copy
    "\<lambda>env c key val ttl. vc_set env c (Some key) (Some val) ttl" "\<lambda>env c key. vc_del env c (Some key)"
    clk1 set_expiry can_get can_put can_del
  by unfold_locales (use get_copy_law put_law_cache del_law_cache in blast)+

end
