(* ===== verification/CString.thy ===== *)
theory CString
  imports Prelude
begin

text \<open>
  The part of the C library that the network code uses on text: strings that end at a zero
  byte, comparison without regard to case, \<^verbatim>\<open>strtoll\<close> in base 10 and the decimal conversions
  of \<^verbatim>\<open>printf\<close>. Text is a list of bytes, as the code stores it; \<open>ascii\<close> turns a literal of the
  source into one.
\<close>

definition CRLF :: bytes where
  "CRLF = [13, 10]"

definition c_str :: "bytes \<Rightarrow> bytes" where
  "c_str buf = takeWhile (\<lambda>b. b \<noteq> 0) buf"

definition strndup :: "bytes \<Rightarrow> nat \<Rightarrow> bytes" where
  "strndup s n = c_str (take n s) @ [0]"

definition to_lower :: "byte \<Rightarrow> byte" where
  "to_lower b = (if 65 \<le> b \<and> b \<le> 90 then b + 32 else b)"

definition to_upper :: "byte \<Rightarrow> byte" where
  "to_upper b = (if 97 \<le> b \<and> b \<le> 122 then b - 32 else b)"

definition strcaseeq :: "bytes \<Rightarrow> bytes \<Rightarrow> bool" where
  "strcaseeq s t \<longleftrightarrow> map to_lower s = map to_lower t"

definition is_space :: "byte \<Rightarrow> bool" where
  "is_space b \<longleftrightarrow> b = 32 \<or> 9 \<le> b \<and> b \<le> 13"

definition is_digit :: "byte \<Rightarrow> bool" where
  "is_digit b \<longleftrightarrow> 48 \<le> b \<and> b \<le> 57"

definition digits_val :: "bytes \<Rightarrow> nat" where
  "digits_val ds = foldl (\<lambda>n b. 10 * n + (unat b - 48)) 0 ds"

text \<open>
  The result of \<^verbatim>\<open>strtoll\<close>: the value, clamped to the range of the type; the offset of the
  first byte that was not converted, 0 when there is no number; whether the value was clamped
  (\<^verbatim>\<open>errno\<close> is set to \<^verbatim>\<open>ERANGE\<close>).
\<close>

definition strtoll :: "bytes \<Rightarrow> int \<times> nat \<times> bool" where
  "strtoll s =
     (let sp = takeWhile is_space s;
          s1 = drop (length sp) s;
          sign = (if s1 \<noteq> [] \<and> (hd s1 = 43 \<or> hd s1 = 45) then 1 else 0 :: nat);
          neg = (sign = 1 \<and> hd s1 = 45);
          ds = takeWhile is_digit (drop sign s1);
          v = int (digits_val ds);
          v = (if neg then - v else v)
      in if ds = [] then (0, 0, False)
         else (max (- (2 ^ 63)) (min (2 ^ 63 - 1) v), length sp + sign + length ds,
               v < - (2 ^ 63) \<or> 2 ^ 63 - 1 < v))"

fun dec_nat :: "nat \<Rightarrow> bytes" where
  "dec_nat n = (if n < 10 then [48 + of_nat n] else dec_nat (n div 10) @ [48 + of_nat (n mod 10)])"

declare dec_nat.simps [simp del]

definition dec_int :: "int \<Rightarrow> bytes" where
  "dec_int i = (if i < 0 then 45 # dec_nat (nat (- i)) else dec_nat (nat i))"

text \<open>\<^verbatim>\<open>snprintf\<close> returns the length of the whole text and stores what fits, with the end mark.\<close>

definition snprintf :: "nat \<Rightarrow> bytes \<Rightarrow> nat \<times> bytes" where
  "snprintf cap s = (length s, take (cap - 1) s @ [0])"

section \<open>Strings\<close>

lemma length_ascii [simp]: "length (ascii s) = length s"
  by (simp add: ascii_def)

lemma ascii_Nil [simp]: "ascii [] = []"
  by (simp add: ascii_def)

lemma length_CRLF [simp]: "length CRLF = 2"
  by (simp add: CRLF_def)

lemma c_str_append_0 [simp]: "0 \<notin> set s \<Longrightarrow> c_str (s @ 0 # rest) = s"
  unfolding c_str_def by (induction s) auto

lemma c_str_id: "0 \<notin> set s \<Longrightarrow> c_str s = s"
  unfolding c_str_def by (induction s) auto

lemma c_str_no_0 [simp]: "0 \<notin> set (c_str s)"
  unfolding c_str_def by (induction s) (auto split: if_splits)

lemma strndup_text: "0 \<notin> set s \<Longrightarrow> strndup s (length s) = s @ [0]"
  by (simp add: strndup_def c_str_id)

lemma strcaseeq_refl [simp]: "strcaseeq s s"
  by (simp add: strcaseeq_def)

lemma strcaseeq_sym: "strcaseeq s t \<longleftrightarrow> strcaseeq t s"
  by (auto simp: strcaseeq_def)

lemma strcaseeq_trans: "strcaseeq s t \<Longrightarrow> strcaseeq t u \<Longrightarrow> strcaseeq s u"
  by (simp add: strcaseeq_def)

lemma to_lower_upper [simp]: "to_lower (to_upper b) = to_lower b"
proof -
  have "97 \<le> b \<Longrightarrow> b \<le> 122 \<Longrightarrow> 65 \<le> b - 32 \<and> b - 32 \<le> 90 \<and> b - 32 + 32 = b"
    by (auto simp: word_le_nat_alt unat_sub_if')
  moreover have "97 \<le> b \<Longrightarrow> b \<le> 122 \<Longrightarrow> \<not> (65 \<le> b \<and> b \<le> 90)"
    by (simp add: word_le_nat_alt)
  ultimately show ?thesis
    unfolding to_lower_def to_upper_def by auto
qed

lemma strcaseeq_upper [simp]: "strcaseeq (map to_upper s) t \<longleftrightarrow> strcaseeq s t"
  by (simp add: strcaseeq_def comp_def)

section \<open>Decimal numbers\<close>

lemma digit_byte:
  assumes "n < 10"
  shows "unat (48 + of_nat n :: byte) = 48 + n" and "is_digit (48 + of_nat n)"
proof -
  show u: "unat (48 + of_nat n :: byte) = 48 + n"
    using assms by (simp add: unat_word_ariths unat_of_nat)
  show "is_digit (48 + of_nat n)"
    using assms unfolding is_digit_def word_le_nat_alt u by simp
qed

lemma is_digit_range: "is_digit b \<longleftrightarrow> 48 \<le> unat b \<and> unat b \<le> 57"
  by (simp add: is_digit_def word_le_nat_alt)

lemma digits_val_snoc [simp]: "digits_val (ds @ [b]) = 10 * digits_val ds + (unat b - 48)"
  by (simp add: digits_val_def)

lemma dec_nat_digits: "list_all is_digit (dec_nat n)"
  by (induction n rule: dec_nat.induct) (subst dec_nat.simps, simp add: digit_byte)

lemma digits_val_dec_nat [simp]: "digits_val (dec_nat n) = n"
proof (induction n rule: dec_nat.induct)
  case (1 n)
  show ?case
  proof (cases "n < 10")
    case True
    then show ?thesis by (subst dec_nat.simps) (simp add: digits_val_def digit_byte)
  next
    case False
    then show ?thesis
      using 1 by (subst dec_nat.simps) (simp add: digit_byte)
  qed
qed

lemma dec_nat_nonempty [simp]: "dec_nat n \<noteq> []"
  by (subst dec_nat.simps) simp

lemma dec_nat_set: "b \<in> set (dec_nat n) \<Longrightarrow> is_digit b"
  using dec_nat_digits [of n] by (simp add: list_all_iff)

lemma length_dec_nat: "0 < k \<Longrightarrow> n < 10 ^ k \<Longrightarrow> length (dec_nat n) \<le> k"
proof (induction n arbitrary: k rule: dec_nat.induct)
  case (1 n)
  show ?case
  proof (cases "n < 10")
    case True
    then show ?thesis using 1(2) by (subst dec_nat.simps) simp
  next
    case False
    then obtain j where j: "k = Suc j" "0 < j"
      using 1(2,3) by (cases k; cases "k - 1") auto
    have "n div 10 < 10 ^ j" using 1(3) by (simp add: j less_mult_imp_div_less mult.commute)
    then show ?thesis
      using 1(1) [OF False j(2)] False by (subst dec_nat.simps) (simp add: j)
  qed
qed

lemma is_digit_not_space: "is_digit b \<Longrightarrow> \<not> is_space b"
  unfolding is_digit_range is_space_def word_le_nat_alt by auto

lemma is_digit_not:
  "is_digit b \<Longrightarrow> b \<noteq> 43" "is_digit b \<Longrightarrow> b \<noteq> 45" "is_digit b \<Longrightarrow> b \<noteq> 13" "is_digit b \<Longrightarrow> b \<noteq> 10"
  "is_digit b \<Longrightarrow> b \<noteq> 0"
  unfolding is_digit_range by auto

lemma takeWhile_digits:
  assumes "list_all is_digit ds" and "rest = [] \<or> \<not> is_digit (hd rest)"
  shows "takeWhile is_digit (ds @ rest) = ds"
  using assms by (induction ds) (cases rest; auto)+

lemma strtoll_digits:
  assumes ds: "list_all is_digit ds" "ds \<noteq> []" and rest: "rest = [] \<or> \<not> is_digit (hd rest)"
    and bound: "int (digits_val ds) \<le> 2 ^ 63 - 1"
  shows "strtoll (ds @ rest) = (int (digits_val ds), length ds, False)"
proof -
  obtain d ds' where d: "ds = d # ds'" "is_digit d" using ds by (cases ds) auto
  have "takeWhile is_space (ds @ rest) = []" using d is_digit_not_space by simp
  moreover have "takeWhile is_digit (ds @ rest) = ds" by (rule takeWhile_digits [OF ds(1) rest])
  moreover have "hd (ds @ rest) \<noteq> 43" "hd (ds @ rest) \<noteq> 45" using d is_digit_not by auto
  ultimately show ?thesis
    using ds(2) bound by (simp add: strtoll_def Let_def)
qed

lemma strtoll_dec_nat:
  assumes "int n \<le> 2 ^ 63 - 1" and "rest = [] \<or> \<not> is_digit (hd rest)"
  shows "strtoll (dec_nat n @ rest) = (int n, length (dec_nat n), False)"
  using strtoll_digits [OF dec_nat_digits dec_nat_nonempty assms(2)] assms(1) by simp

lemma strtoll_dec_int:
  assumes "- (2 ^ 63) \<le> i" and "i \<le> 2 ^ 63 - 1"
  shows "strtoll (dec_int i) = (i, length (dec_int i), False)"
proof (cases "i < 0")
  case False
  then show ?thesis using strtoll_dec_nat [of "nat i" "[]"] assms by (simp add: dec_int_def)
next
  case True
  let ?ds = "dec_nat (nat (- i))"
  have "takeWhile is_digit ?ds = ?ds" using takeWhile_digits [OF dec_nat_digits, of "[]"] by simp
  moreover have "takeWhile is_space (45 # ?ds) = []" by (simp add: is_space_def)
  ultimately show ?thesis
    using True assms by (simp add: dec_int_def strtoll_def Let_def del: takeWhile_eq_all_conv)
qed

lemma strtoll_range: "- (2 ^ 63) \<le> fst (strtoll s) \<and> fst (strtoll s) \<le> 2 ^ 63 - 1"
  by (simp add: strtoll_def Let_def)

lemma strtoll_end: "fst (snd (strtoll s)) \<le> length s"
proof -
  let ?sp = "takeWhile is_space s"
  let ?s1 = "drop (length ?sp) s"
  have "length ?sp \<le> length s" by (rule length_takeWhile_le)
  moreover have "length (takeWhile is_digit (drop k ?s1)) \<le> length ?s1 - k" for k
    using length_takeWhile_le [of is_digit "drop k ?s1"] by simp
  note this [of 0] this [of 1]
  moreover have "length ?s1 = length s - length ?sp" by simp
  moreover have "?s1 \<noteq> [] \<Longrightarrow> 0 < length ?s1" by blast
  ultimately show ?thesis
    by (simp add: strtoll_def Let_def del: length_drop) linarith
qed

lemma dec_int_set: "b \<in> set (dec_int i) \<Longrightarrow> b \<noteq> 13 \<and> b \<noteq> 10 \<and> b \<noteq> 0"
  using dec_nat_set [of b "nat i"] dec_nat_set [of b "nat (- i)"] is_digit_not [of b]
  by (cases "i < 0") (auto simp: dec_int_def)

lemma length_dec_int:
  assumes "- (2 ^ 63) \<le> i" and "i \<le> 2 ^ 64"
  shows "length (dec_int i) \<le> 21"
proof -
  have "nat i < 10 ^ 20" "nat (- i) < 10 ^ 20" using assms by auto
  then show ?thesis
    using length_dec_nat [of 20 "nat i"] length_dec_nat [of 20 "nat (- i)"] by (simp add: dec_int_def)
qed

end
