(* ===== verification/Buffer.thy ===== *)
theory Buffer
  imports CString "HOL-Library.Monad_Syntax"
begin

text \<open>
  The growing I/O buffer and the reply writers of \<^verbatim>\<open>net/proto.c\<close>. A buffer holds the bytes in
  use (the field \<^verbatim>\<open>len\<close> of the source is their number), its capacity and the read cursor. The
  field \<open>b_oom\<close> resolves what the source leaves to the system: whether the next calls of
  \<^verbatim>\<open>realloc\<close> fail; past its end they succeed, up to the largest size an address space grants. An
  operation returns \<open>None\<close> where the source would write outside the allocation or loop for
  ever; the writers return whether the source returns 0.
\<close>

section \<open>The buffer\<close>

record vc_buf =
  b_data :: bytes
  b_cap :: nat
  b_rpos :: nat
  b_oom :: "bool list"

abbreviation b_len :: "vc_buf \<Rightarrow> nat" where
  "b_len b \<equiv> length (b_data b)"

abbreviation (input) MAX_OBJECT :: nat where
  "MAX_OBJECT \<equiv> 2 ^ 62"

definition vc_buf_new :: "bool \<Rightarrow> bool \<Rightarrow> bool list \<Rightarrow> nat \<Rightarrow> vc_buf option" where
  "vc_buf_new calloc_ok malloc_ok oom cap =
     (if \<not> calloc_ok then None else if \<not> malloc_ok then None
      else Some \<lparr>b_data = [], b_cap = cap, b_rpos = 0, b_oom = oom\<rparr>)"

text \<open>The doubling loop; it stops at a size that would not fit 64 bits or stays 0.\<close>

function grow_cap :: "nat \<Rightarrow> nat \<Rightarrow> nat \<Rightarrow> nat option" where
  "grow_cap nc len need =
     (if need \<le> nc - len then Some nc
      else if nc = 0 \<or> 2 ^ 64 \<le> nc * 2 then None
      else grow_cap (nc * 2) len need)"
  by pat_completeness auto
termination by (relation "measure (\<lambda>(nc, len, need). 2 ^ 64 - nc)") auto

declare grow_cap.simps [simp del]

definition c_realloc :: "vc_buf \<Rightarrow> nat \<Rightarrow> bool \<times> vc_buf" where
  "c_realloc b nc =
     (MAX_OBJECT < nc \<or> b_oom b \<noteq> [] \<and> hd (b_oom b), b\<lparr>b_oom := tl (b_oom b)\<rparr>)"

definition vc_buf_grow :: "vc_buf \<Rightarrow> nat \<Rightarrow> (bool \<times> vc_buf) option" where
  "vc_buf_grow b need =
     (if need \<le> b_cap b - b_len b then Some (True, b)
      else if 2 ^ 64 \<le> b_cap b * 2 then None
      else do {
        nc \<leftarrow> grow_cap (b_cap b * 2) (b_len b) need;
        let (failed, b) = c_realloc b nc;
        if failed then Some (False, b) else Some (True, b\<lparr>b_cap := nc\<rparr>)
      })"

definition vc_buf_reset :: "vc_buf \<Rightarrow> vc_buf" where
  "vc_buf_reset b = b\<lparr>b_data := [], b_rpos := 0\<rparr>"

definition vc_buf_consume :: "vc_buf \<Rightarrow> nat \<Rightarrow> vc_buf" where
  "vc_buf_consume b n =
     (if b_len b \<le> n then vc_buf_reset b
      else b\<lparr>b_data := drop n (b_data b), b_rpos := (if n \<le> b_rpos b then b_rpos b - n else 0)\<rparr>)"

section \<open>Writers\<close>

type_synonym writer = "vc_buf \<Rightarrow> (bool \<times> vc_buf) option"

definition APPEND :: "bytes \<Rightarrow> writer" where
  "APPEND s b = do {
     (ok, b) \<leftarrow> vc_buf_grow b (length s);
     if \<not> ok then Some (False, b)
     else if b_len b + length s \<le> b_cap b then Some (True, b\<lparr>b_data := b_data b @ s\<rparr>)
     else None
   }"

definition buf_printf :: "bytes \<Rightarrow> writer" where
  "buf_printf s b = (if 256 \<le> length s then Some (False, b) else APPEND s b)"

text \<open>A statement that returns -1 when the write fails, and one whose result is ignored.\<close>

definition wr_then :: "writer \<Rightarrow> writer \<Rightarrow> writer" where
  "wr_then w1 w2 b = do { (ok, b) \<leftarrow> w1 b; if ok then w2 b else Some (False, b) }"

definition wr_also :: "writer \<Rightarrow> writer \<Rightarrow> writer" where
  "wr_also w1 w2 b = do { (_, b) \<leftarrow> w1 b; w2 b }"

definition resp_write_ok :: writer where
  "resp_write_ok = APPEND (ascii ''+OK'' @ CRLF)"

definition resp_write_null :: writer where
  "resp_write_null = APPEND (ascii ''_'' @ CRLF)"

definition resp_write_null_compat :: "bool \<Rightarrow> writer" where
  "resp_write_null_compat resp3 =
     (if resp3 then APPEND (ascii ''_'' @ CRLF) else APPEND (ascii ''$-1'' @ CRLF))"

definition resp_write_error :: "bytes \<Rightarrow> bytes \<Rightarrow> writer" where
  "resp_write_error code msg = buf_printf (ascii ''-'' @ code @ ascii '' '' @ msg @ CRLF)"

definition resp_write_simple :: "bytes \<Rightarrow> writer" where
  "resp_write_simple s = buf_printf (ascii ''+'' @ s @ CRLF)"

definition resp_write_integer :: "int \<Rightarrow> writer" where
  "resp_write_integer n = buf_printf (ascii '':'' @ dec_int n @ CRLF)"

text \<open>How \<^verbatim>\<open>%g\<close> prints a double, given by its bits, is a parameter.\<close>

definition resp_write_double :: "(u64 \<Rightarrow> bytes) \<Rightarrow> u64 \<Rightarrow> writer" where
  "resp_write_double fmt_g d = buf_printf (ascii '','' @ fmt_g d @ CRLF)"

definition resp_write_bool :: "bool \<Rightarrow> writer" where
  "resp_write_bool v = buf_printf (ascii ''#'' @ (if v then ascii ''t'' else ascii ''f'') @ CRLF)"

definition resp_write_bulk :: "bytes \<Rightarrow> writer" where
  "resp_write_bulk s =
     wr_then (buf_printf (ascii ''$'' @ dec_nat (length s) @ CRLF))
       (wr_then (APPEND s) (APPEND CRLF))"

definition resp_write_array_header :: "int \<Rightarrow> writer" where
  "resp_write_array_header n = buf_printf (ascii ''*'' @ dec_int n @ CRLF)"

definition resp_write_map_header :: "int \<Rightarrow> writer" where
  "resp_write_map_header n = buf_printf (ascii ''%'' @ dec_int n @ CRLF)"

definition VC_WIRE_MAGIC :: bytes where
  "VC_WIRE_MAGIC = ascii ''*VC1''"

abbreviation (input) VC_TYPE_INT64 :: u8 where "VC_TYPE_INT64 \<equiv> 105"
abbreviation (input) VC_TYPE_FLOAT64 :: u8 where "VC_TYPE_FLOAT64 \<equiv> 100"
abbreviation (input) VC_TYPE_BOOL :: u8 where "VC_TYPE_BOOL \<equiv> 98"
abbreviation (input) VC_TYPE_JSON :: u8 where "VC_TYPE_JSON \<equiv> 106"
abbreviation (input) VC_TYPE_LIST :: u8 where "VC_TYPE_LIST \<equiv> 108"
abbreviation (input) VC_TYPE_HASH :: u8 where "VC_TYPE_HASH \<equiv> 104"
abbreviation (input) VC_TYPE_BINARY :: u8 where "VC_TYPE_BINARY \<equiv> 66"
abbreviation (input) VC_TYPE_STRING :: u8 where "VC_TYPE_STRING \<equiv> 83"

definition resp_write_vc_typed :: "u8 \<Rightarrow> bytes \<Rightarrow> writer" where
  "resp_write_vc_typed t payload =
     wr_then (buf_printf (ascii ''$'' @ dec_nat (4 + 1 + length payload) @ CRLF))
       (wr_then (APPEND VC_WIRE_MAGIC)
         (wr_then (APPEND [t]) (wr_then (APPEND payload) (APPEND CRLF))))"

definition resp_write_vc_int64 :: "i64 \<Rightarrow> writer" where
  "resp_write_vc_int64 v = resp_write_vc_typed VC_TYPE_INT64 (le_bytes 8 v)"

definition resp_write_vc_float64 :: "u64 \<Rightarrow> writer" where
  "resp_write_vc_float64 v = resp_write_vc_typed VC_TYPE_FLOAT64 (le_bytes 8 v)"

definition resp_write_vc_bool :: "bool \<Rightarrow> writer" where
  "resp_write_vc_bool v = resp_write_vc_typed VC_TYPE_BOOL [if v then 1 else 0]"

definition resp_write_vc_json :: "bytes \<Rightarrow> writer" where
  "resp_write_vc_json s = resp_write_vc_typed VC_TYPE_JSON s"

definition resp_write_vc_binary :: "bytes \<Rightarrow> writer" where
  "resp_write_vc_binary s = resp_write_vc_typed VC_TYPE_BINARY s"

text \<open>The bulk strings of the HELLO reply are written without looking at the results.\<close>

definition resp_write_hello :: "bytes \<Rightarrow> bytes \<Rightarrow> bool \<Rightarrow> writer" where
  "resp_write_hello server_ver node_id resp3 =
     wr_then (if resp3 then resp_write_map_header 5 else resp_write_array_header (5 * 2))
       (wr_also (resp_write_bulk (ascii ''server''))
       (wr_also (resp_write_bulk (ascii ''voidcache''))
       (wr_also (resp_write_bulk (ascii ''version''))
       (wr_also (resp_write_bulk server_ver)
       (wr_also (resp_write_bulk (ascii ''proto''))
       (wr_also (resp_write_integer (if resp3 then 3 else 2))
       (wr_also (resp_write_bulk (ascii ''id''))
       (wr_also (resp_write_bulk node_id)
       (wr_also (resp_write_bulk (ascii ''mode''))
       (wr_also (resp_write_bulk (ascii ''standalone''))
         (\<lambda>b. Some (True, b))))))))))))"

section \<open>What the buffer promises\<close>

definition buf_ok :: "vc_buf \<Rightarrow> bool" where
  "buf_ok b \<longleftrightarrow> 0 < b_cap b \<and> b_cap b \<le> MAX_OBJECT \<and> b_len b \<le> b_cap b"

text \<open>
  A writer emits a text: it returns, keeps the buffer well formed and what it holds, only adds
  bytes at the end, and adds exactly the text, reporting success, when memory is granted.
\<close>

definition roomy :: "vc_buf \<Rightarrow> nat \<Rightarrow> bool" where
  "roomy b n \<longleftrightarrow> b_oom b = [] \<and> b_len b + n \<le> 2 ^ 61"

definition emits :: "writer \<Rightarrow> bytes \<Rightarrow> bool" where
  "emits w s \<longleftrightarrow> (\<forall>b. buf_ok b \<longrightarrow> (\<exists>ok b' t. w b = Some (ok, b') \<and> buf_ok b'
     \<and> b_data b' = b_data b @ t \<and> b_rpos b' = b_rpos b
     \<and> (roomy b (length s) \<longrightarrow> ok \<and> b_oom b' = [] \<and> t = s)))"

text \<open>A writer is exact if success means that the whole text was added.\<close>

definition exact :: "writer \<Rightarrow> bytes \<Rightarrow> bool" where
  "exact w s \<longleftrightarrow> (\<forall>b b'. w b = Some (True, b') \<longrightarrow> b_data b' = b_data b @ s)"

named_theorems emits_intros \<open>what the writers emit\<close>

lemma grow_cap_bounds:
  assumes "grow_cap nc len need = Some nc'" and "nc < 2 * (len + need) \<or> nc = m" and "0 < nc"
  shows "need \<le> nc' - len" and "0 < nc'" and "nc' < 2 * (len + need) \<or> nc' = m"
proof -
  have "need \<le> nc' - len \<and> 0 < nc' \<and> (nc' < 2 * (len + need) \<or> nc' = m)"
    using assms
  proof (induction nc len need rule: grow_cap.induct)
    case (1 nc len need)
    show ?case
    proof (cases "need \<le> nc - len")
      case True
      then show ?thesis using 1(2,3,4) by (simp add: grow_cap.simps [of nc])
    next
      case False
      then have "\<not> (nc = 0 \<or> 2 ^ 64 \<le> nc * 2)" "grow_cap (nc * 2) len need = Some nc'"
        using 1(2) by (simp_all add: grow_cap.simps [of nc] split: if_splits)
      moreover have "nc * 2 < 2 * (len + need)" using False by arith
      ultimately show ?thesis using 1(1) [OF False] by simp
    qed
  qed
  then show "need \<le> nc' - len" "0 < nc'" "nc' < 2 * (len + need) \<or> nc' = m" by auto
qed

lemma grow_cap_total:
  assumes "0 < nc" and "nc \<le> 2 ^ 63" and "len + need \<le> 2 ^ 63"
  shows "\<exists>nc'. grow_cap nc len need = Some nc'"
  using assms
proof (induction nc len need rule: grow_cap.induct)
  case (1 nc len need)
  show ?case
  proof (cases "need \<le> nc - len")
    case True
    then show ?thesis by (simp add: grow_cap.simps [of nc])
  next
    case False
    then have "nc < len + need" by arith
    then have small: "nc < 2 ^ 63" "\<not> (nc = 0 \<or> 2 ^ 64 \<le> nc * 2)" using 1(2,4) by simp_all
    show ?thesis
    proof (cases "nc * 2 < 2 ^ 63")
      case True
      then show ?thesis
        using 1(1) [OF False small(2)] 1(2,4) False small by (simp add: grow_cap.simps [of nc])
    next
      case big: False
      have "need \<le> nc * 2 - len" using big 1(4) by simp
      then show ?thesis using False small by (simp add: grow_cap.simps [of nc] grow_cap.simps [of "nc * 2"])
    qed
  qed
qed

lemma snd_c_realloc [simp]: "snd (c_realloc b nc) = b\<lparr>b_oom := tl (b_oom b)\<rparr>"
  by (simp add: c_realloc_def)

lemma vc_buf_grow_cap:
  assumes "vc_buf_grow b need = Some (ok, b')" and "0 < b_cap b"
  shows "if ok then b_cap b' \<le> max (b_cap b) (2 * (b_len b + need)) else b_cap b' = b_cap b"
proof (cases "need \<le> b_cap b - b_len b")
  case True
  then show ?thesis using assms(1) by (simp add: vc_buf_grow_def)
next
  case False
  then obtain nc where nc: "grow_cap (b_cap b * 2) (b_len b) need = Some nc"
    and b': "(ok, b') = (if fst (c_realloc b nc) then (False, snd (c_realloc b nc))
      else (True, snd (c_realloc b nc)\<lparr>b_cap := nc\<rparr>))"
    using assms(1) by (auto simp: vc_buf_grow_def split_def Let_def split: if_splits Option.bind_splits)
  have "b_cap b * 2 < 2 * (b_len b + need) \<or> b_cap b * 2 = 0" using False by arith
  moreover have "0 < b_cap b * 2" using assms(2) by simp
  ultimately have "nc \<le> 2 * (b_len b + need)" using grow_cap_bounds [OF nc] by force
  then show ?thesis
    using b' by (cases "fst (c_realloc b nc)") (auto simp: snd_c_realloc)
qed

text \<open>Growing keeps the contents and, on success, makes the room asked for.\<close>

lemma vc_buf_grow_ok:
  assumes "buf_ok b" and "need \<le> MAX_OBJECT"
  shows "\<exists>ok b'. vc_buf_grow b need = Some (ok, b') \<and> buf_ok b' \<and> b_data b' = b_data b
    \<and> b_rpos b' = b_rpos b \<and> (ok \<longrightarrow> need \<le> b_cap b' - b_len b)
    \<and> (roomy b need \<longrightarrow> ok \<and> b_oom b' = [])"
proof (cases "need \<le> b_cap b - b_len b")
  case True
  then show ?thesis using assms by (auto simp: vc_buf_grow_def roomy_def)
next
  case False
  have cap: "0 < b_cap b" "b_cap b \<le> 2 ^ 62" "b_len b \<le> b_cap b" using assms(1) by (auto simp: buf_ok_def)
  then obtain nc where nc: "grow_cap (b_cap b * 2) (b_len b) need = Some nc"
    using grow_cap_total [of "b_cap b * 2" "b_len b" need] assms(2) by auto
  have "b_cap b * 2 < 2 * (b_len b + need)" using False by arith
  then have le: "b_cap b * 2 < 2 * (b_len b + need) \<or> b_cap b * 2 = 0" by simp
  have "0 < b_cap b * 2" using cap by simp
  note nb = grow_cap_bounds [OF nc le this]
  have small: "nc \<le> MAX_OBJECT" if "b_len b + need \<le> 2 ^ 61" using nb(3) nb(2) that cap by simp
  have wide: "\<not> 2 ^ 64 \<le> b_cap b * 2" using cap by simp
  let ?failed = "MAX_OBJECT < nc \<or> b_oom b \<noteq> [] \<and> hd (b_oom b)"
  let ?b1 = "b\<lparr>b_oom := tl (b_oom b)\<rparr>"
  have grow: "vc_buf_grow b need =
      (if ?failed then Some (False, ?b1) else Some (True, ?b1\<lparr>b_cap := nc\<rparr>))"
    unfolding vc_buf_grow_def c_realloc_def using False wide nc by simp
  show ?thesis
  proof (cases ?failed)
    case True
    then have "\<not> roomy b need" using small by (auto simp: roomy_def)
    then show ?thesis using True assms(1) by (auto simp: grow buf_ok_def)
  next
    case no: False
    have "b_len b \<le> nc" using nb(1) False by arith
    then have "buf_ok (?b1\<lparr>b_cap := nc\<rparr>)" using no nb(2) by (simp add: buf_ok_def)
    moreover have "vc_buf_grow b need = Some (True, ?b1\<lparr>b_cap := nc\<rparr>)"
      unfolding grow if_not_P [OF no] ..
    ultimately show ?thesis
      using nb(1) by (intro exI [of _ True] exI [of _ "?b1\<lparr>b_cap := nc\<rparr>"]) (simp add: roomy_def)
  qed
qed

lemma emits_APPEND [emits_intros]:
  assumes "length s \<le> MAX_OBJECT"
  shows "emits (APPEND s) s"
  unfolding emits_def
proof (intro allI impI)
  fix b assume ok: "buf_ok b"
  obtain r b1 where g: "vc_buf_grow b (length s) = Some (r, b1)" "buf_ok b1" "b_data b1 = b_data b"
    "b_rpos b1 = b_rpos b" "r \<longrightarrow> length s \<le> b_cap b1 - b_len b"
    "roomy b (length s) \<longrightarrow> r \<and> b_oom b1 = []"
    using vc_buf_grow_ok [OF ok assms] by blast
  show "\<exists>ok b' t. APPEND s b = Some (ok, b') \<and> buf_ok b' \<and> b_data b' = b_data b @ t
    \<and> b_rpos b' = b_rpos b \<and> (roomy b (length s) \<longrightarrow> ok \<and> b_oom b' = [] \<and> t = s)"
  proof (cases r)
    case True
    then have "b_len b1 + length s \<le> b_cap b1" using g by (simp add: buf_ok_def) linarith
    then show ?thesis using True g by (auto simp: APPEND_def buf_ok_def)
  next
    case False
    then show ?thesis using g by (auto simp: APPEND_def)
  qed
qed

lemma exact_APPEND: "exact (APPEND s) s"
proof -
  have "b_data b' = b_data b" if "vc_buf_grow b n = Some (ok, b')" for b n ok b'
    using that by (auto simp: vc_buf_grow_def c_realloc_def split: if_splits Option.bind_splits)
  then show ?thesis by (fastforce simp: exact_def APPEND_def split: if_splits Option.bind_splits)
qed

lemma emits_buf_printf [emits_intros]: "length s < 256 \<Longrightarrow> emits (buf_printf s) s"
  using emits_APPEND [of s] by (simp add: buf_printf_def [abs_def] emits_def)

lemma exact_buf_printf: "exact (buf_printf s) s"
  using exact_APPEND [of s] by (simp add: exact_def buf_printf_def)

lemma roomy_mono: "roomy b n \<Longrightarrow> m \<le> n \<Longrightarrow> roomy b m"
  by (simp add: roomy_def)

lemma emitsD:
  assumes "emits w s" and "buf_ok b"
  obtains ok b' t where "w b = Some (ok, b')" "buf_ok b'" "b_data b' = b_data b @ t"
    "b_rpos b' = b_rpos b" "roomy b (length s) \<Longrightarrow> ok \<and> b_oom b' = [] \<and> t = s"
  using assms unfolding emits_def by blast

lemma emits_wr_then [emits_intros]:
  assumes "emits w1 s1" and "emits w2 s2"
  shows "emits (wr_then w1 w2) (s1 @ s2)"
  unfolding emits_def
proof (intro allI impI)
  fix b assume "buf_ok b"
  then obtain r1 b1 t1 where 1: "w1 b = Some (r1, b1)" "buf_ok b1" "b_data b1 = b_data b @ t1"
    "b_rpos b1 = b_rpos b" "roomy b (length s1) \<Longrightarrow> r1 \<and> b_oom b1 = [] \<and> t1 = s1"
    using emitsD [OF assms(1)] by metis
  obtain r2 b2 t2 where 2: "w2 b1 = Some (r2, b2)" "buf_ok b2" "b_data b2 = b_data b1 @ t2"
    "b_rpos b2 = b_rpos b1" "roomy b1 (length s2) \<Longrightarrow> r2 \<and> b_oom b2 = [] \<and> t2 = s2"
    using emitsD [OF assms(2) 1(2)] by metis
  have room: "roomy b (length s1) \<and> roomy b1 (length s2)" if "roomy b (length (s1 @ s2))"
    using that 1 by (auto simp: roomy_def)
  show "\<exists>ok b' t. wr_then w1 w2 b = Some (ok, b') \<and> buf_ok b' \<and> b_data b' = b_data b @ t
    \<and> b_rpos b' = b_rpos b \<and> (roomy b (length (s1 @ s2)) \<longrightarrow> ok \<and> b_oom b' = [] \<and> t = s1 @ s2)"
  proof (cases r1)
    case True
    then have "wr_then w1 w2 b = Some (r2, b2)" using 1 2 by (simp add: wr_then_def)
    then show ?thesis using 1 2 room by (intro exI [of _ r2] exI [of _ b2] exI [of _ "t1 @ t2"]) simp
  next
    case False
    then have "wr_then w1 w2 b = Some (False, b1)" using 1 by (simp add: wr_then_def)
    then show ?thesis using False 1 room by (intro exI [of _ False] exI [of _ b1] exI [of _ t1]) auto
  qed
qed

lemma emits_wr_also [emits_intros]:
  assumes "emits w1 s1" and "emits w2 s2"
  shows "emits (wr_also w1 w2) (s1 @ s2)"
  unfolding emits_def
proof (intro allI impI)
  fix b assume "buf_ok b"
  then obtain r1 b1 t1 where 1: "w1 b = Some (r1, b1)" "buf_ok b1" "b_data b1 = b_data b @ t1"
    "b_rpos b1 = b_rpos b" "roomy b (length s1) \<Longrightarrow> r1 \<and> b_oom b1 = [] \<and> t1 = s1"
    using emitsD [OF assms(1)] by metis
  obtain r2 b2 t2 where 2: "w2 b1 = Some (r2, b2)" "buf_ok b2" "b_data b2 = b_data b1 @ t2"
    "b_rpos b2 = b_rpos b1" "roomy b1 (length s2) \<Longrightarrow> r2 \<and> b_oom b2 = [] \<and> t2 = s2"
    using emitsD [OF assms(2) 1(2)] by metis
  have room: "roomy b (length s1) \<and> roomy b1 (length s2)" if "roomy b (length (s1 @ s2))"
    using that 1 by (auto simp: roomy_def)
  have "wr_also w1 w2 b = Some (r2, b2)" using 1 2 by (simp add: wr_also_def)
  then show "\<exists>ok b' t. wr_also w1 w2 b = Some (ok, b') \<and> buf_ok b' \<and> b_data b' = b_data b @ t
    \<and> b_rpos b' = b_rpos b \<and> (roomy b (length (s1 @ s2)) \<longrightarrow> ok \<and> b_oom b' = [] \<and> t = s1 @ s2)"
    using 1 2 room by (intro exI [of _ r2] exI [of _ b2] exI [of _ "t1 @ t2"]) simp
qed

lemma emits_skip [emits_intros]: "emits (\<lambda>b. Some (True, b)) []"
  by (auto simp: emits_def roomy_def)

lemma exact_wr_then: "exact w1 s1 \<Longrightarrow> exact w2 s2 \<Longrightarrow> exact (wr_then w1 w2) (s1 @ s2)"
  by (fastforce simp: exact_def wr_then_def split: Option.bind_splits if_splits)

section \<open>The texts of the replies\<close>

text \<open>The wire format of the replies, as one text each.\<close>

definition bulk_text :: "bytes \<Rightarrow> bytes" where
  "bulk_text s = ascii ''$'' @ dec_nat (length s) @ CRLF @ s @ CRLF"

definition error_text :: "bytes \<Rightarrow> bytes \<Rightarrow> bytes" where
  "error_text code msg = ascii ''-'' @ code @ ascii '' '' @ msg @ CRLF"

definition int_text :: "int \<Rightarrow> bytes" where
  "int_text n = ascii '':'' @ dec_int n @ CRLF"

definition array_text :: "int \<Rightarrow> bytes" where
  "array_text n = ascii ''*'' @ dec_int n @ CRLF"

definition map_text :: "int \<Rightarrow> bytes" where
  "map_text n = ascii ''%'' @ dec_int n @ CRLF"

definition null_text :: "bool \<Rightarrow> bytes" where
  "null_text resp3 = (if resp3 then ascii ''_'' else ascii ''$-1'') @ CRLF"

definition typed_payload :: "u8 \<Rightarrow> bytes \<Rightarrow> bytes" where
  "typed_payload t payload = VC_WIRE_MAGIC @ [t] @ payload"

lemma length_VC_WIRE_MAGIC [simp]: "length VC_WIRE_MAGIC = 4"
  by (simp add: VC_WIRE_MAGIC_def)

lemma length_typed_payload [simp]: "length (typed_payload t p) = 5 + length p"
  by (simp add: typed_payload_def)

lemma length_dec_object: "n \<le> 2 ^ 63 \<Longrightarrow> length (dec_nat n) \<le> 19"
  by (rule length_dec_nat) simp_all

lemma emits_ok [emits_intros]: "emits resp_write_ok (ascii ''+OK'' @ CRLF)"
  unfolding resp_write_ok_def by (rule emits_APPEND) simp

lemma emits_null_compat [emits_intros]: "emits (resp_write_null_compat r) (null_text r)"
  unfolding resp_write_null_compat_def null_text_def by (cases r) (simp_all add: emits_APPEND)

lemma emits_error [emits_intros]:
  "length code + length msg < 252 \<Longrightarrow> emits (resp_write_error code msg) (error_text code msg)"
  unfolding resp_write_error_def error_text_def by (rule emits_buf_printf) simp

lemma emits_simple [emits_intros]:
  "length s < 253 \<Longrightarrow> emits (resp_write_simple s) (ascii ''+'' @ s @ CRLF)"
  unfolding resp_write_simple_def by (rule emits_buf_printf) simp

lemma emits_integer [emits_intros]:
  assumes "- (2 ^ 63) \<le> n" and "n \<le> 2 ^ 64"
  shows "emits (resp_write_integer n) (int_text n)"
  unfolding resp_write_integer_def int_text_def
  by (rule emits_buf_printf) (use length_dec_int [OF assms] in simp)

lemma emits_bool [emits_intros]:
  "emits (resp_write_bool v) (ascii ''#'' @ (if v then ascii ''t'' else ascii ''f'') @ CRLF)"
  unfolding resp_write_bool_def by (rule emits_buf_printf) simp

lemma emits_double [emits_intros]:
  "length (fmt_g d) < 253 \<Longrightarrow> emits (resp_write_double fmt_g d) (ascii '','' @ fmt_g d @ CRLF)"
  unfolding resp_write_double_def by (rule emits_buf_printf) simp

lemma emits_array_header [emits_intros]:
  assumes "- (2 ^ 63) \<le> n" and "n \<le> 2 ^ 64"
  shows "emits (resp_write_array_header n) (array_text n)"
  unfolding resp_write_array_header_def array_text_def
  by (rule emits_buf_printf) (use length_dec_int [OF assms] in simp)

lemma emits_map_header [emits_intros]:
  assumes "- (2 ^ 63) \<le> n" and "n \<le> 2 ^ 64"
  shows "emits (resp_write_map_header n) (map_text n)"
  unfolding resp_write_map_header_def map_text_def
  by (rule emits_buf_printf) (use length_dec_int [OF assms] in simp)

lemma emits_bulk [emits_intros]:
  assumes "length s \<le> MAX_OBJECT"
  shows "emits (resp_write_bulk s) (bulk_text s)"
proof -
  have "length (dec_nat (length s)) \<le> 19" using assms by (intro length_dec_object) simp
  then have "emits (resp_write_bulk s) ((ascii ''$'' @ dec_nat (length s) @ CRLF) @ s @ CRLF)"
    unfolding resp_write_bulk_def using assms by (intro emits_intros) simp_all
  then show ?thesis by (simp add: bulk_text_def)
qed

lemma emits_typed [emits_intros]:
  assumes "length p \<le> MAX_OBJECT"
  shows "emits (resp_write_vc_typed t p) (bulk_text (typed_payload t p))"
proof -
  have "length (dec_nat (5 + length p)) \<le> 19" using assms by (intro length_dec_object) simp
  then have "emits (resp_write_vc_typed t p)
      ((ascii ''$'' @ dec_nat (4 + 1 + length p) @ CRLF) @ VC_WIRE_MAGIC @ [t] @ p @ CRLF)"
    unfolding resp_write_vc_typed_def using assms by (intro emits_intros) simp_all
  then show ?thesis by (simp add: bulk_text_def typed_payload_def)
qed

lemma emits_typed_writers [emits_intros]:
  "emits (resp_write_vc_int64 v) (bulk_text (typed_payload VC_TYPE_INT64 (le_bytes 8 v)))"
  "emits (resp_write_vc_float64 d) (bulk_text (typed_payload VC_TYPE_FLOAT64 (le_bytes 8 d)))"
  "emits (resp_write_vc_bool f) (bulk_text (typed_payload VC_TYPE_BOOL [if f then 1 else 0]))"
  "length s \<le> MAX_OBJECT \<Longrightarrow> emits (resp_write_vc_json s) (bulk_text (typed_payload VC_TYPE_JSON s))"
  "length s \<le> MAX_OBJECT \<Longrightarrow> emits (resp_write_vc_binary s) (bulk_text (typed_payload VC_TYPE_BINARY s))"
  unfolding resp_write_vc_int64_def resp_write_vc_float64_def resp_write_vc_bool_def
    resp_write_vc_json_def resp_write_vc_binary_def by (rule emits_typed; simp)+

lemma emits_hello [emits_intros]:
  assumes "length ver \<le> MAX_OBJECT" and "length node \<le> MAX_OBJECT"
  shows "emits (resp_write_hello ver node resp3)
    ((if resp3 then map_text 5 else array_text 10) @ bulk_text (ascii ''server'')
     @ bulk_text (ascii ''voidcache'') @ bulk_text (ascii ''version'') @ bulk_text ver
     @ bulk_text (ascii ''proto'') @ int_text (if resp3 then 3 else 2) @ bulk_text (ascii ''id'')
     @ bulk_text node @ bulk_text (ascii ''mode'') @ bulk_text (ascii ''standalone'') @ [])"
proof -
  have "emits (if resp3 then resp_write_map_header 5 else resp_write_array_header (5 * 2))
      (if resp3 then map_text 5 else array_text 10)"
    using emits_map_header [of 5] emits_array_header [of 10] by simp
  then show ?thesis
    unfolding resp_write_hello_def using assms by (intro emits_intros) simp_all
qed

lemma emits_safe: "emits w s \<Longrightarrow> buf_ok b \<Longrightarrow> \<exists>ok b'. w b = Some (ok, b') \<and> buf_ok b'"
  unfolding emits_def by blast

section \<open>Properties\<close>

text \<open>
  A bulk reply to a well-formed buffer keeps what the buffer holds; when
  memory is granted it adds the length line, the bytes and the line end, reporting success, and
  whenever success is reported all of it was added.
\<close>

theorem resp_write_bulk_appends:
  assumes "buf_ok b" and "length s \<le> MAX_OBJECT"
  shows "\<exists>ok b' t. resp_write_bulk s b = Some (ok, b') \<and> buf_ok b' \<and> b_data b' = b_data b @ t
    \<and> (ok \<longrightarrow> t = ascii ''$'' @ dec_nat (length s) @ CRLF @ s @ CRLF)
    \<and> (b_oom b = [] \<and> b_len b + length s + 64 \<le> 2 ^ 61 \<longrightarrow> ok)"
proof -
  obtain ok b' t where w: "resp_write_bulk s b = Some (ok, b')" "buf_ok b'"
    "b_data b' = b_data b @ t" "roomy b (length (bulk_text s)) \<Longrightarrow> ok \<and> b_oom b' = [] \<and> t = bulk_text s"
    using emitsD [OF emits_bulk [OF assms(2)] assms(1)] by metis
  have "exact (resp_write_bulk s) ((ascii ''$'' @ dec_nat (length s) @ CRLF) @ s @ CRLF)"
    unfolding resp_write_bulk_def by (intro exact_wr_then exact_buf_printf exact_APPEND)
  then have "ok \<Longrightarrow> t = ascii ''$'' @ dec_nat (length s) @ CRLF @ s @ CRLF"
    using w(1,3) by (simp add: exact_def)
  moreover have "length (dec_nat (length s)) \<le> 19" using assms(2) by (intro length_dec_object) simp
  then have "b_oom b = [] \<and> b_len b + length s + 64 \<le> 2 ^ 61 \<Longrightarrow> ok"
    using w(4) by (auto simp: roomy_def bulk_text_def)
  ultimately show ?thesis using w by blast
qed

theorem resp_write_bulk_appends_witness:
  "\<exists>ok b'. resp_write_bulk (ascii ''hi'') \<lparr>b_data = [], b_cap = 4, b_rpos = 0, b_oom = []\<rparr> = Some (ok, b')
    \<and> ok \<and> b_data b' = ascii ''$'' @ dec_nat 2 @ CRLF @ ascii ''hi'' @ CRLF"
  using resp_write_bulk_appends
    [of "\<lparr>b_data = [], b_cap = 4, b_rpos = 0, b_oom = []\<rparr>" "ascii ''hi''"]
  by (auto simp: buf_ok_def simp flip: numeral_2_eq_2)

text \<open>
  Growing a well-formed buffer returns, never loses or moves the bytes in use, and
  when it reports success the room asked for is there and the capacity is at most the larger of
  the old one and twice the total needed.
\<close>

theorem vc_buf_grow_correct:
  assumes "buf_ok b" and "need \<le> MAX_OBJECT"
  shows "\<exists>ok b'. vc_buf_grow b need = Some (ok, b') \<and> buf_ok b' \<and> b_data b' = b_data b
    \<and> (ok \<longrightarrow> b_len b' + need \<le> b_cap b' \<and> b_cap b' \<le> max (b_cap b) (2 * (b_len b + need)))
    \<and> (\<not> ok \<longrightarrow> b_cap b' = b_cap b)"
proof -
  obtain ok b' where g: "vc_buf_grow b need = Some (ok, b')" "buf_ok b'" "b_data b' = b_data b"
    "ok \<longrightarrow> need \<le> b_cap b' - b_len b"
    using vc_buf_grow_ok [OF assms] by blast
  have room: "b_len b' + need \<le> b_cap b'" if ok
  proof -
    have "b_len b \<le> b_cap b'" "need \<le> b_cap b' - b_len b"
      using g(2-4) that by (simp_all add: buf_ok_def)
    then show ?thesis unfolding g(3) by arith
  qed
  have "0 < b_cap b" using assms(1) by (simp add: buf_ok_def)
  then have "(ok \<longrightarrow> b_cap b' \<le> max (b_cap b) (2 * (b_len b + need))) \<and> (\<not> ok \<longrightarrow> b_cap b' = b_cap b)"
    using vc_buf_grow_cap [OF g(1)] unfolding if_bool_eq_conj by blast
  then show ?thesis using g(1-3) room by blast
qed

theorem vc_buf_grow_correct_witness:
  "\<exists>ok b'. vc_buf_grow \<lparr>b_data = [1, 2, 3], b_cap = 4, b_rpos = 0, b_oom = []\<rparr> 30 = Some (ok, b')
    \<and> b_data b' = [1, 2, 3] \<and> (ok \<longrightarrow> 33 \<le> b_cap b' \<and> b_cap b' \<le> 66)"
  using vc_buf_grow_correct [of "\<lparr>b_data = [1, 2, 3], b_cap = 4, b_rpos = 0, b_oom = []\<rparr>" 30]
  by (auto simp: buf_ok_def)

end
