(* ===== verification/Resp.thy ===== *)
theory Resp
  imports Buffer
begin

text \<open>
  The command parser of \<^verbatim>\<open>net/proto.c\<close>: one command is read from the bytes received so far,
  either an inline line of words or an array of bulk strings. An argument is what the source
  keeps of it, a buffer that ends in a zero byte and the length recorded beside it. The
  argument \<open>oom\<close> says for which arguments the allocation fails.
\<close>

section \<open>Commands\<close>

record arg =
  a_buf :: bytes
  a_len :: nat

record vc_cmd =
  cmd_args :: "arg list"
  cmd_vc_type :: u8

abbreviation cmd_argc :: "vc_cmd \<Rightarrow> nat" where
  "cmd_argc c \<equiv> length (cmd_args c)"

abbreviation (input) VC_MAX_ARGS :: nat where "VC_MAX_ARGS \<equiv> 128"
abbreviation (input) VC_MAX_INLINE_ARG :: nat where "VC_MAX_INLINE_ARG \<equiv> 65536"
abbreviation (input) VC_MAX_CMD_LEN :: nat where "VC_MAX_CMD_LEN \<equiv> 64"

text \<open>
  \<open>RESP_PARSE_NULL\<close> stands for success with a null pointer among the arguments: the result of
  \<^verbatim>\<open>strndup\<close> is not looked at.
\<close>

datatype resp_parse_result =
  RESP_PARSE_OK vc_cmd nat | RESP_PARSE_MORE | RESP_PARSE_ERR | RESP_PARSE_NULL

section \<open>The parser\<close>

fun find_crlf :: "bytes \<Rightarrow> nat option" where
  "find_crlf (a # b # xs) = (if a = 13 \<and> b = 10 then Some 0 else map_option Suc (find_crlf (b # xs)))"
| "find_crlf _ = None"

definition parse_int64 :: "bytes \<Rightarrow> int option" where
  "parse_int64 s =
     (if s = [] then None
      else if 32 \<le> length s then None
      else (let (v, e, range) = strtoll (c_str (s @ [0])) in
            if range \<or> e \<noteq> length s then None else Some v))"

fun find_nl :: "bytes \<Rightarrow> (nat \<times> nat) option" where
  "find_nl [] = None"
| "find_nl (b # xs) =
     (if b = 13 \<and> xs \<noteq> [] \<and> hd xs = 10 then Some (0, 2)
      else if b = 10 then Some (0, 1)
      else map_option (\<lambda>(i, k). (Suc i, k)) (find_nl xs))"

definition is_blank :: "byte \<Rightarrow> bool" where
  "is_blank b \<longleftrightarrow> b = 32 \<or> b = 9"

primrec inline_split :: "nat \<Rightarrow> bytes \<Rightarrow> bytes list" where
  "inline_split 0 s = []"
| "inline_split (Suc n) s =
     (let s = dropWhile is_blank s; w = takeWhile (\<lambda>b. \<not> is_blank b) s in
      if s = [] then [] else w # inline_split n (drop (length w) s))"

definition inline_arg :: "bytes \<Rightarrow> arg" where
  "inline_arg w = \<lparr>a_buf = strndup w (length w), a_len = length w\<rparr>"

definition parse_inline :: "(nat \<Rightarrow> bool) \<Rightarrow> bytes \<Rightarrow> resp_parse_result" where
  "parse_inline oom buf =
     (case find_nl buf of None \<Rightarrow> RESP_PARSE_MORE
      | Some (nl, skip) \<Rightarrow>
          let ws = inline_split VC_MAX_ARGS (take nl buf) in
          if ws = [] then RESP_PARSE_ERR
          else if \<exists>i < length ws. oom i then RESP_PARSE_NULL
          else RESP_PARSE_OK \<lparr>cmd_args = map inline_arg ws, cmd_vc_type = 0\<rparr> (nl + skip))"

datatype 'a pstep = PDone 'a | PMore | PErr

text \<open>One element of the array, with the type byte of the extended header if it has one.\<close>

definition has_magic :: "bytes \<Rightarrow> bool" where
  "has_magic s \<longleftrightarrow> 4 < length s \<and> take 4 s = VC_WIRE_MAGIC"

definition parse_bulk :: "bool \<Rightarrow> bytes \<Rightarrow> (arg \<times> u8 option \<times> bytes) pstep" where
  "parse_bulk oom s =
     (if length s < 3 then PMore
      else if hd s \<noteq> 36 then PErr
      else case find_crlf s of None \<Rightarrow> PMore
      | Some k \<Rightarrow> (case parse_int64 (take (k - 1) (tl s)) of None \<Rightarrow> PErr
        | Some blen \<Rightarrow>
            if blen < 0 \<or> int VC_MAX_INLINE_ARG < blen then PErr
            else let p = drop (k + 2) s in
              if length p < nat blen + 2 then PMore
              else let payload = take (nat blen) p;
                       vt = (if has_magic payload then Some (payload ! 4) else None);
                       payload = (if has_magic payload then drop 5 payload else payload) in
                if oom then PErr
                else PDone (\<lparr>a_buf = payload @ [0], a_len = length payload\<rparr>, vt,
                            drop (nat blen + 2) p)))"

primrec parse_bulks :: "(nat \<Rightarrow> bool) \<Rightarrow> nat \<Rightarrow> nat \<Rightarrow> u8 \<Rightarrow> bytes \<Rightarrow> (arg list \<times> u8 \<times> bytes) pstep" where
  "parse_bulks oom i 0 vt s = PDone ([], vt, s)"
| "parse_bulks oom i (Suc n) vt s =
     (case parse_bulk (oom i) s of PMore \<Rightarrow> PMore | PErr \<Rightarrow> PErr
      | PDone (a, t, s) \<Rightarrow>
          (case parse_bulks oom (Suc i) n (if i = 1 then (case t of None \<Rightarrow> vt | Some t \<Rightarrow> t) else vt) s of
             PMore \<Rightarrow> PMore | PErr \<Rightarrow> PErr
           | PDone (as, vt, s) \<Rightarrow> PDone (a # as, vt, s)))"

definition upcase_name :: "arg \<Rightarrow> arg" where
  "upcase_name a =
     (let n = min (a_len a) VC_MAX_CMD_LEN in
      a\<lparr>a_buf := map to_upper (take n (a_buf a)) @ drop n (a_buf a)\<rparr>)"

fun upcase_first :: "arg list \<Rightarrow> arg list" where
  "upcase_first [] = []"
| "upcase_first (a # as) = upcase_name a # as"

definition resp_parse_command :: "(nat \<Rightarrow> bool) \<Rightarrow> bytes \<Rightarrow> resp_parse_result" where
  "resp_parse_command oom buf =
     (if buf = [] then RESP_PARSE_MORE
      else if hd buf \<noteq> 42 then parse_inline oom buf
      else if length buf < 4 then RESP_PARSE_MORE
      else case find_crlf buf of None \<Rightarrow> RESP_PARSE_MORE
      | Some k \<Rightarrow> (case parse_int64 (take (k - 1) (tl buf)) of None \<Rightarrow> RESP_PARSE_ERR
        | Some argc \<Rightarrow>
            if argc < 0 \<or> int VC_MAX_ARGS < argc then RESP_PARSE_ERR
            else (case parse_bulks oom 0 (nat argc) 0 (drop (k + 2) buf) of
                    PMore \<Rightarrow> RESP_PARSE_MORE | PErr \<Rightarrow> RESP_PARSE_ERR
                  | PDone (args, vt, rest) \<Rightarrow>
                      RESP_PARSE_OK \<lparr>cmd_args = upcase_first args, cmd_vc_type = vt\<rparr>
                        (length buf - length rest))))"

text \<open>How the handlers read an argument: as a C string, or as the recorded number of bytes.\<close>

definition arg_str :: "arg \<Rightarrow> bytes" where
  "arg_str a = c_str (a_buf a)"

definition arg_bytes :: "arg \<Rightarrow> bytes option" where
  "arg_bytes a = sub_bytes (a_buf a) 0 (a_len a)"

definition arg_ok :: "arg \<Rightarrow> bool" where
  "arg_ok a \<longleftrightarrow> length (a_buf a) = Suc (a_len a) \<and> last (a_buf a) = 0"

section \<open>What a client sends\<close>

definition encode_cmd :: "bytes list \<Rightarrow> bytes" where
  "encode_cmd args = array_text (int (length args)) @ concat (map bulk_text args)"

section \<open>Finding the end of a line\<close>

lemma find_crlf_text:
  assumes "13 \<notin> set s"
  shows "find_crlf (s @ CRLF @ rest) = Some (length s)"
  using assms
proof (induction s)
  case (Cons a s)
  then show ?case by (cases s) (simp_all add: CRLF_def)
qed (simp add: CRLF_def)

lemma find_crlf_none:
  assumes "13 \<notin> set s"
  shows "find_crlf s = None" "find_crlf (s @ [13]) = None"
  using assms by (induction s rule: find_crlf.induct) simp_all

lemma find_crlf_bound: "find_crlf s = Some k \<Longrightarrow> k + 2 \<le> length s"
  by (induction s arbitrary: k rule: find_crlf.induct) (auto split: if_splits)

lemma find_nl_bound: "find_nl s = Some (nl, skip) \<Longrightarrow> nl + skip \<le> length s \<and> 0 < skip"
proof (induction s arbitrary: nl)
  case (Cons b s)
  then show ?case by (cases s) (auto split: if_splits)
qed simp

lemma dec_nat_no_crlf: "13 \<notin> set (dec_nat n)" "0 \<notin> set (dec_nat n)"
  using dec_nat_set is_digit_not by blast+

lemma parse_int64_dec_nat:
  assumes "n < 10 ^ 18"
  shows "parse_int64 (dec_nat n) = Some (int n)"
proof -
  have "length (dec_nat n) \<le> 18" using assms by (intro length_dec_nat) simp_all
  moreover have "strtoll (dec_nat n) = (int n, length (dec_nat n), False)"
    using strtoll_dec_nat [of n "[]"] assms by simp
  ultimately show ?thesis
    by (simp add: parse_int64_def dec_nat_no_crlf)
qed

section \<open>Reading what a client sends\<close>

definition plain :: "bytes \<Rightarrow> bool" where
  "plain s \<longleftrightarrow> length s \<le> VC_MAX_INLINE_ARG \<and> \<not> has_magic s"

definition mk_arg :: "bytes \<Rightarrow> arg" where
  "mk_arg s = \<lparr>a_buf = s @ [0], a_len = length s\<rparr>"

definition strip_magic :: "bytes \<Rightarrow> bytes" where
  "strip_magic s = (if has_magic s then drop 5 s else s)"

lemma ascii_dollar: "ascii ''$'' = [36]"
  by (simp add: ascii_def)

lemma ascii_star: "ascii ''*'' = [42]"
  by (simp add: ascii_def)

lemma bulk_text_find: "find_crlf (bulk_text s @ rest) = Some (Suc (length (dec_nat (length s))))"
proof -
  have "13 \<notin> set (36 # dec_nat (length s))" using dec_nat_no_crlf by simp
  from find_crlf_text [OF this, of "s @ CRLF @ rest"]
  show ?thesis by (simp add: bulk_text_def ascii_dollar)
qed

lemma parse_bulk_text:
  assumes "length s \<le> VC_MAX_INLINE_ARG"
  shows "parse_bulk False (bulk_text s @ rest)
    = PDone (mk_arg (strip_magic s), if has_magic s then Some (s ! 4) else None, rest)"
proof -
  let ?d = "dec_nat (length s)"
  have split: "bulk_text s @ rest = 36 # ?d @ CRLF @ s @ CRLF @ rest"
    by (simp add: bulk_text_def ascii_dollar)
  have "parse_int64 ?d = Some (int (length s))" using assms by (intro parse_int64_dec_nat) simp
  moreover have "drop (Suc (length ?d) + 2) (bulk_text s @ rest) = s @ CRLF @ rest"
    by (simp add: split)
  moreover have "take (Suc (length ?d) - 1) (tl (bulk_text s @ rest)) = ?d" by (simp add: split)
  moreover have "\<not> length (bulk_text s @ rest) < 3" "hd (bulk_text s @ rest) = 36"
    by (simp_all add: split)
  moreover note bulk_text_find [of s rest]
  ultimately show ?thesis
    using assms by (simp add: parse_bulk_def Let_def mk_arg_def strip_magic_def)
qed

definition type_at1 :: "nat \<Rightarrow> u8 \<Rightarrow> bytes list \<Rightarrow> u8" where
  "type_at1 i vt args =
     (if i \<le> 1 \<and> 1 - i < length args \<and> has_magic (args ! (1 - i)) then (args ! (1 - i)) ! 4 else vt)"

lemma parse_bulks_text:
  assumes "\<forall>s\<in>set args. length s \<le> VC_MAX_INLINE_ARG"
  shows "parse_bulks (\<lambda>_. False) i (length args) vt (concat (map bulk_text args) @ rest)
    = PDone (map (mk_arg \<circ> strip_magic) args, type_at1 i vt args, rest)"
  using assms
proof (induction args arbitrary: i vt)
  case (Cons a as)
  have "type_at1 (Suc i) (if i = 1 then (case (if has_magic a then Some (a ! 4) else None) of
      None \<Rightarrow> vt | Some t \<Rightarrow> t) else vt) as = type_at1 i vt (a # as)"
    by (cases i) (auto simp: type_at1_def nth_Cons split: nat.splits)
  then show ?case
    using Cons by (simp add: parse_bulk_text)
qed (simp add: type_at1_def)

lemma array_text_find:
  "find_crlf (array_text (int n) @ rest) = Some (Suc (length (dec_nat n)))"
proof -
  have "13 \<notin> set (42 # dec_nat n)" using dec_nat_no_crlf by simp
  from find_crlf_text [OF this, of rest]
  show ?thesis by (simp add: array_text_def ascii_star dec_int_def)
qed

lemma resp_parse_array:
  assumes "n \<le> VC_MAX_ARGS"
  shows "resp_parse_command oom (array_text (int n) @ rest) =
    (case parse_bulks oom 0 n 0 rest of
       PMore \<Rightarrow> RESP_PARSE_MORE | PErr \<Rightarrow> RESP_PARSE_ERR
     | PDone (args, vt, r) \<Rightarrow> RESP_PARSE_OK \<lparr>cmd_args = upcase_first args, cmd_vc_type = vt\<rparr>
         (length (array_text (int n) @ rest) - length r))"
proof -
  define t where "t = array_text (int n) @ rest"
  have split: "t = 42 # dec_nat n @ CRLF @ rest"
    by (simp add: t_def array_text_def ascii_star dec_int_def)
  have "parse_int64 (dec_nat n) = Some (int n)" using assms by (intro parse_int64_dec_nat) simp
  moreover have "take (Suc (length (dec_nat n)) - 1) (tl t) = dec_nat n"
    "drop (Suc (length (dec_nat n)) + 2) t = rest" by (simp_all add: split)
  moreover have "dec_nat n \<noteq> []" by simp
  then have "\<not> length t < 4" "hd t = 42" "t \<noteq> []"
    unfolding split by (simp_all add: Suc_le_eq [symmetric] numeral_2_eq_2 [symmetric])
  moreover note array_text_find [of n rest, folded t_def]
  ultimately show ?thesis
    unfolding t_def [symmetric] using assms by (simp add: resp_parse_command_def)
qed

section \<open>Partial input\<close>

text \<open>A prefix of a line that has its number and its line end, and of what follows.\<close>

lemma take_line:
  assumes "13 \<notin> set d"
  shows "(\<exists>j. take k (d @ CRLF @ r) = take j d) \<or> take k (d @ CRLF @ r) = d @ [13]
    \<or> length d + 2 \<le> k \<and> take k (d @ CRLF @ r) = d @ CRLF @ take (k - (length d + 2)) r"
proof -
  consider "k \<le> length d" | "k = Suc (length d)" | "length d + 2 \<le> k" by linarith
  then show ?thesis
  proof cases
    case 3
    then have "take k (d @ CRLF @ r) = d @ CRLF @ take (k - (length d + 2)) r"
      by (simp add: CRLF_def take_Cons' numeral_2_eq_2)
    then show ?thesis using 3 by blast
  qed (auto simp: CRLF_def)
qed

lemma find_crlf_short: "13 \<notin> set d \<Longrightarrow> find_crlf (take j d) = None"
  by (rule find_crlf_none) (meson in_set_takeD)

lemma parse_bulk_prefix:
  assumes "length s \<le> VC_MAX_INLINE_ARG" and "k < length (bulk_text s)"
  shows "parse_bulk oom (take k (bulk_text s)) = PMore"
proof (cases "length (take k (bulk_text s)) < 3")
  case True
  then show ?thesis by (simp add: parse_bulk_def)
next
  case False
  let ?d = "36 # dec_nat (length s)"
  have d: "13 \<notin> set ?d" using dec_nat_no_crlf by simp
  have bt: "bulk_text s = ?d @ CRLF @ s @ CRLF" by (simp add: bulk_text_def ascii_dollar)
  have hd: "hd (take k (bulk_text s)) = 36" using False by (cases k) (simp_all add: bt)
  consider "find_crlf (take k (bulk_text s)) = None"
    | r where "length ?d + 2 \<le> k" "take k (bulk_text s) = ?d @ CRLF @ r" "length r < length s + 2"
  proof -
    have "length (take (k - (length ?d + 2)) (s @ CRLF)) < length s + 2" if "length ?d + 2 \<le> k"
      using assms(2) that by (simp add: bt)
    then show thesis
      using that take_line [OF d, of k "s @ CRLF"] find_crlf_short [OF d] find_crlf_none(2) [OF d]
      unfolding bt by metis
  qed
  then show ?thesis
  proof cases
    case 1
    then show ?thesis using False hd by (simp add: parse_bulk_def)
  next
    case 2
    have "parse_int64 (dec_nat (length s)) = Some (int (length s))"
      using assms(1) by (intro parse_int64_dec_nat) simp
    moreover have "find_crlf (?d @ CRLF @ r) = Some (length ?d)" by (rule find_crlf_text [OF d])
    ultimately show ?thesis
      using False hd assms(1) 2(3) unfolding 2(2) by (simp add: parse_bulk_def Let_def)
  qed
qed

lemma parse_bulks_prefix:
  assumes "\<forall>s\<in>set args. length s \<le> VC_MAX_INLINE_ARG"
    and "k < length (concat (map bulk_text args))"
  shows "parse_bulks (\<lambda>_. False) i (length args) vt (take k (concat (map bulk_text args))) = PMore"
  using assms
proof (induction args arbitrary: i vt k)
  case (Cons a as)
  show ?case
  proof (cases "k < length (bulk_text a)")
    case True
    then show ?thesis using parse_bulk_prefix [of a k False] Cons.prems(1) by simp
  next
    case False
    then have "take k (concat (map bulk_text (a # as)))
        = bulk_text a @ take (k - length (bulk_text a)) (concat (map bulk_text as))" by simp
    moreover have "k - length (bulk_text a) < length (concat (map bulk_text as))"
      using Cons.prems(2) False by simp
    ultimately show ?thesis using Cons by (simp add: parse_bulk_text)
  qed
qed simp

section \<open>What the parser accepts\<close>

lemma parse_bulk_arg:
  assumes "parse_bulk oom s = PDone (a, t, r)"
  shows "arg_ok a \<and> length r < length s \<and> a_len a \<le> VC_MAX_INLINE_ARG"
  using assms by (auto simp: parse_bulk_def Let_def arg_ok_def split: if_splits option.splits)

lemma parse_bulks_args:
  assumes "parse_bulks oom i n vt s = PDone (as, t, r)"
  shows "length as = n \<and> (\<forall>a\<in>set as. arg_ok a \<and> a_len a \<le> VC_MAX_INLINE_ARG) \<and> length r \<le> length s"
  using assms
proof (induction n arbitrary: i vt s as)
  case (Suc n)
  then obtain a ta s1 as' where "parse_bulk (oom i) s = PDone (a, ta, s1)" and as: "as = a # as'"
    and "parse_bulks oom (Suc i) n (if i = 1 then (case ta of None \<Rightarrow> vt | Some t \<Rightarrow> t) else vt) s1
      = PDone (as', t, r)"
    by (auto split: pstep.splits prod.splits)
  then show ?case using parse_bulk_arg [of "oom i" s] Suc.IH by fastforce
qed simp

lemma arg_ok_upcase: "arg_ok a \<Longrightarrow> arg_ok (upcase_name a)" "a_len (upcase_name a) = a_len a"
proof -
  show "a_len (upcase_name a) = a_len a" by (simp add: upcase_name_def Let_def)
  assume a: "arg_ok a"
  define n where "n = min (a_len a) 64"
  have n: "n < length (a_buf a)" using a by (simp add: arg_ok_def n_def)
  then have "last (map to_upper (take n (a_buf a)) @ drop n (a_buf a)) = last (a_buf a)"
    by (simp add: last_drop)
  then show "arg_ok (upcase_name a)"
    using a n by (simp add: arg_ok_def upcase_name_def Let_def n_def [symmetric])
qed

lemma inline_split_props:
  "length (inline_split n s) \<le> n" "w \<in> set (inline_split n s) \<Longrightarrow> set w \<subseteq> set s \<and> length w \<le> length s"
proof -
  show "length (inline_split n s) \<le> n" by (induction n arbitrary: s) (simp_all add: Let_def)
  show "w \<in> set (inline_split n s) \<Longrightarrow> set w \<subseteq> set s \<and> length w \<le> length s"
  proof (induction n arbitrary: s)
    case (Suc n)
    let ?s = "dropWhile is_blank s" and ?w = "takeWhile (\<lambda>b. \<not> is_blank b) (dropWhile is_blank s)"
    have sub: "set ?s \<subseteq> set s" "length ?s \<le> length s"
      by (auto dest: set_dropWhileD simp: length_dropWhile_le)
    have "w = ?w \<or> w \<in> set (inline_split n (drop (length ?w) ?s))"
      using Suc.prems by (auto simp: Let_def split: if_splits)
    then show ?case
    proof
      assume "w = ?w"
      then show ?thesis using sub le_trans [OF length_takeWhile_le sub(2)] by (auto dest: set_takeWhileD)
    next
      assume "w \<in> set (inline_split n (drop (length ?w) ?s))"
      from Suc.IH [OF this] show ?thesis using sub by (auto dest: in_set_dropD)
    qed
  qed simp
qed

lemma arg_ok_inline: "0 \<notin> set w \<Longrightarrow> arg_ok (inline_arg w)"
  by (simp add: inline_arg_def arg_ok_def strndup_text)

section \<open>Streams of messages\<close>

text \<open>
  A format in which a message can be read from the front of a stream. Whatever follows a
  message, it is read back with its length, so that the messages of a stream are read one
  after the other; this is how pipelined commands are separated.
\<close>

primrec frames :: "(bytes \<Rightarrow> ('m \<times> nat) option) \<Rightarrow> nat \<Rightarrow> bytes \<Rightarrow> 'm list \<times> bytes" where
  "frames dec 0 s = ([], s)"
| "frames dec (Suc n) s =
     (case dec s of None \<Rightarrow> ([], s)
      | Some (m, k) \<Rightarrow> (let (ms, r) = frames dec n (drop k s) in (m # ms, r)))"

locale framing =
  fixes enc :: "'a \<Rightarrow> bytes" and dec :: "bytes \<Rightarrow> ('m \<times> nat) option"
    and msg :: "'a \<Rightarrow> 'm" and good :: "'a \<Rightarrow> bool"
  assumes dec_enc: "good a \<Longrightarrow> dec (enc a @ rest) = Some (msg a, length (enc a))"
    and dec_part: "good a \<Longrightarrow> k < length (enc a) \<Longrightarrow> dec (take k (enc a)) = None"
begin

lemma frames_all:
  assumes "\<forall>a\<in>set as. good a" and "good a" and "k < length (enc a)"
  shows "frames dec (length as + n) (concat (map enc as) @ take k (enc a)) = (map msg as, take k (enc a))"
  using assms
proof (induction as)
  case Nil
  then show ?case by (cases n) (simp_all add: dec_part)
next
  case (Cons b as)
  then show ?case by (simp add: dec_enc)
qed

end

definition parse_ok :: "bytes \<Rightarrow> (vc_cmd \<times> nat) option" where
  "parse_ok s = (case resp_parse_command (\<lambda>_. False) s of RESP_PARSE_OK c n \<Rightarrow> Some (c, n) | _ \<Rightarrow> None)"

definition sent_cmd :: "bytes list \<Rightarrow> vc_cmd" where
  "sent_cmd args = \<lparr>cmd_args = upcase_first (map (mk_arg \<circ> strip_magic) args),
     cmd_vc_type = type_at1 0 0 args\<rparr>"

definition sendable :: "bytes list \<Rightarrow> bool" where
  "sendable args \<longleftrightarrow> length args \<le> VC_MAX_ARGS \<and> (\<forall>s\<in>set args. length s \<le> VC_MAX_INLINE_ARG)"

lemma encode_cmd_parse:
  assumes "sendable args"
  shows "resp_parse_command (\<lambda>_. False) (encode_cmd args @ rest)
    = RESP_PARSE_OK (sent_cmd args) (length (encode_cmd args))"
  using assms resp_parse_array [of "length args" _ "concat (map bulk_text args) @ rest"]
    parse_bulks_text [of args 0 0 rest]
  by (simp add: sendable_def encode_cmd_def sent_cmd_def)

lemma encode_cmd_partial:
  assumes "sendable args" and "k < length (encode_cmd args)"
  shows "resp_parse_command (\<lambda>_. False) (take k (encode_cmd args)) = RESP_PARSE_MORE"
proof (cases "length (take k (encode_cmd args)) < 4")
  case True
  moreover have "hd (take k (encode_cmd args)) = 42" if "0 < k"
    using that by (cases k) (simp_all add: encode_cmd_def array_text_def ascii_star)
  ultimately show ?thesis by (cases k) (simp_all add: resp_parse_command_def)
next
  case False
  let ?n = "length args" and ?b = "concat (map bulk_text args)"
  let ?d = "42 # dec_nat ?n"
  have d: "13 \<notin> set ?d" using dec_nat_no_crlf by simp
  have t: "encode_cmd args = ?d @ CRLF @ ?b"
    by (simp add: encode_cmd_def array_text_def ascii_star dec_int_def)
  have hd: "hd (take k (encode_cmd args)) = 42" "take k (encode_cmd args) \<noteq> []"
    using False by (cases k; simp add: t)+
  consider "find_crlf (take k (encode_cmd args)) = None"
    | "length ?d + 2 \<le> k" "take k (encode_cmd args) = ?d @ CRLF @ take (k - (length ?d + 2)) ?b"
    using take_line [OF d, of k ?b] find_crlf_short [OF d] find_crlf_none(2) [OF d]
    unfolding t by metis
  then show ?thesis
  proof cases
    case 1
    then show ?thesis using False hd by (simp add: resp_parse_command_def)
  next
    case 2
    have "take k (encode_cmd args) = array_text (int ?n) @ take (k - (length ?d + 2)) ?b"
      unfolding 2(2) by (simp add: array_text_def ascii_star dec_int_def)
    moreover have "k - (length ?d + 2) < length ?b" using assms(2) 2(1) by (simp add: t)
    ultimately show ?thesis
      using assms(1) resp_parse_array [of ?n] parse_bulks_prefix [of args]
      by (simp add: sendable_def)
  qed
qed

interpretation commands: framing encode_cmd parse_ok sent_cmd sendable
  by unfold_locales (simp_all add: parse_ok_def encode_cmd_parse encode_cmd_partial)

lemma arg_bytes_mk_arg [simp]: "arg_bytes (mk_arg s) = Some s"
  by (simp add: arg_bytes_def mk_arg_def sub_bytes_def)

lemma arg_ok_mk_arg [simp]: "arg_ok (mk_arg s)"
  by (simp add: arg_ok_def mk_arg_def)

lemma arg_bytes_ok: "arg_ok a \<Longrightarrow> arg_bytes a = Some (take (a_len a) (a_buf a))"
  by (simp add: arg_bytes_def arg_ok_def sub_bytes_def)

lemma upcase_mk_arg: "upcase_name (mk_arg s) = mk_arg (map to_upper (take 64 s) @ drop 64 s)"
proof (cases "length s \<le> 64")
  case True
  then show ?thesis by (simp add: upcase_name_def mk_arg_def min_absorb1)
next
  case False
  then have "min (length s) 64 = 64" by simp
  then show ?thesis using False by (simp add: upcase_name_def mk_arg_def)
qed

lemma strip_plain [simp]: "plain s \<Longrightarrow> strip_magic s = s"
  by (simp add: plain_def strip_magic_def)

lemma strip_typed [simp]: "strip_magic (typed_payload t p) = p"
  by (simp add: strip_magic_def has_magic_def typed_payload_def)

lemma inline_one_word:
  assumes "w \<noteq> []" and "\<forall>b\<in>set w. \<not> is_blank b"
  shows "inline_split (Suc n) w = [w]"
proof -
  have "dropWhile is_blank w = w" using assms by (cases w) simp_all
  moreover have "takeWhile (\<lambda>b. \<not> is_blank b) w = w" using assms(2) by (simp add: takeWhile_eq_all_conv)
  moreover have "inline_split n [] = []" by (cases n) simp_all
  ultimately show ?thesis using assms(1) by (simp add: Let_def del: takeWhile_eq_all_conv)
qed

lemma find_nl_text:
  assumes "13 \<notin> set w" and "10 \<notin> set w"
  shows "find_nl (w @ 10 # rest) = Some (length w, 1)"
  using assms by (induction w) auto

section \<open>Properties\<close>

text \<open>
  C12 (roundtrip): a command that a client sends as an array of bulk strings is read back, whatever
  follows it on the stream: the same arguments byte for byte, the name with its first 64 bytes in
  upper case, and exactly the bytes of the command are consumed.
\<close>

theorem resp_parse_roundtrip:
  assumes "length args < VC_MAX_ARGS" and "plain name" and "\<forall>s\<in>set args. plain s"
  shows "\<exists>c. resp_parse_command (\<lambda>_. False) (encode_cmd (name # args) @ rest)
      = RESP_PARSE_OK c (length (encode_cmd (name # args)))
    \<and> map arg_bytes (cmd_args c)
      = Some (map to_upper (take 64 name) @ drop 64 name) # map Some args
    \<and> (\<forall>a\<in>set (cmd_args c). arg_ok a) \<and> cmd_vc_type c = 0"
proof -
  have s: "sendable (name # args)" using assms by (auto simp: sendable_def plain_def)
  have t: "map (mk_arg \<circ> strip_magic) (name # args) = map mk_arg (name # args)"
    using assms(2,3) by simp
  have m: "\<not> has_magic (args ! 0)" if "0 < length args" using assms(3) that by (simp add: plain_def)
  have "type_at1 0 0 (name # args) = 0" using m by (auto simp: type_at1_def)
  then have "sent_cmd (name # args) = \<lparr>cmd_args = upcase_name (mk_arg name) # map mk_arg args, cmd_vc_type = 0\<rparr>"
    unfolding sent_cmd_def t by simp
  then show ?thesis
    using encode_cmd_parse [OF s, of rest] by (auto simp: upcase_mk_arg comp_def)
qed

theorem resp_parse_roundtrip_witness:
  "\<exists>c. resp_parse_command (\<lambda>_. False) (encode_cmd [ascii ''get'', ascii ''k''] @ [1, 2, 3])
      = RESP_PARSE_OK c (length (encode_cmd [ascii ''get'', ascii ''k'']))
    \<and> map arg_bytes (cmd_args c) = [Some (ascii ''GET''), Some (ascii ''k'')]"
  using resp_parse_roundtrip [of "[ascii ''k'']" "ascii ''get''" "[1, 2, 3]"]
  by (auto simp: plain_def has_magic_def ascii_def to_upper_def)

text \<open>
  C13 (safety): as long as a command has not arrived completely, the parser asks for more: no
  prefix of a command is taken for an error or for another command.
\<close>

theorem resp_parse_partial:
  assumes "length args \<le> VC_MAX_ARGS" and "\<forall>s\<in>set args. length s \<le> VC_MAX_INLINE_ARG"
    and "k < length (encode_cmd args)"
  shows "resp_parse_command (\<lambda>_. False) (take k (encode_cmd args)) = RESP_PARSE_MORE"
  using encode_cmd_partial [of args k] assms by (simp add: sendable_def)

theorem resp_parse_partial_witness:
  "resp_parse_command (\<lambda>_. False) (take 9 (encode_cmd [ascii ''get'', ascii ''k''])) = RESP_PARSE_MORE"
proof -
  have "9 < length (encode_cmd [ascii ''get'', ascii ''k''])"
    by (simp add: encode_cmd_def bulk_text_def array_text_def)
  then show ?thesis using resp_parse_partial [of "[ascii ''get'', ascii ''k'']" 9] by simp
qed

text \<open>
  Pipelined commands are separated: from a stream of whole commands and the
  beginning of another, repeated parsing reads exactly the commands, in order, and leaves the
  beginning for later.
\<close>

theorem resp_parse_pipeline:
  assumes "\<forall>args\<in>set cmds. sendable args" and "sendable next" and "k < length (encode_cmd next)"
  shows "frames parse_ok (length cmds + n) (concat (map encode_cmd cmds) @ take k (encode_cmd next))
    = (map sent_cmd cmds, take k (encode_cmd next))"
  using commands.frames_all [OF assms] .

theorem resp_parse_pipeline_witness:
  "frames parse_ok 3 (encode_cmd [ascii ''PING''] @ encode_cmd [ascii ''QUIT''] @ [42])
    = ([sent_cmd [ascii ''PING''], sent_cmd [ascii ''QUIT'']], [42])"
proof -
  have "take 1 (encode_cmd [ascii ''PING'']) = [42]" "1 < length (encode_cmd [ascii ''PING''])"
    by (simp_all add: encode_cmd_def array_text_def ascii_star)
  then show ?thesis
    using resp_parse_pipeline [of "[[ascii ''PING''], [ascii ''QUIT'']]" "[ascii ''PING'']" 1 1]
    by (simp add: sendable_def numeral_3_eq_3)
qed

text \<open>
  C36 (bounds): whatever the bytes received and whichever allocations fail, a command that is
  accepted has at most 128 arguments and is taken from the bytes present, at least one of them;
  and every argument of an array, and of a line without zero bytes, holds the bytes its length
  says and ends in a zero byte.
\<close>

theorem resp_parse_bounds:
  assumes "resp_parse_command oom buf = RESP_PARSE_OK c n"
  shows "0 < n \<and> n \<le> length buf \<and> cmd_argc c \<le> VC_MAX_ARGS
    \<and> (hd buf = 42 \<or> 0 \<notin> set buf \<longrightarrow> (\<forall>a\<in>set (cmd_args c). arg_ok a))"
proof (cases "hd buf = 42")
  case True
  then obtain k where k: "find_crlf buf = Some k"
    using assms by (cases "find_crlf buf") (auto simp: resp_parse_command_def split: if_splits)
  then obtain argc where i: "parse_int64 (take (k - 1) (tl buf)) = Some argc" "0 \<le> argc" "argc \<le> 128"
    using assms True by (auto simp: resp_parse_command_def split: if_splits option.splits)
  then have argc: "0 \<le> argc" "argc \<le> 128" by simp_all
  obtain args vt rest where p: "parse_bulks oom 0 (nat argc) 0 (drop (k + 2) buf) = PDone (args, vt, rest)"
    using assms True k i
    by (cases "parse_bulks oom 0 (nat argc) 0 (drop (k + 2) buf)")
       (auto simp: resp_parse_command_def split: if_splits)
  then have c: "c = \<lparr>cmd_args = upcase_first args, cmd_vc_type = vt\<rparr>" "n = length buf - length rest"
    using assms True k i by (auto simp: resp_parse_command_def split: if_splits)
  note b = parse_bulks_args [OF p]
  have "\<forall>a\<in>set (cmd_args c). arg_ok a"
    using b arg_ok_upcase(1) by (cases args) (auto simp: c)
  moreover have "cmd_argc c = length args" by (cases args) (simp_all add: c)
  moreover have "length rest < length buf" using b find_crlf_bound [OF k] by auto
  ultimately show ?thesis using b argc c by auto
next
  case False
  then have "parse_inline oom buf = RESP_PARSE_OK c n" using assms
    by (simp add: resp_parse_command_def split: if_splits)
  then obtain nl skip where nl: "find_nl buf = Some (nl, skip)" and n: "n = nl + skip"
    and c: "c = \<lparr>cmd_args = map inline_arg (inline_split 128 (take nl buf)), cmd_vc_type = 0\<rparr>"
    by (auto simp: parse_inline_def Let_def split: option.splits if_splits)
  have "arg_ok a" if z: "0 \<notin> set buf" and a: "a \<in> set (cmd_args c)" for a
  proof -
    obtain w where w: "a = inline_arg w" "w \<in> set (inline_split 128 (take nl buf))"
      using a by (auto simp: c)
    then have "set w \<subseteq> set buf" using inline_split_props(2) [OF w(2)] set_take_subset [of nl buf] by blast
    then show ?thesis using z by (auto simp: w(1) intro: arg_ok_inline)
  qed
  then show ?thesis
    using find_nl_bound [OF nl] inline_split_props(1) [of 128 "take nl buf"] False by (auto simp: n c)
qed

theorem resp_parse_bounds_witness:
  "\<exists>c. resp_parse_command (\<lambda>_. False) (ascii ''PING'' @ [10]) = RESP_PARSE_OK c 5 \<and> cmd_argc c \<le> 128"
proof -
  have "inline_split 128 [80, 73, 78, 71] = [[80, 73, 78, 71]]"
    using inline_one_word [of "[80, 73, 78, 71]" 127] by (simp add: is_blank_def)
  then obtain c where "resp_parse_command (\<lambda>_. False) (ascii ''PING'' @ [10]) = RESP_PARSE_OK c 5"
    by (simp add: resp_parse_command_def parse_inline_def ascii_def)
  then show ?thesis using resp_parse_bounds [of "\<lambda>_. False" "ascii ''PING'' @ [10]" c 5] by blast
qed

text \<open>
  A word of an inline command that has a zero byte before its last byte is copied
  only up to that byte while its whole length is recorded, so reading the recorded number of
  bytes leaves the copy.
\<close>

theorem inline_zero_byte_overreads:
  assumes "0 \<notin> set p" and "q \<noteq> []" and "\<forall>b\<in>set (p @ q). \<not> is_blank b \<and> b \<noteq> 13 \<and> b \<noteq> 10"
    and "hd (p @ [0]) \<noteq> 42"
  shows "\<exists>c. resp_parse_command (\<lambda>_. False) (p @ 0 # q @ [10])
      = RESP_PARSE_OK c (length p + length q + 2)
    \<and> map a_len (cmd_args c) = [length p + 1 + length q]
    \<and> map arg_bytes (cmd_args c) = [None]"
proof -
  let ?w = "p @ 0 # q"
  have "find_nl (?w @ 10 # []) = Some (length ?w, 1)" using assms(3) by (intro find_nl_text) auto
  moreover have "\<forall>b\<in>set ?w. \<not> is_blank b" using assms(3) by (auto simp: is_blank_def)
  then have "inline_split 128 ?w = [?w]" using inline_one_word [of ?w 127] by simp
  moreover have "hd (?w @ [10]) \<noteq> 42" using assms(4) by (cases p) simp_all
  moreover have "arg_bytes (inline_arg ?w) = None"
    using assms(1,2) by (cases q) (simp_all add: arg_bytes_def inline_arg_def strndup_def sub_bytes_def)
  ultimately show ?thesis
    by (simp add: resp_parse_command_def parse_inline_def) (simp add: inline_arg_def)
qed

theorem inline_zero_byte_overreads_witness:
  "\<exists>c. resp_parse_command (\<lambda>_. False) ([65] @ 0 # [66, 67] @ [10]) = RESP_PARSE_OK c 5
    \<and> map arg_bytes (cmd_args c) = [None]"
  using inline_zero_byte_overreads [of "[65]" "[66, 67]"] by (auto simp: is_blank_def)

text \<open>
  The extended type of a typed value does not reach the command: SET with a
  typed value is parsed to the bare payload and type 0, because only the header of argument 1,
  the key, is recorded.
\<close>

theorem typed_value_type_lost:
  assumes "plain key" and "length p < 60000"
  shows "\<exists>c. resp_parse_command (\<lambda>_. False) (encode_cmd [ascii ''SET'', key, typed_payload t p])
      = RESP_PARSE_OK c (length (encode_cmd [ascii ''SET'', key, typed_payload t p]))
    \<and> map arg_bytes (cmd_args c) = [Some (ascii ''SET''), Some key, Some p] \<and> cmd_vc_type c = 0"
proof -
  let ?args = "[ascii ''SET'', key, typed_payload t p]"
  have "sendable ?args" using assms by (auto simp: sendable_def plain_def)
  from encode_cmd_parse [OF this, of "[]"]
  have "resp_parse_command (\<lambda>_. False) (encode_cmd ?args) = RESP_PARSE_OK (sent_cmd ?args) (length (encode_cmd ?args))"
    by simp
  moreover have "strip_magic (ascii ''SET'') = ascii ''SET''" by (simp add: strip_magic_def has_magic_def)
  moreover have "map to_upper (take 64 (ascii ''SET'')) @ drop 64 (ascii ''SET'') = ascii ''SET''"
    by (simp add: ascii_def to_upper_def)
  ultimately show ?thesis
    using assms(1) by (simp add: sent_cmd_def upcase_mk_arg type_at1_def plain_def)
qed

theorem typed_value_type_lost_witness:
  "\<exists>c. resp_parse_command (\<lambda>_. False) (encode_cmd [ascii ''SET'', ascii ''k'', typed_payload 105 [7]])
      = RESP_PARSE_OK c (length (encode_cmd [ascii ''SET'', ascii ''k'', typed_payload 105 [7]]))
    \<and> cmd_vc_type c = 0"
  using typed_value_type_lost [of "ascii ''k''" "[7]" 105] by (auto simp: plain_def has_magic_def)

end
