(* ===== verification/Value.thy ===== *)
theory Value
  imports Memory
begin

text \<open>
  The tree of parsed values of \<^verbatim>\<open>net/proto.h\<close> and its destructor \<^verbatim>\<open>vc_val_free\<close>. A node has its
  own block, and by its type a block of bytes or a block of pointers to further nodes, any of
  which may be null.
\<close>

datatype vc_val_type =
  VC_VAL_NONE | VC_VAL_STRING | VC_VAL_ERROR | VC_VAL_INTEGER | VC_VAL_DOUBLE | VC_VAL_BOOL
| VC_VAL_NULL | VC_VAL_ARRAY | VC_VAL_MAP | VC_VAL_SET | VC_VAL_PUSH | VC_VAL_INT64
| VC_VAL_FLOAT64 | VC_VAL_JSON | VC_VAL_BINARY

datatype vc_val = Vc_val (v_self: addr) (v_type: vc_val_type) (v_ptr: addr) (v_elems: "vc_val option list")

definition str_type :: "vc_val_type \<Rightarrow> bool" where
  "str_type t \<longleftrightarrow> t = VC_VAL_STRING \<or> t = VC_VAL_ERROR \<or> t = VC_VAL_JSON \<or> t = VC_VAL_BINARY"

definition arr_type :: "vc_val_type \<Rightarrow> bool" where
  "arr_type t \<longleftrightarrow> t = VC_VAL_ARRAY \<or> t = VC_VAL_MAP \<or> t = VC_VAL_SET \<or> t = VC_VAL_PUSH"

fun vc_val_free :: "vc_val option \<Rightarrow> cmem \<Rightarrow> cmem option"
  and vc_val_free_elems :: "vc_val option list \<Rightarrow> cmem \<Rightarrow> cmem option" where
  "vc_val_free None m = Some m"
| "vc_val_free (Some (Vc_val self t ptr elems)) m = do {
     m \<leftarrow> (if str_type t then c_free m ptr
          else if arr_type t then do { m \<leftarrow> vc_val_free_elems elems m; c_free m ptr }
          else Some m);
     c_free m self
   }"
| "vc_val_free_elems [] m = Some m"
| "vc_val_free_elems (v # vs) m = do { m \<leftarrow> vc_val_free v m; vc_val_free_elems vs m }"

text \<open>The blocks a tree owns.\<close>

fun val_blocks :: "vc_val option \<Rightarrow> addr list"
  and elems_blocks :: "vc_val option list \<Rightarrow> addr list" where
  "val_blocks None = []"
| "val_blocks (Some (Vc_val self t ptr elems)) =
     (if arr_type t then elems_blocks elems else [])
     @ (if (str_type t \<or> arr_type t) \<and> ptr \<noteq> NULL then [ptr] else []) @ [self]"
| "elems_blocks [] = []"
| "elems_blocks (v # vs) = val_blocks v @ elems_blocks vs"

definition holds_blocks :: "cmem \<Rightarrow> addr list \<Rightarrow> bool" where
  "holds_blocks m ps \<longleftrightarrow> distinct ps \<and> (\<forall>p\<in>set ps. p \<noteq> NULL \<and> (\<exists>bs. blocks m p = Some (MallocBlk, bs)))"

definition without :: "cmem \<Rightarrow> addr list \<Rightarrow> cmem" where
  "without m ps = m\<lparr>blocks := (blocks m) |` (- set ps)\<rparr>"

lemma without_Nil [simp]: "without m [] = m"
  by (simp add: without_def restrict_map_def)

lemma without_append [simp]: "without (without m ps) qs = without m (ps @ qs)"
  by (auto simp: without_def restrict_map_def fun_eq_iff)

lemma holds_blocks_append:
  "holds_blocks m (ps @ qs) \<Longrightarrow> holds_blocks m ps \<and> holds_blocks (without m ps) qs"
  by (auto simp: holds_blocks_def without_def restrict_map_def)

lemma c_free_block:
  assumes "holds_blocks m [p]"
  shows "c_free m p = Some (without m [p])"
proof -
  have "(blocks m)(p := None) = (blocks m) |` (- {p})" by (auto simp: restrict_map_def)
  then show ?thesis using assms by (auto simp: holds_blocks_def c_free_def without_def)
qed

lemma arr_not_str: "arr_type t \<Longrightarrow> \<not> str_type t"
  by (auto simp: arr_type_def str_type_def)

lemma c_free_null [simp]: "c_free m NULL = Some m"
  by (simp add: c_free_def)

lemma vc_val_free_ok:
  "holds_blocks m (val_blocks v) \<Longrightarrow> vc_val_free v m = Some (without m (val_blocks v))"
  "holds_blocks m (elems_blocks vs) \<Longrightarrow> vc_val_free_elems vs m = Some (without m (elems_blocks vs))"
proof (induction v m and vs m rule: vc_val_free_vc_val_free_elems.induct)
  case (2 self t ptr elems m)
  let ?es = "if arr_type t then elems_blocks elems else []"
  let ?ps = "if (str_type t \<or> arr_type t) \<and> ptr \<noteq> NULL then [ptr] else []"
  have h: "holds_blocks m ?es" "holds_blocks (without m ?es) ?ps"
    "holds_blocks (without m (?es @ ?ps)) [self]"
    using "2.prems" holds_blocks_append [of m "?es @ ?ps" "[self]"] holds_blocks_append [of m ?es ?ps]
    by simp_all
  have p: "c_free (without m ?es) ptr = Some (without m (?es @ ?ps))" if "str_type t \<or> arr_type t"
    using h(2) that c_free_block [of "without m ?es" ptr] by (cases "ptr = NULL") simp_all
  have "(if str_type t then c_free m ptr
          else if arr_type t then do { m \<leftarrow> vc_val_free_elems elems m; c_free m ptr }
          else Some m) = Some (without m (?es @ ?ps))"
    using p h(1) "2.IH" arr_not_str by (cases "str_type t"; cases "arr_type t") auto
  then show ?case using c_free_block [OF h(3)] by simp
next
  case (4 v vs m)
  then show ?case using holds_blocks_append [of m "val_blocks v" "elems_blocks vs"] by simp
qed simp_all

section \<open>Properties\<close>

text \<open>
  Destroying a tree whose blocks are allocated and not shared frees each of them
  once, whatever the types of the nodes and with null elements anywhere, and nothing else.
\<close>

theorem vc_val_free_correct:
  assumes "distinct (val_blocks v)"
    and "\<forall>p\<in>set (val_blocks v). p \<noteq> NULL \<and> (\<exists>bs. blocks m p = Some (MallocBlk, bs))"
  shows "\<exists>m'. vc_val_free v m = Some m'
    \<and> (\<forall>p. blocks m' p = (if p \<in> set (val_blocks v) then None else blocks m p))"
  using vc_val_free_ok(1) [of m v] assms by (auto simp: holds_blocks_def without_def restrict_map_def)

theorem vc_val_free_correct_witness:
  "\<exists>m'. vc_val_free (Some (Vc_val 16 VC_VAL_ARRAY 32 [None, Some (Vc_val 48 VC_VAL_STRING 64 [])]))
      \<lparr>blocks = (\<lambda>p. if p \<in> {16, 32, 48, 64, 80} then Some (MallocBlk, [0]) else None), tails = []\<rparr> = Some m'
    \<and> blocks m' 48 = None \<and> blocks m' 80 = Some (MallocBlk, [0])"
  using vc_val_free_correct [of "Some (Vc_val 16 VC_VAL_ARRAY 32 [None, Some (Vc_val 48 VC_VAL_STRING 64 [])])"
    "\<lparr>blocks = (\<lambda>p. if p \<in> {16, 32, 48, 64, 80} then Some (MallocBlk, [0]) else None), tails = []\<rparr>"]
  by (auto simp: arr_type_def str_type_def)

end
