(* ===== verification/Auth.thy ===== *)
theory Auth
  imports CString "HOL-Library.Monad_Syntax"
begin

unbundle bit_operations_syntax

text \<open>
  Authentication, \<^verbatim>\<open>net/auth.c\<close>: SHA-256, session tokens, the user table and its file format,
  and the check of a password. What comes from outside is an argument: whether an allocation
  succeeds, the random bytes, the contents of the user file, and the bytes left on the stack in
  a buffer that is read before it is written. \<open>None\<close> as the result of an operation stands for a
  read outside a buffer.
\<close>

section \<open>SHA-256\<close>

definition ROR32 :: "u32 \<Rightarrow> nat \<Rightarrow> u32" where
  "ROR32 x n = drop_bit n x OR push_bit (32 - n) x"

definition CH :: "u32 \<Rightarrow> u32 \<Rightarrow> u32 \<Rightarrow> u32" where
  "CH x y z = (x AND y) XOR (NOT x AND z)"

definition MAJ :: "u32 \<Rightarrow> u32 \<Rightarrow> u32 \<Rightarrow> u32" where
  "MAJ x y z = (x AND y) XOR (x AND z) XOR (y AND z)"

definition EP0 :: "u32 \<Rightarrow> u32" where
  "EP0 x = ROR32 x 2 XOR ROR32 x 13 XOR ROR32 x 22"

definition EP1 :: "u32 \<Rightarrow> u32" where
  "EP1 x = ROR32 x 6 XOR ROR32 x 11 XOR ROR32 x 25"

definition SIG0 :: "u32 \<Rightarrow> u32" where
  "SIG0 x = ROR32 x 7 XOR ROR32 x 18 XOR drop_bit 3 x"

definition SIG1 :: "u32 \<Rightarrow> u32" where
  "SIG1 x = ROR32 x 17 XOR ROR32 x 19 XOR drop_bit 10 x"

text \<open>The round constants, four to a line as in the source, in decimal.\<close>

definition K256 :: "u32 list" where
  "K256 = [
     1116352408, 1899447441, 3049323471, 3921009573,
     961987163, 1508970993, 2453635748, 2870763221,
     3624381080, 310598401, 607225278, 1426881987,
     1925078388, 2162078206, 2614888103, 3248222580,
     3835390401, 4022224774, 264347078, 604807628,
     770255983, 1249150122, 1555081692, 1996064986,
     2554220882, 2821834349, 2952996808, 3210313671,
     3336571891, 3584528711, 113926993, 338241895,
     666307205, 773529912, 1294757372, 1396182291,
     1695183700, 1986661051, 2177026350, 2456956037,
     2730485921, 2820302411, 3259730800, 3345764771,
     3516065817, 3600352804, 4094571909, 275423344,
     430227734, 506948616, 659060556, 883997877,
     958139571, 1322822218, 1537002063, 1747873779,
     1955562222, 2024104815, 2227730452, 2361852424,
     2428436474, 2756734187, 3204031479, 3329325298]"

text \<open>The zeroed copy of the message with the end mark and the length in bits.\<close>

definition padded_len :: "nat \<Rightarrow> nat" where
  "padded_len len = (len + 9 + 63) div 64 * 64"

definition put_len :: "u64 \<Rightarrow> nat \<Rightarrow> nat \<Rightarrow> bytes \<Rightarrow> bytes" where
  "put_len bit_len plen i padded = padded[plen - 1 - i := ucast (drop_bit (i * 8) bit_len)]"

definition sha_padded :: "bytes \<Rightarrow> bytes" where
  "sha_padded msg =
     (let len = length msg;
          plen = padded_len len;
          padded = msg @ replicate (plen - len) 0;
          padded = padded[len := 0x80]
      in fold (put_len (of_nat len * 8) plen) [0..<8] padded)"

definition be_word :: "bytes \<Rightarrow> nat \<Rightarrow> u32" where
  "be_word b i = push_bit 24 (ucast (b ! i)) OR push_bit 16 (ucast (b ! (i + 1)))
     OR push_bit 8 (ucast (b ! (i + 2))) OR ucast (b ! (i + 3))"

definition sha_extend :: "nat \<Rightarrow> u32 list \<Rightarrow> u32 list" where
  "sha_extend i w = w @ [SIG1 (w ! (i - 2)) + w ! (i - 7) + SIG0 (w ! (i - 15)) + w ! (i - 16)]"

definition sha_schedule :: "bytes \<Rightarrow> u32 list" where
  "sha_schedule blk = fold sha_extend [16..<64] (map (\<lambda>i. be_word blk (i * 4)) [0..<16])"

type_synonym sha_state = "u32 \<times> u32 \<times> u32 \<times> u32 \<times> u32 \<times> u32 \<times> u32 \<times> u32"

fun sha_round :: "u32 \<times> u32 \<Rightarrow> sha_state \<Rightarrow> sha_state" where
  "sha_round (k, w) (a, b, c, d, e, f, g, h) =
     (let t1 = h + EP1 e + CH e f g + k + w; t2 = EP0 a + MAJ a b c
      in (t1 + t2, a, b, c, d + t1, e, f, g))"

fun sha_add :: "sha_state \<Rightarrow> sha_state \<Rightarrow> sha_state" where
  "sha_add (a, b, c, d, e, f, g, h) (a', b', c', d', e', f', g', h') =
     (a + a', b + b', c + c', d + d', e + e', f + f', g + g', h + h')"

definition sha_block :: "bytes \<Rightarrow> sha_state \<Rightarrow> sha_state" where
  "sha_block blk h = sha_add h (fold sha_round (zip K256 (sha_schedule blk)) h)"

definition sha_init :: sha_state where
  "sha_init = (0x6a09e667, 0xbb67ae85, 0x3c6ef372, 0xa54ff53a,
     0x510e527f, 0x9b05688c, 0x1f83d9ab, 0x5be0cd19)"

definition be_bytes :: "u32 \<Rightarrow> bytes" where
  "be_bytes x = [ucast (drop_bit 24 x), ucast (drop_bit 16 x), ucast (drop_bit 8 x), ucast x]"

fun sha_out :: "sha_state \<Rightarrow> bytes" where
  "sha_out (a, b, c, d, e, f, g, h) =
     be_bytes a @ be_bytes b @ be_bytes c @ be_bytes d
     @ be_bytes e @ be_bytes f @ be_bytes g @ be_bytes h"

definition sha_blocks :: "bytes \<Rightarrow> sha_state" where
  "sha_blocks padded =
     fold (\<lambda>k h. sha_block (take 64 (drop (k * 64) padded)) h) [0..<length padded div 64] sha_init"

definition vc_sha256 :: "bool \<Rightarrow> bytes \<Rightarrow> bytes" where
  "vc_sha256 oom msg = (if oom then replicate 32 0 else sha_out (sha_blocks (sha_padded msg)))"

section \<open>Tokens and hexadecimal text\<close>

definition hex_chars :: bytes where
  "hex_chars = ascii ''0123456789abcdef''"

definition hex_pair :: "byte \<Rightarrow> bytes" where
  "hex_pair b = [hex_chars ! unat (drop_bit 4 b), hex_chars ! unat (b AND 0xf)]"

definition vc_auth_gen_token :: "bytes option \<Rightarrow> bytes option \<Rightarrow> bytes option" where
  "vc_auth_gen_token rand_bytes urandom = do {
     raw \<leftarrow> (case rand_bytes of Some raw \<Rightarrow> Some raw | None \<Rightarrow> urandom);
     Some (concat (map hex_pair raw))
   }"

definition is_xdigit :: "byte \<Rightarrow> bool" where
  "is_xdigit b \<longleftrightarrow> is_digit b \<or> 65 \<le> b \<and> b \<le> 70 \<or> 97 \<le> b \<and> b \<le> 102"

definition xdigit_val :: "byte \<Rightarrow> nat" where
  "xdigit_val b = (if is_digit b then unat b - 48 else if b \<le> 70 then unat b - 55 else unat b - 87)"

text \<open>The value \<^verbatim>\<open>sscanf\<close> stores for \<^verbatim>\<open>%02x\<close>, or the 0 that was there.\<close>

definition scan_x2 :: "bytes \<Rightarrow> u32" where
  "scan_x2 s =
     (let t = take 2 (dropWhile is_space s);
          signed = (t \<noteq> [] \<and> (hd t = 43 \<or> hd t = 45));
          ds = takeWhile is_xdigit (if signed then tl t else t);
          v = of_nat (foldl (\<lambda>n b. 16 * n + xdigit_val b) 0 ds)
      in if signed \<and> hd t = 45 then - v else v)"

definition hex_byte :: "bytes \<Rightarrow> nat \<Rightarrow> byte option" where
  "hex_byte hex i =
     (if 0 \<in> set (drop (i * 2) hex) then Some (ucast (scan_x2 (c_str (drop (i * 2) hex)))) else None)"

definition hex_to_bytes :: "bytes \<Rightarrow> nat \<Rightarrow> bytes option" where
  "hex_to_bytes hex nbytes = those (map (hex_byte hex) [0..<nbytes])"

section \<open>The user table\<close>

abbreviation (input) VC_ACL_READ :: u32 where "VC_ACL_READ \<equiv> 1"
abbreviation (input) VC_ACL_WRITE :: u32 where "VC_ACL_WRITE \<equiv> 2"
abbreviation (input) VC_ACL_ADMIN :: u32 where "VC_ACL_ADMIN \<equiv> 4"
abbreviation (input) VC_ACL_PUBSUB :: u32 where "VC_ACL_PUBSUB \<equiv> 8"
abbreviation (input) VC_ACL_ALL :: u32 where "VC_ACL_ALL \<equiv> 15"
abbreviation (input) VC_AUTH_MAX_USERS :: nat where "VC_AUTH_MAX_USERS \<equiv> 64"

record vc_user =
  u_username :: bytes
  u_pw_sha256 :: bytes
  u_acl :: u32
  u_enabled :: bool

record vc_auth_db =
  db_users :: "vc_user list"
  db_require_auth :: bool

definition vc_acl_check :: "vc_user option \<Rightarrow> u32 \<Rightarrow> bool" where
  "vc_acl_check u need = (case u of None \<Rightarrow> False | Some u \<Rightarrow> u_acl u AND need = need)"

definition acl_flag :: "u32 \<Rightarrow> byte \<Rightarrow> u32" where
  "acl_flag acl c =
     (if c = 114 then acl OR VC_ACL_READ
      else if c = 119 then acl OR VC_ACL_WRITE
      else if c = 97 then acl OR VC_ACL_ADMIN
      else if c = 112 then acl OR VC_ACL_PUBSUB
      else if c = 42 then VC_ACL_ALL
      else acl)"

definition parse_acl_flags :: "bytes \<Rightarrow> u32" where
  "parse_acl_flags flags = foldl acl_flag 0 flags"

text \<open>What \<^verbatim>\<open>fgets\<close> with a buffer of 256 bytes returns, one call after the other.\<close>

definition fgets_line :: "bytes \<Rightarrow> bytes" where
  "fgets_line s =
     (let t = take 255 s; u = takeWhile (\<lambda>b. b \<noteq> 10) t in
      if length u < length t then u @ [10] else t)"

function fgets_lines :: "bytes \<Rightarrow> bytes list" where
  "fgets_lines s = (if s = [] then [] else fgets_line s # fgets_lines (drop (length (fgets_line s)) s))"
  by pat_completeness auto
termination by (relation "measure length") (auto simp: fgets_line_def Let_def)

declare fgets_lines.simps [simp del]

definition scan_word :: "nat \<Rightarrow> bytes \<Rightarrow> (bytes \<times> bytes) option" where
  "scan_word n s =
     (let s = dropWhile is_space s; w = takeWhile (\<lambda>b. \<not> is_space b) (take n s) in
      if w = [] then None else Some (w, drop (length w) s))"

definition scan_3 :: "bytes \<Rightarrow> (bytes \<times> bytes \<times> bytes) option" where
  "scan_3 p = do {
     (user, p) \<leftarrow> scan_word 63 p;
     (pw_hex, p) \<leftarrow> scan_word 64 p;
     (flags, p) \<leftarrow> scan_word 15 p;
     Some (user, pw_hex, flags)
   }"

text \<open>
  One line of the file: nothing, or a user. The password's buffer of 65 bytes is read at every
  other position, also behind the end of a short word, where it holds \<open>junk\<close>,
  which may be different for every line.
\<close>

definition acl_line :: "bytes \<Rightarrow> bytes \<Rightarrow> vc_user option option" where
  "acl_line junk line =
     (let p = dropWhile (\<lambda>b. b = 32 \<or> b = 9) (c_str line) in
      if p = [] \<or> hd p = 35 \<or> hd p = 10 then Some None
      else case scan_3 p of None \<Rightarrow> Some None
      | Some (user, pw_hex, flags) \<Rightarrow> do {
          pw \<leftarrow> hex_to_bytes (pw_hex @ 0 # drop (length pw_hex + 1) junk) 32;
          Some (Some \<lparr>u_username = user, u_pw_sha256 = pw, u_acl = parse_acl_flags flags,
                      u_enabled = True\<rparr>)
        })"

primrec load_lines :: "(nat \<Rightarrow> bytes) \<Rightarrow> bytes list \<Rightarrow> vc_user list \<Rightarrow> vc_user list option" where
  "load_lines junk [] us = Some us"
| "load_lines junk (l # ls) us =
     (if length us < VC_AUTH_MAX_USERS then do {
        u \<leftarrow> acl_line (junk (length ls)) l;
        load_lines junk ls (case u of None \<Rightarrow> us | Some u \<Rightarrow> us @ [u])
      } else Some us)"

definition vc_auth_load :: "(nat \<Rightarrow> bytes) \<Rightarrow> bytes option \<Rightarrow> bytes option \<Rightarrow> (bool \<times> vc_auth_db) option" where
  "vc_auth_load junk path file =
     (if path = None \<or> path = Some [] then Some (True, \<lparr>db_users = [], db_require_auth = False\<rparr>)
      else case file of None \<Rightarrow> Some (False, \<lparr>db_users = [], db_require_auth = False\<rparr>)
      | Some text \<Rightarrow> do {
          us \<leftarrow> load_lines junk (fgets_lines text) [];
          Some (True, \<lparr>db_users = us, db_require_auth = True\<rparr>)
        })"

definition vc_auth_add_user :: "bool \<Rightarrow> vc_auth_db \<Rightarrow> bytes \<Rightarrow> bytes \<Rightarrow> u32 \<Rightarrow> bool \<times> vc_auth_db" where
  "vc_auth_add_user oom db username password acl =
     (if VC_AUTH_MAX_USERS \<le> length (db_users db) then (False, db)
      else (True, db\<lparr>db_users := db_users db @ [\<lparr>u_username = take 63 username,
              u_pw_sha256 = vc_sha256 oom password, u_acl = acl, u_enabled = True\<rparr>],
            db_require_auth := True\<rparr>))"

definition anon :: vc_user where
  "anon = \<lparr>u_username = ascii ''anonymous'', u_pw_sha256 = replicate 32 0, u_acl = VC_ACL_ALL,
     u_enabled = True\<rparr>"

definition vc_auth_verify :: "bool \<Rightarrow> vc_auth_db \<Rightarrow> bytes \<Rightarrow> bytes \<Rightarrow> vc_user option" where
  "vc_auth_verify oom db username password =
     (if \<not> db_require_auth db then Some anon
      else let pw_hash = vc_sha256 oom password in
        List.find (\<lambda>u. u_enabled u \<and> length (u_username u) = length username
                    \<and> u_username u = username \<and> u_pw_sha256 u = pw_hash) (db_users db))"

section \<open>Padding\<close>

definition be_len :: "u64 \<Rightarrow> bytes" where
  "be_len n = map (\<lambda>i. ucast (drop_bit (8 * (7 - i)) n)) [0..<8]"

lemma padded_len_bounds: "len + 9 \<le> padded_len len" "padded_len len < len + 9 + 64" "64 dvd padded_len len"
proof -
  let ?n = "len + 9 + 63"
  have "?n = ?n div 64 * 64 + ?n mod 64" by (rule div_mult_mod_eq [symmetric])
  moreover have "?n mod 64 < 64" by simp
  ultimately show "len + 9 \<le> padded_len len" "padded_len len < len + 9 + 64"
    unfolding padded_len_def by linarith+
  show "64 dvd padded_len len" by (simp add: padded_len_def)
qed

lemma put_len_tail:
  assumes "length xs + 8 = plen" and "length ys = 8" and "i < 8"
  shows "put_len n plen i (xs @ ys) = xs @ ys[7 - i := ucast (drop_bit (i * 8) n)]"
proof -
  have "plen - 1 - i = length xs + (7 - i)" using assms by simp
  then show ?thesis unfolding put_len_def by (simp add: list_update_append)
qed

lemma fold_put_len:
  assumes "length xs + 8 = plen" and "length ys = 8" and "\<forall>i\<in>set is. i < 8"
  shows "fold (put_len n plen) is (xs @ ys)
    = xs @ fold (\<lambda>i ys. ys[7 - i := ucast (drop_bit (i * 8) n)]) is ys"
  using assms(2,3) by (induction "is" arbitrary: ys) (simp_all add: put_len_tail [OF assms(1)])

lemma fill_len:
  "fold (\<lambda>i ys. ys[7 - i := ucast (drop_bit (i * 8) n)]) [0..<8] (replicate 8 0) = be_len n"
proof -
  have "[0..<8] = [0, 1, 2, 3, 4, 5, 6, 7 :: nat]" by (simp add: upt_rec)
  then show ?thesis by (simp add: be_len_def eval_nat_numeral)
qed

lemma sha_padded_eq:
  "sha_padded msg = msg @ [0x80] @ replicate (padded_len (length msg) - length msg - 9) 0
     @ be_len (of_nat (length msg) * 8)"
proof -
  let ?len = "length msg" and ?plen = "padded_len (length msg)"
  define z where "z = ?plen - ?len - 9"
  let ?xs = "msg @ 0x80 # replicate z 0"
  have plen: "?plen = ?len + z + 9" using padded_len_bounds(1) [of ?len] by (simp add: z_def)
  have "?plen - ?len = Suc (z + 8)" by (simp add: plen)
  then have "replicate (?plen - ?len) 0 = (0 :: byte) # replicate z 0 @ replicate 8 0"
    by (simp only: replicate_Suc replicate_add)
  then have p: "(msg @ replicate (?plen - ?len) 0)[?len := 0x80] = ?xs @ replicate 8 0"
    by (simp add: list_update_append)
  have len: "length ?xs + 8 = ?plen" by (simp add: plen)
  have "fold (put_len n ?plen) [0..<8] (?xs @ replicate 8 0) = ?xs @ be_len n" for n
    using fold_put_len [OF len length_replicate, of "[0..<8]" n 0] fill_len [of n] by simp
  then show ?thesis by (simp add: sha_padded_def Let_def p z_def)
qed

lemma length_vc_sha256 [simp]: "length (vc_sha256 oom msg) = 32"
proof -
  have "length (sha_out s) = 32" for s by (cases s rule: sha_out.cases) (simp add: be_bytes_def)
  then show ?thesis by (simp add: vc_sha256_def)
qed

section \<open>Hexadecimal text\<close>

lemma hex_chars_val:
  assumes "n < 16"
  shows "is_xdigit (hex_chars ! n)" "xdigit_val (hex_chars ! n) = n" "\<not> is_space (hex_chars ! n)"
    "hex_chars ! n \<noteq> 43" "hex_chars ! n \<noteq> 45" "hex_chars ! n \<noteq> 0"
proof -
  have "\<forall>n\<in>set [0..<16]. is_xdigit (hex_chars ! n) \<and> xdigit_val (hex_chars ! n) = n
    \<and> \<not> is_space (hex_chars ! n) \<and> hex_chars ! n \<noteq> 43 \<and> hex_chars ! n \<noteq> 45 \<and> hex_chars ! n \<noteq> 0"
    by code_simp
  then show "is_xdigit (hex_chars ! n)" "xdigit_val (hex_chars ! n) = n" "\<not> is_space (hex_chars ! n)"
    "hex_chars ! n \<noteq> 43" "hex_chars ! n \<noteq> 45" "hex_chars ! n \<noteq> 0"
    using assms by simp_all
qed

lemma nibbles:
  fixes b :: byte
  shows "unat (drop_bit 4 b) < 16" "unat (b AND 0xf) < 16"
    "16 * unat (drop_bit 4 b) + unat (b AND 0xf) = unat b"
proof -
  have b: "unat b < 256" using unsigned_less [of b] by simp
  have d: "unat (drop_bit 4 b) = unat b div 16" unfolding unat_drop_bit_eq by (simp add: drop_bit_eq_div)
  have "b AND 0xf = take_bit 4 b" by (simp add: take_bit_eq_mask mask_eq_exp_minus_1)
  moreover have "unat (take_bit 4 b) = take_bit 4 (unat b)" by (rule unsigned_take_bit_eq)
  ultimately have m: "unat (b AND 0xf) = unat b mod 16" by (simp only: take_bit_eq_mod) simp
  show "unat (drop_bit 4 b) < 16" "unat (b AND 0xf) < 16"
    "16 * unat (drop_bit 4 b) + unat (b AND 0xf) = unat b"
    using b by (simp_all add: d m)
qed

lemma scan_x2_hex_pair: "ucast (scan_x2 (hex_pair b @ rest)) = (b :: byte)"
proof -
  note n1 = hex_chars_val [OF nibbles(1) [of b]] and n2 = hex_chars_val [OF nibbles(2) [of b]]
  have "scan_x2 (hex_pair b @ rest) = of_nat (unat b)"
    using n1 n2 nibbles(3) [of b] by (simp add: scan_x2_def hex_pair_def Let_def numeral_2_eq_2)
  moreover have "ucast (ucast b :: u32) = b" by (rule bit_word_eqI) (simp add: bit_simps)
  ultimately show ?thesis by (simp add: of_nat_unat)
qed

lemma concat_hex_pair:
  "i < length raw \<Longrightarrow> drop (i * 2) (concat (map hex_pair raw))
     = hex_pair (raw ! i) @ concat (map hex_pair (drop (Suc i) raw))"
proof (induction raw arbitrary: i)
  case (Cons b raw)
  then show ?case by (cases i) (simp_all add: hex_pair_def)
qed simp

lemma hex_pair_no_0: "0 \<notin> set (concat (map hex_pair raw))"
  using hex_chars_val(6) [OF nibbles(1)] hex_chars_val(6) [OF nibbles(2)]
  by (auto simp: hex_pair_def)

lemma length_hex_text: "length (concat (map hex_pair raw)) = 2 * length raw"
  by (induction raw) (simp_all add: hex_pair_def)

lemma those_map_Some: "those (map (\<lambda>i. Some (f i)) xs) = Some (map f xs)"
  by (induction xs) simp_all

lemma hex_to_bytes_text:
  assumes "length raw = n"
  shows "hex_to_bytes (concat (map hex_pair raw) @ 0 # junk) n = Some raw"
proof -
  have "hex_byte (concat (map hex_pair raw) @ 0 # junk) i = Some (raw ! i)" if "i < n" for i
  proof -
    let ?t = "concat (map hex_pair raw)"
    let ?r = "hex_pair (raw ! i) @ concat (map hex_pair (drop (Suc i) raw))"
    have "i * 2 \<le> length ?t" using that assms by (simp add: length_hex_text)
    then have e: "drop (i * 2) (?t @ 0 # junk) = ?r @ 0 # junk"
      using concat_hex_pair [of i raw] that assms by simp
    have z: "0 \<notin> set ?r" using hex_pair_no_0 [of "raw ! i # drop (Suc i) raw"] by simp
    show ?thesis
      unfolding hex_byte_def e c_str_append_0 [OF z] by (simp add: scan_x2_hex_pair)
  qed
  then have "map (hex_byte (concat (map hex_pair raw) @ 0 # junk)) [0..<n] = map (\<lambda>i. Some (raw ! i)) [0..<n]"
    by simp
  then show ?thesis
    unfolding hex_to_bytes_def those_map_Some [symmetric] using assms map_nth [of raw]
    by (simp only: those_map_Some)
qed

section \<open>Flags\<close>

lemma acl_flag_bits:
  "bit (acl_flag acl c) 0 \<longleftrightarrow> bit acl 0 \<or> c = 114 \<or> c = 42"
  "bit (acl_flag acl c) (Suc 0) \<longleftrightarrow> bit acl (Suc 0) \<or> c = 119 \<or> c = 42"
  "bit (acl_flag acl c) 2 \<longleftrightarrow> bit acl 2 \<or> c = 97 \<or> c = 42"
  "bit (acl_flag acl c) 3 \<longleftrightarrow> bit acl 3 \<or> c = 112 \<or> c = 42"
  by (auto simp: acl_flag_def bit_simps)

lemma parse_acl_bits:
  "bit (foldl acl_flag acl fs) 0 \<longleftrightarrow> bit acl 0 \<or> 114 \<in> set fs \<or> 42 \<in> set fs"
  "bit (foldl acl_flag acl fs) (Suc 0) \<longleftrightarrow> bit acl (Suc 0) \<or> 119 \<in> set fs \<or> 42 \<in> set fs"
  "bit (foldl acl_flag acl fs) 2 \<longleftrightarrow> bit acl 2 \<or> 97 \<in> set fs \<or> 42 \<in> set fs"
  "bit (foldl acl_flag acl fs) 3 \<longleftrightarrow> bit acl 3 \<or> 112 \<in> set fs \<or> 42 \<in> set fs"
  by (induction fs arbitrary: acl) (auto simp: acl_flag_bits)

lemma and_exp_eq:
  fixes x :: u32
  assumes "n < 32"
  shows "x AND 2 ^ n = 2 ^ n \<longleftrightarrow> bit x n"
proof
  assume "x AND 2 ^ n = 2 ^ n"
  then have "bit (x AND 2 ^ n) n = bit (2 ^ n :: u32) n" by simp
  then show "bit x n" using assms by (simp add: bit_simps)
next
  assume "bit x n"
  then show "x AND 2 ^ n = 2 ^ n" by (intro bit_word_eqI) (auto simp: bit_simps)
qed

lemma acl_check_bits:
  "vc_acl_check (Some u) VC_ACL_READ \<longleftrightarrow> bit (u_acl u) 0"
  "vc_acl_check (Some u) VC_ACL_WRITE \<longleftrightarrow> bit (u_acl u) (Suc 0)"
  "vc_acl_check (Some u) VC_ACL_ADMIN \<longleftrightarrow> bit (u_acl u) 2"
  "vc_acl_check (Some u) VC_ACL_PUBSUB \<longleftrightarrow> bit (u_acl u) 3"
  using and_exp_eq [of 0 "u_acl u"] and_exp_eq [of 1 "u_acl u"] and_exp_eq [of 2 "u_acl u"]
    and_exp_eq [of 3 "u_acl u"] by (simp_all add: vc_acl_check_def)

section \<open>The user file\<close>

text \<open>The line that describes a user, and the users that can be described.\<close>

definition flags_text :: "u32 \<Rightarrow> bytes" where
  "flags_text acl = (if bit acl 0 then [114] else []) @ (if bit acl (Suc 0) then [119] else [])
     @ (if bit acl 2 then [97] else []) @ (if bit acl 3 then [112] else [])"

definition user_line :: "vc_user \<Rightarrow> bytes" where
  "user_line u = u_username u @ 32 # concat (map hex_pair (u_pw_sha256 u)) @ 32 # flags_text (u_acl u) @ [10]"

definition good_user :: "vc_user \<Rightarrow> bool" where
  "good_user u \<longleftrightarrow> u_username u \<noteq> [] \<and> length (u_username u) \<le> 63 \<and> hd (u_username u) \<noteq> 35
     \<and> (\<forall>b\<in>set (u_username u). \<not> is_space b \<and> b \<noteq> 0) \<and> length (u_pw_sha256 u) = 32
     \<and> u_acl u \<noteq> 0 \<and> u_acl u < 16 \<and> u_enabled u"

lemma scan_word_text:
  assumes "\<forall>b\<in>set sp. is_space b" and "w \<noteq> []" and "\<forall>b\<in>set w. \<not> is_space b" and "length w \<le> n"
    and "rest = [] \<or> is_space (hd rest)"
  shows "scan_word n (sp @ w @ rest) = Some (w, rest)"
proof -
  have "dropWhile is_space (w @ rest) = w @ rest" using assms(2,3) by (cases w) simp_all
  then have d: "dropWhile is_space (sp @ w @ rest) = w @ rest" using assms(1) by (simp add: dropWhile_append2)
  have "takeWhile (\<lambda>b. \<not> is_space b) (take (n - length w) rest) = []"
    using assms(5) by (cases rest; cases "n - length w") auto
  then have "takeWhile (\<lambda>b. \<not> is_space b) (take n (w @ rest)) = w"
    using assms(3,4) by (simp add: takeWhile_append2)
  then show ?thesis using assms(2) by (simp add: scan_word_def d)
qed

lemma flags_text_cases:
  assumes "acl < 16"
  shows "parse_acl_flags (flags_text acl) = acl" "acl \<noteq> 0 \<Longrightarrow> flags_text acl \<noteq> []"
    "length (flags_text acl) \<le> 4" "\<forall>b\<in>set (flags_text acl). \<not> is_space b \<and> b \<noteq> 0 \<and> b \<noteq> 10"
proof -
  have "\<forall>n\<in>set [0..<16]. parse_acl_flags (flags_text (of_nat n)) = of_nat n
      \<and> (of_nat n \<noteq> (0 :: u32) \<longrightarrow> flags_text (of_nat n) \<noteq> []) \<and> length (flags_text (of_nat n)) \<le> 4
      \<and> (\<forall>b\<in>set (flags_text (of_nat n)). \<not> is_space b \<and> b \<noteq> 0 \<and> b \<noteq> 10)"
    by code_simp
  moreover have "unat acl \<in> set [0..<16]" using assms by (simp add: word_less_nat_alt)
  moreover have "of_nat (unat acl) = acl" by simp
  ultimately have "parse_acl_flags (flags_text acl) = acl \<and> (acl \<noteq> 0 \<longrightarrow> flags_text acl \<noteq> [])
      \<and> length (flags_text acl) \<le> 4 \<and> (\<forall>b\<in>set (flags_text acl). \<not> is_space b \<and> b \<noteq> 0 \<and> b \<noteq> 10)"
    by metis
  then show "parse_acl_flags (flags_text acl) = acl" "acl \<noteq> 0 \<Longrightarrow> flags_text acl \<noteq> []"
    "length (flags_text acl) \<le> 4" "\<forall>b\<in>set (flags_text acl). \<not> is_space b \<and> b \<noteq> 0 \<and> b \<noteq> 10" by auto
qed

lemma hex_pair_text: "b \<in> set (concat (map hex_pair raw)) \<Longrightarrow> \<not> is_space b \<and> b \<noteq> 0"
  using hex_chars_val(3,6) [OF nibbles(1)] hex_chars_val(3,6) [OF nibbles(2)] by (auto simp: hex_pair_def)

lemma space_bytes: "is_space 32" "is_space 10"
  by (simp_all add: is_space_def)

lemma user_line_no_0: "good_user u \<Longrightarrow> 0 \<notin> set (user_line u)"
  using flags_text_cases(4) [of "u_acl u"] hex_pair_no_0 [of "u_pw_sha256 u"]
  by (auto simp: user_line_def good_user_def)

lemma acl_line_user:
  assumes "good_user u"
  shows "acl_line junk (user_line u) = Some (Some u)"
proof -
  let ?hex = "concat (map hex_pair (u_pw_sha256 u))"
  have u: "u_username u \<noteq> []" "\<forall>b\<in>set (u_username u). \<not> is_space b" "length (u_username u) \<le> 63"
    "length (u_pw_sha256 u) = 32" "u_acl u < 16" "u_acl u \<noteq> 0"
    using assms by (auto simp: good_user_def)
  have h: "?hex \<noteq> []" "length ?hex \<le> 64" "\<forall>b\<in>set ?hex. \<not> is_space b"
    using u(4) hex_pair_text [of _ "u_pw_sha256 u"] length_hex_text [of "u_pw_sha256 u"]
    by (auto simp: simp del: set_concat length_concat concat_eq_Nil_conv)
  note f = flags_text_cases [OF u(5)]
  have f': "\<forall>b\<in>set (flags_text (u_acl u)). \<not> is_space b" using f(4) by blast
  have "scan_word 63 ([] @ u_username u @ 32 # ?hex @ 32 # flags_text (u_acl u) @ [10])
      = Some (u_username u, 32 # ?hex @ 32 # flags_text (u_acl u) @ [10])"
    by (rule scan_word_text) (use u space_bytes in auto)
  moreover have "scan_word 64 ([32] @ ?hex @ 32 # flags_text (u_acl u) @ [10])
      = Some (?hex, 32 # flags_text (u_acl u) @ [10])"
    by (rule scan_word_text) (use h space_bytes in auto)
  moreover have "scan_word 15 ([32] @ flags_text (u_acl u) @ [10]) = Some (flags_text (u_acl u), [10])"
    by (rule scan_word_text) (use f f' u(6) space_bytes in auto)
  ultimately have "scan_3 (user_line u) = Some (u_username u, ?hex, flags_text (u_acl u))"
    by (simp add: scan_3_def user_line_def)
  moreover have "dropWhile (\<lambda>b. b = 32 \<or> b = 9) (user_line u) = user_line u" "hd (user_line u) \<noteq> 35"
      "hd (user_line u) \<noteq> 10" "user_line u \<noteq> []"
    using assms by (cases "u_username u"; auto simp: good_user_def user_line_def is_space_def)+
  moreover have "u = \<lparr>u_username = u_username u, u_pw_sha256 = u_pw_sha256 u, u_acl = u_acl u, u_enabled = True\<rparr>"
    using assms by (simp add: good_user_def)
  ultimately show ?thesis
    using c_str_id [OF user_line_no_0 [OF assms]] hex_to_bytes_text [OF u(4)] f(1)
    by (simp add: acl_line_def)
qed

lemma fgets_line_text:
  assumes "10 \<notin> set l" and "length l < 255"
  shows "fgets_line ((l @ [10]) @ rest) = l @ [10]"
proof -
  have t: "take 255 (l @ 10 # rest) = l @ 10 # take (254 - length l) rest"
    using assms(2) by (simp add: take_Cons' )
  have "takeWhile (\<lambda>b. b \<noteq> 10) (l @ 10 # ys) = l" for ys using assms(1) by (induction l) auto
  moreover have "(l @ [10]) @ rest = l @ 10 # rest" by simp
  ultimately show ?thesis unfolding fgets_line_def Let_def by (simp only: t) simp
qed

lemma fgets_lines_users:
  assumes "\<forall>u\<in>set us. good_user u"
  shows "fgets_lines (concat (map user_line us)) = map user_line us"
  using assms
proof (induction us)
  case (Cons u us)
  let ?l = "u_username u @ 32 # concat (map hex_pair (u_pw_sha256 u)) @ 32 # flags_text (u_acl u)"
  have g: "good_user u" using Cons.prems by simp
  have "10 \<notin> set ?l"
    using g flags_text_cases(4) [of "u_acl u"] hex_pair_text [of 10 "u_pw_sha256 u"] space_bytes
    by (auto simp: good_user_def)
  moreover have "length ?l < 255"
    using g flags_text_cases(3) [of "u_acl u"] length_hex_text [of "u_pw_sha256 u"]
    by (simp add: good_user_def del: length_concat)
  moreover have l: "user_line u = ?l @ [10]" by (simp add: user_line_def)
  ultimately have "fgets_line (user_line u @ concat (map user_line us)) = user_line u"
    using fgets_line_text [of ?l] unfolding l by blast
  moreover have "user_line u \<noteq> []" by (simp add: user_line_def)
  ultimately show ?case using Cons by (simp add: fgets_lines.simps)
qed (simp add: fgets_lines.simps)

lemma load_lines_users:
  assumes "\<forall>u\<in>set us. good_user u" and "length vs + length us \<le> VC_AUTH_MAX_USERS"
  shows "load_lines junk (map user_line us) vs = Some (vs @ us)"
  using assms by (induction us arbitrary: vs) (simp_all add: acl_line_user)

lemma find_snoc: "List.find P us = None \<Longrightarrow> P u \<Longrightarrow> List.find P (us @ [u]) = Some u"
  by (induction us) (auto split: if_splits)

section \<open>Properties\<close>

lemma sha256_empty:
  "concat (map hex_pair (vc_sha256 False [])) =
     ascii ''e3b0c44298fc1c149afbf4c8996fb92427ae41e4649b934ca495991b7852b855''"
  by code_simp

lemma sha256_abc:
  "concat (map hex_pair (vc_sha256 False (ascii ''abc''))) =
     ascii ''ba7816bf8f01cfea414140de5dae2223b00361a396177a9cb410ff61f20015ad''"
  by code_simp

text \<open>
  The digest is SHA-256: in hexadecimal it has the published values on the
  empty message and on \<open>abc\<close>.
\<close>

theorem sha256_known_answers:
  "concat (map hex_pair (vc_sha256 False [])) =
     ascii ''e3b0c44298fc1c149afbf4c8996fb92427ae41e4649b934ca495991b7852b855''
   \<and> concat (map hex_pair (vc_sha256 False (ascii ''abc''))) =
     ascii ''ba7816bf8f01cfea414140de5dae2223b00361a396177a9cb410ff61f20015ad''"
  using sha256_empty sha256_abc by blast

text \<open>
  The padding written into the zeroed buffer is that of the standard for every
  message: the message, the byte \<open>0x80\<close>, the least number of zero bytes that fills whole blocks
  of 64 bytes, and the length in bits as eight bytes, most significant first.
\<close>

theorem sha_padding_standard:
  "\<exists>z < 64. sha_padded msg = msg @ [0x80] @ replicate z 0 @ be_len (of_nat (length msg) * 8)
     \<and> 64 dvd length (sha_padded msg)"
proof -
  let ?z = "padded_len (length msg) - length msg - 9"
  have "?z < 64" using padded_len_bounds(2) [of "length msg"] by simp
  moreover have "length (sha_padded msg) = padded_len (length msg)"
    using padded_len_bounds(1) [of "length msg"] by (simp add: sha_padded_eq be_len_def)
  ultimately show ?thesis
    using padded_len_bounds(3) [of "length msg"] sha_padded_eq [of msg] by auto
qed



text \<open>
  A user that was added is recognised by name and password, with the permissions
  given, if the table has room and no entry with the name; with a full table the addition fails
  and changes nothing.
\<close>

theorem add_user_then_verify:
  assumes "\<forall>u\<in>set (db_users db). u_username u \<noteq> name" and "length name \<le> 63"
  shows "case vc_auth_add_user oom db name password acl of
      (False, db') \<Rightarrow> db' = db \<and> VC_AUTH_MAX_USERS \<le> length (db_users db)
    | (True, db') \<Rightarrow> length (db_users db') \<le> VC_AUTH_MAX_USERS
        \<and> (\<exists>u. vc_auth_verify oom db' name password = Some u \<and> u_username u = name \<and> u_acl u = acl)"
proof (cases "VC_AUTH_MAX_USERS \<le> length (db_users db)")
  case True
  then show ?thesis by (simp add: vc_auth_add_user_def)
next
  case False
  let ?P = "\<lambda>u. u_enabled u \<and> length (u_username u) = length name \<and> u_username u = name
    \<and> u_pw_sha256 u = vc_sha256 oom password"
  let ?u = "\<lparr>u_username = name, u_pw_sha256 = vc_sha256 oom password, u_acl = acl, u_enabled = True\<rparr>"
  have "List.find ?P (db_users db) = None" using assms(1) by (auto simp: find_None_iff)
  then have "List.find ?P (db_users db @ [?u]) = Some ?u" by (rule find_snoc) simp
  then show ?thesis
    using assms(2) False by (simp add: vc_auth_add_user_def vc_auth_verify_def)
qed

theorem add_user_then_verify_witness:
  "\<exists>db' u. vc_auth_add_user False \<lparr>db_users = [], db_require_auth = False\<rparr> (ascii ''default'') (ascii ''pw'') 7
      = (True, db') \<and> vc_auth_verify False db' (ascii ''default'') (ascii ''pw'') = Some u \<and> u_acl u = 7"
  using add_user_then_verify [of "\<lparr>db_users = [], db_require_auth = False\<rparr>" "ascii ''default''" False "ascii ''pw''" 7]
  by (auto simp: vc_auth_add_user_def split: prod.splits bool.splits)

text \<open>
  C30 (roundtrip): the file with one line per user, name, digest in hexadecimal and flags, is read
  back to exactly these users, whatever was left on the stack, for up to 64 users whose names are
  words of at most 63 bytes.
\<close>

theorem acl_file_roundtrip:
  assumes "\<forall>u\<in>set us. good_user u" and "length us \<le> VC_AUTH_MAX_USERS" and "path \<noteq> []"
  shows "vc_auth_load junk (Some path) (Some (concat (map user_line us)))
    = Some (True, \<lparr>db_users = us, db_require_auth = True\<rparr>)"
  using assms load_lines_users [of us "[]" junk] by (simp add: vc_auth_load_def fgets_lines_users)

theorem acl_file_roundtrip_witness:
  "vc_auth_load (\<lambda>_. []) (Some [97]) (Some (user_line (anon\<lparr>u_acl := 3\<rparr>)))
    = Some (True, \<lparr>db_users = [anon\<lparr>u_acl := 3\<rparr>], db_require_auth = True\<rparr>)"
  using acl_file_roundtrip [of "[anon\<lparr>u_acl := 3\<rparr>]" "[97]" "\<lambda>_. []"]
  by (simp add: good_user_def anon_def ascii_def is_space_def)

text \<open>
  A session token is the 64 hexadecimal digits of its 32 random bytes: reading it
  back gives the bytes, so different bytes give different tokens.
\<close>

theorem token_roundtrip:
  assumes "length raw = 32"
  shows "\<exists>tok. vc_auth_gen_token (Some raw) other = Some tok \<and> length tok = 64
    \<and> hex_to_bytes (tok @ [0]) 32 = Some raw"
  using assms hex_to_bytes_text [of raw 32 "[]"] length_hex_text [of raw]
  by (simp add: vc_auth_gen_token_def del: length_concat)

theorem token_roundtrip_witness:
  "\<exists>tok. vc_auth_gen_token (Some (replicate 32 0xAB)) None = Some tok
    \<and> hex_to_bytes (tok @ [0]) 32 = Some (replicate 32 0xAB)"
  using token_roundtrip [of "replicate 32 0xAB" None] by auto

text \<open>
  A user whose entry has the flag letters of a word may read, write, administer
  or publish exactly when the letter of the permission or \<open>*\<close> is among them.
\<close>

theorem acl_flags_permissions:
  "(vc_acl_check (Some (u\<lparr>u_acl := parse_acl_flags fs\<rparr>)) VC_ACL_READ \<longleftrightarrow> 114 \<in> set fs \<or> 42 \<in> set fs)
   \<and> (vc_acl_check (Some (u\<lparr>u_acl := parse_acl_flags fs\<rparr>)) VC_ACL_WRITE \<longleftrightarrow> 119 \<in> set fs \<or> 42 \<in> set fs)
   \<and> (vc_acl_check (Some (u\<lparr>u_acl := parse_acl_flags fs\<rparr>)) VC_ACL_ADMIN \<longleftrightarrow> 97 \<in> set fs \<or> 42 \<in> set fs)
   \<and> (vc_acl_check (Some (u\<lparr>u_acl := parse_acl_flags fs\<rparr>)) VC_ACL_PUBSUB \<longleftrightarrow> 112 \<in> set fs \<or> 42 \<in> set fs)"
  by (simp add: acl_check_bits parse_acl_flags_def parse_acl_bits)

end
