(* ===== verification/CacheSafe.thy ===== *)
theory CacheSafe
  imports CacheOps
begin

text \<open>
  The operations of the cache are safe without any assumption about room in the tables: they
  return, stay within their memory and keep \<open>safe_inv\<close>. An entry that is lost in a full table
  takes its blocks with it: they stay allocated and nobody refers to them.
\<close>

section \<open>Under the lock\<close>

lemma evict_if_full_safe:
  assumes s: "shard_ok s" and h: "heap_ok m sl {#} (lives (s_table s) + R)"
  shows "\<exists>s' m' sl'. evict_if_full s m sl = Some (s', m', sl') \<and> shard_ok s'
     \<and> heap_ok m' sl' {#} (lives (s_table s') + R) \<and> s_seq s' = s_seq s"
proof (cases "85 \<le> s_count s * 100 div s_cap s")
  case True
  obtain fls where "heap_inv m sl fls {#} (lives (s_table s) + R)" using h by (auto simp: heap_ok_def)
  then obtain r m' sl' s' where e: "shard_evict_one m sl s = Some (r, m', sl', s')" "shard_ok s'"
    "heap_ok m' sl' {#} (lives (s_table s') + R)"
    "swept s s' r (\<forall>e \<in> set (s_table s). e_state e = LIVE \<longrightarrow> e_clock_bit e \<noteq> 0)"
    using shard_evict_one_spec [OF s] unfolding heap_ok_def by blast
  have "s_seq s' = s_seq s" using e(4) by (cases s; cases s') (simp add: swept_def)
  then show ?thesis using True e(1-3) by (simp add: evict_if_full_def)
next
  case False
  then show ?thesis using s h by (simp add: evict_if_full_def)
qed

lemma remove_found_safe:
  assumes s: "shard_ok s" and h: "heap_ok m sl {#} (lives (s_table s) + R)" and key: "length key < 2 ^ 32"
  shows "\<exists>r s' m' sl'. shard_find m now s key (of_nat (length key)) hash = Some r
     \<and> (if r \<noteq> UINT32_MAX then kill_slot s m sl r else Some (s, m, sl)) = Some (s', m', sl')
     \<and> shard_ok s' \<and> heap_ok m' sl' {#} (lives (s_table s') + R) \<and> s_seq s' = s_seq s"
proof -
  obtain r where f: "shard_find m now s key (of_nat (length key)) hash = Some r"
    and r: "r = UINT32_MAX \<or> (\<exists>i < length (s_table s). r = of_nat i
         \<and> ent_matches m key hash (s_table s ! i) \<and> \<not> entry_expired now (s_table s ! i))"
    using shard_find_sound [OF s heap_ents_ok [OF h] key] by blast
  show ?thesis
  proof (cases "r = UINT32_MAX")
    case True
    then show ?thesis using f s h by auto
  next
    case False
    then obtain i where i: "i < length (s_table s)" "r = of_nat i" "e_state (s_table s ! i) = LIVE"
      using r by (auto simp: ent_matches_def)
    then show ?thesis using kill_slot_ok [OF s i(1,3) h] f False by fastforce
  qed
qed

lemma set_commit_safe:
  assumes s: "shard_ok s" "at_rest s" and key: "length key < 2 ^ 32"
    and h: "heap_ok m sl {#} (add_mset (core ne) (lives (s_table s) + R))"
  shows "\<exists>s' m' sl' lost. set_commit now s m sl key hash ne = Some (s', m', sl')
     \<and> shard_ok s' \<and> at_rest s' \<and> heap_ok m' sl' {#} (lives (s_table s') + (R + lost))"
proof -
  define s1 where "s1 = seq_write_begin (s\<lparr>s_wlock := 1\<rparr>)"
  have lock: "shard_lock s = Some (s\<lparr>s_wlock := 1\<rparr>)" using s(2) by (simp add: shard_lock_def at_rest_def)
  have s1: "s_table s1 = s_table s" "s_cap s1 = s_cap s" "s_seq s1 = s_seq s + 1"
    by (simp_all add: s1_def seq_write_begin_def)
  let ?R = "add_mset (core ne) R"
  have h1: "heap_ok m sl {#} (lives (s_table s1) + ?R)" using h by (simp add: s1)
  have ok1: "shard_ok s1" using s by (simp add: s1 shard_ok_def)
  obtain r s2 m2 sl2 where 2: "shard_find m now s1 key (of_nat (length key)) hash = Some r"
    "(if r \<noteq> UINT32_MAX then kill_slot s1 m sl r else Some (s1, m, sl)) = Some (s2, m2, sl2)"
    "shard_ok s2" "heap_ok m2 sl2 {#} (lives (s_table s2) + ?R)" "s_seq s2 = s_seq s1"
    using remove_found_safe [OF ok1 h1 key] by blast
  obtain s3 m3 sl3 where 3: "evict_if_full s2 m2 sl2 = Some (s3, m3, sl3)" "shard_ok s3"
    "heap_ok m3 sl3 {#} (lives (s_table s3) + ?R)" "s_seq s3 = s_seq s2"
    using evict_if_full_safe [OF 2(3,4)] by blast
  obtain T4 where 4: "shard_insert s3 ne = Some (s3\<lparr>s_table := T4\<rparr>)" "shard_ok (s3\<lparr>s_table := T4\<rparr>)"
    "inserted (has_room (s_table s3)) ne (s_table s3) T4"
    using shard_insert_spec [OF 3(2), of ne] by blast
  obtain lost where "lives T4 + lost = add_mset (core ne) (lives (s_table s3))"
    using 4(3) unfolding inserted_def by (metis add.right_neutral add_mset_add_single)
  moreover have "lives (s_table s3) + ?R = add_mset (core ne) (lives (s_table s3)) + R" by simp
  ultimately have h4: "heap_ok m3 sl3 {#} (lives T4 + (R + lost))"
    using 3(3) by (metis add.assoc add.commute)
  define s' where "s' = shard_unlock (seq_write_end
    (s3\<lparr>s_table := T4, s_count := s_count s3 + 1, s_sets := s_sets s3 + 1\<rparr>))"
  have s': "s_table s' = T4" "s_seq s' = s_seq s + 2" "s_wlock s' = 0" "s_cap s' = s_cap s3"
    using 2(5) 3(4) by (simp_all add: s'_def shard_unlock_def seq_write_end_def s1)
  have "set_commit now s m sl key hash ne = Some (s', m3, sl3)"
    using lock 2(1,2) 3(1) 4(1)
    by (cases "r = UINT32_MAX") (simp_all add: set_commit_def Let_def s1_def [symmetric] s'_def)
  moreover have "shard_ok s'" using 4(2) by (simp add: shard_ok_def s')
  moreover have "at_rest s'" using s(2) by (simp add: at_rest_def s')
  ultimately show ?thesis using h4 s'(1) by blast
qed

section \<open>The operations\<close>

text \<open>The cache of a server: safe, with no log or the log of the size the source gives it.\<close>

definition cache_ready :: "vc_cache \<Rightarrow> bool" where
  "cache_ready c \<longleftrightarrow> safe_inv c \<and> c_max_memory c < 2 ^ 64
     \<and> (w_ring (c_wal c) = None \<or> w_ring_size (c_wal c) = VC_WAL_RING_SIZE)"

lemma safe_inv_update:
  assumes c: "safe_inv c" and i: "i < 64" and s: "shard_ok s" "at_rest s"
    and h: "heap_ok m sl {#} (lives (s_table s) + (others (c_shards c) i + lost))" and w: "wal_inv w"
  shows "safe_inv (c\<lparr>c_wal := w, c_total_memory := t, c_shards := (c_shards c)[i := s],
                     c_mem := m, c_slab := sl\<rparr>)"
proof -
  have len: "length (c_shards c) = 64" using c by (simp add: safe_inv_def)
  then have "heap_ok m sl {#} (shards_lives (mset ((c_shards c)[i := s])) + lost)"
    using h i by (simp add: shards_lives_update add.assoc)
  moreover have "shard_ok ((c_shards c)[i := s] ! j) \<and> at_rest ((c_shards c)[i := s] ! j)" if "j < 64" for j
    using c s that len i by (cases "j = i") (simp_all add: safe_inv_def)
  ultimately show ?thesis using len w by (auto simp: safe_inv_def)
qed

lemma safe_heap:
  assumes "safe_inv c" and "i < 64"
  obtains lost where "heap_ok (c_mem c) (c_slab c) {#} (shards_lives (mset (c_shards c)) + lost)"
    "shards_lives (mset (c_shards c)) = lives (table_of c i) + others (c_shards c) i"
  using assms shards_lives_nth [of i "c_shards c"] by (auto simp: safe_inv_def)

lemma put_shard_safe:
  assumes c: "safe_inv c" and i: "i < 64" and s: "shard_ok s" "at_rest s" "lives (s_table s) = lives (table_of c i)"
  shows "safe_inv (put_shard c i s)"
proof -
  obtain lost where "heap_ok (c_mem c) (c_slab c) {#} (shards_lives (mset (c_shards c)) + lost)"
    "shards_lives (mset (c_shards c)) = lives (table_of c i) + others (c_shards c) i"
    using safe_heap [OF c i] by blast
  then have "safe_inv (c\<lparr>c_wal := c_wal c, c_total_memory := c_total_memory c,
      c_shards := (c_shards c)[i := s], c_mem := c_mem c, c_slab := c_slab c\<rparr>)"
    using c s by (intro safe_inv_update [OF c i s(1,2), where lost = lost]) (simp_all add: safe_inv_def add.assoc)
  then show ?thesis by (simp add: put_shard_def)
qed

lemma misses_one_safe: "safe_inv c \<Longrightarrow> i < 64 \<Longrightarrow> safe_inv (misses_one c i)"
  unfolding misses_one_def using safe_inv_nth(2,3) [of c i]
  by (intro put_shard_safe) (auto simp: shard_ok_def at_rest_def)

lemma hits_one_safe:
  assumes c: "safe_inv c" and i: "i < 64" and j: "j < length (table_of c i)"
  shows "safe_inv (hits_one c i j)"
proof -
  have s: "shard_ok (c_shards c ! i)" "at_rest (c_shards c ! i)" using safe_inv_nth(2,3) [OF c i] .
  then have "tab_ok (table_of c i)" by (simp add: shard_ok_def)
  note k = set_clock_keeps [OF this j, of 1]
  show ?thesis
    unfolding hits_one_def using s k(1,2)
    by (intro put_shard_safe [OF c i]) (auto simp: touch_def shard_ok_def at_rest_def)
qed

text \<open>A lookup returns; a value it finds is at most 65535 bytes and can be read.\<close>

lemma vc_get_safe:
  assumes c: "cache_ready c" and key: "length key < 2 ^ 32"
  shows "\<exists>err p n c'. vc_get env c (Some key) = Some (err, p, n, c') \<and> cache_ready c'
     \<and> c_wal c' = c_wal c
     \<and> (err = VC_ERR_NOTFND \<or> err = VC_OK \<and> n \<le> 65535 \<and> (\<exists>v. cptr_read c' p n = Some v \<and> length v = n))"
proof -
  have cs: "safe_inv c" and i: "shard_of key < 64" using c shard_idx_less by (simp_all add: cache_ready_def)
  obtain r err p n c' where g: "get_slot env c key = Some r" "vc_get env c (Some key) = Some (err, p, n, c')"
    "get_effect c key r (err, p, n, c')"
    using vc_get_ok [OF cs key, of env] by (metis prod_cases4)
  have rl: "r = UINT32_MAX \<or> unat r < length (table_of c (shard_of key))"
    using g(1) live_found [OF cs key, of "clk1 env"] live_found [OF cs key, of "clk2 env"]
    by (auto simp: get_slot_def Let_def split: if_splits)
  have n: "vlen e \<le> 65535" for e
  proof -
    have "vlen e < 2 ^ LENGTH(16)" by (rule unsigned_less)
    then show ?thesis by simp
  qed
  have len: "cptr_read c' p n = Some v \<Longrightarrow> length v = n" for v
    by (auto simp: cptr_read_def mem_read_def sub_bytes_def split: cptr.splits option.splits if_splits Option.bind_splits)
  show ?thesis
  proof (cases "r = UINT32_MAX")
    case True
    then have "err = VC_ERR_NOTFND" "c' = misses_one c (shard_of key)" using g(3) by (simp_all add: get_effect_def)
    moreover have "c_wal (misses_one c (shard_of key)) = c_wal c"
      "c_max_memory (misses_one c (shard_of key)) = c_max_memory c" by (simp_all add: misses_one_def put_shard_def)
    ultimately show ?thesis using g(2) misses_one_safe [OF cs i] c by (simp add: cache_ready_def)
  next
    case False
    then have "err = VC_OK" "c' = hits_one c (shard_of key) (unat r)"
      "n = vlen (table_of c (shard_of key) ! unat r)" "\<exists>v. cptr_read c' p n = Some v"
      using g(3) False by (auto simp: get_effect_def)
    moreover have "c_wal (hits_one c (shard_of key) (unat r)) = c_wal c"
      "c_max_memory (hits_one c (shard_of key) (unat r)) = c_max_memory c" by (simp_all add: hits_one_def put_shard_def)
    ultimately show ?thesis
      using g(2) hits_one_safe [OF cs i, of "unat r"] rl False c n len by (auto simp: cache_ready_def)
  qed
qed

lemma vc_set_safe:
  assumes c: "cache_ready c" and env: "env_ok (c_mem c) env"
    and len: "length key \<le> 2 ^ 24" "length val \<le> 2 ^ 24"
  shows "\<exists>err c'. vc_set env c (Some key) (Some val) ttl = Some (err, c') \<and> cache_ready c'"
proof (cases "key = [] \<or> val = []")
  case True
  then show ?thesis using c unfolding vc_set_def by auto
next
  case False
  define si where "si = shard_of key"
  let ?s = "c_shards c ! si" and ?R = "others (c_shards c) si"
  have cs: "safe_inv c" and si: "si < 64" using c by (simp_all add: cache_ready_def si_def shard_idx_less)
  have arg: "key \<noteq> []" "val \<noteq> []" "length key < 2 ^ 32" using False len by auto
  have wal: "wal_accepts (c_wal c) key val" using c len by (auto simp: cache_ready_def wal_accepts_def)
  obtain lost where E: "heap_ok (c_mem c) (c_slab c) {#} (shards_lives (mset (c_shards c)) + lost)"
    "shards_lives (mset (c_shards c)) = lives (s_table ?s) + ?R"
    using safe_heap [OF cs si] by blast
  let ?E = "shards_lives (mset (c_shards c)) + lost"
  obtain w err ne m1 sl1 t where b: "build_result env c key val ttl (hash_key key) ?E
       (err, ne, c\<lparr>c_mem := m1, c_slab := sl1, c_total_memory := t\<rparr>)"
    and w: "wal_inv w" "w_ring w = None \<longleftrightarrow> w_ring (c_wal c) = None" "w_ring_size w = w_ring_size (c_wal c)"
    and step: "vc_set env c (Some key) (Some val) ttl =
      (let c1 = c\<lparr>c_wal := w, c_mem := m1, c_slab := sl1, c_total_memory := t\<rparr> in
       if err \<noteq> VC_OK then Some (err, c1)
       else do { (s', m, sl) \<leftarrow> set_commit (clk2 env) ?s m1 sl1 key (hash_key key) ne;
                 Some (VC_OK, c1\<lparr>c_shards := (c_shards c)[si := s'], c_mem := m, c_slab := sl\<rparr>) })"
    using vc_set_prefix [OF cs E(1) env arg wal, of ttl, folded si_def]
    by (elim exE conjE) (rule that)
  have ready: "cache_ready c'" if "safe_inv c'" "c_wal c' = w" "c_max_memory c' = c_max_memory c" for c'
    using that w(2,3) c by (simp add: cache_ready_def)
  show ?thesis
  proof (cases "err = VC_OK")
    case False
    then have "heap_ok m1 sl1 {#} ?E" using b by (auto simp: build_result_def split: if_splits)
    then have "safe_inv (c\<lparr>c_wal := w, c_mem := m1, c_slab := sl1, c_total_memory := t\<rparr>)"
      using cs w(1) by (auto simp: safe_inv_def)
    then show ?thesis using step False ready by (simp add: Let_def)
  next
    case True
    then have "heap_ok m1 sl1 {#} (add_mset (core ne) ?E)" using b by (auto simp: build_result_def split: if_splits)
    then have "heap_ok m1 sl1 {#} (add_mset (core ne) (lives (s_table ?s) + (?R + lost)))"
      unfolding E(2) by (simp add: add.assoc)
    then obtain s' m' sl' l2 where k: "set_commit (clk2 env) ?s m1 sl1 key (hash_key key) ne = Some (s', m', sl')"
      "shard_ok s'" "at_rest s'" "heap_ok m' sl' {#} (lives (s_table s') + (?R + lost + l2))"
      using set_commit_safe [OF safe_inv_nth(2,3) [OF cs si] arg(3)] by blast
    let ?c' = "c\<lparr>c_wal := w, c_total_memory := t, c_shards := (c_shards c)[si := s'], c_mem := m', c_slab := sl'\<rparr>"
    have "safe_inv ?c'"
      using k(2-4) w(1) by (intro safe_inv_update [OF cs si, where lost = "lost + l2"]) (simp_all add: add.assoc)
    then show ?thesis using step True k(1) ready [of ?c'] by (simp add: Let_def)
  qed
qed

lemma vc_del_safe:
  assumes c: "cache_ready c" and key: "length key \<le> 2 ^ 24"
  shows "\<exists>err c'. vc_del env c (Some key) = Some (err, c') \<and> cache_ready c' \<and> err \<in> {VC_OK, VC_ERR_NOTFND}"
proof -
  define si where "si = shard_of key"
  let ?s = "c_shards c ! si" and ?R = "others (c_shards c) si"
  have cs: "safe_inv c" and si: "si < 64" using c by (simp_all add: cache_ready_def si_def shard_idx_less)
  have s: "shard_ok ?s" "at_rest ?s" using safe_inv_nth(2,3) [OF cs si] .
  have "wal_inv (c_wal c)" "wal_accepts (c_wal c) key []"
    using c key by (auto simp: cache_ready_def wal_accepts_def safe_inv_def)
  then obtain w where w: "wal_append (c_wal c) VC_WAL_DEL key (of_nat (length key)) [] 0 0 (wall env) = Some w"
      "wal_inv w" "w_ring w = None \<longleftrightarrow> w_ring (c_wal c) = None" "w_ring_size w = w_ring_size (c_wal c)"
    using wal_append_ok [of "c_wal c" key "[]" VC_WAL_DEL 0 "wall env"] by auto
  obtain lost where "heap_ok (c_mem c) (c_slab c) {#} (shards_lives (mset (c_shards c)) + lost)"
    "shards_lives (mset (c_shards c)) = lives (s_table ?s) + ?R"
    using safe_heap [OF cs si] by blast
  define s1 where "s1 = seq_write_begin (?s\<lparr>s_wlock := 1\<rparr>)"
  then have s1: "shard_ok s1" "s_seq s1 = s_seq ?s + 1" "s_table s1 = s_table ?s"
    using s(1) by (simp_all add: seq_write_begin_def shard_ok_def)
  have "heap_ok (c_mem c) (c_slab c) {#} (lives (s_table s1) + (?R + lost))"
    using \<open>heap_ok _ _ _ _\<close> \<open>shards_lives _ = _\<close> s1(3) by (simp add: add.assoc)
  then obtain r s2 m sl where k: "shard_find (c_mem c) (clk1 env) s1 key (of_nat (length key)) (hash_key key) = Some r"
    "(if r \<noteq> UINT32_MAX then kill_slot s1 (c_mem c) (c_slab c) r else Some (s1, c_mem c, c_slab c)) = Some (s2, m, sl)"
    "shard_ok s2" "heap_ok m sl {#} (lives (s_table s2) + (?R + lost))" "s_seq s2 = s_seq s1"
    using remove_found_safe [OF s1(1), of "c_mem c" "c_slab c" "?R + lost" key "clk1 env" "hash_key key"] key by fastforce
  define s' where "s' = shard_unlock (seq_write_end s2)"
  let ?c' = "c\<lparr>c_wal := w, c_total_memory := c_total_memory c, c_shards := (c_shards c)[si := s'], c_mem := m, c_slab := sl\<rparr>"
  have "shard_ok s'" "at_rest s'" "s_table s' = s_table s2"
    using k(3,5) s(2) s1(2) by (simp_all add: s'_def shard_unlock_def seq_write_end_def shard_ok_def at_rest_def)
  then have "safe_inv ?c'" using k(4) w(2) by (intro safe_inv_update [OF cs si, where lost = lost]) simp_all
  then have ready: "cache_ready ?c'" using w(3,4) c by (simp add: cache_ready_def)
  have "vc_del env c (Some key) = Some (if r = UINT32_MAX then VC_ERR_NOTFND else VC_OK, ?c')"
    using w(1) k(1,2) s(2) safe_inv_nth(1) [OF cs si]
    by (auto simp: vc_del_def Let_def si_def [symmetric] put_shard_def s1_def [symmetric] s'_def shard_lock_def at_rest_def
        split: if_splits)
  then show ?thesis using ready by auto
qed

lemma vc_flush_safe:
  assumes c: "cache_ready c"
  shows "\<exists>c'. vc_flush c = Some c' \<and> cache_ready c'"
proof -
  have cs: "safe_inv c" and len: "length (c_shards c) = 64" using c by (simp_all add: cache_ready_def safe_inv_def)
  obtain lost where "heap_ok (c_mem c) (c_slab c) {#} (shards_lives (mset (c_shards c)) + lost)"
    using cs by (auto simp: safe_inv_def)
  then obtain ss m sl where f: "flush_shards (c_shards c) (c_mem c) (c_slab c) = Some (ss, m, sl)"
    "length ss = length (c_shards c)" "heap_ok m sl {#} lost"
    "\<forall>s \<in> set ss. shard_ok s \<and> at_rest s \<and> s_count s = 0 \<and> lives (s_table s) = {#}"
    using flush_shards_ok [of "c_mem c" "c_slab c" "c_shards c" lost] cs len
    by (fastforce simp: safe_inv_def in_set_conv_nth)
  have "shards_lives (mset ss) = {#}" using f(4) by (induction ss) auto
  then have "safe_inv (c\<lparr>c_shards := ss, c_mem := m, c_slab := sl\<rparr>)"
    using f len cs by (auto simp: safe_inv_def)
  then show ?thesis using f(1) c by (simp add: vc_flush_def cache_ready_def)
qed

end
