(* ===== verification/Session.thy ===== *)
theory Session
  imports CacheSafe Resp Auth
begin

text \<open>
  The state of the server (\<^verbatim>\<open>net/server.h\<close>) and what every command handler of
  \<^verbatim>\<open>net/commands.c\<close> is built from: replies to a connection, the permission check, the calls of
  the cache. A session is the server with the connection that is being served. The record
  \<open>world\<close> resolves what the machine decides; \<open>sv_tick\<close> counts the calls made to it, so that
  each of them is answered on its own. A handler returns \<open>None\<close> where the source would leave
  its memory or follow a null pointer.
\<close>

section \<open>The state of the server\<close>

type_synonym i32 = "32 word"

datatype vc_conn_state =
  VC_CONN_FREE | VC_CONN_CONNECTED | VC_CONN_TLS_HAND | VC_CONN_AUTHED | VC_CONN_CLOSING

record vc_conn =
  cn_fd :: i32
  cn_state :: vc_conn_state
  cn_ssl :: "nat option"
  cn_resp3 :: bool
  cn_rbuf :: "vc_buf option"
  cn_wbuf :: "vc_buf option"
  cn_user :: "vc_user option"
  cn_token :: bytes
  cn_last_active :: i64
  cn_db_idx :: i32
  cn_peer_addr :: bytes
  cn_peer_port :: u16

record vc_server_cfg =
  cfg_bind_addr :: "bytes option"
  cfg_port :: u16
  cfg_tls_cert :: "bytes option"
  cfg_tls_key :: "bytes option"
  cfg_acl_file :: "bytes option"
  cfg_worker_threads :: i32
  cfg_max_memory :: nat
  cfg_wal_path :: "bytes option"
  cfg_shard_slots :: u32
  cfg_cluster_enabled :: bool
  cfg_cluster_announce_addr :: "bytes option"
  cfg_cluster_announce_port :: u16
  cfg_requirepass :: "bytes option"

record vcserver =
  sv_cfg :: vc_server_cfg
  sv_cache :: vc_cache
  sv_auth :: vc_auth_db
  sv_ssl_ctx :: "nat option"
  sv_listen_fd :: i32
  sv_epoll_fd :: i32
  sv_conns :: "vc_conn list"
  sv_running :: bool
  sv_total_conns :: u64
  sv_total_commands :: u64
  sv_rejected_auth :: u64
  sv_node_id :: bytes
  sv_tick :: nat

abbreviation (input) VC_SERVER_VERSION :: bytes where
  "VC_SERVER_VERSION \<equiv> ascii ''2.0.0''"

type_synonym session = "vcserver \<times> vc_conn"

text \<open>
  What the machine answers at a tick: the clocks and fresh addresses of a cache call (they may
  depend on the cache, since \<^verbatim>\<open>malloc\<close> returns an address that is not in use), whether a
  \<^verbatim>\<open>malloc\<close> fails, the memory of a new buffer, random bytes; and how \<^verbatim>\<open>strtod\<close> reads and \<^verbatim>\<open>%g\<close>
  prints a double, given by its bits.
\<close>

record world =
  w_env :: "nat \<Rightarrow> vc_cache \<Rightarrow> env"
  w_oom :: "nat \<Rightarrow> bool"
  w_buf :: "nat \<Rightarrow> bool \<times> bool \<times> bool list"
  w_random :: "nat \<Rightarrow> bytes option \<times> bytes option"
  w_strtod :: "bytes \<Rightarrow> u64"
  w_fmt_g :: "u64 \<Rightarrow> bytes"

section \<open>Replies\<close>

definition reply :: "writer \<Rightarrow> session \<Rightarrow> session option" where
  "reply wr = (\<lambda>(srv, conn). do {
     b \<leftarrow> cn_wbuf conn;
     (_, b) \<leftarrow> wr b;
     Some (srv, conn\<lparr>cn_wbuf := Some b\<rparr>)
   })"

definition ERR :: "string \<Rightarrow> string \<Rightarrow> session \<Rightarrow> session option" where
  "ERR code m = reply (resp_write_error (ascii code) (ascii m))"

definition OK_REPLY :: "session \<Rightarrow> session option" where
  "OK_REPLY = reply resp_write_ok"

definition INT_REPLY :: "int \<Rightarrow> session \<Rightarrow> session option" where
  "INT_REPLY n = reply (resp_write_integer n)"

definition BULK :: "bytes \<Rightarrow> session \<Rightarrow> session option" where
  "BULK s = reply (resp_write_bulk s)"

definition NULLREPLY :: "session \<Rightarrow> session option" where
  "NULLREPLY sc = reply (resp_write_null_compat (cn_resp3 (snd sc))) sc"

definition ARRAY :: "int \<Rightarrow> session \<Rightarrow> session option" where
  "ARRAY n = reply (resp_write_array_header n)"

definition SIMPLE :: "string \<Rightarrow> session \<Rightarrow> session option" where
  "SIMPLE s = reply (resp_write_simple (ascii s))"

section \<open>Arguments\<close>

definition argn :: "vc_cmd \<Rightarrow> nat \<Rightarrow> arg option" where
  "argn cmd i = nth_opt (cmd_args cmd) i"

text \<open>The condition of \<^verbatim>\<open>ARGC_CHECK\<close>.\<close>

definition argc_bad :: "vc_cmd \<Rightarrow> int \<Rightarrow> int \<Rightarrow> bool" where
  "argc_bad cmd mn mx \<longleftrightarrow> int (cmd_argc cmd) - 1 < mn \<or> mx < int (cmd_argc cmd) - 1"

definition is_word :: "arg \<Rightarrow> string \<Rightarrow> bool" where
  "is_word a s \<longleftrightarrow> strcaseeq (arg_str a) (ascii s)"

text \<open>
  The value \<^verbatim>\<open>parse_int64\<close> of the handlers stores, also when it reports failure, which no caller
  looks at.
\<close>

definition parse_num :: "bytes \<Rightarrow> i64" where
  "parse_num s = of_int (fst (strtoll s))"

section \<open>Permissions\<close>

definition need_auth :: "u32 \<Rightarrow> session \<Rightarrow> (bool \<times> session) option" where
  "need_auth acl = (\<lambda>(srv, conn).
     if \<not> db_require_auth (sv_auth srv) then Some (False, (srv, conn))
     else if cn_user conn = None then do {
       sc \<leftarrow> ERR ''NOAUTH'' ''Authentication required. Use AUTH command.'' (srv, conn);
       Some (True, sc)
     }
     else if \<not> vc_acl_check (cn_user conn) acl then do {
       sc \<leftarrow> ERR ''NOPERM'' ''Permission denied for this command.'' (srv, conn);
       Some (True, sc)
     }
     else Some (False, (srv, conn)))"

text \<open>The first line of the guarded handlers: return when \<open>need_auth\<close> has replied.\<close>

definition guarded :: "u32 \<Rightarrow> (session \<Rightarrow> session option) \<Rightarrow> session \<Rightarrow> session option" where
  "guarded acl body sc = do { (stop, sc) \<leftarrow> need_auth acl sc; if stop then Some sc else body sc }"

section \<open>Calls\<close>

definition tick :: "session \<Rightarrow> session" where
  "tick = (\<lambda>(srv, conn). (srv\<lparr>sv_tick := Suc (sv_tick srv)\<rparr>, conn))"

definition now_at :: "session \<Rightarrow> nat" where
  "now_at sc = sv_tick (fst sc)"

definition cache_at :: "session \<Rightarrow> vc_cache" where
  "cache_at sc = sv_cache (fst sc)"

definition cache_env :: "world \<Rightarrow> session \<Rightarrow> env" where
  "cache_env w sc = w_env w (now_at sc) (cache_at sc)"

definition with_cache :: "vc_cache \<Rightarrow> session \<Rightarrow> session" where
  "with_cache c = (\<lambda>(srv, conn). (srv\<lparr>sv_cache := c, sv_tick := Suc (sv_tick srv)\<rparr>, conn))"

definition srv_get :: "world \<Rightarrow> arg \<Rightarrow> session \<Rightarrow> (vc_err \<times> cptr \<times> nat \<times> session) option" where
  "srv_get w a sc = do {
     key \<leftarrow> arg_bytes a;
     (err, p, n, c) \<leftarrow> vc_get (cache_env w sc) (cache_at sc) (Some key);
     Some (err, p, n, with_cache c sc)
   }"

definition srv_set :: "world \<Rightarrow> arg \<Rightarrow> bytes \<Rightarrow> u32 \<Rightarrow> session \<Rightarrow> (vc_err \<times> session) option" where
  "srv_set w a val ttl sc = do {
     key \<leftarrow> arg_bytes a;
     (err, c) \<leftarrow> vc_set (cache_env w sc) (cache_at sc) (Some key) (Some val) ttl;
     Some (err, with_cache c sc)
   }"

definition srv_del :: "world \<Rightarrow> arg \<Rightarrow> session \<Rightarrow> (vc_err \<times> session) option" where
  "srv_del w a sc = do {
     key \<leftarrow> arg_bytes a;
     (err, c) \<leftarrow> vc_del (cache_env w sc) (cache_at sc) (Some key);
     Some (err, with_cache c sc)
   }"

text \<open>Whether \<^verbatim>\<open>malloc\<close> of so many bytes fails.\<close>

definition srv_malloc :: "world \<Rightarrow> nat \<Rightarrow> session \<Rightarrow> bool \<times> session" where
  "srv_malloc w n sc = (MAX_OBJECT < n \<or> w_oom w (now_at sc), tick sc)"

definition gen_token :: "world \<Rightarrow> session \<Rightarrow> session" where
  "gen_token w sc =
     (case vc_auth_gen_token (fst (w_random w (now_at sc))) (snd (w_random w (now_at sc))) of
        None \<Rightarrow> tick sc
      | Some t \<Rightarrow> tick (fst sc, (snd sc)\<lparr>cn_token := t\<rparr>))"

definition srv_verify :: "world \<Rightarrow> bytes \<Rightarrow> bytes \<Rightarrow> session \<Rightarrow> vc_user option \<times> session" where
  "srv_verify w name password sc =
     (vc_auth_verify (w_oom w (now_at sc)) (sv_auth (fst sc)) name password, tick sc)"

end
