(* ===== verification/Commands.thy ===== *)
theory Commands
  imports Session
begin

text \<open>
  The command handlers of \<^verbatim>\<open>net/commands.c\<close> in the order of the source, the table of commands
  and \<^verbatim>\<open>vc_dispatch\<close>. Signed arithmetic on 64-bit values wraps around, which is what the
  machine does where the C standard leaves it open.
\<close>

type_synonym handler = "world \<Rightarrow> vc_cmd \<Rightarrow> session \<Rightarrow> session option"

section \<open>Connection commands\<close>

definition cmd_ping :: handler where
  "cmd_ping w cmd sc =
     (if 1 < cmd_argc cmd then do { a \<leftarrow> argn cmd 1; s \<leftarrow> arg_bytes a; BULK s sc }
      else SIMPLE ''PONG'' sc)"

text \<open>The loop over the options of HELLO: the first component tells that the handler returns.\<close>

function hello_auth :: "world \<Rightarrow> vc_cmd \<Rightarrow> nat \<Rightarrow> session \<Rightarrow> (bool \<times> session) option" where
  "hello_auth w cmd i sc =
     (if \<not> i + 1 < cmd_argc cmd then Some (False, sc)
      else do {
        a \<leftarrow> argn cmd i;
        if is_word a ''AUTH'' \<and> i + 2 < cmd_argc cmd then do {
          uname \<leftarrow> argn cmd (i + 1);
          upass \<leftarrow> argn cmd (i + 2);
          let (u, sc) = srv_verify w (arg_str uname) (arg_str upass) sc;
          if u = None then do {
            sc \<leftarrow> ERR ''WRONGPASS'' ''Invalid username or password'' sc;
            Some (True, sc)
          }
          else hello_auth w cmd (i + 3) (gen_token w (fst sc, (snd sc)\<lparr>cn_user := u\<rparr>))
        }
        else hello_auth w cmd (i + 1) sc
      })"
  by pat_completeness auto
termination by (relation "measure (\<lambda>(w, cmd, i, sc). cmd_argc cmd - i)") auto

declare hello_auth.simps [simp del]

definition hello_proto :: "vc_cmd \<Rightarrow> i32 option" where
  "hello_proto cmd =
     (if 2 \<le> cmd_argc cmd then do { a \<leftarrow> argn cmd 1; Some (ucast (parse_num (arg_str a))) }
      else Some 2)"

definition cmd_hello :: handler where
  "cmd_hello w cmd sc = do {
     proto \<leftarrow> hello_proto cmd;
     if proto \<noteq> 2 \<and> proto \<noteq> 3 then ERR ''NOPROTO'' ''unsupported protocol version'' sc
     else do {
       (stop, sc) \<leftarrow> hello_auth w cmd 2 sc;
       if stop then Some sc
       else let sc = (fst sc, (snd sc)\<lparr>cn_resp3 := (proto = 3)\<rparr>) in
         reply (resp_write_hello VC_SERVER_VERSION (sv_node_id (fst sc)) (cn_resp3 (snd sc))) sc
     }
   }"

definition cmd_auth :: handler where
  "cmd_auth w cmd sc =
     (if cmd_argc cmd < 2 \<or> 3 < cmd_argc cmd then ERR ''ERR'' ''wrong number of arguments for AUTH'' sc
      else do {
        (uname, upass) \<leftarrow>
          (if cmd_argc cmd = 2 then do {
             a \<leftarrow> argn cmd 1; p \<leftarrow> arg_bytes a; Some (ascii ''default'', p)
           }
           else do {
             a \<leftarrow> argn cmd 1; n \<leftarrow> arg_bytes a;
             a \<leftarrow> argn cmd 2; p \<leftarrow> arg_bytes a; Some (n, p)
           });
        if \<not> db_require_auth (sv_auth (fst sc)) then OK_REPLY sc
        else let (u, sc) = srv_verify w uname upass sc in
          if u = None then ERR ''WRONGPASS'' ''Invalid username or password'' sc
          else OK_REPLY (gen_token w (fst sc, (snd sc)\<lparr>cn_user := u\<rparr>))
      })"

definition cmd_select :: handler where
  "cmd_select w cmd sc =
     (if argc_bad cmd 1 1 then ERR ''ERR'' ''wrong number of arguments'' sc
      else do {
        a \<leftarrow> argn cmd 1;
        if parse_num (arg_str a) \<noteq> 0
        then ERR ''ERR'' ''VoidCache supports only DB 0 (keyspace is global)'' sc
        else OK_REPLY sc
      })"

definition cmd_quit :: handler where
  "cmd_quit w cmd sc = do {
     sc \<leftarrow> OK_REPLY sc;
     Some (fst sc, (snd sc)\<lparr>cn_state := VC_CONN_CLOSING\<rparr>)
   }"

definition cmd_reset :: handler where
  "cmd_reset w cmd sc = SIMPLE ''RESET'' (fst sc, (snd sc)\<lparr>cn_db_idx := 0\<rparr>)"

definition client_info :: "vc_conn \<Rightarrow> bytes" where
  "client_info conn =
     ascii ''id='' @ dec_int (sint (cn_fd conn)) @ CRLF
     @ ascii ''addr='' @ cn_peer_addr conn @ ascii '':'' @ dec_nat (unat (cn_peer_port conn)) @ CRLF
     @ ascii ''cmd=client'' @ CRLF"

definition client_list :: "vc_conn \<Rightarrow> bytes" where
  "client_list conn =
     ascii ''id='' @ dec_int (sint (cn_fd conn)) @ ascii '' addr='' @ cn_peer_addr conn
     @ ascii '':'' @ dec_nat (unat (cn_peer_port conn)) @ ascii '' fd='' @ dec_int (sint (cn_fd conn))
     @ ascii '' name= age=0 idle=0 flags=N ''
     @ ascii ''db=0 sub=0 psub=0 multi=-1 rbs=16384 rbp=0 ''
     @ ascii ''obl=0 oll=0 omem=0 events=r cmd=client resp=2'' @ [10]"

definition cmd_client :: handler where
  "cmd_client w cmd sc =
     (if cmd_argc cmd < 2 then ERR ''ERR'' ''wrong arguments'' sc
      else do {
        sub \<leftarrow> argn cmd 1;
        if is_word sub ''SETNAME'' then OK_REPLY sc
        else if is_word sub ''GETNAME'' then BULK [] sc
        else if is_word sub ''ID'' then INT_REPLY (sint (cn_fd (snd sc))) sc
        else if is_word sub ''NO-EVICT'' then OK_REPLY sc
        else if is_word sub ''NO-TOUCH'' then OK_REPLY sc
        else if is_word sub ''UNPAUSE'' then OK_REPLY sc
        else if is_word sub ''PAUSE'' then OK_REPLY sc
        else if is_word sub ''CACHING'' then OK_REPLY sc
        else if is_word sub ''REPLY'' then OK_REPLY sc
        else if is_word sub ''TRACKING'' then OK_REPLY sc
        else if is_word sub ''INFO'' then BULK (c_str (snd (snprintf 256 (client_info (snd sc))))) sc
        else if is_word sub ''LIST'' then do {
          let (n, buf) = snprintf 512 (client_list (snd sc));
          s \<leftarrow> sub_bytes buf 0 n;
          BULK s sc
        }
        else ERR ''ERR'' ''unknown CLIENT subcommand'' sc
      })"

section \<open>Core key commands\<close>

record set_opts =
  so_ttl :: u32
  so_nx :: bool
  so_xx :: bool

text \<open>Integer division of C rounds towards zero.\<close>

definition ms_to_sec :: "i64 \<Rightarrow> u32" where
  "ms_to_sec v = of_int (sgn (sint v) * (\<bar>sint v\<bar> div 1000))"

function set_options :: "vc_cmd \<Rightarrow> nat \<Rightarrow> set_opts \<Rightarrow> set_opts option" where
  "set_options cmd i opts =
     (if \<not> i < cmd_argc cmd then Some opts
      else do {
        a \<leftarrow> argn cmd i;
        if is_word a ''EX'' \<and> i + 1 < cmd_argc cmd then do {
          v \<leftarrow> argn cmd (i + 1);
          set_options cmd (i + 2) (opts\<lparr>so_ttl := ucast (parse_num (arg_str v))\<rparr>)
        }
        else if is_word a ''PX'' \<and> i + 1 < cmd_argc cmd then do {
          v \<leftarrow> argn cmd (i + 1);
          set_options cmd (i + 2) (opts\<lparr>so_ttl := ms_to_sec (parse_num (arg_str v))\<rparr>)
        }
        else if is_word a ''NX'' then set_options cmd (i + 1) (opts\<lparr>so_nx := True\<rparr>)
        else if is_word a ''XX'' then set_options cmd (i + 1) (opts\<lparr>so_xx := True\<rparr>)
        else set_options cmd (i + 1) opts
      })"
  by pat_completeness auto
termination by (relation "measure (\<lambda>(cmd, i, opts). cmd_argc cmd - i)") auto

declare set_options.simps [simp del]

text \<open>
  The test of NX and XX: look the key up and return with a null reply when the key is there, or
  is not. The first component tells that the handler returns.
\<close>

definition set_test :: "world \<Rightarrow> bool \<Rightarrow> arg \<Rightarrow> session \<Rightarrow> (bool \<times> session) option" where
  "set_test w stop_if_there a sc = do {
     (err, _, _, sc) \<leftarrow> srv_get w a sc;
     if (err = VC_OK) = stop_if_there then do { sc \<leftarrow> NULLREPLY sc; Some (True, sc) }
     else Some (False, sc)
   }"

definition cmd_set :: handler where
  "cmd_set w cmd = guarded VC_ACL_WRITE (\<lambda>sc.
     if cmd_argc cmd < 3 then ERR ''ERR'' ''wrong arguments'' sc
     else do {
       key \<leftarrow> argn cmd 1;
       val \<leftarrow> argn cmd 2;
       opts \<leftarrow> set_options cmd 3 \<lparr>so_ttl = 0, so_nx = False, so_xx = False\<rparr>;
       (stop, sc) \<leftarrow> (if so_nx opts then set_test w True key sc else Some (False, sc));
       if stop then Some sc
       else do {
         (stop, sc) \<leftarrow> (if so_xx opts then set_test w False key sc else Some (False, sc));
         if stop then Some sc
         else do {
           v \<leftarrow> sub_bytes (a_buf val) 0 (if 0 < a_len val then a_len val else 1);
           (err, sc) \<leftarrow> srv_set w key v (so_ttl opts) sc;
           if err \<noteq> VC_OK then ERR ''ERR'' ''storage error'' sc else OK_REPLY sc
         }
       }
     })"

text \<open>Both branches of the test for a typed value send the value as it is.\<close>

definition cmd_get :: handler where
  "cmd_get w cmd = guarded VC_ACL_READ (\<lambda>sc.
     if argc_bad cmd 1 1 then ERR ''ERR'' ''wrong number of arguments'' sc
     else do {
       a \<leftarrow> argn cmd 1;
       (err, p, n, sc) \<leftarrow> srv_get w a sc;
       if err = VC_ERR_NOTFND \<or> err = VC_ERR_EXPIRED then NULLREPLY sc
       else if err \<noteq> VC_OK then ERR ''ERR'' ''get error'' sc
       else do {
         v \<leftarrow> cptr_read (cache_at sc) p n;
         if 4 < n \<and> take 4 v = VC_WIRE_MAGIC then BULK v sc else BULK v sc
       }
     })"

primrec del_keys :: "world \<Rightarrow> arg list \<Rightarrow> int \<Rightarrow> session \<Rightarrow> (int \<times> session) option" where
  "del_keys w [] deleted sc = Some (deleted, sc)"
| "del_keys w (a # as) deleted sc = do {
     (err, sc) \<leftarrow> srv_del w a sc;
     del_keys w as (if err = VC_OK then deleted + 1 else deleted) sc
   }"

definition cmd_del :: handler where
  "cmd_del w cmd = guarded VC_ACL_WRITE (\<lambda>sc.
     if cmd_argc cmd < 2 then ERR ''ERR'' ''wrong arguments'' sc
     else do { (deleted, sc) \<leftarrow> del_keys w (tl (cmd_args cmd)) 0 sc; INT_REPLY deleted sc })"

primrec exist_keys :: "world \<Rightarrow> arg list \<Rightarrow> int \<Rightarrow> session \<Rightarrow> (int \<times> session) option" where
  "exist_keys w [] found sc = Some (found, sc)"
| "exist_keys w (a # as) found sc = do {
     (err, _, _, sc) \<leftarrow> srv_get w a sc;
     exist_keys w as (if err = VC_OK then found + 1 else found) sc
   }"

definition cmd_exists :: handler where
  "cmd_exists w cmd = guarded VC_ACL_READ (\<lambda>sc.
     if cmd_argc cmd < 2 then ERR ''ERR'' ''wrong arguments'' sc
     else do { (found, sc) \<leftarrow> exist_keys w (tl (cmd_args cmd)) 0 sc; INT_REPLY found sc })"

text \<open>EXPIRE and PERSIST set the value again with another lifetime, from a copy.\<close>

definition set_again :: "world \<Rightarrow> arg \<Rightarrow> u32 \<Rightarrow> cptr \<Rightarrow> nat \<Rightarrow> session \<Rightarrow> session option" where
  "set_again w a ttl p n sc =
     (let (failed, sc) = srv_malloc w n sc in
      if failed then ERR ''ERR'' ''OOM'' sc
      else do {
        vcopy \<leftarrow> cptr_read (cache_at sc) p n;
        (_, sc) \<leftarrow> srv_set w a vcopy ttl sc;
        INT_REPLY 1 sc
      })"

definition cmd_expire :: handler where
  "cmd_expire w cmd = guarded VC_ACL_WRITE (\<lambda>sc.
     if argc_bad cmd 2 2 then ERR ''ERR'' ''wrong number of arguments'' sc
     else do {
       a \<leftarrow> argn cmd 1;
       (err, p, n, sc) \<leftarrow> srv_get w a sc;
       if err \<noteq> VC_OK then INT_REPLY 0 sc
       else do {
         t \<leftarrow> argn cmd 2;
         set_again w a (ucast (parse_num (arg_str t))) p n sc
       }
     })"

definition cmd_ttl :: handler where
  "cmd_ttl w cmd = guarded VC_ACL_READ (\<lambda>sc.
     if argc_bad cmd 1 1 then ERR ''ERR'' ''wrong number of arguments'' sc
     else do {
       a \<leftarrow> argn cmd 1;
       (err, _, _, sc) \<leftarrow> srv_get w a sc;
       if err \<noteq> VC_OK then INT_REPLY (- 2) sc else INT_REPLY (- 1) sc
     })"

definition cmd_pttl :: handler where
  "cmd_pttl w cmd sc = cmd_ttl w cmd sc"

definition cmd_persist :: handler where
  "cmd_persist w cmd = guarded VC_ACL_WRITE (\<lambda>sc.
     if argc_bad cmd 1 1 then ERR ''ERR'' ''wrong number of arguments'' sc
     else do {
       a \<leftarrow> argn cmd 1;
       (err, p, n, sc) \<leftarrow> srv_get w a sc;
       if err \<noteq> VC_OK then INT_REPLY 0 sc else set_again w a 0 p n sc
     })"

definition has_typed :: "bytes \<Rightarrow> bool" where
  "has_typed v \<longleftrightarrow> 4 < length v \<and> take 4 v = VC_WIRE_MAGIC"

definition type_name :: "u8 \<Rightarrow> string option" where
  "type_name t =
     (if t = VC_TYPE_INT64 then Some ''integer''
      else if t = VC_TYPE_FLOAT64 then Some ''float''
      else if t = VC_TYPE_BOOL then Some ''boolean''
      else if t = VC_TYPE_JSON then Some ''json''
      else if t = VC_TYPE_LIST then Some ''list''
      else if t = VC_TYPE_HASH then Some ''hash''
      else if t = VC_TYPE_BINARY then Some ''binary''
      else None)"

definition cmd_type :: handler where
  "cmd_type w cmd = guarded VC_ACL_READ (\<lambda>sc.
     if argc_bad cmd 1 1 then ERR ''ERR'' ''wrong number of arguments'' sc
     else do {
       a \<leftarrow> argn cmd 1;
       (err, p, n, sc) \<leftarrow> srv_get w a sc;
       if err \<noteq> VC_OK then SIMPLE ''none'' sc
       else do {
         v \<leftarrow> cptr_read (cache_at sc) p n;
         if has_typed v then
           (case type_name (v ! 4) of Some s \<Rightarrow> SIMPLE s sc | None \<Rightarrow> SIMPLE ''string'' sc)
         else SIMPLE ''string'' sc
       }
     })"

primrec mget_keys :: "world \<Rightarrow> arg list \<Rightarrow> session \<Rightarrow> session option" where
  "mget_keys w [] sc = Some sc"
| "mget_keys w (a # as) sc = do {
     (err, p, n, sc) \<leftarrow> srv_get w a sc;
     sc \<leftarrow> (if err = VC_OK then do { v \<leftarrow> cptr_read (cache_at sc) p n; BULK v sc }
            else NULLREPLY sc);
     mget_keys w as sc
   }"

definition cmd_mget :: handler where
  "cmd_mget w cmd = guarded VC_ACL_READ (\<lambda>sc.
     if cmd_argc cmd < 2 then ERR ''ERR'' ''wrong arguments'' sc
     else do {
       sc \<leftarrow> ARRAY (int (cmd_argc cmd) - 1) sc;
       mget_keys w (tl (cmd_args cmd)) sc
     })"

fun mset_pairs :: "world \<Rightarrow> arg list \<Rightarrow> session \<Rightarrow> session option" where
  "mset_pairs w [] sc = Some sc"
| "mset_pairs w [k] sc = None"
| "mset_pairs w (k # v # as) sc = do {
     val \<leftarrow> arg_bytes v;
     (_, sc) \<leftarrow> srv_set w k val 0 sc;
     mset_pairs w as sc
   }"

definition cmd_mset :: handler where
  "cmd_mset w cmd = guarded VC_ACL_WRITE (\<lambda>sc.
     if cmd_argc cmd < 3 \<or> cmd_argc cmd mod 2 = 0 then ERR ''ERR'' ''wrong number of arguments'' sc
     else do { sc \<leftarrow> mset_pairs w (tl (cmd_args cmd)) sc; OK_REPLY sc })"

section \<open>Counters\<close>

text \<open>The number a stored value stands for: eight bytes with a type header, or decimal text.\<close>

definition stored_int :: "bytes \<Rightarrow> i64" where
  "stored_int v =
     (if length v = 4 + 1 + 8 \<and> take 4 v = VC_WIRE_MAGIC \<and> v ! 4 = VC_TYPE_INT64
      then of_le (take 8 (drop 5 v))
      else let l = (if length v < 31 then length v else 31) in parse_num (c_str (take l v)))"

definition int_payload :: "i64 \<Rightarrow> bytes" where
  "int_payload cur = VC_WIRE_MAGIC @ [VC_TYPE_INT64] @ le_bytes 8 cur"

definition cmd_incrby :: "i64 \<Rightarrow> handler" where
  "cmd_incrby delta w cmd = guarded VC_ACL_WRITE (\<lambda>sc.
     if argc_bad cmd 1 2 then ERR ''ERR'' ''wrong number of arguments'' sc
     else do {
       delta \<leftarrow> (if cmd_argc cmd = 3 then do { a \<leftarrow> argn cmd 2; Some (parse_num (arg_str a)) }
                else Some delta);
       a \<leftarrow> argn cmd 1;
       (err, p, n, sc) \<leftarrow> srv_get w a sc;
       cur \<leftarrow> (if err = VC_OK then do { v \<leftarrow> cptr_read (cache_at sc) p n; Some (stored_int v) }
              else Some 0);
       let cur = cur + delta;
       sc \<leftarrow> reply (resp_write_vc_int64 cur) sc;
       (_, sc) \<leftarrow> srv_set w a (int_payload cur) 0 sc;
       INT_REPLY (sint cur) sc
     })"

definition cmd_incr :: handler where
  "cmd_incr w cmd sc = cmd_incrby 1 w cmd sc"

definition cmd_decr :: handler where
  "cmd_decr w cmd sc = cmd_incrby (- 1) w cmd sc"

definition by_arg :: "vc_cmd \<Rightarrow> i64 option" where
  "by_arg cmd = (if cmd_argc cmd = 3 then do { a \<leftarrow> argn cmd 2; Some (parse_num (arg_str a)) } else Some 0)"

definition cmd_incrby2 :: handler where
  "cmd_incrby2 w cmd sc = do { d \<leftarrow> by_arg cmd; cmd_incrby d w cmd sc }"

definition cmd_decrby :: handler where
  "cmd_decrby w cmd sc = do { d \<leftarrow> by_arg cmd; cmd_incrby (- d) w cmd sc }"

definition cmd_append :: handler where
  "cmd_append w cmd = guarded VC_ACL_WRITE (\<lambda>sc.
     if argc_bad cmd 2 2 then ERR ''ERR'' ''wrong number of arguments'' sc
     else do {
       a \<leftarrow> argn cmd 1;
       x \<leftarrow> argn cmd 2;
       (err, p, n, sc) \<leftarrow> srv_get w a sc;
       if err = VC_OK then do {
         let (failed, sc) = srv_malloc w (n + a_len x) sc;
         if failed then ERR ''ERR'' ''OOM'' sc
         else do {
           v \<leftarrow> cptr_read (cache_at sc) p n;
           added \<leftarrow> arg_bytes x;
           (_, sc) \<leftarrow> srv_set w a (v @ added) 0 sc;
           INT_REPLY (int (n + a_len x)) sc
         }
       }
       else do {
         added \<leftarrow> arg_bytes x;
         (_, sc) \<leftarrow> srv_set w a added 0 sc;
         INT_REPLY (int (a_len x)) sc
       }
     })"

definition cmd_rename :: handler where
  "cmd_rename w cmd = guarded VC_ACL_WRITE (\<lambda>sc.
     if argc_bad cmd 2 2 then ERR ''ERR'' ''wrong number of arguments'' sc
     else do {
       a \<leftarrow> argn cmd 1;
       a2 \<leftarrow> argn cmd 2;
       (err, p, n, sc) \<leftarrow> srv_get w a sc;
       if err \<noteq> VC_OK then ERR ''ERR'' ''no such key'' sc
       else do {
         let (failed, sc) = srv_malloc w n sc;
         if failed then ERR ''ERR'' ''OOM'' sc
         else do {
           vcopy \<leftarrow> cptr_read (cache_at sc) p n;
           (_, sc) \<leftarrow> srv_del w a sc;
           (_, sc) \<leftarrow> srv_set w a2 vcopy 0 sc;
           OK_REPLY sc
         }
       }
     })"

section \<open>Listing keys\<close>

definition cmd_dbsize :: handler where
  "cmd_dbsize w cmd = guarded VC_ACL_READ (\<lambda>sc.
     INT_REPLY (sint (gs_total_keys (vc_stats (cache_at sc)))) sc)"

text \<open>
  A collected key: the copy \<^verbatim>\<open>strndup\<close> made, absent when it failed, and the recorded length.
\<close>

type_synonym found_key = "bytes option \<times> nat"

definition dup_key :: "world \<Rightarrow> cmem \<Rightarrow> vc_entry \<Rightarrow> nat \<Rightarrow> found_key option" where
  "dup_key w m e t = do {
     p \<leftarrow> entry_key e;
     k \<leftarrow> ptr_read m e p (klen e);
     Some (if w_oom w t then None else Some (strndup k (klen e)), klen e)
   }"

abbreviation (input) MAX_KEYS :: nat where "MAX_KEYS \<equiv> 65536"

text \<open>The loop over a table; \<open>t\<close> is the tick of the next call of \<^verbatim>\<open>strndup\<close>.\<close>

primrec keys_table :: "world \<Rightarrow> cmem \<Rightarrow> vc_entry list \<Rightarrow> nat \<Rightarrow> found_key list \<Rightarrow> (nat \<times> found_key list) option" where
  "keys_table w m [] t ks = Some (t, ks)"
| "keys_table w m (e # es) t ks =
     (if \<not> length ks < MAX_KEYS then Some (t, ks)
      else if e_state e \<noteq> LIVE then keys_table w m es t ks
      else do { k \<leftarrow> dup_key w m e t; keys_table w m es (Suc t) (ks @ [k]) })"

primrec keys_shards :: "world \<Rightarrow> cmem \<Rightarrow> vc_shard list \<Rightarrow> nat \<Rightarrow> found_key list \<Rightarrow> (nat \<times> found_key list) option" where
  "keys_shards w m [] t ks = Some (t, ks)"
| "keys_shards w m (s # ss) t ks =
     (if \<not> length ks < MAX_KEYS then Some (t, ks)
      else do {
        (t, ks) \<leftarrow> keys_table w m (take (unat (s_cap s)) (s_table s)) t ks;
        keys_shards w m ss t ks
      })"

text \<open>Sending the collected keys reads the recorded length from each copy.\<close>

primrec send_keys :: "found_key list \<Rightarrow> session \<Rightarrow> session option" where
  "send_keys [] sc = Some sc"
| "send_keys (k # ks) sc = do {
     buf \<leftarrow> fst k;
     s \<leftarrow> sub_bytes buf 0 (snd k);
     sc \<leftarrow> BULK s sc;
     send_keys ks sc
   }"

definition with_tick :: "nat \<Rightarrow> session \<Rightarrow> session" where
  "with_tick t sc = ((fst sc)\<lparr>sv_tick := t\<rparr>, snd sc)"

definition cmd_keys :: handler where
  "cmd_keys w cmd = guarded VC_ACL_READ (\<lambda>sc.
     if argc_bad cmd 1 1 then ERR ''ERR'' ''wrong number of arguments'' sc
     else do {
       let (f1, sc) = srv_malloc w (MAX_KEYS * 8) sc;
       let (f2, sc) = srv_malloc w (MAX_KEYS * 8) sc;
       if f1 \<or> f2 then ERR ''ERR'' ''OOM'' sc
       else do {
         (t, ks) \<leftarrow> keys_shards w (c_mem (cache_at sc)) (c_shards (cache_at sc)) (now_at sc) [];
         let sc = with_tick t sc;
         sc \<leftarrow> ARRAY (int (length ks)) sc;
         send_keys ks sc
       }
     })"

end
