(* ===== verification/CommandTable.thy ===== *)
theory CommandTable
  imports Commands
begin

text \<open>
  The second half of \<^verbatim>\<open>net/commands.c\<close>: SCAN, the administrative and the extended commands, the
  stubs that client libraries ask for, the table of commands and \<^verbatim>\<open>vc_dispatch\<close>.
\<close>

section \<open>SCAN\<close>

text \<open>
  The loop over the slots of one shard. \<open>cnt\<close> is the requested number as an \<^verbatim>\<open>int\<close>, \<open>room\<close> the
  number of elements of the two arrays, 0 when an allocation failed: a write past it is \<open>None\<close>.
\<close>

function scan_slots ::
  "world \<Rightarrow> cmem \<Rightarrow> vc_shard \<Rightarrow> int \<Rightarrow> nat \<Rightarrow> nat \<Rightarrow> nat \<Rightarrow> found_key list \<Rightarrow> (nat \<times> nat \<times> found_key list) option" where
  "scan_slots w m s cnt room slot t ks =
     (if \<not> (slot < unat (s_cap s) \<and> int (length ks) < cnt) then Some (slot, t, ks)
      else do {
        e \<leftarrow> nth_opt (s_table s) slot;
        if e_state e \<noteq> LIVE then scan_slots w m s cnt room (Suc slot) t ks
        else do {
          k \<leftarrow> dup_key w m e t;
          if \<not> length ks < room then None
          else scan_slots w m s cnt room (Suc slot) (Suc t) (ks @ [k])
        }
      })"
  by pat_completeness auto
termination by (relation "measure (\<lambda>(w, m, s, cnt, room, slot, t, ks). unat (s_cap s) - slot)") auto

declare scan_slots.simps [simp del]

text \<open>The loop over the shards from \<open>sh\<close> on; the first result is the next cursor.\<close>

primrec scan_shards ::
  "world \<Rightarrow> cmem \<Rightarrow> vc_shard list \<Rightarrow> int \<Rightarrow> nat \<Rightarrow> nat \<Rightarrow> nat \<Rightarrow> nat \<Rightarrow> found_key list \<Rightarrow> (int \<times> nat \<times> found_key list) option" where
  "scan_shards w m [] cnt room sh slot t ks = Some (0, t, ks)"
| "scan_shards w m (s # ss) cnt room sh slot t ks =
     (if \<not> int (length ks) < cnt then Some (0, t, ks)
      else do {
        (slot, t, ks) \<leftarrow> scan_slots w m s cnt room slot t ks;
        if unat (s_cap s) \<le> slot then scan_shards w m ss cnt room (Suc sh) 0 t ks
        else Some (int sh * 2 ^ 20 + int slot, t, ks)
      })"

fun scan_count :: "arg list \<Rightarrow> i64 \<Rightarrow> i64" where
  "scan_count (a # b # as) num =
     scan_count (b # as) (if is_word a ''COUNT'' then parse_num (arg_str b) else num)"
| "scan_count _ num = num"

text \<open>The elements of an array of pointers obtained with \<^verbatim>\<open>malloc\<close>.\<close>

definition ptr_array :: "world \<Rightarrow> i64 \<Rightarrow> session \<Rightarrow> nat \<times> session" where
  "ptr_array w num sc =
     (let n = unat (num * 8); (failed, sc) = srv_malloc w n sc in (if failed then 0 else n div 8, sc))"

definition cmd_scan :: handler where
  "cmd_scan w cmd = guarded VC_ACL_READ (\<lambda>sc. do {
     cursor \<leftarrow> (if 2 \<le> cmd_argc cmd then do { a \<leftarrow> argn cmd 1; Some (parse_num (arg_str a)) } else Some 0);
     let num = scan_count (drop 2 (cmd_args cmd)) 10;
     let shard = nat ((sint cursor div 2 ^ 20) mod 64);
     let slot = nat (sint cursor mod 2 ^ 20);
     let (r1, sc) = ptr_array w num sc;
     let (r2, sc) = ptr_array w num sc;
     let cnt = sint (ucast num :: i32);
     (next, t, ks) \<leftarrow> scan_shards w (c_mem (cache_at sc)) (drop shard (c_shards (cache_at sc)))
                          cnt (min r1 r2) shard slot (now_at sc) [];
     let sc = with_tick t sc;
     sc \<leftarrow> ARRAY 2 sc;
     sc \<leftarrow> BULK (c_str (snd (snprintf 32 (dec_int next)))) sc;
     sc \<leftarrow> ARRAY (int (length ks)) sc;
     send_keys ks sc
   })"

section \<open>Administration\<close>

definition cmd_flushdb :: handler where
  "cmd_flushdb w cmd = guarded VC_ACL_ADMIN (\<lambda>sc. do {
     c \<leftarrow> vc_flush (cache_at sc);
     OK_REPLY (with_cache c sc)
   })"

definition line :: "string \<Rightarrow> bytes" where
  "line s = ascii s @ CRLF"

definition field :: "string \<Rightarrow> bytes \<Rightarrow> bytes" where
  "field name v = ascii name @ v @ CRLF"

definition dec_u64 :: "u64 \<Rightarrow> bytes" where
  "dec_u64 v = dec_nat (unat v)"

definition info_text :: "vcserver \<Rightarrow> bytes" where
  "info_text srv =
     (let st = vc_stats (sv_cache srv);
          mode = (if cfg_cluster_enabled (sv_cfg srv) then ascii ''cluster'' else ascii ''standalone'')
      in line ''# Server''
         @ field ''redis_version:'' VC_SERVER_VERSION
         @ field ''redis_mode:'' mode
         @ line ''server:voidcache''
         @ field ''version:'' VC_SERVER_VERSION
         @ field ''node_id:'' (sv_node_id srv)
         @ field ''mode:'' mode
         @ line ''os:Linux''
         @ line ''arch_bits:64''
         @ CRLF
         @ line ''# Clients''
         @ field ''connected_clients:'' (dec_u64 (sv_total_conns srv))
         @ field ''total_connections_received:'' (dec_u64 (sv_total_conns srv))
         @ CRLF
         @ line ''# Stats''
         @ field ''total_commands_processed:'' (dec_u64 (sv_total_commands srv))
         @ field ''keyspace_hits:'' (dec_u64 (gs_hits st))
         @ field ''keyspace_misses:'' (dec_u64 (gs_misses st))
         @ field ''evicted_keys:'' (dec_u64 (gs_evictions st))
         @ field ''expired_keys:'' (dec_u64 (gs_expirations st))
         @ CRLF
         @ line ''# Keyspace''
         @ field ''db0:keys='' (dec_u64 (gs_total_keys st))
         @ CRLF
         @ line ''# Replication''
         @ line ''role:master''
         @ line ''connected_slaves:0''
         @ line ''master_failover_state:no-failover''
         @ line ''master_replid:0000000000000000000000000000000000000000''
         @ line ''master_repl_offset:0''
         @ CRLF
         @ line ''# Persistence''
         @ line ''loading:0''
         @ line ''rdb_changes_since_last_save:0''
         @ line ''rdb_last_bgsave_status:ok''
         @ line ''aof_enabled:0''
         @ CRLF
         @ line ''# CPU''
         @ line ''used_cpu_sys:0''
         @ line ''used_cpu_user:0''
         @ CRLF
         @ line ''# Memory''
         @ field ''used_memory:'' (dec_u64 (gs_memory_bytes st))
         @ field ''maxmemory:'' (dec_nat (c_max_memory (sv_cache srv))))"

definition cmd_info :: handler where
  "cmd_info w cmd = guarded VC_ACL_READ (\<lambda>sc. do {
     let (n, info) = snprintf 4096 (info_text (fst sc));
     s \<leftarrow> sub_bytes info 0 n;
     BULK s sc
   })"

definition config_entries :: "vcserver \<Rightarrow> (bytes \<times> bytes) list" where
  "config_entries srv =
     [(ascii ''hz'', ascii ''10''),
      (ascii ''maxmemory'', c_str (snd (snprintf 32 (dec_nat (c_max_memory (sv_cache srv)))))),
      (ascii ''maxmemory-policy'', ascii ''allkeys-lru''),
      (ascii ''save'', []),
      (ascii ''appendonly'', ascii ''no''),
      (ascii ''list-max-ziplist-size'', ascii ''-2''),
      (ascii ''list-compress-depth'', ascii ''0''),
      (ascii ''activerehashing'', ascii ''yes''),
      (ascii ''lazyfree-lazy-eviction'', ascii ''no''),
      (ascii ''latency-tracking'', ascii ''yes''),
      (ascii ''latency-tracking-info-percentiles'', ascii ''50 99 99.9''),
      (ascii ''proto-max-bulk-len'', ascii ''536870912''),
      (ascii ''activedefrag'', ascii ''no''),
      (ascii ''repl-backlog-size'', ascii ''1048576''),
      (ascii ''bind-source-addr'', []),
      (ascii ''socket-mark-id'', ascii ''0'')]"

text \<open>\<^verbatim>\<open>CFGMATCH\<close>: looking at the last character of an empty pattern leaves the string.\<close>

definition cfg_match :: "bytes \<Rightarrow> bytes \<Rightarrow> bool option" where
  "cfg_match pat k =
     (if pat = ascii ''*'' \<or> strcaseeq pat k then Some True
      else if pat = [] then None
      else let n = length pat - 1 in
        Some (last pat = 42 \<and> strcaseeq (take n pat) (take n k)))"

primrec cfg_matches :: "bytes \<Rightarrow> (bytes \<times> bytes) list \<Rightarrow> (bytes \<times> bytes) list option" where
  "cfg_matches pat [] = Some []"
| "cfg_matches pat (e # es) = do {
     b \<leftarrow> cfg_match pat (fst e);
     r \<leftarrow> cfg_matches pat es;
     Some (if b then e # r else r)
   }"

primrec send_pairs :: "(bytes \<times> bytes) list \<Rightarrow> session \<Rightarrow> session option" where
  "send_pairs [] sc = Some sc"
| "send_pairs (e # es) sc = do { sc \<leftarrow> BULK (fst e) sc; sc \<leftarrow> BULK (snd e) sc; send_pairs es sc }"

definition cmd_config :: handler where
  "cmd_config w cmd sc =
     (if cmd_argc cmd < 2 then ERR ''ERR'' ''wrong arguments'' sc
      else do {
        sub \<leftarrow> argn cmd 1;
        if is_word sub ''GET'' \<and> 3 \<le> cmd_argc cmd then do {
          a \<leftarrow> argn cmd 2;
          ms \<leftarrow> cfg_matches (arg_str a) (config_entries (fst sc));
          sc \<leftarrow> ARRAY (int (length ms) * 2) sc;
          send_pairs ms sc
        }
        else if is_word sub ''SET'' then OK_REPLY sc
        else if is_word sub ''RESETSTAT'' then OK_REPLY sc
        else ERR ''ERR'' ''unknown CONFIG subcommand'' sc
      })"

primrec send_nulls :: "nat \<Rightarrow> session \<Rightarrow> session option" where
  "send_nulls 0 sc = Some sc"
| "send_nulls (Suc n) sc = do { sc \<leftarrow> NULLREPLY sc; send_nulls n sc }"

definition cmd_command :: handler where
  "cmd_command w cmd sc =
     (if cmd_argc cmd < 2 then ARRAY 0 sc
      else do {
        sub \<leftarrow> argn cmd 1;
        if is_word sub ''COUNT'' then INT_REPLY 0 sc
        else if is_word sub ''DOCS'' then
          (if cn_resp3 (snd sc) then reply (resp_write_map_header 0) sc else ARRAY 0 sc)
        else if is_word sub ''INFO'' then
          (let n = int (cmd_argc cmd) - 2 in
           if n \<le> 0 then ARRAY 0 sc
           else do { sc \<leftarrow> ARRAY n sc; send_nulls (nat n) sc })
        else ARRAY 0 sc
      })"

definition cmd_debug :: handler where
  "cmd_debug w cmd = guarded VC_ACL_ADMIN OK_REPLY"

section \<open>Extended commands\<close>

definition type_byte :: "arg \<Rightarrow> u8 option" where
  "type_byte a =
     (if is_word a ''int'' then Some VC_TYPE_INT64
      else if is_word a ''float'' then Some VC_TYPE_FLOAT64
      else if is_word a ''bool'' then Some VC_TYPE_BOOL
      else if is_word a ''json'' then Some VC_TYPE_JSON
      else if is_word a ''binary'' then Some VC_TYPE_BINARY
      else if is_word a ''string'' then Some VC_TYPE_STRING
      else None)"

definition vcset_encode :: "world \<Rightarrow> u8 \<Rightarrow> arg \<Rightarrow> writer option" where
  "vcset_encode w t val =
     (if t = VC_TYPE_INT64 then Some (resp_write_vc_int64 (parse_num (arg_str val)))
      else if t = VC_TYPE_FLOAT64 then Some (resp_write_vc_float64 (w_strtod w (arg_str val)))
      else if t = VC_TYPE_BOOL
      then Some (resp_write_vc_bool (is_word val ''true'' \<or> arg_str val = ascii ''1''))
      else do {
        v \<leftarrow> arg_bytes val;
        if t = VC_TYPE_JSON then Some (resp_write_vc_json v) else Some (resp_write_vc_binary v)
      })"

text \<open>
  The bytes between the length line and the line end, in a buffer: \<open>Some None\<close> when there is
  no such part. The subtraction of the line end wraps around below 0.
\<close>

definition wire_payload :: "bytes \<Rightarrow> bytes option option" where
  "wire_payload wire =
     (let wlen = length wire; k = length (takeWhile (\<lambda>b. b \<noteq> 13) wire) in
      if k < wlen \<and> k + 2 < wlen
      then (if wlen - (k + 2) < 2 then None
            else do { p \<leftarrow> sub_bytes wire (k + 2) (wlen - (k + 2) - 2); Some (Some p) })
      else Some None)"

text \<open>Encoding a value in a buffer of its own and storing what the buffer then holds.\<close>

definition vcset_store :: "world \<Rightarrow> u8 \<Rightarrow> arg \<Rightarrow> arg \<Rightarrow> vc_buf \<Rightarrow> session \<Rightarrow> session option" where
  "vcset_store w t key val tb sc = do {
     wr \<leftarrow> vcset_encode w t val;
     (_, tb) \<leftarrow> wr tb;
     payload \<leftarrow> wire_payload (b_data tb);
     (_, sc) \<leftarrow> (case payload of None \<Rightarrow> Some (VC_OK, sc) | Some p \<Rightarrow> srv_set w key p 0 sc);
     OK_REPLY sc
   }"

definition cmd_vcset :: handler where
  "cmd_vcset w cmd = guarded VC_ACL_WRITE (\<lambda>sc.
     if cmd_argc cmd < 4 then ERR ''ERR'' ''Usage: VCSET key type value'' sc
     else do {
       key \<leftarrow> argn cmd 1;
       tname \<leftarrow> argn cmd 2;
       val \<leftarrow> argn cmd 3;
       case type_byte tname of
         None \<Rightarrow> ERR ''ERR'' ''unknown type; use int|float|bool|json|binary|string'' sc
       | Some t \<Rightarrow>
           (let (ok1, ok2, oom) = w_buf w (now_at sc); sc = tick sc in
            case vc_buf_new ok1 ok2 oom (4 + 1 + a_len val + 16) of
              None \<Rightarrow> ERR ''ERR'' ''OOM'' sc
            | Some tb \<Rightarrow> vcset_store w t key val tb sc)
     })"

definition send_typed :: "string \<Rightarrow> writer \<Rightarrow> session \<Rightarrow> session option" where
  "send_typed name value sc = do {
     sc \<leftarrow> BULK (ascii name) sc;
     sc \<leftarrow> BULK (ascii ''value'') sc;
     reply value sc
   }"

text \<open>
  The reply to VCGET for a value found at \<open>p\<close>. The value is read at its recorded length; a
  double and a truth value at theirs, 8 bytes and 1 byte after the header of 5.
\<close>

definition send_value :: "world \<Rightarrow> cptr \<Rightarrow> bytes \<Rightarrow> session \<Rightarrow> session option" where
  "send_value w p v sc = do {
     sc \<leftarrow> reply (resp_write_map_header 2) sc;
     sc \<leftarrow> BULK (ascii ''type'') sc;
     if has_typed v then
       (let t = v ! 4; payload = drop 5 v in
        if t = VC_TYPE_INT64
        then send_typed ''int'' (resp_write_integer (sint (of_le (take 8 payload) :: i64))) sc
        else if t = VC_TYPE_FLOAT64 then do {
          d \<leftarrow> cptr_read (cache_at sc) p 13;
          send_typed ''float'' (resp_write_double (w_fmt_g w) (of_le (drop 5 d))) sc
        }
        else if t = VC_TYPE_BOOL then do {
          d \<leftarrow> cptr_read (cache_at sc) p 6;
          send_typed ''bool'' (resp_write_bool (d ! 5 \<noteq> 0)) sc
        }
        else if t = VC_TYPE_JSON then send_typed ''json'' (resp_write_bulk payload) sc
        else send_typed ''binary'' (resp_write_bulk payload) sc)
     else send_typed ''string'' (resp_write_bulk v) sc
   }"

definition cmd_vcget :: handler where
  "cmd_vcget w cmd = guarded VC_ACL_READ (\<lambda>sc.
     if argc_bad cmd 1 1 then ERR ''ERR'' ''wrong number of arguments'' sc
     else do {
       a \<leftarrow> argn cmd 1;
       (err, p, n, sc) \<leftarrow> srv_get w a sc;
       if err \<noteq> VC_OK then NULLREPLY sc
       else do { v \<leftarrow> cptr_read (cache_at sc) p n; send_value w p v sc }
     })"

text \<open>The quotation mark, which the JSON text of VCINFO is full of, is the byte 34.\<close>

definition json_key :: "string \<Rightarrow> bytes" where
  "json_key s = [34] @ ascii s @ [34] @ ascii '':''"

definition vcinfo_text :: "vcserver \<Rightarrow> bytes" where
  "vcinfo_text srv =
     (let st = vc_stats (sv_cache srv) in
      ascii ''{'' @ json_key ''server'' @ [34] @ ascii ''voidcache'' @ [34] @ ascii '',''
      @ json_key ''version'' @ [34] @ VC_SERVER_VERSION @ [34] @ ascii '',''
      @ json_key ''node_id'' @ [34] @ sv_node_id srv @ [34] @ ascii '',''
      @ json_key ''shards'' @ dec_nat VC_NUM_SHARDS @ ascii '',''
      @ json_key ''max_memory'' @ dec_nat (c_max_memory (sv_cache srv)) @ ascii '',''
      @ json_key ''keys'' @ dec_u64 (gs_total_keys st) @ ascii '',''
      @ json_key ''hits'' @ dec_u64 (gs_hits st) @ ascii '',''
      @ json_key ''misses'' @ dec_u64 (gs_misses st) @ ascii '',''
      @ json_key ''evictions'' @ dec_u64 (gs_evictions st) @ ascii '',''
      @ json_key ''memory_bytes'' @ dec_u64 (gs_memory_bytes st) @ ascii ''}'')"

definition cmd_vcinfo :: handler where
  "cmd_vcinfo w cmd = guarded VC_ACL_READ (\<lambda>sc. do {
     let (n, json) = snprintf 2048 (vcinfo_text (fst sc));
     s \<leftarrow> sub_bytes json 0 n;
     reply (resp_write_vc_json s) sc
   })"

section \<open>CLUSTER\<close>

definition announce_addr :: "vcserver \<Rightarrow> bytes" where
  "announce_addr srv =
     (case cfg_cluster_announce_addr (sv_cfg srv) of Some a \<Rightarrow> a | None \<Rightarrow> ascii ''127.0.0.1'')"

definition cluster_info :: "vcserver \<Rightarrow> bytes" where
  "cluster_info srv =
     field ''cluster_enabled:'' (dec_nat (if cfg_cluster_enabled (sv_cfg srv) then 1 else 0))
     @ line ''cluster_state:ok''
     @ line ''cluster_slots_assigned:16384''
     @ line ''cluster_slots_ok:16384''
     @ line ''cluster_known_nodes:1''
     @ line ''cluster_size:1''"

definition cluster_nodes :: "vcserver \<Rightarrow> bytes" where
  "cluster_nodes srv =
     (let port = (if cfg_cluster_announce_port (sv_cfg srv) \<noteq> 0
                  then cfg_cluster_announce_port (sv_cfg srv) else cfg_port (sv_cfg srv))
      in sv_node_id srv @ ascii '' '' @ announce_addr srv @ ascii '':'' @ dec_nat (unat port)
         @ ascii ''@'' @ dec_nat (unat port + 10000)
         @ ascii '' myself,master - 0 0 1 connected 0-16383'' @ [10])"

definition cmd_cluster :: handler where
  "cmd_cluster w cmd sc =
     (if cmd_argc cmd < 2 then ERR ''ERR'' ''wrong arguments'' sc
      else do {
        sub \<leftarrow> argn cmd 1;
        if is_word sub ''INFO'' then BULK (c_str (snd (snprintf 512 (cluster_info (fst sc))))) sc
        else if is_word sub ''MYID'' then BULK (sv_node_id (fst sc)) sc
        else if is_word sub ''NODES'' then BULK (c_str (snd (snprintf 256 (cluster_nodes (fst sc))))) sc
        else if is_word sub ''SLOTS'' then do {
          sc \<leftarrow> ARRAY 1 sc;
          sc \<leftarrow> ARRAY 3 sc;
          sc \<leftarrow> INT_REPLY 0 sc;
          sc \<leftarrow> INT_REPLY 16383 sc;
          sc \<leftarrow> ARRAY 2 sc;
          sc \<leftarrow> BULK (announce_addr (fst sc)) sc;
          INT_REPLY (uint (cfg_port (sv_cfg (fst sc)))) sc
        }
        else ERR ''ERR'' ''unknown CLUSTER subcommand'' sc
      })"

section \<open>What client libraries ask for\<close>

definition user_name :: "vc_conn \<Rightarrow> bytes" where
  "user_name conn =
     (case cn_user conn of
        Some u \<Rightarrow> if u_username u \<noteq> [] then u_username u else ascii ''default''
      | None \<Rightarrow> ascii ''default'')"

definition cmd_acl :: handler where
  "cmd_acl w cmd sc =
     (if cmd_argc cmd < 2 then ERR ''ERR'' ''wrong arguments'' sc
      else do {
        sub \<leftarrow> argn cmd 1;
        if is_word sub ''WHOAMI'' then BULK (user_name (snd sc)) sc
        else if is_word sub ''CAT'' then do {
          sc \<leftarrow> ARRAY 4 sc;
          sc \<leftarrow> BULK (ascii ''read'') sc;
          sc \<leftarrow> BULK (ascii ''write'') sc;
          sc \<leftarrow> BULK (ascii ''admin'') sc;
          BULK (ascii ''pubsub'') sc
        }
        else if is_word sub ''LIST'' then do {
          sc \<leftarrow> ARRAY 1 sc;
          BULK (c_str (snd (snprintf 128 (ascii ''user '' @ user_name (snd sc) @ ascii '' on ~* &* +@all'')))) sc
        }
        else if is_word sub ''GETUSER'' then NULLREPLY sc
        else if is_word sub ''SETUSER'' \<or> is_word sub ''DELUSER'' \<or> is_word sub ''LOG'' \<or> is_word sub ''RESET''
        then OK_REPLY sc
        else ERR ''ERR'' ''unknown ACL subcommand'' sc
      })"

definition cmd_latency :: handler where
  "cmd_latency w cmd sc =
     (if cmd_argc cmd < 2 then ERR ''ERR'' ''wrong arguments'' sc
      else do {
        sub \<leftarrow> argn cmd 1;
        if is_word sub ''LATEST'' then ARRAY 0 sc
        else if is_word sub ''HISTORY'' then ARRAY 0 sc
        else if is_word sub ''RESET'' then INT_REPLY 0 sc
        else if is_word sub ''GRAPH'' then BULK [] sc
        else ERR ''ERR'' ''unknown LATENCY subcommand'' sc
      })"

definition cmd_slowlog :: handler where
  "cmd_slowlog w cmd sc =
     (if cmd_argc cmd < 2 then ERR ''ERR'' ''wrong arguments'' sc
      else do {
        sub \<leftarrow> argn cmd 1;
        if is_word sub ''GET'' then ARRAY 0 sc
        else if is_word sub ''LEN'' then INT_REPLY 0 sc
        else if is_word sub ''RESET'' then OK_REPLY sc
        else ERR ''ERR'' ''unknown SLOWLOG subcommand'' sc
      })"

text \<open>OBJECT ENCODING sends seven bytes of a literal of six: its end mark as well.\<close>

definition cmd_object :: handler where
  "cmd_object w cmd sc =
     (if cmd_argc cmd < 2 then ERR ''ERR'' ''wrong arguments'' sc
      else do {
        sub \<leftarrow> argn cmd 1;
        if is_word sub ''ENCODING'' then do {
          s \<leftarrow> sub_bytes (ascii ''embstr'' @ [0]) 0 7;
          BULK s sc
        }
        else if is_word sub ''REFCOUNT'' then INT_REPLY 1 sc
        else if is_word sub ''IDLETIME'' then INT_REPLY 0 sc
        else if is_word sub ''FREQ'' then INT_REPLY 0 sc
        else if is_word sub ''HELP'' then ARRAY 0 sc
        else ERR ''ERR'' ''unknown OBJECT subcommand'' sc
      })"

definition cmd_wait :: handler where
  "cmd_wait w cmd sc = INT_REPLY 0 sc"

definition cmd_xlen :: handler where
  "cmd_xlen w cmd sc = ERR ''WRONGTYPE'' ''Operation against a key holding the wrong kind of value'' sc"

definition cmd_srandmember :: handler where
  "cmd_srandmember w cmd sc =
     ERR ''WRONGTYPE'' ''Operation against a key holding the wrong kind of value'' sc"

section \<open>Dispatch\<close>

definition cmd_table :: "(string \<times> handler \<times> u32) list" where
  "cmd_table =
     [(''PING'', cmd_ping, 0),
      (''HELLO'', cmd_hello, 0),
      (''AUTH'', cmd_auth, 0),
      (''SELECT'', cmd_select, 0),
      (''QUIT'', cmd_quit, 0),
      (''CLIENT'', cmd_client, 0),
      (''GET'', cmd_get, VC_ACL_READ),
      (''MGET'', cmd_mget, VC_ACL_READ),
      (''EXISTS'', cmd_exists, VC_ACL_READ),
      (''TTL'', cmd_ttl, VC_ACL_READ),
      (''PTTL'', cmd_pttl, VC_ACL_READ),
      (''TYPE'', cmd_type, VC_ACL_READ),
      (''DBSIZE'', cmd_dbsize, VC_ACL_READ),
      (''KEYS'', cmd_keys, VC_ACL_READ),
      (''SCAN'', cmd_scan, VC_ACL_READ),
      (''INFO'', cmd_info, VC_ACL_READ),
      (''SET'', cmd_set, VC_ACL_WRITE),
      (''MSET'', cmd_mset, VC_ACL_WRITE),
      (''DEL'', cmd_del, VC_ACL_WRITE),
      (''EXPIRE'', cmd_expire, VC_ACL_WRITE),
      (''PERSIST'', cmd_persist, VC_ACL_WRITE),
      (''RENAME'', cmd_rename, VC_ACL_WRITE),
      (''APPEND'', cmd_append, VC_ACL_WRITE),
      (''INCR'', cmd_incr, VC_ACL_WRITE),
      (''DECR'', cmd_decr, VC_ACL_WRITE),
      (''INCRBY'', cmd_incrby2, VC_ACL_WRITE),
      (''DECRBY'', cmd_decrby, VC_ACL_WRITE),
      (''FLUSHDB'', cmd_flushdb, VC_ACL_ADMIN),
      (''FLUSHALL'', cmd_flushdb, VC_ACL_ADMIN),
      (''CONFIG'', cmd_config, VC_ACL_ADMIN),
      (''DEBUG'', cmd_debug, VC_ACL_ADMIN),
      (''COMMAND'', cmd_command, 0),
      (''CLUSTER'', cmd_cluster, 0),
      (''VCSET'', cmd_vcset, VC_ACL_WRITE),
      (''VCGET'', cmd_vcget, VC_ACL_READ),
      (''VCINFO'', cmd_vcinfo, VC_ACL_READ),
      (''RESET'', cmd_reset, 0),
      (''ACL'', cmd_acl, 0),
      (''LATENCY'', cmd_latency, VC_ACL_ADMIN),
      (''SLOWLOG'', cmd_slowlog, VC_ACL_ADMIN),
      (''OBJECT'', cmd_object, VC_ACL_READ),
      (''WAIT'', cmd_wait, 0),
      (''XLEN'', cmd_xlen, VC_ACL_READ),
      (''SRANDMEMBER'', cmd_srandmember, VC_ACL_READ)]"

definition counted :: "session \<Rightarrow> session" where
  "counted = (\<lambda>(srv, conn). (srv\<lparr>sv_total_commands := sv_total_commands srv + 1\<rparr>, conn))"

definition unknown_command :: bytes where
  "unknown_command =
     ascii ''unknown command '' @ [0xE2, 0x80, 0x94] @ ascii '' see https://voidcache.io/commands''"

definition vc_dispatch :: handler where
  "vc_dispatch w cmd sc =
     (if cmd_argc cmd = 0 then Some sc
      else do {
        name \<leftarrow> argn cmd 0;
        case List.find (\<lambda>(n, _, _). is_word name n) cmd_table of
          None \<Rightarrow> reply (resp_write_error (ascii ''ERR'') unknown_command) sc
        | Some (_, fn, acl) \<Rightarrow> do {
            (stop, sc) \<leftarrow> (if acl \<noteq> 0 then need_auth acl sc else Some (False, sc));
            if stop then Some sc
            else do { sc \<leftarrow> fn w cmd sc; Some (counted sc) }
          }
      })"

end
