(* ===== verification/SessionLogic.thy ===== *)
theory SessionLogic
  imports CommandTable
begin

text \<open>
  Reasoning about handlers: \<open>returns P m\<close> says that a computation returns, with a result that
  satisfies \<open>P\<close>; there is one rule for each basic step of a handler. \<open>session_ok\<close> is what the
  server guarantees whenever a handler starts, \<open>replied s\<close> that exactly a reply with text \<open>s\<close> was
  added to the connection.
\<close>

definition returns :: "('a \<Rightarrow> bool) \<Rightarrow> 'a option \<Rightarrow> bool" where
  "returns P m \<longleftrightarrow> (\<exists>x. m = Some x \<and> P x)"

named_theorems returns_intros \<open>rules for the steps of a handler\<close>
named_theorems handler_defs \<open>definitions of the handlers\<close>

lemma returns_Some [simp]: "returns P (Some x) = P x"
  by (simp add: returns_def)

lemma returns_mono: "returns P m \<Longrightarrow> (\<And>x. P x \<Longrightarrow> Q x) \<Longrightarrow> returns Q m"
  by (auto simp: returns_def)

lemma returns_bind: "returns Q m \<Longrightarrow> (\<And>x. Q x \<Longrightarrow> returns P (f x)) \<Longrightarrow> returns P (m \<bind> f)"
  by (auto simp: returns_def)

lemma returns_if [returns_intros]:
  "(b \<Longrightarrow> returns P m) \<Longrightarrow> (\<not> b \<Longrightarrow> returns P n) \<Longrightarrow> returns P (if b then m else n)"
  by simp

lemma returns_bind_Some [simp]: "returns P (Some x \<bind> f) = returns P (f x)"
  by simp

section \<open>Sessions\<close>

definition conn_ok :: "vc_conn \<Rightarrow> bool" where
  "conn_ok conn \<longleftrightarrow> (\<exists>b. cn_wbuf conn = Some b \<and> buf_ok b) \<and> length (cn_peer_addr conn) \<le> 45
     \<and> (\<forall>u. cn_user conn = Some u \<longrightarrow> length (u_username u) \<le> 63)"

definition srv_ok :: "vcserver \<Rightarrow> bool" where
  "srv_ok srv \<longleftrightarrow> cache_ready (sv_cache srv) \<and> length (sv_node_id srv) \<le> 64
     \<and> length (announce_addr srv) \<le> 2 ^ 20
     \<and> (\<forall>u \<in> set (db_users (sv_auth srv)). length (u_username u) \<le> 63)"

definition session_ok :: "session \<Rightarrow> bool" where
  "session_ok sc \<longleftrightarrow> srv_ok (fst sc) \<and> conn_ok (snd sc)"

definition world_ok :: "world \<Rightarrow> bool" where
  "world_ok w \<longleftrightarrow> (\<forall>t c. env_ok (c_mem c) (w_env w t c)) \<and> (\<forall>d. length (w_fmt_g w d) \<le> 32)"

text \<open>A command as the parser makes it from an array.\<close>

definition small_arg :: "arg \<Rightarrow> bool" where
  "small_arg a \<longleftrightarrow> arg_ok a \<and> a_len a \<le> VC_MAX_INLINE_ARG"

definition cmd_ok :: "vc_cmd \<Rightarrow> bool" where
  "cmd_ok cmd \<longleftrightarrow> cmd_argc cmd \<le> VC_MAX_ARGS \<and> (\<forall>a \<in> set (cmd_args cmd). small_arg a)"

lemma small_argn: "cmd_ok cmd \<Longrightarrow> i < cmd_argc cmd \<Longrightarrow> small_arg (cmd_args cmd ! i)"
  by (simp add: cmd_ok_def)

lemma small_arg_bytes:
  assumes "small_arg a"
  obtains s where "arg_bytes a = Some s" "length s = a_len a" "length s \<le> 65536"
  using assms by (auto simp: small_arg_def arg_ok_def arg_bytes_def sub_bytes_def)

lemma returns_argn [returns_intros]:
  assumes "cmd_ok cmd" and "i < cmd_argc cmd"
    and "\<And>a. small_arg a \<Longrightarrow> a = cmd_args cmd ! i \<Longrightarrow> returns P (f a)"
  shows "returns P (argn cmd i \<bind> f)"
  using assms small_argn [of cmd i] by (simp add: argn_def)

lemma returns_arg_bytes [returns_intros]:
  assumes "small_arg a"
    and "\<And>s. arg_bytes a = Some s \<Longrightarrow> length s = a_len a \<Longrightarrow> length s \<le> 65536 \<Longrightarrow> returns P (f s)"
  shows "returns P (arg_bytes a \<bind> f)"
  using assms by (auto elim: small_arg_bytes)

section \<open>Replies\<close>

definition replied :: "bytes \<Rightarrow> session \<Rightarrow> session \<Rightarrow> bool" where
  "replied s sc sc' \<longleftrightarrow> (\<exists>b b' t. cn_wbuf (snd sc) = Some b \<and> buf_ok b'
     \<and> sc' = (fst sc, (snd sc)\<lparr>cn_wbuf := Some b'\<rparr>)
     \<and> b_data b' = b_data b @ t \<and> b_rpos b' = b_rpos b
     \<and> (roomy b (length s) \<longrightarrow> t = s \<and> b_oom b' = []))"

lemma replied_fst: "replied s sc sc' \<Longrightarrow> fst sc' = fst sc"
  by (auto simp: replied_def)

lemma replied_keeps:
  assumes "replied s sc sc'"
  shows "fst sc' = fst sc" "cn_user (snd sc') = cn_user (snd sc)" "cn_resp3 (snd sc') = cn_resp3 (snd sc)"
    "cn_state (snd sc') = cn_state (snd sc)" "cache_at sc' = cache_at sc" "now_at sc' = now_at sc"
  using assms by (auto simp: replied_def cache_at_def now_at_def)

lemma replied_ok: "replied s sc sc' \<Longrightarrow> session_ok sc \<Longrightarrow> session_ok sc'"
  by (auto simp: replied_def session_ok_def conn_ok_def)

lemma replied_trans:
  assumes "replied s1 sc sc1" and "replied s2 sc1 sc2"
  shows "replied (s1 @ s2) sc sc2"
proof -
  obtain b b1 t1 where 1: "cn_wbuf (snd sc) = Some b" "buf_ok b1"
    "sc1 = (fst sc, (snd sc)\<lparr>cn_wbuf := Some b1\<rparr>)" "b_data b1 = b_data b @ t1" "b_rpos b1 = b_rpos b"
    "roomy b (length s1) \<longrightarrow> t1 = s1 \<and> b_oom b1 = []"
    using assms(1) by (auto simp: replied_def)
  obtain b2 t2 where 2: "buf_ok b2" "sc2 = (fst sc, (snd sc)\<lparr>cn_wbuf := Some b2\<rparr>)"
    "b_data b2 = b_data b1 @ t2" "b_rpos b2 = b_rpos b1" "roomy b1 (length s2) \<longrightarrow> t2 = s2 \<and> b_oom b2 = []"
    using assms(2) 1(3) by (auto simp: replied_def)
  have "roomy b (length (s1 @ s2)) \<longrightarrow> t1 @ t2 = s1 @ s2 \<and> b_oom b2 = []"
  proof
    assume r: "roomy b (length (s1 @ s2))"
    then have "roomy b (length s1)" by (rule roomy_mono) simp
    then have "t1 = s1" "b_oom b1 = []" using 1(6) by simp_all
    moreover have "roomy b1 (length s2)" using r 1(4) \<open>t1 = s1\<close> \<open>b_oom b1 = []\<close> by (simp add: roomy_def)
    ultimately show "t1 @ t2 = s1 @ s2 \<and> b_oom b2 = []" using 2(5) by simp
  qed
  then show ?thesis using 1 2 by (auto simp: replied_def)
qed

lemma reply_replied:
  assumes "conn_ok (snd sc)" and "emits wr s"
  shows "\<exists>sc'. reply wr sc = Some sc' \<and> replied s sc sc'"
proof -
  obtain b where b: "cn_wbuf (snd sc) = Some b" "buf_ok b" using assms(1) by (auto simp: conn_ok_def)
  obtain ok b' t where "wr b = Some (ok, b')" "buf_ok b'" "b_data b' = b_data b @ t" "b_rpos b' = b_rpos b"
    "roomy b (length s) \<Longrightarrow> ok \<and> b_oom b' = [] \<and> t = s"
    using emitsD [OF assms(2) b(2)] by metis
  then show ?thesis using b by (cases sc) (auto simp: reply_def replied_def)
qed

text \<open>The rules for a reply, at the end of a handler and before another step.\<close>

lemma returns_reply:
  assumes "session_ok sc" and "emits wr s" and "\<And>sc'. session_ok sc' \<Longrightarrow> replied s sc sc' \<Longrightarrow> P sc'"
  shows "returns P (reply wr sc)"
  using assms reply_replied [of sc wr s] replied_ok [of s sc] by (auto simp: session_ok_def returns_def)

lemma returns_reply_bind:
  assumes "session_ok sc" and "emits wr s"
    and "\<And>sc'. session_ok sc' \<Longrightarrow> replied s sc sc' \<Longrightarrow> returns P (f sc')"
  shows "returns P (reply wr sc \<bind> f)"
  using assms reply_replied [of sc wr s] replied_ok [of s sc] by (auto simp: session_ok_def returns_def)

definition err_text :: "string \<Rightarrow> string \<Rightarrow> bytes" where
  "err_text code m = error_text (ascii code) (ascii m)"

definition simple_text :: "string \<Rightarrow> bytes" where
  "simple_text s = ascii ''+'' @ ascii s @ CRLF"

abbreviation (input) ok_text :: bytes where
  "ok_text \<equiv> ascii ''+OK'' @ CRLF"

lemma emits_err: "length code + length m < 252 \<Longrightarrow> emits (resp_write_error (ascii code) (ascii m)) (err_text code m)"
  by (simp add: err_text_def emits_error)

lemma emits_simple_text: "length s < 253 \<Longrightarrow> emits (resp_write_simple (ascii s)) (simple_text s)"
  unfolding simple_text_def by (rule emits_simple) simp

lemmas returns_replies [returns_intros] =
  returns_reply [OF _ emits_err, folded ERR_def]
  returns_reply_bind [OF _ emits_err, folded ERR_def]
  returns_reply [OF _ emits_ok, folded OK_REPLY_def]
  returns_reply_bind [OF _ emits_ok, folded OK_REPLY_def]
  returns_reply [OF _ emits_integer, folded INT_REPLY_def]
  returns_reply_bind [OF _ emits_integer, folded INT_REPLY_def]
  returns_reply [OF _ emits_bulk, folded BULK_def]
  returns_reply_bind [OF _ emits_bulk, folded BULK_def]
  returns_reply [OF _ emits_array_header, folded ARRAY_def]
  returns_reply_bind [OF _ emits_array_header, folded ARRAY_def]
  returns_reply [OF _ emits_simple_text, folded SIMPLE_def]
  returns_reply_bind [OF _ emits_simple_text, folded SIMPLE_def]

lemma returns_null [returns_intros]:
  assumes "session_ok sc" and "\<And>sc'. session_ok sc' \<Longrightarrow> replied (null_text (cn_resp3 (snd sc))) sc sc' \<Longrightarrow> P sc'"
  shows "returns P (NULLREPLY sc)"
  unfolding NULLREPLY_def using assms by (rule returns_reply [OF _ emits_null_compat])

lemma returns_null_bind [returns_intros]:
  assumes "session_ok sc"
    and "\<And>sc'. session_ok sc' \<Longrightarrow> replied (null_text (cn_resp3 (snd sc))) sc sc' \<Longrightarrow> returns P (f sc')"
  shows "returns P (NULLREPLY sc \<bind> f)"
  unfolding NULLREPLY_def using assms by (rule returns_reply_bind [OF _ emits_null_compat])

section \<open>Calls\<close>

lemma at_simps [simp]:
  "cache_at (tick sc) = cache_at sc" "snd (tick sc) = snd sc" "sv_auth (fst (tick sc)) = sv_auth (fst sc)"
  "cache_at (with_cache c sc) = c" "snd (with_cache c sc) = snd sc"
  "sv_auth (fst (with_cache c sc)) = sv_auth (fst sc)"
  "cache_at (with_tick t sc) = cache_at sc" "snd (with_tick t sc) = snd sc"
  by (simp_all add: cache_at_def tick_def with_cache_def with_tick_def split: prod.splits)

lemma cache_at_pair [simp]: "cache_at (fst sc, conn) = cache_at sc" "now_at (fst sc, conn) = now_at sc"
  by (simp_all add: cache_at_def now_at_def)

lemma announce_addr_cong: "sv_cfg srv' = sv_cfg srv \<Longrightarrow> announce_addr srv' = announce_addr srv"
  by (simp add: announce_addr_def)

lemma session_ok_tick [simp]: "session_ok (tick sc) = session_ok sc" "session_ok (with_tick t sc) = session_ok sc"
  by (simp_all add: session_ok_def srv_ok_def tick_def with_tick_def announce_addr_def split: prod.splits)

lemma session_ok_cache: "session_ok sc \<Longrightarrow> cache_ready c \<Longrightarrow> session_ok (with_cache c sc)"
  by (cases sc) (simp add: session_ok_def srv_ok_def with_cache_def announce_addr_def)

lemma session_cache_ready: "session_ok sc \<Longrightarrow> cache_ready (cache_at sc)"
  by (simp add: session_ok_def srv_ok_def cache_at_def)

definition readable :: "vc_cache \<Rightarrow> cptr \<Rightarrow> nat \<Rightarrow> bool" where
  "readable c p n \<longleftrightarrow> (\<exists>v. cptr_read c p n = Some v \<and> length v = n)"

lemma returns_cptr_read [returns_intros]:
  assumes "readable c p n"
    and "\<And>v. length v = n \<Longrightarrow> cptr_read c p n = Some v \<Longrightarrow> returns P (f v)"
  shows "returns P (cptr_read c p n \<bind> f)"
  using assms by (auto simp: readable_def)

lemma returns_get [returns_intros]:
  assumes "session_ok sc" and "small_arg a"
    and "\<And>err p n c. session_ok (with_cache c sc) \<Longrightarrow> err \<in> {VC_OK, VC_ERR_NOTFND} \<Longrightarrow>
      (err = VC_OK \<Longrightarrow> n \<le> 65535 \<and> readable c p n) \<Longrightarrow>
      srv_get w a sc = Some (err, p, n, with_cache c sc) \<Longrightarrow> returns P (f (err, p, n, with_cache c sc))"
  shows "returns P (srv_get w a sc \<bind> f)"
proof -
  obtain key where k: "arg_bytes a = Some key" "length key \<le> 65536"
    using assms(2) by (auto elim: small_arg_bytes)
  then obtain err p n c where g: "vc_get (cache_env w sc) (cache_at sc) (Some key) = Some (err, p, n, c)"
    "cache_ready c" "err = VC_ERR_NOTFND \<or> err = VC_OK \<and> n \<le> 65535 \<and> readable c p n"
    using vc_get_safe [OF session_cache_ready [OF assms(1)], of key "cache_env w sc"]
    by (auto simp: readable_def)
  have "returns P (f (err, p, n, with_cache c sc))"
    using g(1,3) k by (intro assms(3) session_ok_cache [OF assms(1) g(2)]) (auto simp: srv_get_def)
  then show ?thesis using k g(1) by (simp add: srv_get_def)
qed

lemma returns_set [returns_intros]:
  assumes "session_ok sc" and "world_ok w" and "small_arg a" and "length val \<le> 2 ^ 24"
    and "\<And>err c. session_ok (with_cache c sc) \<Longrightarrow>
      srv_set w a val ttl sc = Some (err, with_cache c sc) \<Longrightarrow> returns P (f (err, with_cache c sc))"
  shows "returns P (srv_set w a val ttl sc \<bind> f)"
proof -
  obtain key where k: "arg_bytes a = Some key" "length key \<le> 65536"
    using assms(3) by (auto elim: small_arg_bytes)
  have "env_ok (c_mem (cache_at sc)) (cache_env w sc)"
    using assms(2) by (simp add: world_ok_def cache_env_def)
  then obtain err c where g: "vc_set (cache_env w sc) (cache_at sc) (Some key) (Some val) ttl = Some (err, c)"
    "cache_ready c"
    using vc_set_safe [OF session_cache_ready [OF assms(1)], of "cache_env w sc" key val ttl] k(2) assms(4) by auto
  then show ?thesis using k(1) assms(5) session_ok_cache [OF assms(1) g(2)] by (simp add: srv_set_def)
qed

lemma returns_del [returns_intros]:
  assumes "session_ok sc" and "small_arg a"
    and "\<And>err c. session_ok (with_cache c sc) \<Longrightarrow>
      srv_del w a sc = Some (err, with_cache c sc) \<Longrightarrow> returns P (f (err, with_cache c sc))"
  shows "returns P (srv_del w a sc \<bind> f)"
proof -
  obtain key where k: "arg_bytes a = Some key" "length key \<le> 65536"
    using assms(2) by (auto elim: small_arg_bytes)
  then obtain err c where g: "vc_del (cache_env w sc) (cache_at sc) (Some key) = Some (err, c)" "cache_ready c"
    using vc_del_safe [OF session_cache_ready [OF assms(1)], of key "cache_env w sc"] by auto
  then show ?thesis using k(1) assms(3) session_ok_cache [OF assms(1) g(2)] by (simp add: srv_del_def)
qed

lemma returns_flush [returns_intros]:
  assumes "session_ok sc" and "\<And>c. session_ok (with_cache c sc) \<Longrightarrow> returns P (f c)"
  shows "returns P (vc_flush (cache_at sc) \<bind> f)"
  using vc_flush_safe [OF session_cache_ready [OF assms(1)]] assms(2) session_ok_cache [OF assms(1)] by auto

lemma session_ok_conn [simp]:
  "session_ok (srv, conn\<lparr>cn_state := st\<rparr>) = session_ok (srv, conn)"
  "session_ok (srv, conn\<lparr>cn_resp3 := r\<rparr>) = session_ok (srv, conn)"
  "session_ok (srv, conn\<lparr>cn_db_idx := i\<rparr>) = session_ok (srv, conn)"
  "session_ok (srv, conn\<lparr>cn_token := t\<rparr>) = session_ok (srv, conn)"
  "session_ok (fst (tick sc), conn) = session_ok (fst sc, conn)"
  using session_ok_tick(1) [of sc] by (simp_all add: session_ok_def conn_ok_def srv_ok_def tick_def announce_addr_def split_def)

lemma session_ok_user:
  assumes "session_ok (srv, conn)" and "length (u_username u) \<le> 63"
  shows "session_ok (srv, conn\<lparr>cn_user := Some u\<rparr>)"
  using assms by (simp add: session_ok_def conn_ok_def)

lemma session_user: "session_ok sc \<Longrightarrow> cn_user (snd sc) = Some u \<Longrightarrow> length (u_username u) \<le> 63"
  by (simp add: session_ok_def conn_ok_def)

lemma verify_name:
  assumes "session_ok sc" and "vc_auth_verify oom (sv_auth (fst sc)) name pw = Some u"
  shows "length (u_username u) \<le> 63"
  using assms
  by (auto simp: vc_auth_verify_def Let_def anon_def session_ok_def srv_ok_def find_Some_iff split: if_splits)

lemma gen_token_eq: "\<exists>t. gen_token w sc = (fst (tick sc), (snd sc)\<lparr>cn_token := t\<rparr>)"
proof -
  have "snd sc = (snd sc)\<lparr>cn_token := cn_token (snd sc)\<rparr>" by simp
  then show ?thesis
    by (cases sc) (auto simp: gen_token_def tick_def split: option.split intro: exI [of _ "cn_token (snd sc)"])
qed

lemma gen_token_keeps [simp]:
  "session_ok (gen_token w sc) = session_ok sc" "cache_at (gen_token w sc) = cache_at sc"
  "cn_user (snd (gen_token w sc)) = cn_user (snd sc)" "cn_wbuf (snd (gen_token w sc)) = cn_wbuf (snd sc)"
  "sv_auth (fst (gen_token w sc)) = sv_auth (fst sc)"
proof -
  obtain t where g: "gen_token w sc = (fst (tick sc), (snd sc)\<lparr>cn_token := t\<rparr>)" using gen_token_eq by blast
  show "session_ok (gen_token w sc) = session_ok sc"
    using session_ok_tick(1) [of sc] by (simp add: g session_ok_def conn_ok_def)
  show "cache_at (gen_token w sc) = cache_at sc"
    using at_simps(1) [of sc] by (simp add: g cache_at_def)
  show "cn_user (snd (gen_token w sc)) = cn_user (snd sc)" "cn_wbuf (snd (gen_token w sc)) = cn_wbuf (snd sc)"
    "sv_auth (fst (gen_token w sc)) = sv_auth (fst sc)"
    by (simp_all add: g)
qed

section \<open>Permissions\<close>

definition allowed :: "u32 \<Rightarrow> session \<Rightarrow> bool" where
  "allowed acl sc \<longleftrightarrow> \<not> db_require_auth (sv_auth (fst sc)) \<or> vc_acl_check (cn_user (snd sc)) acl"

definition denial :: "session \<Rightarrow> bytes" where
  "denial sc = (if cn_user (snd sc) = None then err_text ''NOAUTH'' ''Authentication required. Use AUTH command.''
                else err_text ''NOPERM'' ''Permission denied for this command.'')"

lemma need_auth_allowed: "allowed acl sc \<Longrightarrow> need_auth acl sc = Some (False, sc)"
  by (cases sc) (auto simp: allowed_def need_auth_def vc_acl_check_def split: option.splits)

lemma need_auth_denied:
  assumes "\<not> allowed acl sc" and "conn_ok (snd sc)"
  shows "\<exists>sc'. need_auth acl sc = Some (True, sc') \<and> replied (denial sc) sc sc'"
proof -
  have d: "db_require_auth (sv_auth (fst sc))" "\<not> vc_acl_check (cn_user (snd sc)) acl"
    using assms(1) by (auto simp: allowed_def)
  show ?thesis
  proof (cases "cn_user (snd sc)")
    case None
    have "emits (resp_write_error (ascii ''NOAUTH'') (ascii ''Authentication required. Use AUTH command.'')) (denial sc)"
      using None by (simp add: denial_def emits_err)
    from reply_replied [OF assms(2) this] show ?thesis
      using None d by (cases sc) (auto simp: need_auth_def ERR_def)
  next
    case (Some u)
    have "emits (resp_write_error (ascii ''NOPERM'') (ascii ''Permission denied for this command.'')) (denial sc)"
      using Some by (simp add: denial_def emits_err)
    from reply_replied [OF assms(2) this] show ?thesis
      using Some d by (cases sc) (auto simp: need_auth_def ERR_def)
  qed
qed

lemma returns_guarded [returns_intros]:
  assumes "session_ok sc" and "\<And>sc'. session_ok sc' \<Longrightarrow> replied (denial sc) sc sc' \<Longrightarrow> \<not> allowed acl sc \<Longrightarrow> P sc'"
    and "allowed acl sc \<Longrightarrow> returns P (body sc)"
  shows "returns P (guarded acl body sc)"
proof (cases "allowed acl sc")
  case True
  then show ?thesis using assms(3) by (simp add: guarded_def need_auth_allowed)
next
  case False
  then obtain sc' where n: "need_auth acl sc = Some (True, sc')" "replied (denial sc) sc sc'"
    using need_auth_denied [of acl sc] assms(1) unfolding session_ok_def by blast
  then have "P sc'" using assms(2) [OF replied_ok [OF n(2) assms(1)] n(2) False] by simp
  then show ?thesis using n(1) by (simp add: guarded_def)
qed

end
