(* ===== verification/CommandSafe.thy ===== *)
theory CommandSafe
  imports SessionLogic
begin

text \<open>
  Every handler, run on a well-formed session with a command from the parser, returns and leaves
  a well-formed session: no access outside memory, no null pointer, no endless loop. The handlers
  that read memory on the word of stored data have their condition stated.
\<close>

abbreviation (input) safe :: "session option \<Rightarrow> bool" where
  "safe \<equiv> returns session_ok"

section \<open>Connection commands\<close>

lemma ping_safe: "cmd_ok cmd \<Longrightarrow> session_ok sc \<Longrightarrow> safe (cmd_ping w cmd sc)"
  unfolding cmd_ping_def by (auto intro!: returns_intros)

lemma logged_in:
  assumes "session_ok sc" and "vc_auth_verify oom (sv_auth (fst sc)) name pw = Some u"
  shows "session_ok (fst sc, (snd sc)\<lparr>cn_user := Some u\<rparr>)"
  using assms verify_name [OF assms] by (simp add: session_ok_user)

lemma hello_auth_safe:
  assumes "cmd_ok cmd" and "session_ok sc"
  shows "returns (\<lambda>(stop, sc'). session_ok sc') (hello_auth w cmd i sc)"
  using assms
proof (induction "cmd_argc cmd - i" arbitrary: i sc rule: less_induct)
  case less
  note IH = less.hyps [OF _ less.prems(1)]
  show ?case
  proof (subst hello_auth.simps, rule returns_if)
    assume i: "\<not> \<not> i + 1 < cmd_argc cmd"
    then have a: "argn cmd i = Some (cmd_args cmd ! i)" by (simp add: argn_def)
    have next1: "returns (\<lambda>(stop, sc'). session_ok sc') (hello_auth w cmd (i + 1) sc)"
      using i less.prems(2) by (intro IH) auto
    show "returns (\<lambda>(stop, sc'). session_ok sc') (do {
        a \<leftarrow> argn cmd i;
        if is_word a ''AUTH'' \<and> i + 2 < cmd_argc cmd then do {
          uname \<leftarrow> argn cmd (i + 1);
          upass \<leftarrow> argn cmd (i + 2);
          let (u, sc) = srv_verify w (arg_str uname) (arg_str upass) sc;
          if u = None then do {
            sc \<leftarrow> ERR ''WRONGPASS'' ''Invalid username or password'' sc;
            Some (True, sc)
          }
          else hello_auth w cmd (i + 3) (gen_token w (fst sc, (snd sc)\<lparr>cn_user := u\<rparr>))
        }
        else hello_auth w cmd (i + 1) sc
      })"
      using less.prems next1 unfolding a
      by (auto simp: srv_verify_def Let_def intro!: returns_intros IH logged_in)
  qed (use less.prems in simp)
qed

lemma hello_safe:
  assumes "cmd_ok cmd" and "session_ok sc"
  shows "safe (cmd_hello w cmd sc)"
proof -
  have proto: "\<exists>v. hello_proto cmd = Some v" using assms(1) by (auto simp: hello_proto_def argn_def)
  have fin: "safe (reply (resp_write_hello VC_SERVER_VERSION (sv_node_id srv) r) (srv, conn\<lparr>cn_resp3 := r\<rparr>))"
    if "session_ok (srv, conn)" for srv conn r
    using that
    by (intro returns_reply [OF _ emits_hello]) (simp_all add: session_ok_def srv_ok_def conn_ok_def)
  show ?thesis
    unfolding cmd_hello_def
    using proto assms by (auto simp: Let_def fin intro!: returns_intros returns_bind [OF hello_auth_safe])
qed

lemma auth_safe:
  assumes "cmd_ok cmd" and "session_ok sc"
  shows "safe (cmd_auth w cmd sc)"
  using assms logged_in [OF assms(2)] unfolding cmd_auth_def
  by (auto simp: srv_verify_def intro!: returns_intros)

lemma select_safe: "cmd_ok cmd \<Longrightarrow> session_ok sc \<Longrightarrow> safe (cmd_select w cmd sc)"
  unfolding cmd_select_def by (auto simp: argc_bad_def intro!: returns_intros)

lemma quit_safe: "session_ok sc \<Longrightarrow> safe (cmd_quit w cmd sc)"
  unfolding cmd_quit_def by (auto intro!: returns_intros)

lemma reset_safe: "session_ok sc \<Longrightarrow> safe (cmd_reset w cmd sc)"
  unfolding cmd_reset_def by (auto intro!: returns_intros)

section \<open>Core key commands\<close>

lemma get_safe: "cmd_ok cmd \<Longrightarrow> session_ok sc \<Longrightarrow> safe (cmd_get w cmd sc)"
  unfolding cmd_get_def by (auto simp: argc_bad_def intro!: returns_intros)

lemma ttl_safe: "cmd_ok cmd \<Longrightarrow> session_ok sc \<Longrightarrow> safe (cmd_ttl w cmd sc)"
  unfolding cmd_ttl_def by (auto simp: argc_bad_def intro!: returns_intros)

lemma pttl_safe: "cmd_ok cmd \<Longrightarrow> session_ok sc \<Longrightarrow> safe (cmd_pttl w cmd sc)"
  unfolding cmd_pttl_def by (rule ttl_safe)

lemma set_again_safe:
  assumes "world_ok w" "session_ok sc" "small_arg a" "n \<le> 65535" "readable (cache_at sc) p n"
  shows "safe (set_again w a ttl p n sc)"
  unfolding set_again_def srv_malloc_def Let_def
  using assms by (auto intro!: returns_intros)

lemma expire_safe: "cmd_ok cmd \<Longrightarrow> world_ok w \<Longrightarrow> session_ok sc \<Longrightarrow> safe (cmd_expire w cmd sc)"
  unfolding cmd_expire_def by (auto simp: argc_bad_def intro!: returns_intros set_again_safe)

lemma persist_safe: "cmd_ok cmd \<Longrightarrow> world_ok w \<Longrightarrow> session_ok sc \<Longrightarrow> safe (cmd_persist w cmd sc)"
  unfolding cmd_persist_def by (auto simp: argc_bad_def intro!: returns_intros set_again_safe)

lemma rename_safe: "cmd_ok cmd \<Longrightarrow> world_ok w \<Longrightarrow> session_ok sc \<Longrightarrow> safe (cmd_rename w cmd sc)"
  unfolding cmd_rename_def by (auto simp: argc_bad_def srv_malloc_def intro!: returns_intros)

lemma append_safe: "cmd_ok cmd \<Longrightarrow> world_ok w \<Longrightarrow> session_ok sc \<Longrightarrow> safe (cmd_append w cmd sc)"
  unfolding cmd_append_def by (auto simp: argc_bad_def srv_malloc_def intro!: returns_intros)

lemma set_options_returns: "\<exists>r. set_options cmd i opts = Some r"
proof (induction cmd i opts rule: set_options.induct)
  case (1 cmd i opts)
  then show ?case by (subst set_options.simps) (auto simp: argn_def)
qed

lemma returns_set_test [returns_intros]:
  assumes "session_ok sc" and "small_arg a" and "\<And>stop sc'. session_ok sc' \<Longrightarrow> returns P (f (stop, sc'))"
  shows "returns P (set_test w b a sc \<bind> f)"
proof (rule returns_bind)
  show "returns (\<lambda>(stop, sc'). session_ok sc') (set_test w b a sc)"
    unfolding set_test_def using assms(1,2) by (auto intro!: returns_intros)
qed (use assms(3) in auto)

lemma returns_set_value [returns_intros]:
  assumes "small_arg a" and "\<And>v. length v \<le> 65536 \<Longrightarrow> returns P (f v)"
  shows "returns P (sub_bytes (a_buf a) 0 (a_len a) \<bind> f)" "returns P (sub_bytes (a_buf a) 0 (Suc 0) \<bind> f)"
  using assms by (auto simp: small_arg_def arg_ok_def sub_bytes_def)

lemma set_safe:
  assumes "cmd_ok cmd" "world_ok w" "session_ok sc"
  shows "safe (cmd_set w cmd sc)"
proof -
  obtain r where r: "set_options cmd 3 \<lparr>so_ttl = 0, so_nx = False, so_xx = False\<rparr> = Some r"
    using set_options_returns by blast
  show ?thesis unfolding cmd_set_def using assms r by (auto intro!: returns_intros)
qed

lemma del_keys_safe:
  assumes "\<forall>a \<in> set as. small_arg a" and "session_ok sc"
  shows "returns (\<lambda>(n', sc'). session_ok sc' \<and> n \<le> n' \<and> n' \<le> n + int (length as)) (del_keys w as n sc)"
  using assms
proof (induction as arbitrary: n sc)
  case (Cons a as)
  show ?case
    unfolding del_keys.simps
    by (rule returns_del) (use Cons in \<open>auto intro: returns_mono [OF Cons.IH]\<close>)
qed simp

lemma exist_keys_safe:
  assumes "\<forall>a \<in> set as. small_arg a" and "session_ok sc"
  shows "returns (\<lambda>(n', sc'). session_ok sc' \<and> n \<le> n' \<and> n' \<le> n + int (length as)) (exist_keys w as n sc)"
  using assms
proof (induction as arbitrary: n sc)
  case (Cons a as)
  show ?case
    unfolding exist_keys.simps
    by (rule returns_get) (use Cons in \<open>auto intro: returns_mono [OF Cons.IH]\<close>)
qed simp

lemma tl_small:
  assumes "cmd_ok cmd"
  shows "\<forall>a \<in> set (tl (cmd_args cmd)). small_arg a" "cmd_argc cmd \<le> 128"
  using assms by (cases "cmd_args cmd"; auto simp: cmd_ok_def)+

lemma del_safe: "cmd_ok cmd \<Longrightarrow> session_ok sc \<Longrightarrow> safe (cmd_del w cmd sc)"
  unfolding cmd_del_def
  by (auto intro!: returns_intros returns_bind [OF del_keys_safe] simp: tl_small dest: tl_small(2))

lemma exists_safe: "cmd_ok cmd \<Longrightarrow> session_ok sc \<Longrightarrow> safe (cmd_exists w cmd sc)"
  unfolding cmd_exists_def
  by (auto intro!: returns_intros returns_bind [OF exist_keys_safe] simp: tl_small dest: tl_small(2))

lemma type_safe: "cmd_ok cmd \<Longrightarrow> session_ok sc \<Longrightarrow> safe (cmd_type w cmd sc)"
  unfolding cmd_type_def
  by (auto simp: argc_bad_def type_name_def split: option.split intro!: returns_intros)

lemma mget_keys_safe:
  assumes "\<forall>a \<in> set as. small_arg a" and "session_ok sc"
  shows "safe (mget_keys w as sc)"
  using assms
proof (induction as arbitrary: sc)
  case (Cons a as)
  have rest: "safe (mget_keys w as sc')" if "session_ok sc'" for sc' using Cons that by simp
  show ?case
    unfolding mget_keys.simps
    by (rule returns_get) (use Cons.prems rest in \<open>auto intro!: returns_intros\<close>)
qed simp

lemma mget_safe:
  assumes "cmd_ok cmd" "session_ok sc" shows "safe (cmd_mget w cmd sc)"
  unfolding cmd_mget_def using assms tl_small [OF assms(1)] by (auto intro!: returns_intros mget_keys_safe)

lemma mset_pairs_safe:
  assumes "\<forall>a \<in> set as. small_arg a" and "session_ok sc" and "world_ok w" and "even (length as)"
  shows "safe (mset_pairs w as sc)"
  using assms
proof (induction w as sc rule: mset_pairs.induct)
  case (3 w k v as sc)
  obtain val where val: "arg_bytes v = Some val" "length val \<le> 65536"
    using 3(2) by (auto elim: small_arg_bytes)
  show ?case
    unfolding mset_pairs.simps val(1)
  proof (simp, rule returns_set)
    fix err :: vc_err and c assume ok: "session_ok (with_cache c sc)"
      and set: "srv_set w k val 0 sc = Some (err, with_cache c sc)"
    show "safe (case (err, with_cache c sc) of (uu, sc) \<Rightarrow> mset_pairs w as sc)"
      using 3(1) [OF val(1) set, of err "with_cache c sc"] 3(2-5) ok by simp
  qed (use 3 val in auto)
qed simp_all

lemma mset_safe:
  assumes "cmd_ok cmd" "world_ok w" "session_ok sc" shows "safe (cmd_mset w cmd sc)"
proof -
  have "safe (do { sc \<leftarrow> mset_pairs w (tl (cmd_args cmd)) sc; OK_REPLY sc })" if "odd (cmd_argc cmd)"
    using assms that tl_small [OF assms(1)]
    by (intro returns_bind [OF mset_pairs_safe]) (auto intro!: returns_intros)
  then show ?thesis
    unfolding cmd_mset_def using assms by (auto simp: even_iff_mod_2_eq_zero intro!: returns_intros)
qed

section \<open>Counters\<close>

lemma returns_vc_int64 [returns_intros]:
  assumes "session_ok sc"
    and "\<And>sc'. session_ok sc' \<Longrightarrow>
      replied (bulk_text (typed_payload VC_TYPE_INT64 (le_bytes 8 v))) sc sc' \<Longrightarrow> returns P (f sc')"
  shows "returns P (reply (resp_write_vc_int64 v) sc \<bind> f)"
  using assms by (rule returns_reply_bind [OF _ emits_typed_writers(1)])

lemma sint_range: "- (2 ^ 63) \<le> sint (v :: i64)" "sint (v :: i64) \<le> 2 ^ 64"
  using sint_greater_eq [of v] sint_less [of v] by simp_all

lemma incrby_safe:
  assumes "cmd_ok cmd" "world_ok w" "session_ok sc" shows "safe (cmd_incrby d w cmd sc)"
  unfolding cmd_incrby_def Let_def using assms
  by (auto simp: argc_bad_def int_payload_def sint_range [simplified] intro!: returns_intros)

lemma counters_safe:
  assumes "cmd_ok cmd" "world_ok w" "session_ok sc"
  shows "safe (cmd_incr w cmd sc)" "safe (cmd_decr w cmd sc)"
    "safe (cmd_incrby2 w cmd sc)" "safe (cmd_decrby w cmd sc)"
  unfolding cmd_incr_def cmd_decr_def cmd_incrby2_def cmd_decrby_def by_arg_def
  using assms by (auto intro!: incrby_safe returns_intros)

section \<open>Administration\<close>

lemma length_dec_i32: "length (dec_int (sint (v :: i32))) \<le> 21"
proof -
  have "- (2 ^ 31) \<le> sint v" "sint v < 2 ^ 31" using sint_greater_eq [of v] sint_less [of v] by simp_all
  then have "- (2 ^ 63) \<le> sint v" "sint v \<le> 2 ^ 64" by simp_all
  then show ?thesis by (rule length_dec_int)
qed

lemma length_dec_u64: "length (dec_u64 v) \<le> 20"
proof -
  have "unat v < 2 ^ LENGTH(64)" by (rule unsigned_less)
  then show ?thesis unfolding dec_u64_def by (intro length_dec_nat) simp_all
qed

lemma length_dec_u16: "length (dec_nat (unat (v :: u16))) \<le> 20" "length (dec_nat (unat (v :: u16) + 10000)) \<le> 20"
proof -
  have "unat v < 2 ^ LENGTH(16)" by (rule unsigned_less)
  then show "length (dec_nat (unat v)) \<le> 20" "length (dec_nat (unat v + 10000)) \<le> 20"
    by (intro length_dec_nat; simp)+
qed

lemma dbsize_safe: "session_ok sc \<Longrightarrow> safe (cmd_dbsize w cmd sc)"
  unfolding cmd_dbsize_def by (auto simp: sint_range [simplified] intro!: returns_intros)

lemma flushdb_safe: "session_ok sc \<Longrightarrow> safe (cmd_flushdb w cmd sc)"
  unfolding cmd_flushdb_def by (auto intro!: returns_intros)

lemma client_texts:
  assumes "session_ok sc"
  shows "length (client_info (snd sc)) \<le> 200" "length (client_list (snd sc)) \<le> 300"
  using assms length_dec_i32 [of "cn_fd (snd sc)"] length_dec_u16(1) [of "cn_peer_port (snd sc)"]
  by (simp_all add: client_info_def client_list_def session_ok_def conn_ok_def)

lemma length_c_str: "length (c_str s) \<le> length s"
  by (simp add: c_str_def length_takeWhile_le)

lemma snprintf_str: "length (c_str (snd (snprintf n s))) \<le> n + 1"
  using length_c_str [of "snd (snprintf n s)"] by (simp add: snprintf_def)

lemma returns_bulk_str [returns_intros]:
  assumes "session_ok sc" and "cap \<le> 4096"
    and "\<And>sc'. session_ok sc' \<Longrightarrow> replied (bulk_text (c_str (snd (snprintf cap s)))) sc sc' \<Longrightarrow> P sc'"
  shows "returns P (BULK (c_str (snd (snprintf cap s))) sc)"
  using assms snprintf_str [of cap s] by (intro returns_intros) auto

lemma client_safe:
  assumes "cmd_ok cmd" "session_ok sc" shows "safe (cmd_client w cmd sc)"
proof -
  have "- (2 ^ 63) \<le> sint (cn_fd (snd sc))" "sint (cn_fd (snd sc)) \<le> 2 ^ 64"
    using sint_greater_eq [of "cn_fd (snd sc)"] sint_less [of "cn_fd (snd sc)"] by simp_all
  moreover have "safe (do { s \<leftarrow> sub_bytes (snd (snprintf 512 (client_list (snd sc)))) 0 (length (client_list (snd sc)));
                  BULK s sc })"
    using assms(2) client_texts [OF assms(2)] by (auto simp: snprintf_def sub_bytes_def intro!: returns_intros)
  ultimately show ?thesis
    unfolding cmd_client_def using assms
    by (auto simp: snprintf_def [of 512] intro!: returns_intros)
qed

lemma info_length:
  assumes "session_ok sc"
  shows "length (info_text (fst sc)) < 4096" "length (vcinfo_text (fst sc)) < 2048"
proof -
  have "length (dec_nat (c_max_memory (sv_cache (fst sc)))) \<le> 20"
    using assms by (intro length_dec_nat) (simp_all add: session_ok_def srv_ok_def cache_ready_def)
  moreover have "length (sv_node_id (fst sc)) \<le> 64" using assms by (simp add: session_ok_def srv_ok_def)
  moreover have "length (dec_nat 64) \<le> 20" by (rule length_dec_nat) simp_all
  moreover let ?st = "vc_stats (sv_cache (fst sc))"
  note length_dec_u64 [of "sv_total_conns (fst sc)"] length_dec_u64 [of "sv_total_commands (fst sc)"]
    length_dec_u64 [of "gs_hits ?st"] length_dec_u64 [of "gs_misses ?st"] length_dec_u64 [of "gs_evictions ?st"]
    length_dec_u64 [of "gs_expirations ?st"] length_dec_u64 [of "gs_total_keys ?st"]
    length_dec_u64 [of "gs_memory_bytes ?st"]
  ultimately show "length (info_text (fst sc)) < 4096" "length (vcinfo_text (fst sc)) < 2048"
    by (simp_all add: info_text_def vcinfo_text_def Let_def json_key_def field_def line_def)
qed

lemma info_safe:
  assumes "session_ok sc" shows "safe (cmd_info w cmd sc)"
  unfolding cmd_info_def using assms info_length(1) [OF assms]
  by (auto simp: snprintf_def sub_bytes_def intro!: returns_intros)

lemma vcinfo_safe:
  assumes "session_ok sc" shows "safe (cmd_vcinfo w cmd sc)"
  unfolding cmd_vcinfo_def using assms info_length(2) [OF assms]
  by (auto simp: snprintf_def sub_bytes_def intro!: returns_intros returns_reply [OF _ emits_typed_writers(4)])

text \<open>CONFIG GET looks before the start of an empty pattern; every other pattern is safe.\<close>

definition config_reads_before :: "vc_cmd \<Rightarrow> bool" where
  "config_reads_before cmd \<longleftrightarrow> 3 \<le> cmd_argc cmd \<and> is_word (cmd_args cmd ! 1) ''GET'' \<and> arg_str (cmd_args cmd ! 2) = []"

lemma cfg_matches_returns:
  assumes "pat \<noteq> []"
  shows "returns (\<lambda>ms. set ms \<subseteq> set es \<and> length ms \<le> length es) (cfg_matches pat es)"
  by (induction es) (use assms in \<open>auto simp: cfg_match_def Let_def returns_def\<close>)

lemma send_pairs_safe:
  assumes "session_ok sc" and "\<forall>e \<in> set es. length (fst e) \<le> 64 \<and> length (snd e) \<le> 64"
  shows "safe (send_pairs es sc)"
  using assms
proof (induction es arbitrary: sc)
  case (Cons e es)
  have rest: "safe (send_pairs es sc')" if "session_ok sc'" for sc' using Cons that by simp
  show ?case
    unfolding send_pairs.simps using Cons.prems rest by (intro returns_intros) auto
qed simp

lemma config_entries_small:
  "length (config_entries srv) = 16"
  "\<forall>e \<in> set (config_entries srv). length (fst e) \<le> 64 \<and> length (snd e) \<le> 64"
  using snprintf_str [of 32 "dec_nat (c_max_memory (sv_cache srv))"]
  by (simp_all add: config_entries_def)

lemma config_safe:
  assumes "cmd_ok cmd" "session_ok sc" "\<not> config_reads_before cmd" shows "safe (cmd_config w cmd sc)"
proof -
  have "safe (do { ms \<leftarrow> cfg_matches pat (config_entries (fst sc));
                   sc \<leftarrow> ARRAY (int (length ms) * 2) sc; send_pairs ms sc })" if "pat \<noteq> []" for pat
    using assms(2) config_entries_small [of "fst sc"]
    by (intro returns_bind [OF cfg_matches_returns [OF that]] returns_intros send_pairs_safe) auto
  then show ?thesis
    unfolding cmd_config_def using assms by (auto simp: config_reads_before_def intro!: returns_intros)
qed

lemma send_nulls_safe: "session_ok sc \<Longrightarrow> safe (send_nulls n sc)"
proof (induction n arbitrary: sc)
  case (Suc n)
  show ?case unfolding send_nulls.simps by (rule returns_null_bind) (use Suc in auto)
qed simp

lemma returns_map [returns_intros]:
  assumes "session_ok sc" and "\<And>sc'. session_ok sc' \<Longrightarrow> replied (map_text n) sc sc' \<Longrightarrow> P sc'" and "0 \<le> n" "n \<le> 2 ^ 32"
  shows "returns P (reply (resp_write_map_header n) sc)"
  using assms by (intro returns_reply [OF _ emits_map_header]) auto

lemma command_safe: "cmd_ok cmd \<Longrightarrow> session_ok sc \<Longrightarrow> safe (cmd_command w cmd sc)"
  unfolding cmd_command_def Let_def
  by (auto intro!: returns_intros send_nulls_safe simp: cmd_ok_def small_argn)

lemma debug_safe: "session_ok sc \<Longrightarrow> safe (cmd_debug w cmd sc)"
  unfolding cmd_debug_def by (auto intro!: returns_intros)

section \<open>Extended commands\<close>

text \<open>A writer fits if it succeeds whenever the buffer already has the room, without an allocation.\<close>

definition fits :: "writer \<Rightarrow> bytes \<Rightarrow> bool" where
  "fits wr s \<longleftrightarrow> (\<forall>b. b_len b + length s \<le> b_cap b \<longrightarrow> wr b = Some (True, b\<lparr>b_data := b_data b @ s\<rparr>))"

lemma fits_APPEND: "fits (APPEND s) s"
  by (auto simp: fits_def APPEND_def vc_buf_grow_def)

lemma fits_buf_printf: "length s < 256 \<Longrightarrow> fits (buf_printf s) s"
  using fits_APPEND [of s] by (simp add: fits_def buf_printf_def)

lemma fits_wr_then: "fits w1 s1 \<Longrightarrow> fits w2 s2 \<Longrightarrow> fits (wr_then w1 w2) (s1 @ s2)"
  by (auto simp: fits_def wr_then_def)

lemma fits_typed:
  assumes "length p \<le> MAX_OBJECT"
  shows "fits (resp_write_vc_typed t p) (bulk_text (typed_payload t p))"
proof -
  have "length (dec_nat (5 + length p)) \<le> 19" using assms by (intro length_dec_object) simp
  then have "fits (resp_write_vc_typed t p)
      ((ascii ''$'' @ dec_nat (4 + 1 + length p) @ CRLF) @ VC_WIRE_MAGIC @ [t] @ p @ CRLF)"
    unfolding resp_write_vc_typed_def by (intro fits_wr_then fits_APPEND fits_buf_printf) simp
  then show ?thesis by (simp add: bulk_text_def typed_payload_def)
qed

lemma wire_payload_bulk: "wire_payload (bulk_text s) = Some (Some s)"
proof -
  let ?d = "dec_nat (length s)"
  have t: "takeWhile (\<lambda>b. b \<noteq> 13) (bulk_text s) = 36 # ?d"
    using dec_nat_no_crlf(1) [of "length s"]
    by (auto simp: bulk_text_def ascii_dollar CRLF_def takeWhile_append2 intro!: takeWhile_append2 trans [OF takeWhile_append2])
  then show ?thesis
    by (simp add: wire_payload_def Let_def bulk_text_def ascii_dollar sub_bytes_def)
qed

text \<open>What VCSET stores for a value of a type; a string is stored as binary.\<close>

definition vcset_payload :: "world \<Rightarrow> u8 \<Rightarrow> arg \<Rightarrow> bytes \<Rightarrow> bytes" where
  "vcset_payload w t val v =
     (if t = VC_TYPE_INT64 then typed_payload VC_TYPE_INT64 (le_bytes 8 (parse_num (arg_str val)))
      else if t = VC_TYPE_FLOAT64 then typed_payload VC_TYPE_FLOAT64 (le_bytes 8 (w_strtod w (arg_str val)))
      else if t = VC_TYPE_BOOL
      then typed_payload VC_TYPE_BOOL [if is_word val ''true'' \<or> arg_str val = ascii ''1'' then 1 else 0]
      else if t = VC_TYPE_JSON then typed_payload VC_TYPE_JSON v
      else typed_payload VC_TYPE_BINARY v)"

lemma length_vcset_payload: "length (vcset_payload w t val v) \<le> 5 + max 8 (length v)"
  by (auto simp: vcset_payload_def max_def)

lemma vcset_encode_fits:
  assumes "small_arg val" and v: "arg_bytes val = Some v"
  shows "\<exists>wr. vcset_encode w t val = Some wr \<and> fits wr (bulk_text (vcset_payload w t val v))"
proof -
  have "length v \<le> 65536" using small_arg_bytes [OF assms(1)] v by force
  then have f: "fits (resp_write_vc_typed t p) (bulk_text (typed_payload t p))" if "length p \<le> max 8 (length v)" for t p
    using that by (intro fits_typed) simp
  show ?thesis
    using v f
    by (auto simp: vcset_encode_def vcset_payload_def resp_write_vc_int64_def resp_write_vc_float64_def
        resp_write_vc_bool_def resp_write_vc_json_def resp_write_vc_binary_def)
qed

lemma vcset_stores:
  assumes "small_arg val" and v: "arg_bytes val = Some v"
  shows "\<exists>wr tb. vcset_encode w t val = Some wr
     \<and> wr \<lparr>b_data = [], b_cap = 4 + 1 + a_len val + 16, b_rpos = 0, b_oom = oom\<rparr> = Some (True, tb)
     \<and> wire_payload (b_data tb) = Some (Some (vcset_payload w t val v))"
proof -
  let ?p = "vcset_payload w t val v"
  obtain wr where e: "vcset_encode w t val = Some wr" "fits wr (bulk_text ?p)"
    using vcset_encode_fits [OF assms] by blast
  have len: "length v = a_len val" "a_len val \<le> 65536"
    using small_arg_bytes [OF assms(1)] v assms(1) by (force simp: small_arg_def)+
  have pl: "length ?p \<le> 5 + max 8 (a_len val)" using length_vcset_payload [of w t val v] len(1) by simp
  have "length (dec_nat (length ?p)) \<le> 5" using pl len(2) by (intro length_dec_nat) auto
  moreover have "length (dec_nat (length ?p)) \<le> 2" if "a_len val \<le> 8"
    using pl that by (intro length_dec_nat) auto
  ultimately have "length (bulk_text ?p) \<le> 4 + 1 + a_len val + 16"
    using pl by (cases "a_len val \<le> 8") (auto simp: bulk_text_def)
  then show ?thesis using e wire_payload_bulk by (auto simp: fits_def)
qed

lemma vcset_store_eq:
  assumes "small_arg val" and v: "arg_bytes val = Some v"
  shows "vcset_store w t key val \<lparr>b_data = [], b_cap = 4 + 1 + a_len val + 16, b_rpos = 0, b_oom = oom\<rparr> sc
    = do { (_, sc) \<leftarrow> srv_set w key (vcset_payload w t val v) 0 sc; OK_REPLY sc }"
proof -
  obtain wr tb where "vcset_encode w t val = Some wr"
    "wr \<lparr>b_data = [], b_cap = 4 + 1 + a_len val + 16, b_rpos = 0, b_oom = oom\<rparr> = Some (True, tb)"
    "wire_payload (b_data tb) = Some (Some (vcset_payload w t val v))"
    using vcset_stores [OF assms, of w t oom] by blast
  then show ?thesis by (simp add: vcset_store_def)
qed

lemma vcset_store_safe:
  assumes val: "small_arg val" and "small_arg key" "session_ok sc" "world_ok w"
  shows "safe (vcset_store w t key val \<lparr>b_data = [], b_cap = 4 + 1 + a_len val + 16, b_rpos = 0, b_oom = oom\<rparr> sc)"
proof -
  obtain v where v: "arg_bytes val = Some v" "length v \<le> 65536" using val by (auto elim: small_arg_bytes)
  have "length (vcset_payload w t val v) \<le> 2 ^ 24" using length_vcset_payload [of w t val v] v(2) by simp
  then show ?thesis unfolding vcset_store_eq [OF val v(1)] using assms by (auto intro!: returns_intros)
qed

lemma vcset_safe:
  assumes "cmd_ok cmd" "world_ok w" "session_ok sc" shows "safe (cmd_vcset w cmd sc)"
  unfolding cmd_vcset_def using assms
  by (auto simp: vc_buf_new_def Let_def split: option.splits prod.splits
      intro!: returns_intros vcset_store_safe [simplified])

definition typed_complete :: "bytes \<Rightarrow> bool" where
  "typed_complete v \<longleftrightarrow> has_typed v \<longrightarrow>
     (v ! 4 = VC_TYPE_FLOAT64 \<longrightarrow> 13 \<le> length v) \<and> (v ! 4 = VC_TYPE_BOOL \<longrightarrow> 6 \<le> length v)"

lemma cptr_read_prefix: "cptr_read c p n = Some v \<Longrightarrow> k \<le> n \<Longrightarrow> cptr_read c p k = Some (take k v)"
  by (auto simp: cptr_read_def mem_read_def sub_bytes_def split: cptr.splits option.splits if_splits Option.bind_splits)

lemma send_typed_safe:
  assumes "session_ok sc" and "emits wr s" and "length name \<le> 64"
  shows "safe (send_typed name wr sc)"
  unfolding send_typed_def using assms by (auto intro!: returns_intros returns_reply [OF _ assms(2)])

lemma send_value_safe:
  assumes "session_ok sc" "world_ok w" and v: "cptr_read (cache_at sc) p (length v) = Some v"
    and "length v \<le> 65535" "typed_complete v"
  shows "safe (send_value w p v sc)"
proof -
  have rd: "cptr_read (cache_at sc) p k = Some (take k v)" if "k \<le> length v" for k
    using cptr_read_prefix [OF v that] .
  have g: "length (w_fmt_g w d) < 253" for d
  proof -
    have "length (w_fmt_g w d) \<le> 32" using assms(2) by (simp add: world_ok_def)
    then show ?thesis by simp
  qed
  show ?thesis
    unfolding send_value_def Let_def
  proof (rule returns_reply_bind [OF assms(1) emits_map_header])
    fix sc1 assume 1: "session_ok sc1" "replied (map_text 2) sc sc1"
    then have c1: "cache_at sc1 = cache_at sc" by (simp add: replied_keeps)
    have c2: "readable (cache_at sc2) p k" if "replied s sc1 sc2" "k \<le> length v" for k s sc2
      using rd [OF that(2)] that(2) replied_keeps(5) [OF that(1)] c1 by (simp add: readable_def)
    show "safe (do { sc \<leftarrow> BULK (ascii ''type'') sc1;
        if has_typed v then
          (if v ! 4 = VC_TYPE_INT64
           then send_typed ''int'' (resp_write_integer (sint (of_le (take 8 (drop 5 v)) :: i64))) sc
           else if v ! 4 = VC_TYPE_FLOAT64 then do {
             d \<leftarrow> cptr_read (cache_at sc) p 13;
             send_typed ''float'' (resp_write_double (w_fmt_g w) (of_le (drop 5 d))) sc
           }
           else if v ! 4 = VC_TYPE_BOOL then do {
             d \<leftarrow> cptr_read (cache_at sc) p 6;
             send_typed ''bool'' (resp_write_bool (d ! 5 \<noteq> 0)) sc
           }
           else if v ! 4 = VC_TYPE_JSON then send_typed ''json'' (resp_write_bulk (drop 5 v)) sc
           else send_typed ''binary'' (resp_write_bulk (drop 5 v)) sc)
        else send_typed ''string'' (resp_write_bulk v) sc })"
      using 1 assms(4,5) g
      by (auto simp: typed_complete_def sint_range [simplified]
          intro!: returns_intros send_typed_safe emits_intros c2)
  qed simp_all
qed

lemma vcget_safe:
  assumes "cmd_ok cmd" "world_ok w" "session_ok sc"
    and complete: "\<And>p n c v. srv_get w (cmd_args cmd ! 1) sc = Some (VC_OK, p, n, with_cache c sc) \<Longrightarrow>
      cptr_read c p n = Some v \<Longrightarrow> typed_complete v"
  shows "safe (cmd_vcget w cmd sc)"
  unfolding cmd_vcget_def using assms(1-3) complete
  by (auto simp: argc_bad_def intro!: returns_intros send_value_safe)

lemma uint_port: "- (2 ^ 63) \<le> uint (p :: u16) \<and> uint p \<le> 2 ^ 64"
proof -
  have "uint p < 65536" "0 \<le> uint p" using uint_lt2p [of p] by simp_all
  then have "- 9223372036854775808 \<le> uint p" "uint p \<le> 18446744073709551616" by linarith+
  then show ?thesis by simp
qed

lemma cluster_safe:
  assumes "cmd_ok cmd" "session_ok sc" shows "safe (cmd_cluster w cmd sc)"
proof -
  have "length (announce_addr (fst sc)) \<le> 2 ^ 20" "length (sv_node_id (fst sc)) \<le> 64"
    using assms(2) by (simp_all add: session_ok_def srv_ok_def)
  moreover have "- (2 ^ 63) \<le> uint p \<and> uint p \<le> 2 ^ 64" for p :: u16 by (rule uint_port)
  ultimately show ?thesis
    unfolding cmd_cluster_def using assms
    by (auto intro!: returns_intros simp: session_ok_def srv_ok_def)
qed

section \<open>What client libraries ask for\<close>

lemma user_name_short: "session_ok sc \<Longrightarrow> length (user_name (snd sc)) \<le> 63"
  by (auto simp: user_name_def session_ok_def conn_ok_def split: option.split)

lemma acl_safe:
  assumes "cmd_ok cmd" "session_ok sc" shows "safe (cmd_acl w cmd sc)"
  unfolding cmd_acl_def using assms user_name_short [OF assms(2)]
  by (auto intro!: returns_intros)

lemma latency_safe: "cmd_ok cmd \<Longrightarrow> session_ok sc \<Longrightarrow> safe (cmd_latency w cmd sc)"
  unfolding cmd_latency_def by (auto intro!: returns_intros)

lemma slowlog_safe: "cmd_ok cmd \<Longrightarrow> session_ok sc \<Longrightarrow> safe (cmd_slowlog w cmd sc)"
  unfolding cmd_slowlog_def by (auto intro!: returns_intros)

lemma object_safe: "cmd_ok cmd \<Longrightarrow> session_ok sc \<Longrightarrow> safe (cmd_object w cmd sc)"
  unfolding cmd_object_def by (auto simp: sub_bytes_def intro!: returns_intros)

lemma stubs_safe:
  assumes "session_ok sc"
  shows "safe (cmd_wait w cmd sc)" "safe (cmd_xlen w cmd sc)" "safe (cmd_srandmember w cmd sc)"
  unfolding cmd_wait_def cmd_xlen_def cmd_srandmember_def
  using assms by (auto intro!: returns_intros)

section \<open>Dispatch\<close>

definition named :: "vc_cmd \<Rightarrow> string \<Rightarrow> bool" where
  "named cmd n \<longleftrightarrow> cmd_args cmd \<noteq> [] \<and> is_word (cmd_args cmd ! 0) n"

lemmas handlers_safe = ping_safe hello_safe auth_safe select_safe quit_safe client_safe get_safe mget_safe
  exists_safe ttl_safe pttl_safe type_safe dbsize_safe info_safe set_safe mset_safe del_safe expire_safe
  persist_safe rename_safe append_safe counters_safe flushdb_safe config_safe debug_safe command_safe
  cluster_safe vcset_safe vcinfo_safe reset_safe acl_safe latency_safe slowlog_safe object_safe stubs_safe

lemma table_safe:
  assumes "(n, fn, acl) \<in> set cmd_table" "n \<notin> {''KEYS'', ''SCAN'', ''VCGET''}"
    and "cmd_ok cmd" "world_ok w" "session_ok sc" "\<not> config_reads_before cmd"
  shows "safe (fn w cmd sc)"
proof -
  have "\<forall>e \<in> set cmd_table. fst e \<notin> {''KEYS'', ''SCAN'', ''VCGET''} \<longrightarrow> safe (fst (snd e) w cmd sc)"
    unfolding cmd_table_def using assms(3-6) by (simp add: handlers_safe)
  then show ?thesis using assms(1,2) by fastforce
qed

lemma session_ok_counted [simp]: "session_ok (counted sc) = session_ok sc"
  by (cases sc) (simp add: counted_def session_ok_def srv_ok_def announce_addr_def)

lemma returns_need_auth [returns_intros]:
  assumes "session_ok sc" and "\<And>sc'. session_ok sc' \<Longrightarrow> replied (denial sc) sc sc' \<Longrightarrow> \<not> allowed acl sc \<Longrightarrow> returns P (f (True, sc'))"
    and "allowed acl sc \<Longrightarrow> returns P (f (False, sc))"
  shows "returns P (need_auth acl sc \<bind> f)"
proof (cases "allowed acl sc")
  case True
  then show ?thesis using assms(3) by (simp add: need_auth_allowed)
next
  case False
  then obtain sc' where n: "need_auth acl sc = Some (True, sc')" "replied (denial sc) sc sc'"
    using need_auth_denied [of acl sc] assms(1) unfolding session_ok_def by blast
  then show ?thesis using assms(2) [OF replied_ok [OF n(2) assms(1)] n(2) False] by simp
qed

lemma unknown_command_emits:
  "emits (resp_write_error (ascii ''ERR'') unknown_command) (error_text (ascii ''ERR'') unknown_command)"
  by (rule emits_error) (simp add: unknown_command_def)

lemma dispatch_safe:
  assumes "cmd_ok cmd" "world_ok w" "session_ok sc" "\<not> config_reads_before cmd"
    and "\<not> named cmd ''KEYS''" "\<not> named cmd ''SCAN''" "\<not> named cmd ''VCGET''"
  shows "safe (vc_dispatch w cmd sc)"
proof (cases "cmd_args cmd")
  case Nil
  then show ?thesis using assms by (simp add: vc_dispatch_def)
next
  case (Cons a as)
  show ?thesis
  proof (cases "List.find (\<lambda>(n, _, _). is_word a n) cmd_table")
    case None
    then show ?thesis
      using Cons assms(3)
      by (auto simp: vc_dispatch_def argn_def intro!: returns_reply [OF _ unknown_command_emits])
  next
    case (Some e)
    obtain n fn acl where e: "e = (n, fn, acl)" by (metis prod_cases3)
    have m: "(n, fn, acl) \<in> set cmd_table" "is_word a n"
      using Some e by (auto simp: find_Some_iff in_set_conv_nth)
    have "n \<notin> {''KEYS'', ''SCAN'', ''VCGET''}" using m(2) assms(5-7) Cons by (auto simp: named_def)
    then have "safe (fn w cmd sc)" using table_safe [OF m(1)] assms(1-4) by blast
    then have run: "safe (fn w cmd sc \<bind> (\<lambda>sc. Some (counted sc)))" by (rule returns_bind) simp
    then show ?thesis
      using Cons Some e assms(3) by (auto simp: vc_dispatch_def argn_def intro!: returns_intros)
  qed
qed

end
