(* ===== verification/CommandAuth.thy ===== *)
theory CommandAuth
  imports CommandSafe CacheThms
begin

text \<open>
  What the permission checks guarantee: a client that has not logged in reads and changes nothing
  in the cache, whatever it sends, and gets in only with the password of a user of the table; a
  client without the permissions to write and to administer changes nothing that is stored.
\<close>

section \<open>Commands open to everybody\<close>

definition password_in :: "vc_cmd \<Rightarrow> bytes \<Rightarrow> bool" where
  "password_in cmd pw \<longleftrightarrow> (\<exists>a \<in> set (cmd_args cmd). pw = arg_str a \<or> arg_bytes a = Some pw)"

definition logs_in :: "vc_cmd \<Rightarrow> vcserver \<Rightarrow> vc_user \<Rightarrow> bool" where
  "logs_in cmd srv u \<longleftrightarrow> (\<exists>oom name pw. password_in cmd pw \<and> vc_auth_verify oom (sv_auth srv) name pw = Some u)"

text \<open>The cache is exactly as before, and so is the user, unless a password was right.\<close>

definition harmless :: "vc_cmd \<Rightarrow> session \<Rightarrow> session \<Rightarrow> bool" where
  "harmless cmd sc sc' \<longleftrightarrow> session_ok sc' \<and> cache_at sc' = cache_at sc \<and> sv_auth (fst sc') = sv_auth (fst sc)
     \<and> (cn_user (snd sc') = cn_user (snd sc) \<or> (\<exists>u. cn_user (snd sc') = Some u \<and> logs_in cmd (fst sc) u))"

lemma harmless_refl: "session_ok sc \<Longrightarrow> harmless cmd sc sc"
  by (simp add: harmless_def)

lemma harmless_replied:
  assumes "harmless cmd sc sc1" and "replied s sc1 sc2"
  shows "harmless cmd sc sc2"
  using assms replied_ok [OF assms(2)] replied_keeps [OF assms(2)] by (auto simp: harmless_def)

lemmas harmless_reply = harmless_replied [OF harmless_refl]

lemma harmless_trans:
  assumes "harmless cmd sc sc1" and "harmless cmd sc1 sc2"
  shows "harmless cmd sc sc2"
  using assms by (auto simp: harmless_def logs_in_def)

text \<open>Changes of the connection that do not matter here.\<close>

lemma harmless_conn [simp]:
  "harmless cmd sc (srv, conn\<lparr>cn_state := st\<rparr>) = harmless cmd sc (srv, conn)"
  "harmless cmd sc (srv, conn\<lparr>cn_resp3 := r\<rparr>) = harmless cmd sc (srv, conn)"
  "harmless cmd sc (srv, conn\<lparr>cn_db_idx := i\<rparr>) = harmless cmd sc (srv, conn)"
  by (simp_all add: harmless_def cache_at_def)

lemma password_arg:
  "i < cmd_argc cmd \<Longrightarrow> password_in cmd (arg_str (cmd_args cmd ! i))"
  "arg_bytes (cmd_args cmd ! i) = Some pw \<Longrightarrow> i < cmd_argc cmd \<Longrightarrow> password_in cmd pw"
  by (auto simp: password_in_def intro: nth_mem)

lemma harmless_login:
  assumes "session_ok sc" and "vc_auth_verify oom (sv_auth (fst sc)) name pw = Some u" and "password_in cmd pw"
  shows "harmless cmd sc (gen_token w (fst (tick sc), (snd sc)\<lparr>cn_user := Some u\<rparr>))"
proof -
  have "cache_at (fst (tick sc), (snd sc)\<lparr>cn_user := Some u\<rparr>) = cache_at sc"
    using at_simps(1) [of sc] by (simp add: cache_at_def)
  then show ?thesis
    using assms logged_in [OF assms(1,2)] by (auto simp: harmless_def logs_in_def)
qed

lemma returns_harmless:
  assumes "harmless cmd sc sc1" and "emits wr s"
  shows "returns (harmless cmd sc) (reply wr sc1)"
proof (rule returns_reply [OF _ assms(2)])
  show "session_ok sc1" using assms(1) by (simp add: harmless_def)
  show "harmless cmd sc sc'" if "replied s sc1 sc'" for sc' using harmless_replied [OF assms(1) that] .
qed

lemma harmless_tick: "session_ok sc \<Longrightarrow> harmless cmd sc (tick sc)"
  by (simp add: harmless_def)

lemma hello_auth_harmless:
  assumes "cmd_ok cmd" and "session_ok sc"
  shows "returns (\<lambda>(stop, sc'). harmless cmd sc sc') (hello_auth w cmd i sc)"
  using assms
proof (induction "cmd_argc cmd - i" arbitrary: i sc rule: less_induct)
  case less
  note IH = less.hyps [OF _ less.prems(1)]
  have rest: "returns (\<lambda>(stop, sc'). harmless cmd sc sc') (hello_auth w cmd j sc1)"
    if "i < j" "i < cmd_argc cmd" "harmless cmd sc sc1" for j sc1
  proof -
    have "session_ok sc1" using that(3) by (simp add: harmless_def)
    then have "returns (\<lambda>(stop, sc'). harmless cmd sc1 sc') (hello_auth w cmd j sc1)"
      using that(1,2) by (intro IH) auto
    then show ?thesis by (rule returns_mono) (auto intro: harmless_trans [OF that(3)])
  qed
  show ?case
  proof (subst hello_auth.simps, rule returns_if)
    assume i: "\<not> \<not> i + 1 < cmd_argc cmd"
    then have a: "argn cmd i = Some (cmd_args cmd ! i)" by (simp add: argn_def)
    have next1: "returns (\<lambda>(stop, sc'). harmless cmd sc sc') (hello_auth w cmd (i + 1) sc)"
      using i harmless_refl [OF less.prems(2)] by (intro rest) auto
    have login: "returns (\<lambda>(stop, sc'). harmless cmd sc sc') (hello_auth w cmd (i + 3) (gen_token w (fst (tick sc), (snd sc)\<lparr>cn_user := Some u\<rparr>)))"
      if "vc_auth_verify oom (sv_auth (fst sc)) name pw = Some u" "password_in cmd pw" for oom name pw u
      using i harmless_login [OF less.prems(2) that] by (intro rest) auto
    show "returns (\<lambda>(stop, sc'). harmless cmd sc sc') (do {
        a \<leftarrow> argn cmd i;
        if is_word a ''AUTH'' \<and> i + 2 < cmd_argc cmd then do {
          uname \<leftarrow> argn cmd (i + 1);
          upass \<leftarrow> argn cmd (i + 2);
          let (u, sc) = srv_verify w (arg_str uname) (arg_str upass) sc;
          if u = None then do {
            sc \<leftarrow> ERR ''WRONGPASS'' ''Invalid username or password'' sc;
            Some (True, sc)
          }
          else hello_auth w cmd (i + 3) (gen_token w (fst sc, (snd sc)\<lparr>cn_user := u\<rparr>))
        }
        else hello_auth w cmd (i + 1) sc
      })"
      using less.prems next1 i unfolding a
      by (auto simp: srv_verify_def Let_def intro!: returns_intros login password_arg
          intro: harmless_replied [OF harmless_tick])
  qed (use less.prems harmless_refl in simp)
qed

lemma hello_harmless:
  assumes "cmd_ok cmd" and "session_ok sc"
  shows "returns (harmless cmd sc) (cmd_hello w cmd sc)"
proof -
  have proto: "\<exists>v. hello_proto cmd = Some v" using assms(1) by (auto simp: hello_proto_def argn_def)
  have fin: "returns (harmless cmd sc) (reply (resp_write_hello VC_SERVER_VERSION (sv_node_id srv) r) (srv, conn\<lparr>cn_resp3 := r\<rparr>))"
    if "harmless cmd sc (srv, conn)" for srv conn r
    using that
    by (intro returns_harmless [OF _ emits_hello]) (simp_all, simp add: harmless_def session_ok_def srv_ok_def)
  show ?thesis
    unfolding cmd_hello_def
    using proto assms
    by (auto simp: Let_def fin intro!: returns_intros returns_bind [OF hello_auth_harmless] intro: harmless_reply)
qed

lemma open_harmless:
  assumes "cmd_ok cmd" and "session_ok sc"
  shows "returns (harmless cmd sc) (cmd_ping w cmd sc)" "returns (harmless cmd sc) (cmd_select w cmd sc)"
    "returns (harmless cmd sc) (cmd_quit w cmd sc)" "returns (harmless cmd sc) (cmd_wait w cmd sc)"
  unfolding cmd_ping_def cmd_select_def cmd_quit_def cmd_wait_def using assms
  by (auto simp: argc_bad_def intro!: returns_intros intro: harmless_reply)

lemma reset_harmless: "session_ok sc \<Longrightarrow> returns (harmless cmd sc) (cmd_reset w cmd sc)"
  unfolding cmd_reset_def SIMPLE_def
  by (rule returns_harmless [OF _ emits_simple_text]) (simp_all add: harmless_refl)

lemma verified_harmless:
  assumes "session_ok sc" and "password_in cmd pw"
  shows "returns (harmless cmd sc) (let (u, sc) = srv_verify w name pw sc in
     if u = None then ERR ''WRONGPASS'' ''Invalid username or password'' sc
     else OK_REPLY (gen_token w (fst sc, (snd sc)\<lparr>cn_user := u\<rparr>)))"
proof -
  have "returns (harmless cmd sc) (ERR ''WRONGPASS'' ''Invalid username or password'' (tick sc))"
    unfolding ERR_def by (rule returns_harmless [OF harmless_tick [OF assms(1)] emits_err]) simp
  moreover have "returns (harmless cmd sc) (OK_REPLY (gen_token w (fst (tick sc), (snd sc)\<lparr>cn_user := Some u\<rparr>)))"
    if "vc_auth_verify oom (sv_auth (fst sc)) name pw = Some u" for oom u
    unfolding OK_REPLY_def by (rule returns_harmless [OF harmless_login [OF assms(1) that assms(2)] emits_ok])
  ultimately show ?thesis by (auto simp: srv_verify_def)
qed

lemma auth_harmless:
  assumes "cmd_ok cmd" and "session_ok sc"
  shows "returns (harmless cmd sc) (cmd_auth w cmd sc)"
  using assms unfolding cmd_auth_def
  by (auto intro!: returns_intros verified_harmless password_arg(2) intro: harmless_reply)

lemma client_harmless:
  assumes "cmd_ok cmd" and "session_ok sc"
  shows "returns (harmless cmd sc) (cmd_client w cmd sc)"
proof -
  have "- (2 ^ 63) \<le> sint (cn_fd (snd sc))" "sint (cn_fd (snd sc)) \<le> 2 ^ 64"
    using sint_greater_eq [of "cn_fd (snd sc)"] sint_less [of "cn_fd (snd sc)"] by simp_all
  then show ?thesis
    using assms client_texts [OF assms(2)] snprintf_str [of 256 "client_info (snd sc)"] unfolding cmd_client_def
    by (auto simp: snprintf_def [of 512] sub_bytes_def BULK_def
        intro!: returns_intros returns_harmless [OF harmless_refl emits_bulk] intro: harmless_reply)
qed

lemma command_harmless:
  assumes "cmd_ok cmd" and "session_ok sc"
  shows "returns (harmless cmd sc) (cmd_command w cmd sc)"
proof -
  have nulls: "returns (harmless cmd sc) (send_nulls n sc1)" if "harmless cmd sc sc1" for n sc1
    using that
  proof (induction n arbitrary: sc1)
    case (Suc n)
    have "session_ok sc1" using Suc.prems by (simp add: harmless_def)
    then show ?case
      unfolding send_nulls.simps by (rule returns_null_bind) (use Suc harmless_replied in blast)
  qed simp
  show ?thesis
    unfolding cmd_command_def Let_def using assms
    by (auto intro!: returns_intros nulls intro: harmless_reply simp: cmd_ok_def small_argn)
qed

lemma replied_same: "replied s sc sc' \<Longrightarrow> fst sc' = fst sc \<and> cn_user (snd sc') = cn_user (snd sc)"
  by (simp add: replied_keeps)

lemma cluster_harmless:
  assumes "cmd_ok cmd" and "session_ok sc"
  shows "returns (harmless cmd sc) (cmd_cluster w cmd sc)"
proof -
  have "length (announce_addr (fst sc)) \<le> 2 ^ 20" "length (sv_node_id (fst sc)) \<le> 64"
    using assms(2) by (simp_all add: session_ok_def srv_ok_def)
  moreover have "- (2 ^ 63) \<le> uint p \<and> uint p \<le> 2 ^ 64" for p :: u16 by (rule uint_port)
  ultimately show ?thesis
    unfolding cmd_cluster_def using assms
    by (auto intro!: returns_intros simp: harmless_def cache_at_def dest!: replied_same)
qed

lemma acl_harmless:
  assumes "cmd_ok cmd" and "session_ok sc"
  shows "returns (harmless cmd sc) (cmd_acl w cmd sc)"
  unfolding cmd_acl_def using assms user_name_short [OF assms(2)]
  by (auto intro!: returns_intros simp: harmless_def cache_at_def dest!: replied_same)

text \<open>Every command of the table that needs no permission is harmless.\<close>

lemma table_open_harmless:
  assumes "(n, fn, 0) \<in> set cmd_table" "cmd_ok cmd" "session_ok sc"
  shows "returns (harmless cmd sc) (fn w cmd sc)"
proof -
  have "\<forall>e \<in> set cmd_table. snd (snd e) = 0 \<longrightarrow> returns (harmless cmd sc) (fst (snd e) w cmd sc)"
    unfolding cmd_table_def using assms(2,3)
    by (simp add: open_harmless reset_harmless hello_harmless auth_harmless client_harmless command_harmless
        cluster_harmless acl_harmless)
  then show ?thesis using assms(1) by fastforce
qed

lemma harmless_counted [simp]: "harmless cmd sc (counted sc') = harmless cmd sc sc'"
  by (cases sc') (simp add: harmless_def counted_def session_ok_def srv_ok_def announce_addr_def cache_at_def)

lemma dispatch_denied:
  assumes "cmd_args cmd = a # as" and "List.find (\<lambda>(n, _, _). is_word a n) cmd_table = Some (n, fn, acl)"
    and "acl \<noteq> 0" and "\<not> allowed acl sc" and "session_ok sc"
  shows "\<exists>sc'. vc_dispatch w cmd sc = Some sc' \<and> replied (denial sc) sc sc'"
proof -
  obtain sc' where "need_auth acl sc = Some (True, sc')" "replied (denial sc) sc sc'"
    using need_auth_denied [OF assms(4)] assms(5) unfolding session_ok_def by blast
  then show ?thesis using assms(1-3) by (simp add: vc_dispatch_def argn_def)
qed

section \<open>Commands that only read\<close>

definition ensures :: "('a \<Rightarrow> bool) \<Rightarrow> 'a option \<Rightarrow> bool" where
  "ensures P m \<longleftrightarrow> (\<forall>x. m = Some x \<longrightarrow> P x)"

text \<open>The same entries are stored, wherever they lie.\<close>

definition contents :: "vc_cache \<Rightarrow> (bytes \<times> bytes \<times> i64) multiset" where
  "contents c = mset (cache_list c)"

definition data_same :: "session \<Rightarrow> session \<Rightarrow> bool" where
  "data_same sc sc' \<longleftrightarrow> cache_ready (cache_at sc') \<and> contents (cache_at sc') = contents (cache_at sc)"

named_theorems ensures_intros \<open>rules for the steps of a handler that only reads\<close>

lemma ensures_Some [simp]: "ensures P (Some x) = P x" "ensures P None"
  by (simp_all add: ensures_def)

lemma ensures_if [ensures_intros]:
  "(b \<Longrightarrow> ensures P m) \<Longrightarrow> (\<not> b \<Longrightarrow> ensures P n) \<Longrightarrow> ensures P (if b then m else n)"
  by simp

lemma ensures_bind: "ensures Q m \<Longrightarrow> (\<And>x. Q x \<Longrightarrow> ensures P (f x)) \<Longrightarrow> ensures P (m \<bind> f)"
  by (auto simp: ensures_def split: Option.bind_splits)

lemma ensures_skip:
  "(\<And>x. ensures P (f x)) \<Longrightarrow> ensures P (m \<bind> f)"
  by (auto simp: ensures_def split: Option.bind_splits)

lemmas ensures_skips [ensures_intros] =
  ensures_skip [where m = "cptr_read c p n" for c p n]
  ensures_skip [where m = "sub_bytes b i n" for b i n]
  ensures_skip [where m = "keys_shards w m ss t ks" for w m ss t ks]
  ensures_skip [where m = "scan_shards w m ss cnt room sh slot t ks" for w m ss cnt room sh slot t ks]

lemma reply_cache: "reply wr sc = Some sc' \<Longrightarrow> cache_at sc' = cache_at sc"
  by (cases sc) (auto simp: reply_def cache_at_def split: Option.bind_splits)

lemma data_same_reply: "data_same sc sc1 \<Longrightarrow> reply wr sc1 = Some sc2 \<Longrightarrow> data_same sc sc2"
  using reply_cache [of wr sc1 sc2] by (simp add: data_same_def)

lemma ensures_reply: "data_same sc sc1 \<Longrightarrow> ensures (data_same sc) (reply wr sc1)"
  by (auto simp: ensures_def intro: data_same_reply)

lemma ensures_reply_bind:
  "data_same sc sc1 \<Longrightarrow> (\<And>sc2. data_same sc sc2 \<Longrightarrow> ensures P (f sc2)) \<Longrightarrow> ensures P (reply wr sc1 \<bind> f)"
  by (auto simp: ensures_def split: Option.bind_splits intro: data_same_reply)

lemmas ensures_replies [ensures_intros] =
  ensures_reply [of _ _ "resp_write_error (ascii code) (ascii m)" for code m, folded ERR_def]
  ensures_reply [of _ _ "resp_write_integer n" for n, folded INT_REPLY_def]
  ensures_reply [of _ _ "resp_write_bulk s" for s, folded BULK_def]
  ensures_reply [of _ _ "resp_write_array_header n" for n, folded ARRAY_def]
  ensures_reply [of _ _ "resp_write_simple (ascii s)" for s, folded SIMPLE_def]
  ensures_reply [of _ sc "resp_write_null_compat (cn_resp3 (snd sc))" for sc, folded NULLREPLY_def]
  ensures_reply
  ensures_reply_bind [of _ _ _ _ "resp_write_bulk s" for s, folded BULK_def]
  ensures_reply_bind [of _ _ _ _ "resp_write_array_header n" for n, folded ARRAY_def]
  ensures_reply_bind [of _ sc _ _ "resp_write_null_compat (cn_resp3 (snd sc))" for sc, folded NULLREPLY_def]
  ensures_reply_bind

lemma get_contents:
  assumes c: "cache_ready c" and key: "length key < 2 ^ 32" and g: "vc_get env c (Some key) = Some (err, p, n, c')"
  shows "contents c' = contents c"
proof -
  have cs: "safe_inv c" "length (c_shards c) = 64" using c by (simp_all add: cache_ready_def safe_inv_def)
  have i: "shard_of key < 64" by (rule shard_idx_less)
  obtain r where r: "get_slot env c key = Some r" "get_effect c key r (err, p, n, c')"
    using vc_get_ok [OF cs(1) key, of env] g by auto
  have rl: "r = UINT32_MAX \<or> unat r < length (table_of c (shard_of key))"
    using r(1) live_found [OF cs(1) key, of "clk1 env"] live_found [OF cs(1) key, of "clk2 env"]
    by (auto simp: get_slot_def Let_def split: if_splits)
  show ?thesis
  proof (cases "r = UINT32_MAX")
    case True
    then show ?thesis
      using r(2) cs(2) i by (auto simp: get_effect_def contents_def misses_one_def intro!: cache_list_put)
  next
    case False
    have tab: "tab_ok (table_of c (shard_of key))" using safe_inv_nth(2) [OF cs(1) i] by (simp add: shard_ok_def)
    have j: "unat r < length (table_of c (shard_of key))" using rl False by simp
    show ?thesis
      using False r(2) cs(2) i set_clock_keeps(2) [OF tab j, of 1]
      by (auto simp: get_effect_def contents_def hits_one_def touch_def intro!: cache_list_put)
  qed
qed

lemma ensures_get [ensures_intros]:
  assumes "data_same sc sc1" and "small_arg a" and "\<And>err p n sc2. data_same sc sc2 \<Longrightarrow> ensures P (f (err, p, n, sc2))"
  shows "ensures P (srv_get w a sc1 \<bind> f)"
proof -
  obtain key where k: "arg_bytes a = Some key" "length key \<le> 65536"
    using assms(2) by (auto elim: small_arg_bytes)
  then have kl: "length key < 2 ^ 32" by simp
  have ready: "cache_ready (cache_at sc1)" using assms(1) by (simp add: data_same_def)
  obtain err p n c where g: "vc_get (cache_env w sc1) (cache_at sc1) (Some key) = Some (err, p, n, c)" "cache_ready c"
    using vc_get_safe [OF ready kl] by blast
  have "data_same sc (with_cache c sc1)"
    using get_contents [OF ready kl g(1)] assms(1) g(2) by (simp add: data_same_def)
  then show ?thesis using k(1) g(1) assms(3) by (simp add: srv_get_def)
qed

lemma ensures_argn [ensures_intros]:
  assumes "cmd_ok cmd" and "\<And>a. small_arg a \<Longrightarrow> ensures P (f a)"
  shows "ensures P (argn cmd i \<bind> f)"
  using assms by (auto simp: argn_def nth_opt_def cmd_ok_def)

lemma need_auth_cache: "need_auth acl sc = Some (stop, sc') \<Longrightarrow> cache_at sc' = cache_at sc"
  by (cases sc) (auto simp: need_auth_def ERR_def dest: reply_cache split: if_splits Option.bind_splits)

lemma ensures_guarded [ensures_intros]:
  assumes "data_same sc sc1" and "\<And>sc2. data_same sc sc2 \<Longrightarrow> ensures (data_same sc) (body sc2)"
  shows "ensures (data_same sc) (guarded acl body sc1)"
proof -
  have "data_same sc sc2" if "need_auth acl sc1 = Some (stop, sc2)" for stop sc2
    using assms(1) need_auth_cache [OF that] by (simp add: data_same_def)
  then have "ensures (\<lambda>(stop, sc2). data_same sc sc2) (need_auth acl sc1)" by (auto simp: ensures_def)
  then show ?thesis unfolding guarded_def by (rule ensures_bind) (use assms(2) in auto)
qed

lemma data_same_tick [simp]:
  "data_same sc (tick sc') = data_same sc sc'" "data_same sc (with_tick t sc') = data_same sc sc'"
  by (simp_all add: data_same_def)

lemma mget_keys_same:
  assumes "\<forall>a \<in> set as. small_arg a" and "data_same sc sc1"
  shows "ensures (data_same sc) (mget_keys w as sc1)"
  using assms
proof (induction as arbitrary: sc1)
  case (Cons a as)
  have rest: "ensures (data_same sc) (mget_keys w as sc2)" if "data_same sc sc2" for sc2 using Cons that by simp
  show ?case
    unfolding mget_keys.simps
  proof (rule ensures_get [OF Cons.prems(2)], use Cons.prems in simp)
    fix err p n sc2 assume "data_same sc sc2"
    then show "ensures (data_same sc) (case (err, p, n, sc2) of (err, p, n, sc) \<Rightarrow> do {
        sc \<leftarrow> (if err = VC_OK then do { v \<leftarrow> cptr_read (cache_at sc) p n; BULK v sc } else NULLREPLY sc);
        mget_keys w as sc })"
      by (auto intro!: ensures_intros ensures_bind [of "data_same sc", OF _ rest])
  qed
qed simp

lemma exist_keys_same:
  assumes "\<forall>a \<in> set as. small_arg a" and "data_same sc sc1"
  shows "ensures (\<lambda>(n, sc'). data_same sc sc') (exist_keys w as k sc1)"
  using assms
proof (induction as arbitrary: sc1 k)
  case (Cons a as)
  show ?case
    unfolding exist_keys.simps by (rule ensures_get [OF Cons.prems(2)]) (use Cons in auto)
qed simp

lemma send_keys_same: "data_same sc sc1 \<Longrightarrow> ensures (data_same sc) (send_keys ks sc1)"
proof (induction ks arbitrary: sc1)
  case (Cons k ks)
  show ?case
    unfolding send_keys.simps
    by (rule ensures_skip, rule ensures_skip, unfold BULK_def, rule ensures_reply_bind [OF Cons.prems])
      (rule Cons.IH)
qed simp

lemma send_typed_same: "data_same sc sc1 \<Longrightarrow> ensures (data_same sc) (send_typed name wr sc1)"
  unfolding send_typed_def by (auto intro!: ensures_intros)

lemma send_value_same: "data_same sc sc1 \<Longrightarrow> ensures (data_same sc) (send_value w p v sc1)"
  unfolding send_value_def Let_def
  by (auto intro!: ensures_intros send_typed_same)

lemma readers_same:
  assumes "cmd_ok cmd" "data_same sc sc1"
  shows "ensures (data_same sc) (cmd_get w cmd sc1)" "ensures (data_same sc) (cmd_ttl w cmd sc1)"
    "ensures (data_same sc) (cmd_type w cmd sc1)" "ensures (data_same sc) (cmd_dbsize w cmd sc1)"
    "ensures (data_same sc) (cmd_info w cmd sc1)" "ensures (data_same sc) (cmd_vcinfo w cmd sc1)"
    "ensures (data_same sc) (cmd_vcget w cmd sc1)" "ensures (data_same sc) (cmd_object w cmd sc1)"
    "ensures (data_same sc) (cmd_xlen w cmd sc1)" "ensures (data_same sc) (cmd_srandmember w cmd sc1)"
  unfolding cmd_get_def cmd_ttl_def cmd_type_def cmd_dbsize_def cmd_info_def cmd_vcinfo_def cmd_vcget_def
    cmd_object_def cmd_xlen_def cmd_srandmember_def snprintf_def Let_def
  using assms by (auto intro!: ensures_intros send_value_same split: option.split)

lemma pttl_same: "cmd_ok cmd \<Longrightarrow> data_same sc sc1 \<Longrightarrow> ensures (data_same sc) (cmd_pttl w cmd sc1)"
  unfolding cmd_pttl_def by (rule readers_same)

lemma mget_same:
  assumes "cmd_ok cmd" "data_same sc sc1" shows "ensures (data_same sc) (cmd_mget w cmd sc1)"
  unfolding cmd_mget_def using assms by (auto intro!: ensures_intros mget_keys_same simp: tl_small)

lemma exists_same:
  assumes "cmd_ok cmd" "data_same sc sc1" shows "ensures (data_same sc) (cmd_exists w cmd sc1)"
  unfolding cmd_exists_def using assms
  by (auto intro!: ensures_intros ensures_bind [OF exist_keys_same] simp: tl_small)

lemma keys_same:
  assumes "data_same sc sc1" shows "ensures (data_same sc) (cmd_keys w cmd sc1)"
  unfolding cmd_keys_def srv_malloc_def
  using assms by (auto intro!: ensures_intros send_keys_same simp: Let_def)

lemma scan_same:
  assumes "cmd_ok cmd" "data_same sc sc1" shows "ensures (data_same sc) (cmd_scan w cmd sc1)"
  unfolding cmd_scan_def ptr_array_def srv_malloc_def
  using assms by (auto intro!: ensures_intros send_keys_same simp: Let_def)

text \<open>The commands of the table that need no other permission than to read.\<close>

lemma table_read_same:
  assumes "(n, fn, VC_ACL_READ) \<in> set cmd_table" "cmd_ok cmd" "data_same sc sc1"
  shows "ensures (data_same sc) (fn w cmd sc1)"
proof -
  have "\<forall>e \<in> set cmd_table. snd (snd e) = VC_ACL_READ \<longrightarrow> ensures (data_same sc) (fst (snd e) w cmd sc1)"
    unfolding cmd_table_def using assms(2,3)
    by (simp add: readers_same pttl_same mget_same exists_same keys_same scan_same)
  then show ?thesis using assms(1) by fastforce
qed

lemma table_acls: "(n, fn, acl) \<in> set cmd_table \<Longrightarrow> acl \<in> {0, VC_ACL_READ, VC_ACL_WRITE, VC_ACL_ADMIN}"
proof -
  have "\<forall>e \<in> set cmd_table. snd (snd e) \<in> {0, VC_ACL_READ, VC_ACL_WRITE, VC_ACL_ADMIN}"
    unfolding cmd_table_def by simp
  then show "(n, fn, acl) \<in> set cmd_table \<Longrightarrow> ?thesis" by fastforce
qed

section \<open>Properties\<close>

text \<open>A server with the small cache, one client and a machine that grants everything.\<close>

definition demo_world :: world where
  "demo_world = \<lparr>w_env = (\<lambda>t c. demo_env), w_oom = (\<lambda>t. False), w_buf = (\<lambda>t. (True, True, [])),
     w_random = (\<lambda>t. (None, None)), w_strtod = (\<lambda>s. 0), w_fmt_g = (\<lambda>d. ascii ''0'')\<rparr>"

definition demo_conn :: "vc_user option \<Rightarrow> vc_conn" where
  "demo_conn u = \<lparr>cn_fd = 7, cn_state = VC_CONN_CONNECTED, cn_ssl = None, cn_resp3 = False,
     cn_rbuf = Some \<lparr>b_data = [], b_cap = 16384, b_rpos = 0, b_oom = []\<rparr>,
     cn_wbuf = Some \<lparr>b_data = [], b_cap = 16384, b_rpos = 0, b_oom = []\<rparr>,
     cn_user = u, cn_token = [], cn_last_active = 0, cn_db_idx = 0,
     cn_peer_addr = ascii ''127.0.0.1'', cn_peer_port = 40000\<rparr>"

definition demo_cfg :: vc_server_cfg where
  "demo_cfg = \<lparr>cfg_bind_addr = None, cfg_port = 6379, cfg_tls_cert = None, cfg_tls_key = None,
     cfg_acl_file = None, cfg_worker_threads = 1, cfg_max_memory = 0, cfg_wal_path = None,
     cfg_shard_slots = 4, cfg_cluster_enabled = False, cfg_cluster_announce_addr = None,
     cfg_cluster_announce_port = 0, cfg_requirepass = None\<rparr>"

definition demo_server :: "bool \<Rightarrow> vc_cache \<Rightarrow> vcserver" where
  "demo_server auth c = \<lparr>sv_cfg = demo_cfg, sv_cache = c,
     sv_auth = \<lparr>db_users = [], db_require_auth = auth\<rparr>, sv_ssl_ctx = None, sv_listen_fd = 3,
     sv_epoll_fd = 4, sv_conns = [], sv_running = True, sv_total_conns = 1, sv_total_commands = 0,
     sv_rejected_auth = 0, sv_node_id = ascii ''0123456789abcdef'', sv_tick = 0\<rparr>"

lemma demo_world_ok: "world_ok demo_world"
  using demo_hyps(1) by (simp add: world_ok_def demo_world_def)

lemma demo_cache_ready: "cache_ready demo_cache"
  using cache_inv_safe [OF demo_cache_inv] by (simp add: cache_ready_def demo_cache_def)

lemma demo_session_ok:
  assumes "cache_ready c" and "\<forall>v. u = Some v \<longrightarrow> length (u_username v) \<le> 63"
  shows "session_ok (demo_server auth c, demo_conn u)"
  using assms
  by (simp add: session_ok_def srv_ok_def conn_ok_def demo_server_def demo_conn_def demo_cfg_def
      announce_addr_def buf_ok_def)

text \<open>A command from its words.\<close>

definition words :: "string list \<Rightarrow> vc_cmd" where
  "words ws = \<lparr>cmd_args = map (\<lambda>s. mk_arg (ascii s)) ws, cmd_vc_type = 0\<rparr>"

lemma words_ok:
  assumes "length ws \<le> 128" and "\<forall>s \<in> set ws. length s \<le> 65536"
  shows "cmd_ok (words ws)"
  using assms by (auto simp: cmd_ok_def words_def small_arg_def arg_ok_def mk_arg_def)



text \<open>The first matching line of the table asks for a permission.\<close>

definition needs_permission :: "vc_cmd \<Rightarrow> bool" where
  "needs_permission cmd \<longleftrightarrow> (cmd_args cmd \<noteq> [] \<and>
     (case List.find (\<lambda>(n, _, _). is_word (hd (cmd_args cmd)) n) cmd_table of
        None \<Rightarrow> False | Some (n, fn, acl) \<Rightarrow> acl \<noteq> 0))"



text \<open>
  C11 (safety): a client without the permissions to write and to administer cannot change what is
  stored: after any command that is answered, exactly the same keys are there, with the same values
  and the same expiry times.
\<close>

theorem readers_cannot_write:
  assumes "cmd_ok cmd" "session_ok sc" "\<not> allowed VC_ACL_WRITE sc" "\<not> allowed VC_ACL_ADMIN sc"
    and "vc_dispatch w cmd sc = Some sc'"
  shows "mset (cache_list (cache_at sc')) = mset (cache_list (cache_at sc))"
proof (cases "cmd_args cmd")
  case Nil
  then show ?thesis using assms(5) by (simp add: vc_dispatch_def)
next
  case (Cons a as)
  have start: "data_same sc sc" using session_cache_ready [OF assms(2)] by (simp add: data_same_def)
  show ?thesis
  proof (cases "List.find (\<lambda>(n, _, _). is_word a n) cmd_table")
    case None
    then have "reply (resp_write_error (ascii ''ERR'') unknown_command) sc = Some sc'"
      using assms(5) Cons by (simp add: vc_dispatch_def argn_def)
    then show ?thesis using reply_cache by simp
  next
    case (Some e)
    obtain n fn acl where e: "e = (n, fn, acl)" by (metis prod_cases3)
    have m: "(n, fn, acl) \<in> set cmd_table" using Some e by (auto simp: find_Some_iff in_set_conv_nth)
    have denied: ?thesis if "acl \<noteq> 0" "\<not> allowed acl sc"
      using dispatch_denied [OF Cons _ that assms(2), of n fn w] Some e assms(5) replied_keeps(5) by fastforce
    have run: "\<exists>sc1. fn w cmd sc = Some sc1 \<and> sc' = counted sc1" if "acl = 0 \<or> allowed acl sc"
      using assms(5) Cons Some e that need_auth_allowed [of acl sc]
      by (cases "acl = 0") (auto simp: vc_dispatch_def argn_def split: Option.bind_splits)
    have counted: "cache_at (counted sc1) = cache_at sc1" for sc1
      by (cases sc1) (simp add: counted_def cache_at_def)
    have "data_same sc sc1" if "acl \<in> {0, VC_ACL_READ}" "fn w cmd sc = Some sc1" for sc1
    proof (cases "acl = 0")
      case True
      then have "harmless cmd sc sc1"
        using table_open_harmless [OF m [unfolded True] assms(1,2), of w] that(2) by (simp add: returns_def)
      then show ?thesis using session_cache_ready [OF assms(2)] by (simp add: harmless_def data_same_def)
    next
      case False
      then have "acl = VC_ACL_READ" using that(1) by simp
      then show ?thesis
        using table_read_same [OF _ assms(1) start, of n fn w] m that(2) by (simp add: ensures_def)
    qed
    then show ?thesis
      using table_acls [OF m] denied run assms(3,4) counted
      by (cases "acl = 0 \<or> allowed acl sc") (fastforce simp: data_same_def contents_def)+
  qed
qed

theorem readers_cannot_write_witness:
  "\<exists>sc'. vc_dispatch demo_world (words [''GET'', ''k'']) (demo_server True demo_cache, demo_conn (Some (anon\<lparr>u_acl := VC_ACL_READ\<rparr>))) = Some sc'
     \<and> mset (cache_list (cache_at sc')) = mset (cache_list demo_cache)"
proof -
  let ?sc = "(demo_server True demo_cache, demo_conn (Some (anon\<lparr>u_acl := VC_ACL_READ\<rparr>)))"
  have ok: "session_ok ?sc" "cmd_ok (words [''GET'', ''k''])"
    by (auto intro!: demo_session_ok demo_cache_ready words_ok simp: anon_def)
  have "\<not> allowed VC_ACL_WRITE ?sc" "\<not> allowed VC_ACL_ADMIN ?sc"
    by (simp_all add: allowed_def demo_server_def demo_conn_def vc_acl_check_def)
  moreover have "\<exists>sc'. vc_dispatch demo_world (words [''GET'', ''k'']) ?sc = Some sc'"
    using dispatch_safe [OF ok(2) demo_world_ok ok(1)]
    by (auto simp: returns_def config_reads_before_def named_def words_def is_word_def arg_str_def mk_arg_def
        strcaseeq_def c_str_def ascii_def to_lower_def)
  ultimately show ?thesis
    using readers_cannot_write [OF ok(2,1), of demo_world] by (auto simp: cache_at_def demo_server_def)
qed

end
