(* ===== verification/CommandThms.thy ===== *)
theory CommandThms
  imports CommandAuth
begin

text \<open>
  What the commands do, in terms of the abstract store of the cache and the text of the replies.
  \<open>steady\<close> says that the clock does not move within one call of the cache.
\<close>

section \<open>Finding a command\<close>

lemma is_word_lower: "is_word a n \<longleftrightarrow> map to_lower (arg_str a) = map to_lower (ascii n)"
  by (simp add: is_word_def strcaseeq_def)

lemma table_names: "distinct (map (\<lambda>e. map to_lower (ascii (fst e))) cmd_table)"
proof -
  have names: "map fst cmd_table =
     [''PING'', ''HELLO'', ''AUTH'', ''SELECT'', ''QUIT'', ''CLIENT'', ''GET'', ''MGET'', ''EXISTS'', ''TTL'',
      ''PTTL'', ''TYPE'', ''DBSIZE'', ''KEYS'', ''SCAN'', ''INFO'', ''SET'', ''MSET'', ''DEL'', ''EXPIRE'',
      ''PERSIST'', ''RENAME'', ''APPEND'', ''INCR'', ''DECR'', ''INCRBY'', ''DECRBY'', ''FLUSHDB'', ''FLUSHALL'',
      ''CONFIG'', ''DEBUG'', ''COMMAND'', ''CLUSTER'', ''VCSET'', ''VCGET'', ''VCINFO'', ''RESET'', ''ACL'',
      ''LATENCY'', ''SLOWLOG'', ''OBJECT'', ''WAIT'', ''XLEN'', ''SRANDMEMBER'']"
    by (simp add: cmd_table_def)
  have "distinct (map (map to_lower \<circ> ascii) (map fst cmd_table))"
    unfolding names by code_simp
  then show ?thesis by (simp add: comp_def)
qed

lemma table_find:
  assumes "(n, fn, acl) \<in> set cmd_table" and "is_word a n"
  shows "List.find (\<lambda>(n, _, _). is_word a n) cmd_table = Some (n, fn, acl)"
proof -
  have "List.find (\<lambda>e. is_word a (fst e)) T = Some (n, fn, acl)"
    if "(n, fn, acl) \<in> set T" "distinct (map (\<lambda>e. map to_lower (ascii (fst e))) T)" for T
    using that
  proof (induction T)
    case (Cons e T)
    show ?case
    proof (cases "e = (n, fn, acl)")
      case True
      then show ?thesis using assms(2) by simp
    next
      case False
      then have m: "(n, fn, acl) \<in> set T" using Cons.prems(1) by auto
      then have "map to_lower (ascii (fst e)) \<noteq> map to_lower (ascii n)" using Cons.prems(2) by force
      then have "\<not> is_word a (fst e)" using assms(2) by (simp add: is_word_lower)
      then show ?thesis using Cons.IH m Cons.prems(2) by simp
    qed
  qed simp
  from this [OF assms(1) table_names] show ?thesis by (simp add: case_prod_unfold)
qed

lemma dispatch_runs:
  assumes "(n, fn, acl) \<in> set cmd_table" and "named cmd n" and "acl = 0 \<or> allowed acl sc"
  shows "vc_dispatch w cmd sc = do { sc \<leftarrow> fn w cmd sc; Some (counted sc) }"
proof -
  obtain a as where a: "cmd_args cmd = a # as" using assms(2) by (cases "cmd_args cmd") (auto simp: named_def)
  then have "is_word a n" using assms(2) by (simp add: named_def)
  then show ?thesis
    using table_find [OF assms(1), of a] assms(3) a need_auth_allowed [of acl sc]
    by (auto simp: vc_dispatch_def argn_def)
qed

section \<open>The cache seen by a session\<close>

definition steady :: "world \<Rightarrow> bool" where
  "steady w \<longleftrightarrow> (\<forall>t c. clk2 (w_env w t c) = clk1 (w_env w t c))"

definition store_at :: "session \<Rightarrow> store" where
  "store_at sc = cache_map (cache_at sc)"

definition clock_at :: "world \<Rightarrow> session \<Rightarrow> u64" where
  "clock_at w sc = clk1 (cache_env w sc)"

text \<open>What a lookup at this moment sees.\<close>

definition sees :: "world \<Rightarrow> session \<Rightarrow> bytes \<Rightarrow> bytes option" where
  "sees w sc k = visible (store_at sc) (clock_at w sc) k"

definition data_ok :: "session \<Rightarrow> bool" where
  "data_ok sc \<longleftrightarrow> session_ok sc \<and> store_inv (cache_at sc)"

lemma data_ok_replied: "replied s sc sc' \<Longrightarrow> data_ok sc \<Longrightarrow> data_ok sc'"
  using replied_ok [of s sc sc'] replied_keeps(5) [of s sc sc'] by (simp add: data_ok_def)

lemma store_replied: "replied s sc sc' \<Longrightarrow> store_at sc' = store_at sc"
  using replied_keeps(5) [of s sc sc'] by (simp add: store_at_def)

lemma get_data:
  assumes "data_ok sc" and "steady w" and "small_arg a" and "arg_bytes a = Some key"
  shows "\<exists>err p n c. srv_get w a sc = Some (err, p, n, with_cache c sc) \<and> data_ok (with_cache c sc)
     \<and> cache_map c = store_at sc
     \<and> (case sees w sc key of
          Some v \<Rightarrow> err = VC_OK \<and> n = length v \<and> cptr_read c p n = Some v \<and> length v \<le> 65535
        | None \<Rightarrow> err = VC_ERR_NOTFND)"
proof -
  let ?c = "cache_at sc" and ?env = "cache_env w sc"
  have c: "cache_inv ?c" "keys_distinct ?c" using assms(1) by (simp_all add: data_ok_def store_inv_def)
  have key: "length key < 2 ^ 32" using small_arg_bytes [OF assms(3)] assms(4) by force
  have st: "clk2 ?env = clk1 ?env" using assms(2) by (simp add: steady_def cache_env_def)
  obtain err p n c' where g: "vc_get ?env ?c (Some key) = Some (err, p, n, c')" "cache_inv c'"
    "mset (cache_list c') = mset (cache_list ?c)"
    "err = VC_OK \<and> (\<exists>v. visible (cache_map ?c) (clk1 ?env) key = Some v \<and> n = length v \<and> cptr_read c' p n = Some v)
      \<or> err = VC_ERR_NOTFND \<and> (visible (cache_map ?c) (clk1 ?env) key = None
            \<or> visible (cache_map ?c) (clk2 ?env) key = None)"
    using get_refines [OF c key, of ?env] by blast
  have ready: "cache_ready c'" "err = VC_OK \<Longrightarrow> n \<le> 65535"
    using vc_get_safe [OF session_cache_ready key, of sc ?env] assms(1) g(1) by (auto simp: data_ok_def)
  have m: "keys_distinct c'" "cache_map c' = cache_map ?c" using cache_map_cong [OF g(3)] c(2) by simp_all
  have "data_ok (with_cache c' sc)"
    using session_ok_cache [OF _ ready(1), of sc] assms(1) g(2) m(1) by (simp add: data_ok_def store_inv_def)
  moreover have "srv_get w a sc = Some (err, p, n, with_cache c' sc)" using assms(4) g(1) by (simp add: srv_get_def)
  ultimately show ?thesis
    using g(4) m(2) st ready(2) by (auto simp: sees_def store_at_def clock_at_def split: option.split)
qed

lemma data_ok_session: "data_ok sc \<Longrightarrow> session_ok sc"
  by (simp add: data_ok_def)

definition value_text :: "bool \<Rightarrow> bytes option \<Rightarrow> bytes" where
  "value_text resp3 v = (case v of Some v \<Rightarrow> bulk_text v | None \<Rightarrow> null_text resp3)"

lemma replied_counted:
  "replied s sc sc' \<Longrightarrow> snd (counted sc') = snd sc' \<and> cache_at (counted sc') = cache_at sc'"
  by (cases sc') (simp add: counted_def cache_at_def)

text \<open>
  The outcome of a command that replies \<open>s\<close> and leaves the store \<open>M\<close>: the session is well formed
  and the reply is what was added to the connection.
\<close>

definition outcome :: "bytes \<Rightarrow> store \<Rightarrow> session \<Rightarrow> session option \<Rightarrow> bool" where
  "outcome s M sc r \<longleftrightarrow> (\<exists>sc'. r = Some sc' \<and> data_ok sc' \<and> store_at sc' = M
     \<and> sv_auth (fst sc') = sv_auth (fst sc) \<and> (\<exists>srv. replied s (srv, snd sc) (srv, snd sc')))"

lemma replied_srv: "replied s (srv, conn) (srv, conn') \<Longrightarrow> replied s (srv', conn) (srv', conn')"
  by (auto simp: replied_def)

lemma data_ok_counted [simp]: "data_ok (counted sc) = data_ok sc"
  by (cases sc) (simp add: data_ok_def session_ok_def srv_ok_def counted_def cache_at_def announce_addr_def)

lemma outcome_counted: "outcome s M sc r \<Longrightarrow> outcome s M sc (r \<bind> (\<lambda>sc. Some (counted sc)))"
proof -
  have "snd (counted sc') = snd sc'" "store_at (counted sc') = store_at sc'"
    "sv_auth (fst (counted sc')) = sv_auth (fst sc')" for sc'
    by (cases sc'; simp add: counted_def store_at_def cache_at_def)+
  then show "outcome s M sc r \<Longrightarrow> ?thesis"
    unfolding outcome_def by (elim exE conjE, intro exI [of _ "counted _"]) auto
qed

lemma outcome_reply:
  assumes "data_ok sc1" and "emits wr s" and "snd sc1 = snd sc" and "store_at sc1 = M"
    and "sv_auth (fst sc1) = sv_auth (fst sc)"
  shows "outcome s M sc (reply wr sc1)"
proof -
  obtain sc' where r: "reply wr sc1 = Some sc'" "replied s sc1 sc'"
    using reply_replied [OF _ assms(2), of sc1] assms(1) by (auto simp: data_ok_def session_ok_def)
  have "replied s (fst sc1, snd sc) (fst sc1, snd sc')"
    using r(2) replied_keeps(1) [OF r(2)] assms(3) by (cases sc1; cases sc') simp
  then show ?thesis
    using r data_ok_replied [OF r(2) assms(1)] store_replied [OF r(2)] assms(4,5) replied_keeps(1) [OF r(2)]
    by (auto simp: outcome_def)
qed

lemma handler_outcome:
  assumes "(n, fn, acl) \<in> set cmd_table" and "named cmd n" and "acl = 0 \<or> allowed acl sc"
    and "outcome s M sc (fn w cmd sc)"
  shows "outcome s M sc (vc_dispatch w cmd sc)"
  using outcome_counted [OF assms(4)] dispatch_runs [OF assms(1-3), of w] by simp

lemma guarded_allowed: "allowed acl sc \<Longrightarrow> guarded acl body sc = body sc"
  by (simp add: guarded_def need_auth_allowed)

lemma arg1:
  assumes "cmd_ok cmd" and "1 < cmd_argc cmd"
  obtains a where "argn cmd 1 = Some a" "small_arg a" "a = cmd_args cmd ! 1"
  using assms small_argn [of cmd 1] by (auto simp: argn_def)

lemma get_outcome:
  assumes "data_ok sc" "steady w" "cmd_ok cmd" "allowed VC_ACL_READ sc" "cmd_argc cmd = 2"
    and key: "arg_bytes (cmd_args cmd ! 1) = Some key"
  shows "outcome (value_text (cn_resp3 (snd sc)) (sees w sc key)) (store_at sc) sc (cmd_get w cmd sc)"
proof -
  obtain a where a: "argn cmd 1 = Some a" "small_arg a" "a = cmd_args cmd ! 1"
    using arg1 [OF assms(3)] assms(5) by auto
  obtain err p n c where g: "srv_get w a sc = Some (err, p, n, with_cache c sc)" "data_ok (with_cache c sc)"
    "cache_map c = store_at sc"
    "case sees w sc key of
         Some v \<Rightarrow> err = VC_OK \<and> n = length v \<and> cptr_read c p n = Some v \<and> length v \<le> 65535
       | None \<Rightarrow> err = VC_ERR_NOTFND"
    using get_data [OF assms(1,2) a(2)] key a(3) by blast
  have st: "store_at (with_cache c sc) = store_at sc" using g(3) by (simp add: store_at_def)
  have argc: "\<not> argc_bad cmd 1 1" using assms(5) by (simp add: argc_bad_def)
  show ?thesis
  proof (cases "sees w sc key")
    case None
    have "outcome (null_text (cn_resp3 (snd sc))) (store_at sc) sc (NULLREPLY (with_cache c sc))"
      unfolding NULLREPLY_def at_simps by (rule outcome_reply [OF g(2) emits_null_compat]) (simp_all add: st)
    then show ?thesis
      using None g(1,4) a(1) argc by (simp add: cmd_get_def guarded_allowed [OF assms(4)] value_text_def)
  next
    case (Some v)
    have "outcome (bulk_text v) (store_at sc) sc (BULK v (with_cache c sc))"
      unfolding BULK_def using g(4) Some by (intro outcome_reply [OF g(2) emits_bulk]) (simp_all add: st)
    then show ?thesis
      using Some g(1,4) a(1) argc by (auto simp: cmd_get_def guarded_allowed [OF assms(4)] value_text_def)
  qed
qed

lemma set_data:
  assumes "data_ok sc" and "world_ok w" and "small_arg a" and key: "arg_bytes a = Some key"
    and put: "can_put (cache_env w sc) (cache_at sc) key val"
  shows "\<exists>c V. srv_set w a val ttl sc = Some (VC_OK, with_cache c sc) \<and> data_ok (with_cache c sc)
     \<and> key \<notin> V \<and> cache_map c = (store_at sc |` (- V))(key \<mapsto> (val, set_expiry (cache_env w sc) ttl))"
proof -
  obtain c V where p: "vc_set (cache_env w sc) (cache_at sc) (Some key) (Some val) ttl = Some (VC_OK, c)"
    "store_inv c" "key \<notin> V"
    "cache_map c = (cache_map (cache_at sc) |` (- V))(key \<mapsto> (val, set_expiry (cache_env w sc) ttl))"
    using put_law_cache [OF _ put, of ttl] assms(1) unfolding data_ok_def by blast
  have k: "length key \<le> 2 ^ 24" using small_arg_bytes [OF assms(3)] key by force
  have v: "length val \<le> 2 ^ 24" using put by (simp add: can_put_def)
  have "env_ok (c_mem (cache_at sc)) (cache_env w sc)" using assms(2) by (simp add: world_ok_def cache_env_def)
  then have "cache_ready c"
    using vc_set_safe [OF session_cache_ready _ k v, of sc "cache_env w sc" ttl] assms(1) p(1) by (auto simp: data_ok_def)
  then have "data_ok (with_cache c sc)"
    using session_ok_cache [of sc c] assms(1) p(2) by (simp add: data_ok_def)
  moreover have "srv_set w a val ttl sc = Some (VC_OK, with_cache c sc)" using p(1) key by (simp add: srv_set_def)
  ultimately show ?thesis using p(3,4) unfolding store_at_def by blast
qed

lemma set_plain_options: "cmd_argc cmd = 3 \<Longrightarrow> set_options cmd 3 opts = Some opts"
  by (simp add: set_options.simps)

text \<open>SET without options.\<close>

lemma set_outcome:
  assumes "data_ok sc" "world_ok w" "cmd_ok cmd" "allowed VC_ACL_WRITE sc" "cmd_argc cmd = 3"
    and key: "arg_bytes (cmd_args cmd ! 1) = Some key" and val: "arg_bytes (cmd_args cmd ! 2) = Some val" "val \<noteq> []"
    and put: "can_put (cache_env w sc) (cache_at sc) key val"
  shows "\<exists>V. key \<notin> V \<and> outcome ok_text ((store_at sc |` (- V))(key \<mapsto> (val, set_expiry (cache_env w sc) 0)))
     sc (cmd_set w cmd sc)"
proof -
  let ?k = "cmd_args cmd ! 1" and ?v = "cmd_args cmd ! 2"
  have small: "small_arg ?k" "small_arg ?v" "argn cmd 1 = Some ?k" "argn cmd 2 = Some ?v"
    using assms(3,5) small_argn by (auto simp: argn_def)
  have len: "length val = a_len ?v" "0 < a_len ?v"
    using small_arg_bytes [OF small(2)] val by force+
  then have v: "sub_bytes (a_buf ?v) 0 (if 0 < a_len ?v then a_len ?v else 1) = Some val"
    using val(1) by (simp add: arg_bytes_def)
  obtain c V where s: "srv_set w ?k val 0 sc = Some (VC_OK, with_cache c sc)" "data_ok (with_cache c sc)"
    "key \<notin> V" "cache_map c = (store_at sc |` (- V))(key \<mapsto> (val, set_expiry (cache_env w sc) 0))"
    using set_data [OF assms(1,2) small(1) key put] by blast
  have "outcome ok_text ((store_at sc |` (- V))(key \<mapsto> (val, set_expiry (cache_env w sc) 0))) sc (OK_REPLY (with_cache c sc))"
    unfolding OK_REPLY_def by (rule outcome_reply [OF s(2) emits_ok]) (simp_all add: store_at_def s(4))
  then show ?thesis
    using s(1,3) small(3,4) v set_plain_options [OF assms(5)] assms(5)
    by (intro exI [of _ V]) (simp add: cmd_set_def guarded_allowed [OF assms(4)])
qed

lemma outcomeE:
  assumes "outcome s M sc r"
  obtains sc' where "r = Some sc'" "data_ok sc'" "store_at sc' = M" "replied s (fst sc, snd sc) (fst sc, snd sc')"
    "sv_auth (fst sc') = sv_auth (fst sc)"
  using assms replied_srv unfolding outcome_def by blast

section \<open>Reading and writing\<close>

text \<open>
  C18 (refinement): GET on a server whose store is well formed replies the value the abstract store
  shows for the key at that moment, or null, and changes nothing in the store.
\<close>

theorem get_command:
  assumes "data_ok sc" "steady w" "cmd_ok cmd" "allowed VC_ACL_READ sc" "named cmd ''GET''" "cmd_argc cmd = 2"
    and "arg_bytes (cmd_args cmd ! 1) = Some key"
  shows "\<exists>sc'. vc_dispatch w cmd sc = Some sc' \<and> store_at sc' = store_at sc \<and> data_ok sc'
     \<and> replied (case visible (store_at sc) (clock_at w sc) key of
                  Some v \<Rightarrow> bulk_text v | None \<Rightarrow> null_text (cn_resp3 (snd sc)))
         sc (fst sc, snd sc')"
proof -
  have "(''GET'', cmd_get, VC_ACL_READ) \<in> set cmd_table" by (simp add: cmd_table_def)
  from handler_outcome [OF this assms(5) _ get_outcome [OF assms(1-4,6,7)]] assms(4)
  have "outcome (value_text (cn_resp3 (snd sc)) (sees w sc key)) (store_at sc) sc (vc_dispatch w cmd sc)" by simp
  then show ?thesis by (elim outcomeE) (auto simp: value_text_def sees_def)
qed

lemma demo_data_ok: "data_ok (demo_server auth demo_cache, demo_conn None)"
  using demo_session_ok [OF demo_cache_ready, of None auth] demo_cache_inv demo_cache_map(1)
  by (simp add: data_ok_def store_inv_def cache_at_def demo_server_def)

lemma demo_steady: "steady demo_world"
  by (simp add: steady_def demo_world_def demo_env_def)

lemma demo_allowed: "allowed acl (demo_server False c, conn)"
  by (simp add: allowed_def demo_server_def)

lemma words_named: "0 \<notin> set (ascii n) \<Longrightarrow> named (words (n # ws)) n"
proof -
  assume "0 \<notin> set (ascii n)"
  then have "takeWhile (\<lambda>b. b \<noteq> 0) (ascii n @ [0]) = ascii n" by (subst takeWhile_append2) auto
  then show ?thesis by (simp add: named_def words_def is_word_def arg_str_def mk_arg_def strcaseeq_def c_str_def)
qed

lemma words_arg:
  "i < length ws \<Longrightarrow> arg_bytes (cmd_args (words ws) ! i) = Some (ascii (ws ! i))"
  by (simp add: words_def mk_arg_def arg_bytes_def)

lemma words_argc [simp]: "cmd_argc (words ws) = length ws"
  by (simp add: words_def)

theorem get_command_witness:
  "\<exists>sc'. vc_dispatch demo_world (words [''GET'', ''k'']) (demo_server False demo_cache, demo_conn None) = Some sc'
     \<and> replied (null_text False) (demo_server False demo_cache, demo_conn None) (demo_server False demo_cache, snd sc')"
proof -
  have "named (words [''GET'', ''k'']) ''GET''" by (rule words_named) (simp add: ascii_def)
  moreover have "visible (store_at (demo_server False demo_cache, demo_conn None)) t k = None" for t k
    using demo_cache_map(2) by (simp add: visible_def store_at_def cache_at_def demo_server_def)
  moreover have "cn_resp3 (demo_conn None) = False" by (simp add: demo_conn_def)
  ultimately show ?thesis
    using get_command [OF demo_data_ok demo_steady words_ok demo_allowed, of "[''GET'', ''k'']" "ascii ''k''"]
      words_arg [of 1 "[''GET'', ''k'']"]
    by auto
qed

text \<open>
  What a client stores with SET it gets back with GET, byte for byte: SET of a
  key the store can take replies OK, and a GET of the key that follows replies the value.
\<close>

theorem set_then_get:
  assumes "data_ok sc" "world_ok w" "steady w" "cmd_ok scmd" "cmd_ok gcmd"
    and "allowed VC_ACL_READ sc" "allowed VC_ACL_WRITE sc"
    and "named scmd ''SET''" "cmd_argc scmd = 3" "named gcmd ''GET''" "cmd_argc gcmd = 2"
    and "arg_bytes (cmd_args scmd ! 1) = Some key" "arg_bytes (cmd_args scmd ! 2) = Some val"
    and "arg_bytes (cmd_args gcmd ! 1) = Some key"
    and "can_put (cache_env w sc) (cache_at sc) key val"
  shows "\<exists>sc1 sc2. vc_dispatch w scmd sc = Some sc1 \<and> replied (ascii ''+OK'' @ CRLF) sc (fst sc, snd sc1)
     \<and> vc_dispatch w gcmd sc1 = Some sc2 \<and> replied (bulk_text val) sc1 (fst sc1, snd sc2)"
proof -
  have val: "val \<noteq> []" using assms(15) by (simp add: can_put_def)
  have t: "(''SET'', cmd_set, VC_ACL_WRITE) \<in> set cmd_table" by (simp add: cmd_table_def)
  obtain V where "outcome ok_text ((store_at sc |` (- V))(key \<mapsto> (val, set_expiry (cache_env w sc) 0))) sc (cmd_set w scmd sc)"
    using set_outcome [OF assms(1,2,4,7,9,12,13) val assms(15)] by blast
  then have "outcome ok_text ((store_at sc |` (- V))(key \<mapsto> (val, set_expiry (cache_env w sc) 0))) sc (vc_dispatch w scmd sc)"
    using handler_outcome [OF t assms(8)] assms(7) by blast
  then obtain sc1 where 1: "vc_dispatch w scmd sc = Some sc1" "data_ok sc1" "replied ok_text (fst sc, snd sc) (fst sc, snd sc1)"
    "store_at sc1 = (store_at sc |` (- V))(key \<mapsto> (val, set_expiry (cache_env w sc) 0))"
    "sv_auth (fst sc1) = sv_auth (fst sc)"
    by (elim outcomeE)
  have "visible (store_at sc1) (clock_at w sc1) key = Some val"
    by (simp add: 1(4) visible_def set_expiry_def expired_at_def)
  moreover have "allowed VC_ACL_READ sc1" using assms(6) 1(3,5) replied_same [OF 1(3)] by (simp add: allowed_def)
  ultimately show ?thesis
    using 1(1,3) get_command [OF 1(2) assms(3,5) _ assms(10,11,14)] by auto
qed

lemma demo_can_put:
  assumes "key \<noteq> []" "val \<noteq> []" "length key + length val \<le> 32"
  shows "can_put (cache_env demo_world (demo_server auth demo_cache, conn)) (cache_at (demo_server auth demo_cache, conn)) key val"
  using assms demo_hyps demo_room [of key]
  by (simp add: can_put_def cache_env_def demo_world_def cache_at_def demo_server_def alloc_fails_def)

theorem set_then_get_witness:
  "\<exists>sc1 sc2. vc_dispatch demo_world (words [''SET'', ''k'', ''v'']) (demo_server False demo_cache, demo_conn None) = Some sc1
     \<and> vc_dispatch demo_world (words [''get'', ''k'']) sc1 = Some sc2
     \<and> replied (bulk_text (ascii ''v'')) sc1 (fst sc1, snd sc2)"
proof -
  let ?sc = "(demo_server False demo_cache, demo_conn None)"
  have "named (words [''SET'', ''k'', ''v'']) ''SET''" "named (words [''get'', ''k'']) ''GET''"
    by (simp_all add: named_def words_def is_word_def arg_str_def mk_arg_def strcaseeq_def c_str_def ascii_def to_lower_def)
  moreover have "can_put (cache_env demo_world ?sc) (cache_at ?sc) (ascii ''k'') (ascii ''v'')"
    by (rule demo_can_put) (simp_all add: ascii_def)
  moreover have "cmd_ok (words [''SET'', ''k'', ''v''])" "cmd_ok (words [''get'', ''k''])"
    by (rule words_ok; simp)+
  ultimately show ?thesis
    using set_then_get [OF demo_data_ok demo_world_ok demo_steady _ _ demo_allowed demo_allowed,
        of "words [''SET'', ''k'', ''v'']" "words [''get'', ''k'']" "ascii ''k''" "ascii ''v''"]
      words_arg [of 1 "[''SET'', ''k'', ''v'']"] words_arg [of 2 "[''SET'', ''k'', ''v'']"] words_arg [of 1 "[''get'', ''k'']"]
    by auto
qed

section \<open>Several keys\<close>

text \<open>
  What MGET replies: for each key what the store shows at the moment of its lookup, one tick of
  the clock after the one before.
\<close>

definition clock_of :: "world \<Rightarrow> (nat \<Rightarrow> u64) \<Rightarrow> bool" where
  "clock_of w clk \<longleftrightarrow> (\<forall>t c. clk1 (w_env w t c) = clk t \<and> clk2 (w_env w t c) = clk t)"

lemma clock_steady: "clock_of w clk \<Longrightarrow> steady w"
  by (simp add: clock_of_def steady_def)

lemma sees_clock: "clock_of w clk \<Longrightarrow> sees w sc k = visible (store_at sc) (clk (now_at sc)) k"
  by (simp add: sees_def clock_at_def cache_env_def clock_of_def)

lemma now_with_cache [simp]: "now_at (with_cache c sc) = Suc (now_at sc)" "now_at (tick sc) = Suc (now_at sc)"
  by (cases sc; simp add: now_at_def with_cache_def tick_def)+

primrec mget_text :: "bool \<Rightarrow> store \<Rightarrow> (nat \<Rightarrow> u64) \<Rightarrow> nat \<Rightarrow> bytes list \<Rightarrow> bytes" where
  "mget_text r M clk t [] = []"
| "mget_text r M clk t (k # ks) = value_text r (visible M (clk t) k) @ mget_text r M clk (Suc t) ks"

lemma mget_keys_outcome:
  assumes "data_ok sc" "clock_of w clk" "\<forall>a \<in> set as. small_arg a" "list_all2 (\<lambda>a k. arg_bytes a = Some k) as ks"
  shows "\<exists>sc'. mget_keys w as sc = Some sc' \<and> data_ok sc' \<and> store_at sc' = store_at sc
     \<and> sv_auth (fst sc') = sv_auth (fst sc)
     \<and> replied (mget_text (cn_resp3 (snd sc)) (store_at sc) clk (now_at sc) ks) (srv, snd sc) (srv, snd sc')"
  using assms
proof (induction as arbitrary: sc ks)
  case Nil
  obtain b where "cn_wbuf (snd sc) = Some b" "buf_ok b"
    using Nil.prems(1) by (auto simp: data_ok_def session_ok_def conn_ok_def)
  then have "replied [] (srv, snd sc) (srv, snd sc)"
    by (cases "snd sc") (auto simp: replied_def roomy_def)
  then show ?case using Nil by simp
next
  case (Cons a as)
  obtain k ks' where ks: "ks = k # ks'" "arg_bytes a = Some k" "list_all2 (\<lambda>a k. arg_bytes a = Some k) as ks'"
    using Cons.prems(4) by (auto simp: list_all2_Cons1)
  obtain err p n c where g: "srv_get w a sc = Some (err, p, n, with_cache c sc)" "data_ok (with_cache c sc)"
    "cache_map c = store_at sc"
    "case sees w sc k of
         Some v \<Rightarrow> err = VC_OK \<and> n = length v \<and> cptr_read c p n = Some v \<and> length v \<le> 65535
       | None \<Rightarrow> err = VC_ERR_NOTFND"
    using get_data [OF Cons.prems(1) clock_steady [OF Cons.prems(2)] _ ks(2)] Cons.prems(3) by auto
  let ?r = "cn_resp3 (snd sc)" and ?v = "sees w sc k"
  have conn: "conn_ok (snd (with_cache c sc))" using g(2) unfolding data_ok_def session_ok_def by blast
  have "\<exists>sc1. (if err = VC_OK then do { v \<leftarrow> cptr_read c p n; BULK v (with_cache c sc) }
              else NULLREPLY (with_cache c sc)) = Some sc1 \<and> replied (value_text ?r ?v) (with_cache c sc) sc1"
  proof (cases ?v)
    case None
    then show ?thesis using g(4) reply_replied [OF conn emits_null_compat] by (auto simp: NULLREPLY_def value_text_def)
  next
    case (Some v)
    then show ?thesis using g(4) reply_replied [OF conn emits_bulk, of v] by (auto simp: BULK_def value_text_def)
  qed
  then obtain sc1 where 1: "(if err = VC_OK then do { v \<leftarrow> cptr_read c p n; BULK v (with_cache c sc) }
              else NULLREPLY (with_cache c sc)) = Some sc1" "replied (value_text ?r ?v) (with_cache c sc) sc1" by blast
  have st: "store_at sc1 = store_at sc" using store_replied [OF 1(2)] g(3) by (simp add: store_at_def)
  have keep: "cn_resp3 (snd sc1) = ?r" "now_at sc1 = Suc (now_at sc)" "sv_auth (fst sc1) = sv_auth (fst sc)"
    using replied_keeps [OF 1(2)] by simp_all
  have r1: "replied (value_text ?r ?v) (srv, snd sc) (srv, snd sc1)"
    using 1(2) replied_srv [of _ "fst (with_cache c sc)"] replied_keeps(1) [OF 1(2)]
    by (metis at_simps(5) prod.collapse)
  obtain sc' where 2: "mget_keys w as sc1 = Some sc'" "data_ok sc'" "store_at sc' = store_at sc1"
    "sv_auth (fst sc') = sv_auth (fst sc1)"
    "replied (mget_text (cn_resp3 (snd sc1)) (store_at sc1) clk (now_at sc1) ks') (srv, snd sc1) (srv, snd sc')"
    using Cons.IH [OF data_ok_replied [OF 1(2) g(2)] Cons.prems(2) _ ks(3)] Cons.prems(3) by auto
  have "mget_keys w (a # as) sc = Some sc'" using g(1) 1(1) 2(1)
    by (cases "err = VC_OK") (auto split: Option.bind_split_asm)
  moreover have "replied (mget_text ?r (store_at sc) clk (now_at sc) ks) (srv, snd sc) (srv, snd sc')"
    using replied_trans [OF r1 2(5)] by (simp add: ks(1) st keep sees_clock [OF Cons.prems(2)])
  ultimately show ?case using 2(2-4) st keep(3) by simp
qed

text \<open>
  C19 (refinement): MGET replies an array with one element for each key, the value the abstract
  store shows for it at that moment or null, in the order of the keys, and changes nothing in
  the store.
\<close>

theorem mget_command:
  assumes "data_ok sc" "clock_of w clk" "cmd_ok cmd" "allowed VC_ACL_READ sc" "named cmd ''MGET''" "2 \<le> cmd_argc cmd"
    and "list_all2 (\<lambda>a k. arg_bytes a = Some k) (tl (cmd_args cmd)) keys"
  shows "\<exists>sc'. vc_dispatch w cmd sc = Some sc' \<and> store_at sc' = store_at sc \<and> data_ok sc'
     \<and> replied (array_text (int (length keys)) @ mget_text (cn_resp3 (snd sc)) (store_at sc) clk (now_at sc) keys)
         sc (fst sc, snd sc')"
proof -
  have t: "(''MGET'', cmd_mget, VC_ACL_READ) \<in> set cmd_table" by (simp add: cmd_table_def)
  have len: "length keys = cmd_argc cmd - 1" "cmd_argc cmd \<le> 128"
    using assms(3,7) by (auto simp: cmd_ok_def dest: list_all2_lengthD)
  have conn: "conn_ok (snd sc)" using assms(1) by (simp add: data_ok_def session_ok_def)
  have "emits (resp_write_array_header (int (length keys))) (array_text (int (length keys)))"
    using len by (intro emits_intros) simp_all
  then obtain sc1 where 1: "ARRAY (int (length keys)) sc = Some sc1" "replied (array_text (int (length keys))) sc sc1"
    using reply_replied [OF conn] unfolding ARRAY_def by blast
  have keep: "cn_resp3 (snd sc1) = cn_resp3 (snd sc)" "store_at sc1 = store_at sc" "now_at sc1 = now_at sc"
    "sv_auth (fst sc1) = sv_auth (fst sc)"
    using replied_keeps [OF 1(2)] by (simp_all add: store_at_def)
  obtain sc' where 2: "mget_keys w (tl (cmd_args cmd)) sc1 = Some sc'" "data_ok sc'" "store_at sc' = store_at sc1"
    "sv_auth (fst sc') = sv_auth (fst sc1)"
    "replied (mget_text (cn_resp3 (snd sc1)) (store_at sc1) clk (now_at sc1) keys) (fst sc, snd sc1) (fst sc, snd sc')"
    using mget_keys_outcome [OF data_ok_replied [OF 1(2) assms(1)] assms(2) tl_small(1) [OF assms(3)] assms(7)] by blast
  have p: "(fst sc, snd sc1) = sc1" using replied_keeps(1) [OF 1(2)] by (cases sc1) simp
  have "replied (array_text (int (length keys)) @ mget_text (cn_resp3 (snd sc)) (store_at sc) clk (now_at sc) keys)
      sc (fst sc, snd sc')"
    using replied_trans [OF 1(2) 2(5) [unfolded p keep]] .
  moreover have "cmd_mget w cmd sc = Some sc'"
    using 1(1) 2(1) len assms(6) by (simp add: cmd_mget_def guarded_allowed [OF assms(4)] of_nat_diff)
  ultimately have "outcome (array_text (int (length keys)) @ mget_text (cn_resp3 (snd sc)) (store_at sc) clk (now_at sc) keys)
      (store_at sc) sc (cmd_mget w cmd sc)"
    using 2(2-4) keep unfolding outcome_def by (metis prod.collapse)
  from handler_outcome [OF t assms(5) _ this] assms(4) show ?thesis by (auto elim!: outcomeE)
qed

theorem mget_command_witness:
  "\<exists>sc'. vc_dispatch demo_world (words [''MGET'', ''a'', ''b'']) (demo_server False demo_cache, demo_conn None) = Some sc'
     \<and> replied (array_text 2 @ null_text False @ null_text False)
         (demo_server False demo_cache, demo_conn None) (demo_server False demo_cache, snd sc')"
proof -
  let ?sc = "(demo_server False demo_cache, demo_conn None)"
  have "named (words [''MGET'', ''a'', ''b'']) ''MGET''" by (rule words_named) (simp add: ascii_def)
  moreover have "visible (store_at ?sc) t k = None" for t k
    using demo_cache_map(2) by (simp add: visible_def store_at_def cache_at_def demo_server_def)
  moreover have "clock_of demo_world (\<lambda>t. 5)" by (simp add: clock_of_def demo_world_def demo_env_def)
  moreover have "cn_resp3 (demo_conn None) = False" by (simp add: demo_conn_def)
  moreover have "list_all2 (\<lambda>a k. arg_bytes a = Some k) (tl (cmd_args (words [''MGET'', ''a'', ''b'']))) [ascii ''a'', ascii ''b'']"
    by (simp add: words_def mk_arg_def arg_bytes_def)
  moreover have "cmd_ok (words [''MGET'', ''a'', ''b''])" by (rule words_ok) simp_all
  ultimately show ?thesis
    using mget_command [OF demo_data_ok _ _ demo_allowed, of demo_world "\<lambda>t. 5" "words [''MGET'', ''a'', ''b'']" "[ascii ''a'', ascii ''b'']"]
    by (auto simp: value_text_def)
qed

end
