(* ===== verification/CounterThms.thy ===== *)
theory CounterThms
  imports CommandThms
begin

text \<open>
  The counters (INCR, DECR, INCRBY, DECRBY) and the typed values (VCSET, VCGET): what they store
  and what they reply.
\<close>

section \<open>Counters\<close>

definition counter_now :: "world \<Rightarrow> session \<Rightarrow> bytes \<Rightarrow> i64" where
  "counter_now w sc key = (case sees w sc key of Some v \<Rightarrow> stored_int v | None \<Rightarrow> 0)"

text \<open>The value is read by one call of the cache and written by the next.\<close>

definition next_put :: "world \<Rightarrow> session \<Rightarrow> arg \<Rightarrow> bytes \<Rightarrow> bytes \<Rightarrow> bool" where
  "next_put w sc a key val \<longleftrightarrow> (\<forall>err p n c. srv_get w a sc = Some (err, p, n, with_cache c sc) \<longrightarrow>
     can_put (w_env w (Suc (now_at sc)) c) c key val)"

lemma set_expiry_0 [simp]: "set_expiry env 0 = 0"
  by (simp add: set_expiry_def)

lemma incrby_outcome:
  fixes d delta :: i64
  assumes "data_ok sc" "world_ok w" "steady w" "cmd_ok cmd" "allowed VC_ACL_WRITE sc" "cmd_argc cmd \<in> {2, 3}"
    and key: "arg_bytes (cmd_args cmd ! 1) = Some key"
    and d: "d = (if cmd_argc cmd = 3 then parse_num (arg_str (cmd_args cmd ! 2)) else delta)"
    and new: "new = counter_now w sc key + d"
    and put: "next_put w sc (cmd_args cmd ! 1) key (int_payload new)"
  shows "\<exists>V. key \<notin> V \<and> outcome (bulk_text (int_payload new) @ int_text (sint new))
     ((store_at sc |` (- V))(key \<mapsto> (int_payload new, 0))) sc (cmd_incrby delta w cmd sc)"
proof -
  let ?a = "cmd_args cmd ! 1"
  have small: "small_arg ?a" "argn cmd 1 = Some ?a" "\<not> argc_bad cmd 1 2"
    using assms(4,6) small_argn by (auto simp: argn_def argc_bad_def)
  have delta: "(if cmd_argc cmd = 3 then do { a \<leftarrow> argn cmd 2; Some (parse_num (arg_str a)) } else Some delta) = Some d"
    using d by (simp add: argn_def)
  obtain err p n c where g: "srv_get w ?a sc = Some (err, p, n, with_cache c sc)" "data_ok (with_cache c sc)"
    "cache_map c = store_at sc"
    "case sees w sc key of
         Some v \<Rightarrow> err = VC_OK \<and> n = length v \<and> cptr_read c p n = Some v \<and> length v \<le> 65535
       | None \<Rightarrow> err = VC_ERR_NOTFND"
    using get_data [OF assms(1,3) small(1) key] by blast
  have cur: "(if err = VC_OK then do { v \<leftarrow> cptr_read c p n; Some (stored_int v) } else Some 0) = Some (counter_now w sc key)"
    using g(4) by (auto simp: counter_now_def split: option.splits)
  have conn: "conn_ok (snd (with_cache c sc))" using g(2) unfolding data_ok_def session_ok_def by blast
  obtain sc1 where 1: "reply (resp_write_vc_int64 new) (with_cache c sc) = Some sc1"
    "replied (bulk_text (int_payload new)) (with_cache c sc) sc1"
    using reply_replied [OF conn emits_typed_writers(1), of new] by (auto simp: int_payload_def typed_payload_def)
  have d1: "data_ok sc1" by (rule data_ok_replied [OF 1(2) g(2)])
  have keep: "cache_at sc1 = c" "now_at sc1 = Suc (now_at sc)" "store_at sc1 = store_at sc" "sv_auth (fst sc1) = sv_auth (fst sc)"
    using replied_keeps [OF 1(2)] g(3) by (simp_all add: store_at_def)
  have "can_put (cache_env w sc1) (cache_at sc1) key (int_payload new)"
    using put g(1) keep(1,2) unfolding next_put_def cache_env_def by metis
  then obtain c2 V where s: "srv_set w ?a (int_payload new) 0 sc1 = Some (VC_OK, with_cache c2 sc1)"
    "data_ok (with_cache c2 sc1)" "key \<notin> V"
    "cache_map c2 = (store_at sc1 |` (- V))(key \<mapsto> (int_payload new, set_expiry (cache_env w sc1) 0))"
    using set_data [OF d1 assms(2) small(1) key] by blast
  have conn2: "conn_ok (snd (with_cache c2 sc1))" using s(2) unfolding data_ok_def session_ok_def by blast
  have "emits (resp_write_integer (sint new)) (int_text (sint new))" by (rule emits_integer) (rule sint_range)+
  then obtain sc2 where 2: "INT_REPLY (sint new) (with_cache c2 sc1) = Some sc2"
    "replied (int_text (sint new)) (with_cache c2 sc1) sc2"
    using reply_replied [OF conn2] unfolding INT_REPLY_def by blast
  have run: "cmd_incrby delta w cmd sc = Some sc2"
    using small(2,3) delta g(1) cur 1(1) s(1) 2(1) new
    by (cases "err = VC_OK")
      (auto simp: cmd_incrby_def guarded_allowed [OF assms(5)] split: Option.bind_split_asm)
  have r1: "replied (bulk_text (int_payload new)) (fst sc, snd sc) (fst sc, snd sc1)"
    using 1(2) replied_keeps(1) [OF 1(2)] replied_srv by (metis at_simps(5) prod.collapse)
  have r2: "replied (int_text (sint new)) (fst sc, snd sc1) (fst sc, snd sc2)"
    using 2(2) replied_keeps(1) [OF 2(2)] replied_srv by (metis at_simps(5) prod.collapse)
  have "store_at sc2 = (store_at sc |` (- V))(key \<mapsto> (int_payload new, 0))"
    using store_replied [OF 2(2)] s(4) keep(3) by (simp add: store_at_def)
  moreover have "data_ok sc2" by (rule data_ok_replied [OF 2(2) s(2)])
  moreover have "sv_auth (fst sc2) = sv_auth (fst sc)" using replied_keeps(1) [OF 2(2)] keep(4) by simp
  ultimately show ?thesis
    using run replied_trans [OF r1 r2] s(3) unfolding outcome_def by blast
qed

lemma with_cache_inject:
  assumes "with_cache c sc = with_cache c' sc" shows "c = c'"
proof -
  have "cache_at (with_cache c sc) = cache_at (with_cache c' sc)" using assms by (rule arg_cong)
  then show ?thesis by simp
qed

lemma demo_next_put:
  assumes "key \<noteq> []" "val \<noteq> []" "length key + length val \<le> 32" "small_arg a" "arg_bytes a = Some key"
  shows "next_put demo_world (demo_server False demo_cache, conn) a key val"
proof -
  let ?sc = "(demo_server False demo_cache, conn)"
  have "can_put demo_env c key val" if "srv_get demo_world a ?sc = Some (err, p, n, with_cache c ?sc)" for err p n c
  proof -
    have env: "cache_env demo_world ?sc = demo_env" "cache_at ?sc = demo_cache"
      by (simp_all add: cache_env_def demo_world_def cache_at_def demo_server_def)
    have get: "vc_get demo_env demo_cache (Some key) = Some (err, p, n, c)"
      using that assms(5) unfolding srv_get_def env by (auto split: Option.bind_split_asm dest: with_cache_inject)
    have kl: "length key < 2 ^ 32" using assms(3) by simp
    obtain r where "get_effect demo_cache key r (err, p, n, c)"
      using vc_get_ok [OF cache_inv_safe [OF demo_cache_inv] kl, of demo_env] get by auto
    moreover have "visible (cache_map demo_cache) (clk1 demo_env) key = None"
      "visible (cache_map demo_cache) (clk2 demo_env) key = None"
      using demo_cache_map(2) by (simp_all add: visible_def)
    ultimately have "c = misses_one demo_cache (shard_of key)"
      using get_refines [OF demo_cache_inv demo_cache_map(1) kl, of demo_env] get
      by (auto simp: get_effect_def split: if_splits)
    moreover have "cache_map c = Map.empty"
      using get_refines [OF demo_cache_inv demo_cache_map(1) kl, of demo_env] get
        cache_map_cong [of c demo_cache] demo_cache_map by auto
    ultimately show ?thesis
      using assms(1-3) demo_hyps demo_room [of key] shard_idx_less [of "hash_key key"]
      by (auto simp: can_put_def alloc_fails_def wal_accepts_def not_stale_def misses_one_def put_shard_def
          can_make_room_def has_room_def demo_cache_def)
  qed
  then show ?thesis by (simp add: next_put_def demo_world_def)
qed

text \<open>
  INCR of a key adds one, modulo \<open>2 ^ 64\<close>, to the number stored there (0 if there is
  none) and stores the result in the typed form without expiry. It answers twice: a bulk reply
  with the typed bytes and then the integer, so a client that reads one reply for each command is
  one reply behind from then on.
\<close>

theorem incr_command:
  assumes "data_ok sc" "world_ok w" "steady w" "cmd_ok cmd" "allowed VC_ACL_WRITE sc"
    and "named cmd ''INCR''" "cmd_argc cmd = 2" "arg_bytes (cmd_args cmd ! 1) = Some key"
    and "next_put w sc (cmd_args cmd ! 1) key (int_payload (counter_now w sc key + 1))"
  shows "\<exists>V sc'. key \<notin> V \<and> vc_dispatch w cmd sc = Some sc'
     \<and> store_at sc' = (store_at sc |` (- V))(key \<mapsto> (int_payload (counter_now w sc key + 1), 0))
     \<and> replied (bulk_text (int_payload (counter_now w sc key + 1)) @ int_text (sint (counter_now w sc key + 1)))
         sc (fst sc, snd sc')"
proof -
  let ?new = "counter_now w sc key + 1"
  have t: "(''INCR'', cmd_incr, VC_ACL_WRITE) \<in> set cmd_table" by (simp add: cmd_table_def)
  obtain V where V: "key \<notin> V" "outcome (bulk_text (int_payload ?new) @ int_text (sint ?new))
     ((store_at sc |` (- V))(key \<mapsto> (int_payload ?new, 0))) sc (cmd_incrby 1 w cmd sc)"
    using incrby_outcome [OF assms(1-5) _ assms(8) refl refl, of 1] assms(7,9) by auto
  then have "outcome (bulk_text (int_payload ?new) @ int_text (sint ?new))
     ((store_at sc |` (- V))(key \<mapsto> (int_payload ?new, 0))) sc (vc_dispatch w cmd sc)"
    using handler_outcome [OF t assms(6)] assms(5) unfolding cmd_incr_def by blast
  then show ?thesis using V(1) by (elim outcomeE) (metis prod.collapse)
qed

theorem incr_command_witness:
  "\<exists>sc'. vc_dispatch demo_world (words [''INCR'', ''n'']) (demo_server False demo_cache, demo_conn None) = Some sc'
     \<and> replied (bulk_text (int_payload 1) @ int_text 1)
         (demo_server False demo_cache, demo_conn None) (demo_server False demo_cache, snd sc')"
proof -
  let ?sc = "(demo_server False demo_cache, demo_conn None)" and ?cmd = "words [''INCR'', ''n'']"
  have cur: "counter_now demo_world ?sc k = 0" for k
    using demo_cache_map(2)
    by (simp add: counter_now_def sees_def visible_def store_at_def cache_at_def demo_server_def)
  have ok: "cmd_ok ?cmd" "named ?cmd ''INCR''"
    by (rule words_ok; simp) (rule words_named, simp add: ascii_def)
  have arg: "arg_bytes (cmd_args ?cmd ! 1) = Some (ascii ''n'')" using words_arg [of 1 "[''INCR'', ''n'']"] by simp
  have "next_put demo_world ?sc (cmd_args ?cmd ! 1) (ascii ''n'') (int_payload (counter_now demo_world ?sc (ascii ''n'') + 1))"
    using arg small_argn [OF ok(1), of 1]
    by (intro demo_next_put) (simp_all add: int_payload_def ascii_def)
  then show ?thesis
    using incr_command [OF demo_data_ok demo_world_ok demo_steady ok(1) demo_allowed ok(2) _ arg] cur by auto
qed

text \<open>
  DECRBY with an amount adds the amount: the number stored and replied is the old one
  plus the argument, because the shared routine reads the argument again and drops the sign.
\<close>

theorem decrby_adds:
  assumes "data_ok sc" "world_ok w" "steady w" "cmd_ok cmd" "allowed VC_ACL_WRITE sc"
    and "named cmd ''DECRBY''" "cmd_argc cmd = 3" "arg_bytes (cmd_args cmd ! 1) = Some key"
    and "d = parse_num (arg_str (cmd_args cmd ! 2))"
    and "next_put w sc (cmd_args cmd ! 1) key (int_payload (counter_now w sc key + d))"
  shows "\<exists>V sc'. key \<notin> V \<and> vc_dispatch w cmd sc = Some sc'
     \<and> store_at sc' = (store_at sc |` (- V))(key \<mapsto> (int_payload (counter_now w sc key + d), 0))
     \<and> replied (bulk_text (int_payload (counter_now w sc key + d)) @ int_text (sint (counter_now w sc key + d)))
         sc (fst sc, snd sc')"
proof -
  let ?new = "counter_now w sc key + d"
  have t: "(''DECRBY'', cmd_decrby, VC_ACL_WRITE) \<in> set cmd_table" by (simp add: cmd_table_def)
  obtain V where V: "key \<notin> V" "outcome (bulk_text (int_payload ?new) @ int_text (sint ?new))
     ((store_at sc |` (- V))(key \<mapsto> (int_payload ?new, 0))) sc (cmd_incrby (- d) w cmd sc)"
    using incrby_outcome [OF assms(1-5) _ assms(8) _ refl, of d "- d"] assms(7,9,10) by auto
  moreover have "cmd_decrby w cmd sc = cmd_incrby (- d) w cmd sc"
    using assms(7,9) by (simp add: cmd_decrby_def by_arg_def argn_def)
  ultimately have "outcome (bulk_text (int_payload ?new) @ int_text (sint ?new))
     ((store_at sc |` (- V))(key \<mapsto> (int_payload ?new, 0))) sc (vc_dispatch w cmd sc)"
    using handler_outcome [OF t assms(6)] assms(5) by metis
  then show ?thesis using V(1) by (elim outcomeE) (metis prod.collapse)
qed

theorem decrby_adds_witness:
  "\<exists>sc'. vc_dispatch demo_world (words [''DECRBY'', ''n'', ''5'']) (demo_server False demo_cache, demo_conn None) = Some sc'
     \<and> replied (bulk_text (int_payload 5) @ int_text 5)
         (demo_server False demo_cache, demo_conn None) (demo_server False demo_cache, snd sc')"
proof -
  let ?sc = "(demo_server False demo_cache, demo_conn None)" and ?cmd = "words [''DECRBY'', ''n'', ''5'']"
  have cur: "counter_now demo_world ?sc k = 0" for k
    using demo_cache_map(2)
    by (simp add: counter_now_def sees_def visible_def store_at_def cache_at_def demo_server_def)
  have ok: "cmd_ok ?cmd" "named ?cmd ''DECRBY''"
    by (rule words_ok; simp) (rule words_named, simp add: ascii_def)
  have arg: "arg_bytes (cmd_args ?cmd ! 1) = Some (ascii ''n'')" using words_arg [of 1 "[''DECRBY'', ''n'', ''5'']"] by simp
  have d: "parse_num (arg_str (cmd_args ?cmd ! 2)) = 5" by code_simp
  have "next_put demo_world ?sc (cmd_args ?cmd ! 1) (ascii ''n'') (int_payload (counter_now demo_world ?sc (ascii ''n'') + 5))"
    using arg small_argn [OF ok(1), of 1]
    by (intro demo_next_put) (simp_all add: int_payload_def ascii_def)
  then show ?thesis
    using decrby_adds [OF demo_data_ok demo_world_ok demo_steady ok(1) demo_allowed ok(2) _ arg d [symmetric]] cur by auto
qed

end
