(* ===== verification/TypedThms.thy ===== *)
theory TypedThms
  imports CounterThms
begin

text \<open>
  Typed values: what VCGET shows of a value stored with VCSET.
\<close>

text \<open>The reply of VCGET for a value stored as \<open>vcset_payload\<close>.\<close>

definition typed_name :: "u8 \<Rightarrow> string" where
  "typed_name t =
     (if t = VC_TYPE_INT64 then ''int'' else if t = VC_TYPE_FLOAT64 then ''float''
      else if t = VC_TYPE_BOOL then ''bool'' else if t = VC_TYPE_JSON then ''json'' else ''binary'')"

definition typed_value :: "world \<Rightarrow> u8 \<Rightarrow> arg \<Rightarrow> bytes \<Rightarrow> bytes" where
  "typed_value w t val v =
     (if t = VC_TYPE_INT64 then int_text (sint (parse_num (arg_str val)))
      else if t = VC_TYPE_FLOAT64 then ascii '','' @ w_fmt_g w (w_strtod w (arg_str val)) @ CRLF
      else if t = VC_TYPE_BOOL
      then ascii ''#'' @ (if is_word val ''true'' \<or> arg_str val = ascii ''1'' then ascii ''t'' else ascii ''f'') @ CRLF
      else bulk_text v)"

definition typed_reply :: "world \<Rightarrow> u8 \<Rightarrow> arg \<Rightarrow> bytes \<Rightarrow> bytes" where
  "typed_reply w t val v = map_text 2 @ bulk_text (ascii ''type'') @ bulk_text (ascii (typed_name t))
     @ bulk_text (ascii ''value'') @ typed_value w t val v"

lemma send_typed_replies:
  assumes "conn_ok (snd sc)" and "emits wr s" and "length name \<le> 64"
  shows "\<exists>sc'. send_typed name wr sc = Some sc'
     \<and> replied (bulk_text (ascii name) @ bulk_text (ascii ''value'') @ s) sc sc'"
proof -
  have keep: "conn_ok (snd sc')" if "replied t sc1 sc'" "conn_ok (snd sc1)" for t sc1 sc'
    using that by (auto simp: replied_def conn_ok_def)
  obtain sc1 where 1: "BULK (ascii name) sc = Some sc1" "replied (bulk_text (ascii name)) sc sc1"
    using reply_replied [OF assms(1) emits_bulk, of "ascii name"] assms(3) by (auto simp: BULK_def)
  obtain sc2 where 2: "BULK (ascii ''value'') sc1 = Some sc2" "replied (bulk_text (ascii ''value'')) sc1 sc2"
    using reply_replied [OF keep [OF 1(2) assms(1)] emits_bulk, of "ascii ''value''"] by (auto simp: BULK_def)
  obtain sc3 where 3: "reply wr sc2 = Some sc3" "replied s sc2 sc3"
    using reply_replied [OF keep [OF 2(2) keep [OF 1(2) assms(1)]] assms(2)] by blast
  have "send_typed name wr sc = Some sc3" using 1(1) 2(1) 3(1) by (simp add: send_typed_def)
  then show ?thesis using replied_trans [OF 1(2) replied_trans [OF 2(2) 3(2)]] by blast
qed

lemma typed_payload_parts:
  "has_typed (typed_payload t p) = True" "typed_payload t p ! 4 = t" "drop 5 (typed_payload t p) = p"
  "typed_payload t [x] ! 5 = x"
proof -
  have m: "VC_WIRE_MAGIC = [42, 86, 67, 49]" by (simp add: VC_WIRE_MAGIC_def ascii_def)
  show "has_typed (typed_payload t p) = True" "typed_payload t p ! 4 = t" "drop 5 (typed_payload t p) = p"
    "typed_payload t [x] ! 5 = x"
    by (simp_all add: has_typed_def typed_payload_def m)
qed

text \<open>How a typed value is shown, whatever stored it.\<close>

lemma send_value_replies:
  assumes "conn_ok (snd sc)" "world_ok w" and v: "cptr_read (cache_at sc) p (length v) = Some v"
    and "length v \<le> 65535" "has_typed v" "v ! 4 = t"
    and e: "t = VC_TYPE_INT64 \<Longrightarrow> name = ''int'' \<and> s = int_text (sint (of_le (take 8 (drop 5 v)) :: i64))"
      "t = VC_TYPE_FLOAT64 \<Longrightarrow> length v = 13 \<and> name = ''float'' \<and> s = ascii '','' @ w_fmt_g w (of_le (drop 5 v)) @ CRLF"
      "t = VC_TYPE_BOOL \<Longrightarrow> length v = 6 \<and> name = ''bool'' \<and> s = ascii ''#'' @ (if v ! 5 \<noteq> 0 then ascii ''t'' else ascii ''f'') @ CRLF"
      "t = VC_TYPE_JSON \<Longrightarrow> name = ''json'' \<and> s = bulk_text (drop 5 v)"
      "t \<notin> {VC_TYPE_INT64, VC_TYPE_FLOAT64, VC_TYPE_BOOL, VC_TYPE_JSON} \<Longrightarrow> name = ''binary'' \<and> s = bulk_text (drop 5 v)"
  shows "\<exists>sc'. send_value w p v sc = Some sc'
     \<and> replied (map_text 2 @ bulk_text (ascii ''type'') @ bulk_text (ascii name) @ bulk_text (ascii ''value'') @ s) sc sc'"
proof -
  have keep: "conn_ok (snd sc')" if "replied t sc1 sc'" "conn_ok (snd sc1)" for t sc1 sc'
    using that by (auto simp: replied_def conn_ok_def)
  obtain sc1 where 1: "reply (resp_write_map_header 2) sc = Some sc1" "replied (map_text 2) sc sc1"
    using reply_replied [OF assms(1) emits_map_header, of 2] by auto
  obtain sc2 where 2: "BULK (ascii ''type'') sc1 = Some sc2" "replied (bulk_text (ascii ''type'')) sc1 sc2"
    using reply_replied [OF keep [OF 1(2) assms(1)] emits_bulk, of "ascii ''type''"] by (auto simp: BULK_def)
  have conn: "conn_ok (snd sc2)" using keep [OF 2(2) keep [OF 1(2) assms(1)]] .
  have c: "cptr_read (cache_at sc2) p (length v) = Some v"
    using replied_keeps(5) [OF 1(2)] replied_keeps(5) [OF 2(2)] v by simp
  have fmt: "length (w_fmt_g w d) < 253" for d
  proof -
    have "length (w_fmt_g w d) \<le> 32" using assms(2) by (simp add: world_ok_def)
    then show ?thesis by simp
  qed
  have show_as: "\<exists>sc'. send_value w p v sc = Some sc'
     \<and> replied (map_text 2 @ bulk_text (ascii ''type'') @ bulk_text (ascii name) @ bulk_text (ascii ''value'') @ s) sc sc'"
    if "send_value w p v sc = send_typed name wr sc2" "emits wr s" "length name \<le> 64" for wr
    using send_typed_replies [OF conn that(2,3)] that(1) replied_trans [OF 1(2) replied_trans [OF 2(2)]] by auto
  note sv = send_value_def 1(1) 2(1) Let_def
  consider "t = VC_TYPE_INT64" | "t = VC_TYPE_FLOAT64" | "t = VC_TYPE_BOOL" | "t = VC_TYPE_JSON"
    | "t \<notin> {VC_TYPE_INT64, VC_TYPE_FLOAT64, VC_TYPE_BOOL, VC_TYPE_JSON}" by auto
  then show ?thesis
  proof cases
    case 1
    then show ?thesis
      using assms(5,6) e(1) emits_integer [OF sint_range]
      by (intro show_as [of "resp_write_integer (sint (of_le (take 8 (drop 5 v)) :: i64))"]) (simp_all add: sv)
  next
    case 2
    then show ?thesis
      using assms(5,6) e(2) c fmt
      by (intro show_as [of "resp_write_double (w_fmt_g w) (of_le (drop 5 v))"]) (auto simp: sv intro: emits_double)
  next
    case 3
    then show ?thesis
      using assms(5,6) e(3) c emits_bool
      by (intro show_as [of "resp_write_bool (v ! 5 \<noteq> 0)"]) (simp_all add: sv)
  next
    case 4
    then show ?thesis
      using assms(4-6) e(4) by (intro show_as [of "resp_write_bulk (drop 5 v)"]) (auto simp: sv intro: emits_bulk)
  next
    case 5
    then show ?thesis
      using assms(4-6) e(5) by (intro show_as [of "resp_write_bulk (drop 5 v)"]) (auto simp: sv intro: emits_bulk)
  qed
qed

lemma le8_roundtrip [simp]: "of_le (le_bytes 8 (x :: u64)) = x"
  by (rule of_le_le_bytes) simp

text \<open>A value that VCSET encoded is shown as what it was.\<close>

lemma send_payload_replies:
  assumes "conn_ok (snd sc)" "world_ok w" "pl = vcset_payload w t val v" "cptr_read (cache_at sc) p (length pl) = Some pl"
    and "length pl \<le> 65535"
  shows "\<exists>sc'. send_value w p pl sc = Some sc' \<and> replied (typed_reply w t val v) sc sc'"
proof -
  define t' where "t' = (if t \<in> {VC_TYPE_INT64, VC_TYPE_FLOAT64, VC_TYPE_BOOL, VC_TYPE_JSON} then t else VC_TYPE_BINARY)"
  have "has_typed pl" "pl ! 4 = t'"
    by (simp_all add: assms(3) vcset_payload_def typed_payload_parts t'_def)
  then show ?thesis
    unfolding typed_reply_def
    by (rule send_value_replies [OF assms(1,2,4,5)])
      (auto simp: assms(3) vcset_payload_def typed_payload_parts t'_def typed_name_def typed_value_def split: if_splits)
qed

lemma vcset_outcome:
  assumes "data_ok sc" "world_ok w" "cmd_ok cmd" "allowed VC_ACL_WRITE sc" "cmd_argc cmd = 4"
    and key: "arg_bytes (cmd_args cmd ! 1) = Some key" and t: "type_byte (cmd_args cmd ! 2) = Some t"
    and val: "arg_bytes (cmd_args cmd ! 3) = Some v" and buf: "w_buf w (now_at sc) = (True, True, oom)"
    and pl: "pl = vcset_payload w t (cmd_args cmd ! 3) v" and put: "can_put (cache_env w (tick sc)) (cache_at sc) key pl"
  shows "\<exists>V. key \<notin> V \<and> outcome ok_text ((store_at sc |` (- V))(key \<mapsto> (pl, 0))) sc (cmd_vcset w cmd sc)"
proof -
  let ?k = "cmd_args cmd ! 1" and ?v = "cmd_args cmd ! 3"
  have small: "small_arg ?k" "small_arg ?v" "argn cmd 1 = Some ?k" "argn cmd 2 = Some (cmd_args cmd ! 2)" "argn cmd 3 = Some ?v"
    using assms(3,5) small_argn by (auto simp: argn_def)
  have d: "data_ok (tick sc)" "store_at (tick sc) = store_at sc" using assms(1) by (simp_all add: data_ok_def store_at_def)
  obtain c V where s: "srv_set w ?k pl 0 (tick sc) = Some (VC_OK, with_cache c (tick sc))" "data_ok (with_cache c (tick sc))"
    "key \<notin> V" "cache_map c = (store_at (tick sc) |` (- V))(key \<mapsto> (pl, set_expiry (cache_env w (tick sc)) 0))"
    using set_data [OF d(1) assms(2) small(1) key, of pl 0] put by auto
  have "outcome ok_text ((store_at sc |` (- V))(key \<mapsto> (pl, 0))) sc (OK_REPLY (with_cache c (tick sc)))"
    unfolding OK_REPLY_def by (rule outcome_reply [OF s(2) emits_ok]) (simp_all add: store_at_def s(4) d(2) [unfolded store_at_def])
  moreover have "cmd_vcset w cmd sc = OK_REPLY (with_cache c (tick sc))"
    using small(3-5) t buf vcset_store_eq [OF small(2) val, of w t ?k oom "tick sc"] s(1) assms(5)
    by (simp add: cmd_vcset_def guarded_allowed [OF assms(4)] vc_buf_new_def Let_def pl)
  ultimately show ?thesis using s(3) by metis
qed

lemma vcget_outcome:
  assumes "data_ok sc" "world_ok w" "steady w" "cmd_ok cmd" "allowed VC_ACL_READ sc" "cmd_argc cmd = 2"
    and key: "arg_bytes (cmd_args cmd ! 1) = Some key" and sees: "sees w sc key = Some (vcset_payload w t val v)"
  shows "outcome (typed_reply w t val v) (store_at sc) sc (cmd_vcget w cmd sc)"
proof -
  let ?a = "cmd_args cmd ! 1" and ?pl = "vcset_payload w t val v"
  have small: "small_arg ?a" "argn cmd 1 = Some ?a" "\<not> argc_bad cmd 1 1"
    using assms(4,6) small_argn by (auto simp: argn_def argc_bad_def)
  obtain p c where g: "srv_get w ?a sc = Some (VC_OK, p, length ?pl, with_cache c sc)" "data_ok (with_cache c sc)"
    "cache_map c = store_at sc" "cptr_read c p (length ?pl) = Some ?pl" "length ?pl \<le> 65535"
    using get_data [OF assms(1,3) small(1) key] sees by auto
  have conn: "conn_ok (snd (with_cache c sc))" using g(2) unfolding data_ok_def session_ok_def by blast
  obtain sc' where 1: "send_value w p ?pl (with_cache c sc) = Some sc'" "replied (typed_reply w t val v) (with_cache c sc) sc'"
    using send_payload_replies [OF conn assms(2) refl _ g(5), of p] g(4) by auto
  have "cmd_vcget w cmd sc = Some sc'"
    using small(2,3) g(1,4) 1(1) by (simp add: cmd_vcget_def guarded_allowed [OF assms(5)])
  moreover have "replied (typed_reply w t val v) (fst sc, snd sc) (fst sc, snd sc')"
    using 1(2) replied_keeps(1) [OF 1(2)] replied_srv by (metis at_simps(5) prod.collapse)
  moreover have "store_at sc' = store_at sc" using store_replied [OF 1(2)] g(3) by (simp add: store_at_def)
  moreover have "sv_auth (fst sc') = sv_auth (fst sc)" using replied_keeps(1) [OF 1(2)] by simp
  ultimately show ?thesis using data_ok_replied [OF 1(2) g(2)] unfolding outcome_def by blast
qed



end
