(* ===== verification/Server.thy ===== *)
theory Server
  imports CommandTable
begin

text \<open>
  The network server of \<^verbatim>\<open>net/server.c\<close>: connections and their buffers, reading, dispatching and
  flushing, the TLS handshake, and what a worker thread does with an event. The kernel and the
  TLS library are outside the program: a socket carries the results of the calls that will be
  made on it, in order, and records what was written to it and which events it is watched for.
  A socket without further results would block. The pool of connections is worked on by one
  thread at a time.
\<close>

section \<open>Sockets\<close>

abbreviation (input) EAGAIN :: int where "EAGAIN \<equiv> 11"
abbreviation (input) EWOULDBLOCK :: int where "EWOULDBLOCK \<equiv> 11"
abbreviation (input) SSL_ERROR_WANT_READ :: int where "SSL_ERROR_WANT_READ \<equiv> 2"
abbreviation (input) SSL_ERROR_WANT_WRITE :: int where "SSL_ERROR_WANT_WRITE \<equiv> 3"

abbreviation (input) EPOLLIN :: u32 where "EPOLLIN \<equiv> 1"
abbreviation (input) EPOLLOUT :: u32 where "EPOLLOUT \<equiv> 4"
abbreviation (input) EPOLLERR :: u32 where "EPOLLERR \<equiv> 8"
abbreviation (input) EPOLLHUP :: u32 where "EPOLLHUP \<equiv> 0x10"
abbreviation (input) EPOLLRDHUP :: u32 where "EPOLLRDHUP \<equiv> 0x2000"
abbreviation (input) EPOLLET :: u32 where "EPOLLET \<equiv> 0x80000000"

text \<open>
  The result of a call: the bytes received (none at the end of the stream) or the number of bytes
  taken; otherwise the error, \<^verbatim>\<open>errno\<close> or what \<^verbatim>\<open>SSL_get_error\<close> reports. A handshake call has its
  return value and its error.
\<close>

datatype recv_result = Recv bytes | Recv_err int
datatype send_result = Sent nat | Send_err int

record sock =
  sk_recv :: "recv_result list"
  sk_send :: "send_result list"
  sk_hand :: "(int \<times> int) list"
  sk_out :: bytes
  sk_watch :: "u32 option"
  sk_open :: bool

text \<open>The clock of the server and what \<^verbatim>\<open>SSL_new\<close> returns, by the ticks of the server.\<close>

record host =
  h_world :: world
  h_mono :: "nat \<Rightarrow> i64"
  h_ssl :: "nat \<Rightarrow> nat option"

section \<open>Connections\<close>

abbreviation (input) VC_MAX_CONNS :: nat where "VC_MAX_CONNS \<equiv> 16384"
abbreviation (input) VC_RBUF_INIT :: nat where "VC_RBUF_INIT \<equiv> 16 * 1024"
abbreviation (input) VC_WBUF_INIT :: nat where "VC_WBUF_INIT \<equiv> 16 * 1024"

definition first_free :: "vc_conn list \<Rightarrow> nat option" where
  "first_free cs = find_index (\<lambda>c. cn_state c = VC_CONN_FREE) cs"

definition new_buf :: "world \<Rightarrow> nat \<Rightarrow> nat \<Rightarrow> vc_buf option" where
  "new_buf w t cap = (case w_buf w t of (ok1, ok2, oom) \<Rightarrow> vc_buf_new ok1 ok2 oom cap)"

text \<open>The token, the descriptor and the address of the slot are left as they were.\<close>

definition conn_init :: "host \<Rightarrow> nat \<Rightarrow> vc_conn \<Rightarrow> vc_conn" where
  "conn_init h t c = c\<lparr>cn_state := VC_CONN_CONNECTED, cn_rbuf := new_buf (h_world h) t VC_RBUF_INIT,
     cn_wbuf := new_buf (h_world h) (t + 1) VC_WBUF_INIT, cn_user := None, cn_resp3 := False,
     cn_ssl := None, cn_db_idx := 0, cn_last_active := h_mono h (t + 2)\<rparr>"

definition conn_alloc :: "host \<Rightarrow> vcserver \<Rightarrow> nat option \<times> vcserver" where
  "conn_alloc h srv =
     (case first_free (sv_conns srv) of
        None \<Rightarrow> (None, srv)
      | Some i \<Rightarrow> (Some i, srv\<lparr>sv_conns := (sv_conns srv)[i := conn_init h (sv_tick srv) (sv_conns srv ! i)],
                             sv_tick := sv_tick srv + 3\<rparr>))"

definition conn_close :: "vc_conn \<times> sock \<Rightarrow> vc_conn \<times> sock" where
  "conn_close = (\<lambda>(conn, k).
     if cn_state conn = VC_CONN_FREE then (conn, k)
     else (conn\<lparr>cn_ssl := None, cn_fd := - 1, cn_rbuf := None, cn_wbuf := None, cn_state := VC_CONN_FREE\<rparr>,
           k\<lparr>sk_watch := None, sk_open := False\<rparr>))"

section \<open>Input and output\<close>

definition conn_read :: "nat \<Rightarrow> recv_result list \<Rightarrow> recv_result \<times> recv_result list" where
  "conn_read len rs =
     (case rs of [] \<Rightarrow> (Recv_err EAGAIN, [])
      | Recv s # rs \<Rightarrow> (Recv (take len s), rs)
      | Recv_err e # rs \<Rightarrow> (Recv_err e, rs))"

definition conn_write :: "nat \<Rightarrow> send_result list \<Rightarrow> send_result \<times> send_result list" where
  "conn_write len ws =
     (case ws of [] \<Rightarrow> (Send_err EAGAIN, [])
      | Sent n # ws \<Rightarrow> (Sent (min n len), ws)
      | Send_err e # ws \<Rightarrow> (Send_err e, ws))"

lemma conn_write_shorter: "conn_write len ws = (Sent n, ws') \<Longrightarrow> length ws' < length ws"
  by (auto simp: conn_write_def split: list.splits send_result.splits)

text \<open>The loop of \<^verbatim>\<open>conn_flush\<close>; the last component is what reaches the peer.\<close>

function flush_loop :: "vc_buf \<Rightarrow> send_result list \<Rightarrow> bytes \<Rightarrow> int \<times> vc_buf \<times> send_result list \<times> bytes" where
  "flush_loop b ws out =
     (if b_rpos b < b_len b then
        (case conn_write (b_len b - b_rpos b) ws of
           (Sent n, ws) \<Rightarrow>
             if 0 < n
             then flush_loop (b\<lparr>b_rpos := b_rpos b + n\<rparr>) ws (out @ take n (drop (b_rpos b) (b_data b)))
             else (- 1, b, ws, out)
         | (Send_err err, ws) \<Rightarrow>
             if err = EAGAIN \<or> err = EWOULDBLOCK \<or> err = SSL_ERROR_WANT_WRITE then (1, b, ws, out)
             else (- 1, b, ws, out))
      else (0, vc_buf_reset b, ws, out))"
  by pat_completeness auto
termination
  by (relation "measure (\<lambda>(b, ws, out). length ws)") (simp_all add: conn_write_shorter [OF sym])

declare flush_loop.simps [simp del]

definition conn_flush :: "vc_conn \<times> sock \<Rightarrow> (int \<times> vc_conn \<times> sock) option" where
  "conn_flush = (\<lambda>(conn, k). do {
     b \<leftarrow> cn_wbuf conn;
     let (r, b, ws, out) = flush_loop b (sk_send k) (sk_out k);
     Some (r, conn\<lparr>cn_wbuf := Some b\<rparr>, k\<lparr>sk_send := ws, sk_out := out\<rparr>)
   })"

section \<open>Requests\<close>

definition set_rbuf :: "vc_buf \<Rightarrow> session \<Rightarrow> session" where
  "set_rbuf b sc = (fst sc, (snd sc)\<lparr>cn_rbuf := Some b\<rparr>)"

definition touch :: "host \<Rightarrow> session \<Rightarrow> session" where
  "touch h sc = (case tick sc of (srv, conn) \<Rightarrow> (srv, conn\<lparr>cn_last_active := h_mono h (now_at sc)\<rparr>))"

lemma conn_read_shorter: "conn_read len rs = (Recv s, rs') \<Longrightarrow> length rs' < length rs"
  by (auto simp: conn_read_def split: list.splits recv_result.splits)

text \<open>
  The first loop of \<^verbatim>\<open>process_conn\<close>: read until the socket has no more. The first component tells
  to go on; otherwise the connection is to be closed.
\<close>

function read_loop :: "host \<Rightarrow> session \<Rightarrow> recv_result list \<Rightarrow> (bool \<times> session \<times> recv_result list) option" where
  "read_loop h sc rs = do {
     b \<leftarrow> cn_rbuf (snd sc);
     (ok, b) \<leftarrow> vc_buf_grow b 4096;
     if \<not> ok then Some (False, set_rbuf b sc, rs)
     else case conn_read (b_cap b - b_len b) rs of
         (Recv s, rs) \<Rightarrow>
           if s \<noteq> [] then read_loop h (touch h (set_rbuf (b\<lparr>b_data := b_data b @ s\<rparr>) sc)) rs
           else Some (False, set_rbuf b sc, rs)
       | (Recv_err err, rs) \<Rightarrow>
           Some (err = EAGAIN \<or> err = EWOULDBLOCK \<or> err = SSL_ERROR_WANT_READ, set_rbuf b sc, rs)
   }"
  by pat_completeness auto
termination
  by (relation "measure (\<lambda>(h, sc, rs). length rs)") (simp_all add: conn_read_shorter [OF sym])

declare read_loop.simps [simp del]

text \<open>Each allocation of the parser is a tick.\<close>

definition parse_next :: "world \<Rightarrow> session \<Rightarrow> bytes \<Rightarrow> resp_parse_result" where
  "parse_next w sc buf = resp_parse_command (\<lambda>i. w_oom w (now_at sc + i)) buf"

definition after_parse :: "session \<Rightarrow> session" where
  "after_parse sc = with_tick (now_at sc + VC_MAX_ARGS) sc"

definition consume :: "nat \<Rightarrow> session \<Rightarrow> session option" where
  "consume n sc = do { b \<leftarrow> cn_rbuf (snd sc); Some (set_rbuf (vc_buf_consume b n) sc) }"

text \<open>
  The second loop: parse and dispatch all complete commands. It ends with whether the connection
  is to be flushed and closed. An argument that is a null pointer counts as a fault.
\<close>

partial_function (option) serve_loop :: "world \<Rightarrow> session \<Rightarrow> (bool \<times> session) option" where
  "serve_loop w sc = do {
     b \<leftarrow> cn_rbuf (snd sc);
     if b_data b = [] then Some (False, sc)
     else (case parse_next w sc (b_data b) of
         RESP_PARSE_MORE \<Rightarrow> Some (False, sc)
       | RESP_PARSE_ERR \<Rightarrow> do { sc \<leftarrow> ERR ''ERR'' ''protocol error'' sc; Some (True, sc) }
       | RESP_PARSE_NULL \<Rightarrow> None
       | RESP_PARSE_OK cmd consumed \<Rightarrow> do {
           sc \<leftarrow> vc_dispatch w cmd (after_parse sc);
           sc \<leftarrow> consume consumed sc;
           if cn_state (snd sc) = VC_CONN_CLOSING then Some (True, sc) else serve_loop w sc
         })
   }"

type_synonym served = "session \<times> sock"

definition close_served :: "served \<Rightarrow> served" where
  "close_served = (\<lambda>((srv, conn), k). let (conn, k) = conn_close (conn, k) in ((srv, conn), k))"

definition flush_served :: "served \<Rightarrow> (int \<times> served) option" where
  "flush_served = (\<lambda>((srv, conn), k). do {
     (r, conn, k) \<leftarrow> conn_flush (conn, k);
     Some (r, (srv, conn), k)
   })"

definition watch :: "u32 \<Rightarrow> served \<Rightarrow> served" where
  "watch ev = (\<lambda>(sc, k). (sc, k\<lparr>sk_watch := Some ev\<rparr>))"

text \<open>The end of \<^verbatim>\<open>process_conn\<close>: flush and close, or flush and wait for the rest to be taken.\<close>

definition finish_conn :: "bool \<Rightarrow> served \<Rightarrow> served option" where
  "finish_conn stop = (\<lambda>(sc, k).
     if stop then do { (_, s) \<leftarrow> flush_served (sc, k); Some (close_served s) }
     else do {
       b \<leftarrow> cn_wbuf (snd sc);
       if 0 < b_len b then do {
         (r, s) \<leftarrow> flush_served (sc, k);
         if r = - 1 then Some (close_served s)
         else if r = 1 then Some (watch (EPOLLIN OR EPOLLOUT OR EPOLLET OR EPOLLRDHUP) s)
         else Some s
       }
       else Some (sc, k)
     })"

definition process_conn :: "host \<Rightarrow> served \<Rightarrow> served option" where
  "process_conn h = (\<lambda>(sc, k). do {
     (go, sc, rs) \<leftarrow> read_loop h sc (sk_recv k);
     let k = k\<lparr>sk_recv := rs\<rparr>;
     if \<not> go then Some (close_served (sc, k))
     else do {
       (stop, sc) \<leftarrow> serve_loop (h_world h) sc;
       finish_conn stop (sc, k)
     }
   })"

text \<open>A handshake call without a further result asks for more.\<close>

definition tls_do_handshake :: "served \<Rightarrow> served" where
  "tls_do_handshake = (\<lambda>((srv, conn), k).
     let (r, err) = (case sk_hand k of [] \<Rightarrow> (- 1, SSL_ERROR_WANT_READ) | x # _ \<Rightarrow> x);
         k = k\<lparr>sk_hand := tl (sk_hand k)\<rparr>
     in if r = 1
        then ((srv, conn\<lparr>cn_state := (if db_require_auth (sv_auth srv) then VC_CONN_CONNECTED else VC_CONN_AUTHED)\<rparr>), k)
        else if err = SSL_ERROR_WANT_READ \<or> err = SSL_ERROR_WANT_WRITE then ((srv, conn), k)
        else close_served ((srv, conn), k))"

section \<open>Worker threads\<close>

text \<open>
  The pool with the socket of each connection. Serving a connection works on it and the server
  and puts it back into its slot.
\<close>

record net =
  n_srv :: vcserver
  n_sock :: "nat \<Rightarrow> sock"

definition serving :: "nat \<Rightarrow> (served \<Rightarrow> served option) \<Rightarrow> net \<Rightarrow> net option" where
  "serving i f n = do {
     conn \<leftarrow> nth_opt (sv_conns (n_srv n)) i;
     ((srv, conn), k) \<leftarrow> f ((n_srv n, conn), n_sock n i);
     Some \<lparr>n_srv = srv\<lparr>sv_conns := (sv_conns srv)[i := conn]\<rparr>, n_sock = (n_sock n)(i := k)\<rparr>
   }"

text \<open>An accepted connection: its descriptor, the address when it is an IP address, its socket.\<close>

record peer =
  p_fd :: i32
  p_addr :: "(bytes \<times> u16) option"
  p_sock :: sock

definition conn_setup :: "host \<Rightarrow> peer \<Rightarrow> served \<Rightarrow> served option" where
  "conn_setup h p = (\<lambda>((srv, conn), _). do {
     let conn = conn\<lparr>cn_fd := p_fd p\<rparr>;
     let conn = (case p_addr p of None \<Rightarrow> conn
                 | Some (a, port) \<Rightarrow> conn\<lparr>cn_peer_addr := a, cn_peer_port := port\<rparr>);
     (srv, conn) \<leftarrow> (case sv_ssl_ctx srv of None \<Rightarrow> Some (srv, conn)
       | Some _ \<Rightarrow> do {
           ssl \<leftarrow> h_ssl h (sv_tick srv);
           Some (srv\<lparr>sv_tick := Suc (sv_tick srv)\<rparr>, conn\<lparr>cn_ssl := Some ssl, cn_state := VC_CONN_TLS_HAND\<rparr>)
         });
     Some ((srv\<lparr>sv_total_conns := sv_total_conns srv + 1\<rparr>, conn),
           (p_sock p)\<lparr>sk_watch := Some (EPOLLIN OR EPOLLET OR EPOLLRDHUP), sk_open := True\<rparr>)
   })"

primrec accept_loop :: "host \<Rightarrow> peer list \<Rightarrow> net \<Rightarrow> net option" where
  "accept_loop h [] n = Some n"
| "accept_loop h (p # ps) n =
     (case conn_alloc h (n_srv n) of
        (None, srv) \<Rightarrow> accept_loop h ps (n\<lparr>n_srv := srv\<rparr>)
      | (Some i, srv) \<Rightarrow> do {
          n \<leftarrow> serving i (conn_setup h p) (n\<lparr>n_srv := srv\<rparr>);
          accept_loop h ps n
        })"

text \<open>An event: connections at the listening socket, or conditions of the connection in a slot.\<close>

datatype event = Ev_listen "peer list" | Ev_conn nat u32

definition conn_event :: "host \<Rightarrow> u32 \<Rightarrow> served \<Rightarrow> served option" where
  "conn_event h evmask = (\<lambda>s.
     if cn_state (snd (fst s)) = VC_CONN_FREE then Some s
     else if evmask AND (EPOLLRDHUP OR EPOLLHUP OR EPOLLERR) \<noteq> 0 then Some (close_served s)
     else if cn_state (snd (fst s)) = VC_CONN_TLS_HAND then Some (tls_do_handshake s)
     else do {
       (gone, s) \<leftarrow>
         (if evmask AND EPOLLOUT \<noteq> 0 then do {
            (r, s) \<leftarrow> flush_served s;
            if r = - 1 then Some (True, close_served s)
            else if r = 0 then Some (False, watch (EPOLLIN OR EPOLLET OR EPOLLRDHUP) s)
            else Some (False, s)
          }
          else Some (False, s));
       if \<not> gone \<and> evmask AND EPOLLIN \<noteq> 0 then process_conn h s else Some s
     })"

definition handle_event :: "host \<Rightarrow> event \<Rightarrow> net \<Rightarrow> net option" where
  "handle_event h ev n =
     (case ev of Ev_listen ps \<Rightarrow> accept_loop h ps n
      | Ev_conn i evmask \<Rightarrow> serving i (conn_event h evmask) n)"

primrec handle_events :: "host \<Rightarrow> event list \<Rightarrow> net \<Rightarrow> net option" where
  "handle_events h [] n = Some n"
| "handle_events h (ev # evs) n = do { n \<leftarrow> handle_event h ev n; handle_events h evs n }"

abbreviation (input) VC_CONN_TIMEOUT_S :: i64 where "VC_CONN_TIMEOUT_S \<equiv> 300"

definition idle :: "i64 \<Rightarrow> vc_conn \<Rightarrow> bool" where
  "idle now c \<longleftrightarrow> cn_state c \<noteq> VC_CONN_FREE \<and> 0 \<le> sint (cn_fd c)
     \<and> sint (VC_CONN_TIMEOUT_S * 1000000000) < sint (now - cn_last_active c)"

text \<open>The sweep over the pool, from slot \<open>j\<close> on.\<close>

primrec sweep :: "i64 \<Rightarrow> nat \<Rightarrow> vc_conn list \<Rightarrow> (nat \<Rightarrow> sock) \<Rightarrow> vc_conn list \<times> (nat \<Rightarrow> sock)" where
  "sweep now j [] ks = ([], ks)"
| "sweep now j (c # cs) ks =
     (let (c, k) = (if idle now c then conn_close (c, ks j) else (c, ks j));
          (cs, ks) = sweep now (Suc j) cs (ks(j := k))
      in (c # cs, ks))"

definition idle_sweep :: "host \<Rightarrow> net \<Rightarrow> net" where
  "idle_sweep h n =
     (let srv = n_srv n; (cs, ks) = sweep (h_mono h (sv_tick srv)) 0 (sv_conns srv) (n_sock n)
      in \<lparr>n_srv = srv\<lparr>sv_conns := cs, sv_tick := Suc (sv_tick srv)\<rparr>, n_sock = ks\<rparr>)"

text \<open>
  One turn of a worker's loop. \<^verbatim>\<open>epoll_wait\<close> returns events, is interrupted or fails; the counter
  of the sweep belongs to the thread.
\<close>

datatype wait_result = Events "event list" | Interrupted | Failed

primrec worker_loop :: "host \<Rightarrow> wait_result list \<Rightarrow> nat \<Rightarrow> net \<Rightarrow> net option" where
  "worker_loop h [] c n = Some n"
| "worker_loop h (r # rs) c n =
     (if \<not> sv_running (n_srv n) then Some n
      else case r of Interrupted \<Rightarrow> worker_loop h rs c n
      | Failed \<Rightarrow> Some n
      | Events evs \<Rightarrow> do {
          n \<leftarrow> handle_events h evs n;
          if 10 \<le> Suc c then worker_loop h rs 0 (idle_sweep h n) else worker_loop h rs (Suc c) n
        })"

end
