(* ===== verification/CommandFrame.thy ===== *)
theory CommandFrame
  imports CommandAuth
begin

text \<open>
  What commands leave alone. A property of sessions that the basic steps of a handler keep is
  kept by the handlers: by the commands open to everybody, when it survives replies and the
  changes of a login; by all commands, when it also survives changes of the cache. The first
  kind is that the cache is untouched; the second that the received bytes, the socket and the
  address of the connection, the configuration, the users and the pool are untouched, that the
  state of the connection changes only to closing and that who is logged in stays logged in.
\<close>

named_theorems frame_intros \<open>rules for the steps of a handler\<close>

lemma tick_with_tick: "tick sc = with_tick (Suc (now_at sc)) sc"
  by (cases sc) (simp add: tick_def with_tick_def now_at_def)

lemma gen_token_cases: "gen_token w sc = tick sc \<or> (\<exists>t. gen_token w sc = tick (fst sc, (snd sc)\<lparr>cn_token := t\<rparr>))"
  by (cases "vc_auth_gen_token (fst (w_random w (now_at sc))) (snd (w_random w (now_at sc)))")
    (auto simp: gen_token_def)

section \<open>Commands open to everybody\<close>

locale session_frame =
  fixes kept :: "session \<Rightarrow> session \<Rightarrow> bool"
  assumes kept_reply: "kept sc sc1 \<Longrightarrow> reply wr sc1 = Some sc2 \<Longrightarrow> kept sc sc2"
    and kept_with_tick: "kept sc sc1 \<Longrightarrow> kept sc (with_tick t sc1)"
    and kept_user: "kept sc (srv, conn) \<Longrightarrow> kept sc (srv, conn\<lparr>cn_user := Some u\<rparr>)"
    and kept_token: "kept sc (srv, conn) \<Longrightarrow> kept sc (srv, conn\<lparr>cn_token := tk\<rparr>)"
    and kept_resp3: "kept sc (srv, conn) \<Longrightarrow> kept sc (srv, conn\<lparr>cn_resp3 := r\<rparr>)"
    and kept_db: "kept sc (srv, conn) \<Longrightarrow> kept sc (srv, conn\<lparr>cn_db_idx := i\<rparr>)"
    and kept_closing: "kept sc (srv, conn) \<Longrightarrow> kept sc (srv, conn\<lparr>cn_state := VC_CONN_CLOSING\<rparr>)"
    and kept_counted: "kept sc sc1 \<Longrightarrow> kept sc (counted sc1)"
begin

lemma kept_tick [frame_intros]: "kept sc sc1 \<Longrightarrow> kept sc (tick sc1)"
  unfolding tick_with_tick by (rule kept_with_tick)

lemma kept_tick_pair [frame_intros]: "kept sc sc1 \<Longrightarrow> kept sc (fst (tick sc1), (snd sc1)\<lparr>cn_user := Some u\<rparr>)"
  using kept_user [of sc "fst (tick sc1)" "snd sc1"] kept_tick [of sc sc1]
  by (cases sc1) (simp add: tick_def)

lemma kept_gen_token [frame_intros]: "kept sc sc1 \<Longrightarrow> kept sc (gen_token w sc1)"
proof -
  assume f: "kept sc sc1"
  then have "kept sc (fst sc1, (snd sc1)\<lparr>cn_token := t\<rparr>)" for t
    using kept_token [of sc "fst sc1" "snd sc1"] by simp
  then show ?thesis using gen_token_cases [of w sc1] kept_tick f by metis
qed

lemmas kept_steps [frame_intros] = kept_with_tick kept_resp3 kept_db kept_closing kept_counted

lemma keeps_reply [frame_intros]: "kept sc sc1 \<Longrightarrow> ensures (kept sc) (reply wr sc1)"
  by (auto simp: ensures_def intro: kept_reply)

lemmas keeps_replies [frame_intros] =
  keeps_reply [of _ _ "resp_write_error (ascii code) (ascii m)" for code m, folded ERR_def]
  keeps_reply [of _ _ resp_write_ok, folded OK_REPLY_def]
  keeps_reply [of _ _ "resp_write_integer n" for n, folded INT_REPLY_def]
  keeps_reply [of _ _ "resp_write_bulk s" for s, folded BULK_def]
  keeps_reply [of _ _ "resp_write_array_header n" for n, folded ARRAY_def]
  keeps_reply [of _ _ "resp_write_simple (ascii s)" for s, folded SIMPLE_def]
  keeps_reply [of _ sc "resp_write_null_compat (cn_resp3 (snd sc))" for sc, folded NULLREPLY_def]

text \<open>A step that yields a session, alone or after another result, and one that yields none.\<close>

lemma keeps_bind [frame_intros]:
  "ensures (kept sc) m \<Longrightarrow> (\<And>sc1. kept sc sc1 \<Longrightarrow> ensures P (f sc1)) \<Longrightarrow> ensures P (m \<bind> f)"
  by (rule ensures_bind)

lemma keeps_bind2 [frame_intros]:
  "ensures (\<lambda>r. kept sc (snd r)) m \<Longrightarrow> (\<And>r. kept sc (snd r) \<Longrightarrow> ensures P (f r)) \<Longrightarrow> ensures P (m \<bind> f)"
  for m :: "('a \<times> session) option"
  by (rule ensures_bind)

lemmas keeps_skip [frame_intros] =
  ensures_skip [where m = m for m :: "arg option"]
  ensures_skip [where m = m for m :: "bytes option"]
  ensures_skip [where m = m for m :: "set_opts option"]
  ensures_skip [where m = m for m :: "i64 option"]
  ensures_skip [where m = m for m :: "i32 option"]
  ensures_skip [where m = m for m :: "vc_cache option"]
  ensures_skip [where m = m for m :: "(bytes \<times> bytes) list option"]
  ensures_skip [where m = m for m :: "(bytes \<times> bytes) option"]

lemma keeps_need_auth [frame_intros]: "kept sc sc1 \<Longrightarrow> ensures (\<lambda>r. kept sc (snd r)) (need_auth acl sc1)"
  unfolding need_auth_def ERR_def by (cases sc1) (auto intro!: ensures_bind [OF keeps_reply])

lemma keeps_if [frame_intros]:
  "(b \<Longrightarrow> ensures P m) \<Longrightarrow> (\<not> b \<Longrightarrow> ensures P n) \<Longrightarrow> ensures P (if b then m else n)"
  by simp

lemma hello_auth_keeps: "kept sc sc1 \<Longrightarrow> ensures (\<lambda>r. kept sc (snd r)) (hello_auth w cmd i sc1)"
proof (induction "cmd_argc cmd - i" arbitrary: i sc1 rule: less_induct)
  case less
  have rest: "ensures (\<lambda>r. kept sc (snd r)) (hello_auth w cmd j sc2)"
    if "i < j" "i < cmd_argc cmd" "kept sc sc2" for j sc2
    using that by (intro less.hyps) auto
  have err: "ensures (\<lambda>r. kept sc (snd r)) (ERR c m sc2 \<bind> (\<lambda>sc. Some (True, sc)))" if "kept sc sc2" for c m sc2
    unfolding ERR_def using that by (auto intro!: ensures_bind [OF keeps_reply])
  show ?case
    using less.prems
    by (subst hello_auth.simps) (auto simp: srv_verify_def Let_def argn_def intro!: err rest frame_intros)
qed

lemma connection_keeps:
  assumes "kept sc sc1"
  shows "ensures (kept sc) (cmd_ping w cmd sc1)" "ensures (kept sc) (cmd_hello w cmd sc1)" "ensures (kept sc) (cmd_select w cmd sc1)"
    "ensures (kept sc) (cmd_quit w cmd sc1)" "ensures (kept sc) (cmd_reset w cmd sc1)" "ensures (kept sc) (cmd_client w cmd sc1)"
proof -
  show "ensures (kept sc) (cmd_ping w cmd sc1)" unfolding cmd_ping_def using assms by (auto intro!: frame_intros)
  show "ensures (kept sc) (cmd_select w cmd sc1)" unfolding cmd_select_def using assms by (auto intro!: frame_intros)
  show "ensures (kept sc) (cmd_quit w cmd sc1)" unfolding cmd_quit_def using assms
    by (auto intro!: frame_intros)
  show "ensures (kept sc) (cmd_reset w cmd sc1)" unfolding cmd_reset_def using assms by (auto intro!: frame_intros)
  show "ensures (kept sc) (cmd_client w cmd sc1)" unfolding cmd_client_def using assms
    by (auto simp: snprintf_def Let_def intro!: frame_intros)
  show "ensures (kept sc) (cmd_hello w cmd sc1)" unfolding cmd_hello_def using assms
    by (auto simp: Let_def intro!: frame_intros hello_auth_keeps)
qed

lemma auth_keeps: "kept sc sc1 \<Longrightarrow> ensures (kept sc) (cmd_auth w cmd sc1)"
  unfolding cmd_auth_def by (auto simp: srv_verify_def Let_def split_def intro!: frame_intros)

lemma send_nulls_keeps [frame_intros]: "kept sc sc1 \<Longrightarrow> ensures (kept sc) (send_nulls n sc1)"
  by (induction n arbitrary: sc1) (auto intro!: frame_intros)

lemma info_keeps:
  assumes "kept sc sc1"
  shows "ensures (kept sc) (cmd_command w cmd sc1)" "ensures (kept sc) (cmd_cluster w cmd sc1)"
    "ensures (kept sc) (cmd_acl w cmd sc1)" "ensures (kept sc) (cmd_wait w cmd sc1)"
proof -
  show "ensures (kept sc) (cmd_command w cmd sc1)" unfolding cmd_command_def Let_def using assms by (auto intro!: frame_intros)
  show "ensures (kept sc) (cmd_cluster w cmd sc1)" unfolding cmd_cluster_def using assms by (auto intro!: frame_intros)
  show "ensures (kept sc) (cmd_acl w cmd sc1)" unfolding cmd_acl_def using assms by (auto intro!: frame_intros)
  show "ensures (kept sc) (cmd_wait w cmd sc1)" unfolding cmd_wait_def using assms by (auto intro!: frame_intros)
qed

lemma open_keeps: "(n, fn, 0) \<in> set cmd_table \<Longrightarrow> kept sc sc1 \<Longrightarrow> ensures (kept sc) (fn w cmd sc1)"
proof -
  assume f: "kept sc sc1" and m: "(n, fn, 0) \<in> set cmd_table"
  have "\<forall>e \<in> set cmd_table. snd (snd e) = 0 \<longrightarrow> ensures (kept sc) (fst (snd e) w cmd sc1)"
    unfolding cmd_table_def using f by (simp add: connection_keeps auth_keeps info_keeps)
  then show ?thesis using m by fastforce
qed

end

section \<open>All commands\<close>

locale cache_frame = session_frame +
  assumes kept_cache: "kept sc sc1 \<Longrightarrow> kept sc (with_cache c sc1)"
begin

lemmas kept_with_cache [frame_intros] = kept_cache

lemma keeps_get [frame_intros]:
  "kept sc sc1 \<Longrightarrow> (\<And>r. kept sc (snd (snd (snd r))) \<Longrightarrow> ensures P (f r)) \<Longrightarrow> ensures P (srv_get w a sc1 \<bind> f)"
  by (rule ensures_bind [of "\<lambda>r. kept sc (snd (snd (snd r)))"], unfold srv_get_def split_def)
    (rule ensures_skip, rule ensures_skip, simp add: kept_cache)

lemma keeps_set [frame_intros]: "kept sc sc1 \<Longrightarrow> ensures (\<lambda>r. kept sc (snd r)) (srv_set w a v ttl sc1)"
  unfolding srv_set_def split_def by (rule ensures_skip, rule ensures_skip, simp add: kept_cache)

lemma keeps_del [frame_intros]: "kept sc sc1 \<Longrightarrow> ensures (\<lambda>r. kept sc (snd r)) (srv_del w a sc1)"
  unfolding srv_del_def split_def by (rule ensures_skip, rule ensures_skip, simp add: kept_cache)

lemma keeps_guarded [frame_intros]:
  "kept sc sc1 \<Longrightarrow> (\<And>sc2. kept sc sc2 \<Longrightarrow> ensures (kept sc) (body sc2)) \<Longrightarrow> ensures (kept sc) (guarded acl body sc1)"
  unfolding guarded_def by (auto intro!: frame_intros)

lemma set_test_keeps [frame_intros]:
  "kept sc sc1 \<Longrightarrow> ensures (\<lambda>r. kept sc (snd r)) (set_test w b a sc1)"
  unfolding set_test_def split_def by (auto intro!: frame_intros)

lemma set_again_keeps [frame_intros]: "kept sc sc1 \<Longrightarrow> ensures (kept sc) (set_again w a ttl p n sc1)"
  unfolding set_again_def split_def srv_malloc_def Let_def by (auto intro!: frame_intros)

lemma del_keys_keeps [frame_intros]:
  "kept sc sc1 \<Longrightarrow> ensures (\<lambda>r. kept sc (snd r)) (del_keys w as k sc1)"
proof (induction as arbitrary: k sc1)
  case (Cons a as)
  show ?case unfolding del_keys.simps split_def using Cons by (auto intro!: frame_intros)
qed simp

lemma exist_keys_keeps [frame_intros]:
  "kept sc sc1 \<Longrightarrow> ensures (\<lambda>r. kept sc (snd r)) (exist_keys w as k sc1)"
proof (induction as arbitrary: k sc1)
  case (Cons a as)
  show ?case unfolding exist_keys.simps split_def using Cons by (auto intro!: frame_intros)
qed simp

lemma mget_keys_keeps [frame_intros]: "kept sc sc1 \<Longrightarrow> ensures (kept sc) (mget_keys w as sc1)"
proof (induction as arbitrary: sc1)
  case (Cons a as)
  show ?case unfolding mget_keys.simps split_def using Cons by (auto intro!: frame_intros)
qed simp

lemma mset_pairs_keeps [frame_intros]: "kept sc sc1 \<Longrightarrow> ensures (kept sc) (mset_pairs w as sc1)"
proof (induction as arbitrary: sc1 rule: induct_list012)
  case (3 k v as)
  show ?case unfolding mset_pairs.simps split_def using 3 by (auto intro!: frame_intros)
qed simp_all

lemma send_loops_keep [frame_intros]:
  "kept sc sc1 \<Longrightarrow> ensures (kept sc) (send_keys ks sc1)" "kept sc sc1 \<Longrightarrow> ensures (kept sc) (send_pairs ps sc1)"
proof -
  show "kept sc sc1 \<Longrightarrow> ensures (kept sc) (send_keys ks sc1)"
    by (induction ks arbitrary: sc1) (auto intro!: frame_intros)
  show "kept sc sc1 \<Longrightarrow> ensures (kept sc) (send_pairs ps sc1)"
    by (induction ps arbitrary: sc1) (auto intro!: frame_intros)
qed

lemma key_keeps:
  assumes "kept sc sc1"
  shows "ensures (kept sc) (cmd_set w cmd sc1)" "ensures (kept sc) (cmd_get w cmd sc1)" "ensures (kept sc) (cmd_del w cmd sc1)"
    "ensures (kept sc) (cmd_exists w cmd sc1)" "ensures (kept sc) (cmd_expire w cmd sc1)" "ensures (kept sc) (cmd_ttl w cmd sc1)"
    "ensures (kept sc) (cmd_persist w cmd sc1)" "ensures (kept sc) (cmd_type w cmd sc1)" "ensures (kept sc) (cmd_mget w cmd sc1)"
    "ensures (kept sc) (cmd_mset w cmd sc1)"
proof -
  show "ensures (kept sc) (cmd_set w cmd sc1)" unfolding cmd_set_def split_def using assms by (auto intro!: frame_intros)
  show "ensures (kept sc) (cmd_get w cmd sc1)" unfolding cmd_get_def split_def using assms by (auto intro!: frame_intros)
  show "ensures (kept sc) (cmd_del w cmd sc1)" unfolding cmd_del_def split_def using assms by (auto intro!: frame_intros)
  show "ensures (kept sc) (cmd_exists w cmd sc1)" unfolding cmd_exists_def split_def using assms by (auto intro!: frame_intros)
  show "ensures (kept sc) (cmd_expire w cmd sc1)" unfolding cmd_expire_def split_def using assms by (auto intro!: frame_intros)
  show "ensures (kept sc) (cmd_ttl w cmd sc1)" unfolding cmd_ttl_def split_def using assms by (auto intro!: frame_intros)
  show "ensures (kept sc) (cmd_persist w cmd sc1)" unfolding cmd_persist_def split_def using assms by (auto intro!: frame_intros)
  show "ensures (kept sc) (cmd_type w cmd sc1)" unfolding cmd_type_def split_def using assms
    by (auto split: option.split intro!: frame_intros)
  show "ensures (kept sc) (cmd_mget w cmd sc1)" unfolding cmd_mget_def using assms by (auto intro!: frame_intros)
  show "ensures (kept sc) (cmd_mset w cmd sc1)" unfolding cmd_mset_def using assms by (auto intro!: frame_intros)
qed

lemma counter_keeps:
  assumes "kept sc sc1"
  shows "ensures (kept sc) (cmd_incrby d w cmd sc1)" "ensures (kept sc) (cmd_append w cmd sc1)" "ensures (kept sc) (cmd_rename w cmd sc1)"
    "ensures (kept sc) (cmd_dbsize w cmd sc1)"
proof -
  show "ensures (kept sc) (cmd_incrby d w cmd sc1)" unfolding cmd_incrby_def split_def using assms
    by (auto simp: Let_def intro!: frame_intros)
  show "ensures (kept sc) (cmd_append w cmd sc1)" unfolding cmd_append_def split_def srv_malloc_def using assms
    by (auto simp: Let_def intro!: frame_intros)
  show "ensures (kept sc) (cmd_rename w cmd sc1)" unfolding cmd_rename_def split_def srv_malloc_def using assms
    by (auto simp: Let_def intro!: frame_intros)
  show "ensures (kept sc) (cmd_dbsize w cmd sc1)" unfolding cmd_dbsize_def using assms by (auto intro!: frame_intros)
qed

lemma list_keeps:
  assumes "kept sc sc1"
  shows "ensures (kept sc) (cmd_keys w cmd sc1)" "ensures (kept sc) (cmd_scan w cmd sc1)"
proof -
  show "ensures (kept sc) (cmd_keys w cmd sc1)" unfolding cmd_keys_def split_def srv_malloc_def using assms
    by (auto simp: Let_def intro!: frame_intros ensures_skip [where m = "keys_shards w m ss t ks" for m ss t ks])
  show "ensures (kept sc) (cmd_scan w cmd sc1)" unfolding cmd_scan_def split_def ptr_array_def srv_malloc_def using assms
    by (auto simp: Let_def split_def intro!: frame_intros
        ensures_skip [where m = "scan_shards w m ss cnt room sh slot t ks" for m ss cnt room sh slot t ks])
qed

lemma admin_keeps:
  assumes "kept sc sc1"
  shows "ensures (kept sc) (cmd_flushdb w cmd sc1)" "ensures (kept sc) (cmd_info w cmd sc1)" "ensures (kept sc) (cmd_config w cmd sc1)"
    "ensures (kept sc) (cmd_debug w cmd sc1)"
    "ensures (kept sc) (cmd_latency w cmd sc1)" "ensures (kept sc) (cmd_slowlog w cmd sc1)"
    "ensures (kept sc) (cmd_object w cmd sc1)" "ensures (kept sc) (cmd_xlen w cmd sc1)"
    "ensures (kept sc) (cmd_srandmember w cmd sc1)" "ensures (kept sc) (cmd_vcinfo w cmd sc1)"
proof -
  show "ensures (kept sc) (cmd_flushdb w cmd sc1)" unfolding cmd_flushdb_def using assms by (auto intro!: frame_intros)
  show "ensures (kept sc) (cmd_info w cmd sc1)" unfolding cmd_info_def snprintf_def using assms by (auto intro!: frame_intros)
  show "ensures (kept sc) (cmd_config w cmd sc1)" unfolding cmd_config_def using assms by (auto intro!: frame_intros)
  show "ensures (kept sc) (cmd_debug w cmd sc1)" unfolding cmd_debug_def using assms by (auto intro!: frame_intros)
  show "ensures (kept sc) (cmd_latency w cmd sc1)" unfolding cmd_latency_def using assms by (auto intro!: frame_intros)
  show "ensures (kept sc) (cmd_slowlog w cmd sc1)" unfolding cmd_slowlog_def using assms by (auto intro!: frame_intros)
  show "ensures (kept sc) (cmd_object w cmd sc1)" unfolding cmd_object_def using assms by (auto intro!: frame_intros)
  show "ensures (kept sc) (cmd_vcinfo w cmd sc1)" unfolding cmd_vcinfo_def snprintf_def using assms by (auto intro!: frame_intros)
  show "ensures (kept sc) (cmd_xlen w cmd sc1)" "ensures (kept sc) (cmd_srandmember w cmd sc1)"
    unfolding cmd_xlen_def cmd_srandmember_def using assms by (auto intro!: frame_intros)
qed

lemma typed_keeps:
  assumes "kept sc sc1"
  shows "ensures (kept sc) (cmd_vcset w cmd sc1)" "ensures (kept sc) (cmd_vcget w cmd sc1)"
proof -
  have store: "ensures (kept sc) (vcset_store w t key val tb sc2)" if "kept sc sc2" for t key val tb sc2
    unfolding vcset_store_def split_def using that
    by (intro ensures_skip keeps_bind2) (auto split: option.split intro!: frame_intros)
  show "ensures (kept sc) (cmd_vcset w cmd sc1)" unfolding cmd_vcset_def split_def Let_def using assms
    by (auto split: option.split intro!: frame_intros store)
  have typed: "ensures (kept sc) (send_typed name wr sc2)" if "kept sc sc2" for name wr sc2
    unfolding send_typed_def using that by (auto intro!: frame_intros)
  have val: "ensures (kept sc) (send_value w p v sc2)" if "kept sc sc2" for p v sc2
    unfolding send_value_def Let_def using that by (auto intro!: frame_intros typed)
  show "ensures (kept sc) (cmd_vcget w cmd sc1)" unfolding cmd_vcget_def split_def using assms
    by (auto intro!: frame_intros val)
qed

lemma table_keeps: "(n, fn, acl) \<in> set cmd_table \<Longrightarrow> kept sc sc1 \<Longrightarrow> ensures (kept sc) (fn w cmd sc1)"
proof -
  assume f: "kept sc sc1" and m: "(n, fn, acl) \<in> set cmd_table"
  have by_arg: "ensures (kept sc) (cmd_incrby2 w cmd sc1)" "ensures (kept sc) (cmd_decrby w cmd sc1)"
    unfolding cmd_incrby2_def cmd_decrby_def using f by (auto intro!: frame_intros counter_keeps)
  have "\<forall>e \<in> set cmd_table. ensures (kept sc) (fst (snd e) w cmd sc1)"
    unfolding cmd_table_def cmd_incr_def [abs_def] cmd_decr_def [abs_def] cmd_pttl_def [abs_def] using f
    by (simp add: connection_keeps auth_keeps key_keeps counter_keeps list_keeps admin_keeps typed_keeps info_keeps by_arg)
  then show ?thesis using m by fastforce
qed

lemma dispatch_kept:
  assumes "kept sc sc"
  shows "ensures (kept sc) (vc_dispatch w cmd sc)"
proof -
  have run: "ensures (kept sc) (fn w cmd sc1)"
    if "List.find (\<lambda>(n, _, _). is_word a n) cmd_table = Some (n, fn, acl)" "kept sc sc1" for a n fn acl sc1
    using that by (intro table_keeps [of n fn acl]) (auto simp: find_Some_iff in_set_conv_nth)
  have tail: "ensures (kept sc) (fn w cmd sc1 \<bind> (\<lambda>sc. Some (counted sc)))"
    if "List.find (\<lambda>(n, _, _). is_word a n) cmd_table = Some (n, fn, acl)" "kept sc sc1" for a n fn acl sc1
    by (rule keeps_bind [OF run [OF that]]) (simp add: kept_counted)
  show ?thesis
    unfolding vc_dispatch_def using assms
    by (auto split: option.split intro!: keeps_skip keeps_reply keeps_bind2 [where sc = sc] keeps_need_auth)
      (erule tail; simp)+
qed

end

section \<open>What is never touched\<close>

definition framed :: "session \<Rightarrow> session \<Rightarrow> bool" where
  "framed sc sc' \<longleftrightarrow> cn_rbuf (snd sc') = cn_rbuf (snd sc) \<and> cn_fd (snd sc') = cn_fd (snd sc)
     \<and> cn_ssl (snd sc') = cn_ssl (snd sc) \<and> cn_last_active (snd sc') = cn_last_active (snd sc)
     \<and> cn_peer_addr (snd sc') = cn_peer_addr (snd sc) \<and> cn_peer_port (snd sc') = cn_peer_port (snd sc)
     \<and> cn_state (snd sc') \<in> {cn_state (snd sc), VC_CONN_CLOSING}
     \<and> sv_cfg (fst sc') = sv_cfg (fst sc) \<and> sv_auth (fst sc') = sv_auth (fst sc)
     \<and> sv_ssl_ctx (fst sc') = sv_ssl_ctx (fst sc) \<and> sv_listen_fd (fst sc') = sv_listen_fd (fst sc)
     \<and> sv_epoll_fd (fst sc') = sv_epoll_fd (fst sc) \<and> sv_conns (fst sc') = sv_conns (fst sc)
     \<and> sv_running (fst sc') = sv_running (fst sc) \<and> sv_total_conns (fst sc') = sv_total_conns (fst sc)
     \<and> sv_node_id (fst sc') = sv_node_id (fst sc) \<and> (cn_user (snd sc) \<noteq> None \<longrightarrow> cn_user (snd sc') \<noteq> None)
     \<and> (cn_wbuf (snd sc) \<noteq> None \<longrightarrow> cn_wbuf (snd sc') \<noteq> None)"

interpretation whole: cache_frame framed
proof
  show "framed sc sc1 \<Longrightarrow> reply wr sc1 = Some sc2 \<Longrightarrow> framed sc sc2" for sc sc1 wr sc2
    by (cases sc1) (clarsimp simp: reply_def framed_def split: Option.bind_splits)
  show "framed sc sc1 \<Longrightarrow> framed sc (with_tick t sc1)" for sc sc1 t by (simp add: framed_def with_tick_def)
  show "framed sc sc1 \<Longrightarrow> framed sc (counted sc1)" for sc sc1 by (cases sc1) (simp add: framed_def counted_def)
  show "framed sc sc1 \<Longrightarrow> framed sc (with_cache c sc1)" for sc sc1 c by (cases sc1) (simp add: framed_def with_cache_def)
qed (simp_all add: framed_def)

lemma framed_refl: "framed sc sc"
  by (simp add: framed_def)

lemma dispatch_keeps: "vc_dispatch w cmd sc = Some sc' \<Longrightarrow> framed sc sc'"
  using whole.dispatch_kept [of sc w cmd] by (simp add: ensures_def framed_refl)

definition same_cache :: "session \<Rightarrow> session \<Rightarrow> bool" where
  "same_cache sc sc' \<longleftrightarrow> cache_at sc' = cache_at sc"

interpretation calm: session_frame same_cache
proof
  show "same_cache sc sc1 \<Longrightarrow> reply wr sc1 = Some sc2 \<Longrightarrow> same_cache sc sc2" for sc sc1 wr sc2
    by (simp add: same_cache_def reply_cache)
  show "same_cache sc sc1 \<Longrightarrow> same_cache sc (counted sc1)" for sc sc1
    by (cases sc1) (simp add: same_cache_def counted_def cache_at_def)
qed (simp_all add: same_cache_def cache_at_def with_tick_def)

text \<open>
  Without a login, on a server that requires one, no command touches the cache, whether or not
  its arguments are well formed.
\<close>

lemma dispatch_without_login:
  assumes "db_require_auth (sv_auth (fst sc))" and "cn_user (snd sc) = None" and "vc_dispatch w cmd sc = Some sc'"
  shows "cache_at sc' = cache_at sc"
proof -
  have run: "cache_at sc1 = cache_at sc"
    if "List.find (\<lambda>(n, _, _). is_word a n) cmd_table = Some (n, fn, 0)" "fn w cmd sc = Some sc1" for a n fn sc1
    using calm.open_keeps [of n fn sc sc w cmd] that
    by (fastforce simp: find_Some_iff in_set_conv_nth ensures_def same_cache_def)
  have denied: "stop \<and> cache_at sc1 = cache_at sc" if "need_auth acl sc = Some (stop, sc1)" for acl stop sc1
    using that assms(1,2) by (cases sc) (auto simp: need_auth_def ERR_def dest: reply_cache split: Option.bind_splits)
  have "cache_at (counted sc1) = cache_at sc1" for sc1 by (cases sc1) (simp add: counted_def cache_at_def)
  then show ?thesis
    using assms(3) run
    by (auto simp: vc_dispatch_def split: if_splits Option.bind_splits option.splits dest!: denied reply_cache)
qed

end
