(* ===== verification/ServerFlow.thy ===== *)
theory ServerFlow
  imports Server CommandFrame CommandThms
begin

text \<open>
  What the loops of the server do: flushing delivers the pending bytes in order, reading appends
  what arrives however it is cut into pieces, and the commands of the buffer are dispatched one
  after the other.
\<close>

section \<open>Flushing\<close>

definition pending :: "vc_buf \<Rightarrow> bytes" where
  "pending b = drop (b_rpos b) (b_data b)"

lemma pending_empty [simp]: "pending b = [] \<longleftrightarrow> b_len b \<le> b_rpos b"
  by (simp add: pending_def)

lemma pending_advance:
  "pending b = take n (drop (b_rpos b) (b_data b)) @ pending (b\<lparr>b_rpos := b_rpos b + n\<rparr>)"
  by (simp add: pending_def add.commute flip: drop_drop)

lemma flush_loop_spec:
  assumes "flush_loop b ws out = (r, b', ws', out')"
  shows "\<exists>s. out' = out @ s \<and> pending b = s @ pending b' \<and> r \<in> {0, 1, - 1}
     \<and> (r = 0 \<longrightarrow> b_data b' = [] \<and> b_rpos b' = 0) \<and> (r = 1 \<longrightarrow> b_rpos b' < b_len b')
     \<and> (buf_ok b \<longrightarrow> buf_ok b') \<and> b_oom b' = b_oom b"
  using assms
proof (induction b ws out arbitrary: r b' ws' out' rule: flush_loop.induct)
  case (1 b ws out)
  show ?case
  proof (cases "b_rpos b < b_len b")
    case False
    then show ?thesis
      using 1(2) by (auto simp: flush_loop.simps [of b] vc_buf_reset_def pending_def buf_ok_def)
  next
    case True
    obtain x ws1 where w: "conn_write (b_len b - b_rpos b) ws = (x, ws1)" by fastforce
    show ?thesis
    proof (cases x)
      case (Send_err e)
      then show ?thesis using 1(2) True w by (auto simp: flush_loop.simps [of b] split: if_splits)
    next
      case (Sent n)
      show ?thesis
      proof (cases "0 < n")
        case False
        then show ?thesis using 1(2) True w Sent by (auto simp: flush_loop.simps [of b])
      next
        case pos: True
        let ?b = "b\<lparr>b_rpos := b_rpos b + n\<rparr>" and ?s = "take n (drop (b_rpos b) (b_data b))"
        have "flush_loop ?b ws1 (out @ ?s) = (r, b', ws', out')"
          using 1(2) True w Sent pos by (simp add: flush_loop.simps [of b])
        from 1(1) [OF True w [symmetric] Sent pos this]
        obtain s where s: "out' = (out @ ?s) @ s" "pending ?b = s @ pending b'" "r \<in> {0, 1, - 1}"
          "r = 0 \<longrightarrow> b_data b' = [] \<and> b_rpos b' = 0" "r = 1 \<longrightarrow> b_rpos b' < b_len b'"
          "buf_ok ?b \<longrightarrow> buf_ok b'" "b_oom b' = b_oom ?b"
          by blast
        then show ?thesis using s pending_advance [of b n] by (intro exI [of _ "?s @ s"]) (auto simp: buf_ok_def)
      qed
    qed
  qed
qed

text \<open>If the socket takes at least one byte each time, often enough, everything is delivered.\<close>

lemma flush_loop_all:
  assumes "length (pending b) \<le> length ns" and "\<forall>n \<in> set ns. 0 < n"
  shows "\<exists>k. flush_loop b (map Sent ns @ ws) out
     = (0, vc_buf_reset b, map Sent (drop k ns) @ ws, out @ pending b)"
  using assms
proof (induction ns arbitrary: b out)
  case Nil
  then show ?case by (auto simp: flush_loop.simps [of b] pending_def)
next
  case (Cons n ns)
  show ?case
  proof (cases "b_rpos b < b_len b")
    case False
    then show ?thesis by (intro exI [of _ 0]) (simp add: flush_loop.simps [of b] pending_def)
  next
    case True
    let ?m = "min n (b_len b - b_rpos b)"
    let ?b = "b\<lparr>b_rpos := b_rpos b + ?m\<rparr>" and ?s = "take ?m (drop (b_rpos b) (b_data b))"
    have m: "0 < ?m" using Cons.prems(2) True by simp
    have p: "pending b = ?s @ pending ?b" by (rule pending_advance)
    have "length (pending ?b) \<le> length ns" using Cons.prems(1) m by (auto simp: pending_def min_def)
    then obtain k where "flush_loop ?b (map Sent ns @ ws) (out @ ?s)
        = (0, vc_buf_reset ?b, map Sent (drop k ns) @ ws, (out @ ?s) @ pending ?b)"
      using Cons.IH [of ?b "out @ ?s"] Cons.prems(2) by auto
    moreover have "flush_loop b (map Sent (n # ns) @ ws) out = flush_loop ?b (map Sent ns @ ws) (out @ ?s)"
      using True m by (subst flush_loop.simps) (simp add: conn_write_def)
    moreover have "vc_buf_reset ?b = vc_buf_reset b" by (simp add: vc_buf_reset_def)
    ultimately show ?thesis using p by (intro exI [of _ "Suc k"]) simp
  qed
qed

section \<open>Reading\<close>

definition arrived :: "nat \<Rightarrow> i64 \<Rightarrow> vc_buf \<Rightarrow> session \<Rightarrow> session" where
  "arrived n t b sc = ((fst sc)\<lparr>sv_tick := sv_tick (fst sc) + n\<rparr>, (snd sc)\<lparr>cn_rbuf := Some b, cn_last_active := t\<rparr>)"

lemma arrived_simps [simp]:
  "cn_rbuf (snd (arrived n t b sc)) = Some b" "cache_at (arrived n t b sc) = cache_at sc"
  "cn_wbuf (snd (arrived n t b sc)) = cn_wbuf (snd sc)" "cn_user (snd (arrived n t b sc)) = cn_user (snd sc)"
  "cn_resp3 (snd (arrived n t b sc)) = cn_resp3 (snd sc)" "cn_state (snd (arrived n t b sc)) = cn_state (snd sc)"
  "sv_auth (fst (arrived n t b sc)) = sv_auth (fst sc)" "now_at (arrived n t b sc) = now_at sc + n"
  by (simp_all add: arrived_def cache_at_def now_at_def)

lemma read_loop_all:
  assumes "cn_rbuf (snd sc) = Some b" "buf_ok b" "roomy b (length (concat ss) + 4096)"
    and "\<forall>s \<in> set ss. s \<noteq> [] \<and> length s \<le> 4096"
  shows "\<exists>b' t. read_loop h sc (map Recv ss) = Some (True, arrived (length ss) t b' sc, [])
     \<and> buf_ok b' \<and> b_data b' = b_data b @ concat ss \<and> b_oom b' = []"
  using assms
proof (induction ss arbitrary: sc b)
  case Nil
  obtain b1 where g: "vc_buf_grow b 4096 = Some (True, b1)" "buf_ok b1" "b_data b1 = b_data b" "b_oom b1 = []"
    using vc_buf_grow_ok [OF Nil(2), of 4096] Nil(3) by auto
  have "set_rbuf b1 sc = arrived 0 (cn_last_active (snd sc)) b1 sc"
    by (simp add: set_rbuf_def arrived_def)
  then have "read_loop h sc [] = Some (True, arrived 0 (cn_last_active (snd sc)) b1 sc, [])"
    using Nil(1) g(1) by (simp add: read_loop.simps [of h sc] conn_read_def)
  then show ?case using g(2-4) by auto
next
  case (Cons s ss)
  have r: "roomy b 4096" using Cons.prems(3) by (rule roomy_mono) simp
  then obtain b1 where g: "vc_buf_grow b 4096 = Some (True, b1)" "buf_ok b1" "b_data b1 = b_data b" "b_oom b1 = []"
    "4096 \<le> b_cap b1 - b_len b"
    using vc_buf_grow_ok [OF Cons.prems(2), of 4096] by auto
  have s: "s \<noteq> []" "length s \<le> 4096" using Cons.prems(4) by simp_all
  then have fit: "take (b_cap b1 - b_len b1) s = s" "b_len b1 + length s \<le> b_cap b1" "b_len b1 < b_cap b1" using g(3,5) by auto
  let ?b = "b1\<lparr>b_data := b_data b1 @ s\<rparr>"
  let ?sc = "touch h (set_rbuf ?b sc)"
  have sc: "?sc = arrived 1 (h_mono h (now_at sc)) ?b sc"
    by (simp add: touch_def set_rbuf_def arrived_def tick_def now_at_def)
  have "cn_rbuf (snd ?sc) = Some ?b" by (simp add: sc)
  moreover have "buf_ok ?b" using g(2) fit(2) by (simp add: buf_ok_def)
  moreover have "roomy ?b (length (concat ss) + 4096)" using Cons.prems(3) g(3,4) by (simp add: roomy_def)
  ultimately obtain b' t where b': "read_loop h ?sc (map Recv ss) = Some (True, arrived (length ss) t b' ?sc, [])"
    "buf_ok b'" "b_data b' = b_data ?b @ concat ss" "b_oom b' = []"
    using Cons.IH [of ?sc ?b] Cons.prems(4) by auto
  have "read_loop h sc (map Recv (s # ss)) = read_loop h ?sc (map Recv ss)"
    using Cons.prems(1) g(1) s(1) fit(1,3) by (subst read_loop.simps) (simp add: conn_read_def)
  moreover have "arrived (length ss) t b' ?sc = arrived (length (s # ss)) t b' sc"
    by (simp add: sc arrived_def)
  ultimately show ?case using b' g(3) by (intro exI [of _ b'] exI [of _ t]) simp
qed

text \<open>Whatever arrives, reading returns, and only the read buffer, the clock and the ticks change.\<close>

lemma read_loop_returns:
  assumes "cn_rbuf (snd sc) = Some b" "buf_ok b"
  shows "\<exists>go n t b' rs'. read_loop h sc rs = Some (go, arrived n t b' sc, rs') \<and> buf_ok b'"
  using assms
proof (induction rs arbitrary: sc b)
  case Nil
  obtain ok b1 where g: "vc_buf_grow b 4096 = Some (ok, b1)" "buf_ok b1"
    using vc_buf_grow_ok [OF Nil(2), of 4096] by auto
  have "set_rbuf b1 sc = arrived 0 (cn_last_active (snd sc)) b1 sc" by (simp add: set_rbuf_def arrived_def)
  then show ?case using Nil(1) g by (subst read_loop.simps) (auto simp: conn_read_def)
next
  case (Cons r rs)
  obtain ok b1 where g: "vc_buf_grow b 4096 = Some (ok, b1)" "buf_ok b1"
    using vc_buf_grow_ok [OF Cons.prems(2), of 4096] by auto
  have here: "set_rbuf b1 sc = arrived 0 (cn_last_active (snd sc)) b1 sc" by (simp add: set_rbuf_def arrived_def)
  show ?case
  proof (cases "ok \<and> (\<exists>s. r = Recv s \<and> take (b_cap b1 - b_len b1) s \<noteq> [])")
    case False
    then show ?thesis
      using Cons.prems(1) g here by (subst read_loop.simps) (auto simp: conn_read_def split: recv_result.splits)
  next
    case True
    then obtain s where s: "r = Recv s" "take (b_cap b1 - b_len b1) s \<noteq> []" by blast
    let ?b = "b1\<lparr>b_data := b_data b1 @ take (b_cap b1 - b_len b1) s\<rparr>"
    let ?sc = "touch h (set_rbuf ?b sc)"
    have sc: "?sc = arrived 1 (h_mono h (now_at sc)) ?b sc"
      by (simp add: touch_def set_rbuf_def arrived_def tick_def now_at_def)
    have "buf_ok ?b" using g(2) by (auto simp: buf_ok_def)
    then obtain go n t b' rs' where b': "read_loop h ?sc rs = Some (go, arrived n t b' ?sc, rs')" "buf_ok b'"
      using Cons.IH [of ?sc ?b] by (auto simp: sc)
    have "read_loop h sc (r # rs) = read_loop h ?sc rs"
      using Cons.prems(1) g(1) s True by (subst read_loop.simps) (simp add: conn_read_def)
    moreover have "arrived n t b' ?sc = arrived (Suc n) t b' sc" by (simp add: sc arrived_def)
    ultimately show ?thesis using b' by (intro exI [of _ go] exI [of _ "Suc n"]) auto
  qed
qed

text \<open>Reading changes only the read buffer, the clock and the ticks, whatever the buffers are.\<close>

lemma read_loop_shape: "read_loop h sc rs = Some (go, sc', rs') \<Longrightarrow> \<exists>n t b. sc' = arrived n t b sc"
proof (induction h sc rs arbitrary: go sc' rs' rule: read_loop.induct)
  case (1 h sc rs)
  have here: "set_rbuf b sc = arrived 0 (cn_last_active (snd sc)) b sc" for b by (simp add: set_rbuf_def arrived_def)
  have there: "touch h (set_rbuf b sc) = arrived 1 (h_mono h (now_at sc)) b sc" for b
    by (simp add: touch_def set_rbuf_def arrived_def tick_def now_at_def)
  obtain b ok b1 where b: "cn_rbuf (snd sc) = Some b" "vc_buf_grow b 4096 = Some (ok, b1)"
    using 1(2) by (auto simp: read_loop.simps [of h sc] split: Option.bind_splits)
  obtain x rs1 where x: "conn_read (b_cap b1 - b_len b1) rs = (x, rs1)" by fastforce
  show ?case
  proof (cases "ok \<and> (\<exists>s. x = Recv s \<and> s \<noteq> [])")
    case False
    then show ?thesis using 1(2) b x here
      by (auto simp: read_loop.simps [of h sc] split: if_splits recv_result.splits)
  next
    case True
    then obtain s where s: "ok" "x = Recv s" "s \<noteq> []" by blast
    let ?b = "b1\<lparr>b_data := b_data b1 @ s\<rparr>"
    have "read_loop h (touch h (set_rbuf ?b sc)) rs1 = Some (go, sc', rs')"
      using 1(2) b x s by (simp add: read_loop.simps [of h sc])
    then obtain n t b' where "sc' = arrived n t b' (touch h (set_rbuf ?b sc))"
      using 1(1) b x s by (metis (no_types, lifting))
    then have "sc' = arrived (Suc n) t b' sc" by (simp add: there arrived_def)
    then show ?thesis by blast
  qed
qed

section \<open>Serving\<close>

text \<open>
  The reference: the commands, each with the number of bytes it came in, are dispatched one after
  the other until one closes the connection.
\<close>

primrec dispatch_all :: "world \<Rightarrow> (vc_cmd \<times> nat) list \<Rightarrow> session \<Rightarrow> (bool \<times> session) option" where
  "dispatch_all w [] sc = Some (False, sc)"
| "dispatch_all w (c # cs) sc = do {
     sc \<leftarrow> vc_dispatch w (fst c) (after_parse sc);
     sc \<leftarrow> consume (snd c) sc;
     if cn_state (snd sc) = VC_CONN_CLOSING then Some (True, sc) else dispatch_all w cs sc
   }"

definition framed_cmd :: "bytes list \<Rightarrow> vc_cmd \<times> nat" where
  "framed_cmd args = (sent_cmd args, length (encode_cmd args))"

lemma framed_cmd_parts [simp]: "fst (framed_cmd args) = sent_cmd args" "snd (framed_cmd args) = length (encode_cmd args)"
  by (simp_all add: framed_cmd_def)

lemma vc_buf_consume_data: "b_data (vc_buf_consume b n) = drop n (b_data b)"
  by (simp add: vc_buf_consume_def vc_buf_reset_def)

lemma buf_ok_consume: "buf_ok b \<Longrightarrow> buf_ok (vc_buf_consume b n)"
  by (auto simp: vc_buf_consume_def vc_buf_reset_def buf_ok_def)

lemma encode_cmd_nonempty [simp]: "encode_cmd args \<noteq> []"
  by (simp add: encode_cmd_def array_text_def ascii_star)

lemma consume_rbuf:
  assumes "consume n sc = Some sc'" and "cn_rbuf (snd sc) = Some b"
  shows "cn_rbuf (snd sc') = Some (vc_buf_consume b n)"
  using assms by (auto simp: consume_def set_rbuf_def)

lemma after_parse_simps [simp]:
  "snd (after_parse sc) = snd sc" "cache_at (after_parse sc) = cache_at sc"
  "sv_auth (fst (after_parse sc)) = sv_auth (fst sc)"
  by (simp_all add: after_parse_def with_tick_def cache_at_def)

lemma serve_loop_pipeline:
  assumes "\<forall>t. \<not> w_oom w t" "\<forall>args \<in> set cmds. sendable args" "sendable next" "k < length (encode_cmd next)"
    and "cn_rbuf (snd sc) = Some b" "b_data b = concat (map encode_cmd cmds) @ take k (encode_cmd next)"
  shows "serve_loop w sc = dispatch_all w (map framed_cmd cmds) sc"
  using assms(2,5,6)
proof (induction cmds arbitrary: sc b)
  case Nil
  have oom: "(\<lambda>i. w_oom w (now_at sc + i)) = (\<lambda>_. False)" using assms(1) by simp
  show ?case
  proof (cases "k = 0")
    case True
    then show ?thesis using Nil by (subst serve_loop.simps) simp
  next
    case False
    then have "b_data b \<noteq> []" using Nil(3) by simp
    moreover have "parse_next w sc (b_data b) = RESP_PARSE_MORE"
      unfolding parse_next_def oom using Nil(3) encode_cmd_partial [OF assms(3,4)] by simp
    ultimately show ?thesis using Nil(2) by (subst serve_loop.simps) simp
  qed
next
  case (Cons args cmds)
  have oom: "(\<lambda>i. w_oom w (now_at sc + i)) = (\<lambda>_. False)" using assms(1) by simp
  let ?n = "length (encode_cmd args)"
  have "parse_next w sc (b_data b) = RESP_PARSE_OK (sent_cmd args) ?n"
    unfolding parse_next_def oom using Cons.prems encode_cmd_parse [of args] by simp
  moreover have "b_data b \<noteq> []" using Cons.prems(3) by simp
  ultimately have step: "serve_loop w sc = do {
      sc \<leftarrow> vc_dispatch w (sent_cmd args) (after_parse sc);
      sc \<leftarrow> consume ?n sc;
      if cn_state (snd sc) = VC_CONN_CLOSING then Some (True, sc) else serve_loop w sc }"
    using Cons.prems(2) by (subst serve_loop.simps) simp
  have "serve_loop w sc2 = dispatch_all w (map framed_cmd cmds) sc2"
    if d: "vc_dispatch w (sent_cmd args) (after_parse sc) = Some sc1" "consume ?n sc1 = Some sc2" for sc1 sc2
  proof -
    have "cn_rbuf (snd sc1) = Some b" using dispatch_keeps [OF d(1)] Cons.prems(2) by (simp add: framed_def)
    from Cons.IH [OF _ consume_rbuf [OF d(2) this]] show ?thesis
      using Cons.prems by (simp add: vc_buf_consume_data)
  qed
  then show ?case
    unfolding step by (auto split: Option.bind_split)
qed

text \<open>What the client sends, in whatever pieces, is dispatched command by command.\<close>

lemma process_conn_pipeline:
  assumes "\<forall>t. \<not> w_oom (h_world h) t" "\<forall>args \<in> set cmds. sendable args" "sendable next" "k < length (encode_cmd next)"
    and "cn_rbuf (snd sc) = Some b" "buf_ok b" "b_data b = []" "roomy b (length (concat ss) + 4096)"
    and "sk_recv so = map Recv ss" "\<forall>s \<in> set ss. s \<noteq> [] \<and> length s \<le> 4096"
    and "concat ss = concat (map encode_cmd cmds) @ take k (encode_cmd next)"
  shows "\<exists>t b'. buf_ok b' \<and> b_data b' = concat ss \<and> process_conn h (sc, so) = do {
      (stop, sc') \<leftarrow> dispatch_all (h_world h) (map framed_cmd cmds) (arrived (length ss) t b' sc);
      finish_conn stop (sc', so\<lparr>sk_recv := []\<rparr>) }"
proof -
  obtain b' t where r: "read_loop h sc (sk_recv so) = Some (True, arrived (length ss) t b' sc, [])"
    "buf_ok b'" "b_data b' = concat ss"
    using read_loop_all [OF assms(5,6,8,10), of h] assms(7,9) by auto
  have "serve_loop (h_world h) (arrived (length ss) t b' sc)
      = dispatch_all (h_world h) (map framed_cmd cmds) (arrived (length ss) t b' sc)"
    using r(3) assms(11) by (intro serve_loop_pipeline [OF assms(1-4)]) simp_all
  then have "process_conn h (sc, so) = do {
      (stop, sc') \<leftarrow> dispatch_all (h_world h) (map framed_cmd cmds) (arrived (length ss) t b' sc);
      finish_conn stop (sc', so\<lparr>sk_recv := []\<rparr>) }"
    using r(1) by (simp add: process_conn_def)
  then show ?thesis using r(2,3) by blast
qed

end
