(* ===== verification/ServerThms.thy ===== *)
theory ServerThms
  imports ServerFlow
begin

text \<open>
  What a client gets from the server, from bytes on its socket to bytes on its socket: nothing
  without a login, every reply in the end, and with SET and GET what it stored.
\<close>

section \<open>Nothing without a login\<close>

text \<open>
  A step of a session that keeps the users and a login, and touches the cache only when somebody
  is logged in afterwards or nobody needs to be.
\<close>

definition guarded_step :: "session \<Rightarrow> session \<Rightarrow> bool" where
  "guarded_step sc sc' \<longleftrightarrow> sv_auth (fst sc') = sv_auth (fst sc)
     \<and> (cn_user (snd sc) \<noteq> None \<longrightarrow> cn_user (snd sc') \<noteq> None)
     \<and> (db_require_auth (sv_auth (fst sc)) \<and> cn_user (snd sc') = None \<longrightarrow> cache_at sc' = cache_at sc)"

lemma guarded_step_trans: "guarded_step sc sc1 \<Longrightarrow> guarded_step sc1 sc2 \<Longrightarrow> guarded_step sc sc2"
  by (auto simp: guarded_step_def)

lemma guarded_step_dispatch: "vc_dispatch w cmd sc = Some sc' \<Longrightarrow> guarded_step sc sc'"
  using dispatch_keeps [of w cmd sc sc'] dispatch_without_login [of sc w cmd sc']
  by (auto simp: guarded_step_def framed_def)

lemma guarded_step_consume: "consume n sc = Some sc' \<Longrightarrow> guarded_step sc sc'"
  by (auto simp: consume_def set_rbuf_def guarded_step_def cache_at_def split: Option.bind_splits)

lemma guarded_step_reply: "reply wr sc = Some sc' \<Longrightarrow> guarded_step sc sc'"
  using whole.kept_reply [of sc sc wr sc'] reply_cache [of wr sc sc'] by (auto simp: guarded_step_def framed_def)

lemma guarded_step_after_parse: "guarded_step (after_parse sc) sc' = guarded_step sc sc'"
  by (simp add: guarded_step_def)

lemma guarded_step_refl: "guarded_step sc sc"
  by (simp add: guarded_step_def)

lemma serve_loop_keeps:
  assumes "serve_loop w sc = Some r" "R sc"
    and step: "\<And>w sc cmd sc1 n sc2. R sc \<Longrightarrow> vc_dispatch w cmd (after_parse sc) = Some sc1 \<Longrightarrow> consume n sc1 = Some sc2 \<Longrightarrow> R sc2"
    and err: "\<And>sc sc1. R sc \<Longrightarrow> ERR ''ERR'' ''protocol error'' sc = Some sc1 \<Longrightarrow> R sc1"
  shows "R (snd r)"
proof -
  have "R sc \<longrightarrow> R (snd r)"
    using assms(1)
    by (rule serve_loop.raw_induct [of "\<lambda>w sc r. R sc \<longrightarrow> R (snd r)", rotated])
      (auto split: Option.bind_splits if_splits resp_parse_result.splits dest: step err)
  then show ?thesis using assms(2) by blast
qed

lemma guarded_step_serve: "serve_loop w sc = Some r \<Longrightarrow> guarded_step sc (snd r)"
proof (erule serve_loop_keeps [where R = "guarded_step sc"])
  fix w sc1 cmd sc2 n sc3
  assume "guarded_step sc sc1" "vc_dispatch w cmd (after_parse sc1) = Some sc2" "consume n sc2 = Some sc3"
  moreover from this have "guarded_step sc1 sc2" using guarded_step_dispatch [of w cmd "after_parse sc1" sc2] by (simp add: guarded_step_after_parse)
  ultimately show "guarded_step sc sc3" using guarded_step_trans guarded_step_consume by blast
qed (auto simp: guarded_step_refl ERR_def intro: guarded_step_trans guarded_step_reply)

lemma guarded_step_close: "guarded_step (fst s) (fst (close_served s))"
  by (cases s) (auto simp: close_served_def conn_close_def guarded_step_def cache_at_def)

lemma guarded_step_flush: "flush_served s = Some (r, s') \<Longrightarrow> guarded_step (fst s) (fst s')"
  by (cases s) (auto simp: flush_served_def conn_flush_def Let_def split_def guarded_step_def cache_at_def split: Option.bind_splits)

lemma guarded_step_watch: "guarded_step sc (fst (watch ev s)) = guarded_step sc (fst s)"
  by (cases s) (simp add: watch_def)

lemma guarded_step_finish:
  assumes "finish_conn stop s = Some s'"
  shows "guarded_step (fst s) (fst s')"
proof -
  have flushed: "guarded_step sc (fst s1) \<and> guarded_step sc (fst (close_served s1))"
    if "flush_served (sc, k) = Some (r, s1)" for sc k r s1
    using guarded_step_flush [OF that] guarded_step_trans [OF _ guarded_step_close, of sc s1] by simp
  show ?thesis
    using assms
    by (cases s) (auto simp: finish_conn_def guarded_step_refl guarded_step_watch
        split: if_splits Option.bind_splits dest!: flushed)
qed

lemma guarded_step_read: "read_loop h sc rs = Some (go, sc', rs') \<Longrightarrow> guarded_step sc sc'"
  using read_loop_shape [of h sc rs go sc' rs'] by (auto simp: guarded_step_def)

text \<open>
  C1 (safety): On a server that requires a login, a client that is not logged in when its input has
  been processed has not touched the cache: whatever bytes arrived on its connection, in whatever
  pieces, well formed or not.
\<close>

theorem no_login_no_data:
  assumes "process_conn h ((srv, conn), k) = Some ((srv', conn'), k')"
    and "db_require_auth (sv_auth srv)" and "cn_user conn' = None"
  shows "sv_cache srv' = sv_cache srv"
proof -
  obtain go sc1 rs where r: "read_loop h (srv, conn) (sk_recv k) = Some (go, sc1, rs)"
    using assms(1) by (auto simp: process_conn_def split: Option.bind_splits)
  have "guarded_step sc1 (srv', conn')"
  proof (cases go)
    case False
    then show ?thesis
      using assms(1) r guarded_step_close [of "(sc1, k\<lparr>sk_recv := rs\<rparr>)"] by (simp add: process_conn_def)
  next
    case True
    then obtain stop sc2 where s: "serve_loop (h_world h) sc1 = Some (stop, sc2)"
      "finish_conn stop (sc2, k\<lparr>sk_recv := rs\<rparr>) = Some ((srv', conn'), k')"
      using assms(1) r by (auto simp: process_conn_def split: Option.bind_splits)
    show ?thesis
      using guarded_step_trans [OF guarded_step_serve [OF s(1)], of "(srv', conn')"] guarded_step_finish [OF s(2)] by simp
  qed
  with guarded_step_read [OF r] have "guarded_step (srv, conn) (srv', conn')" by (rule guarded_step_trans)
  then show ?thesis using assms(2,3) by (simp add: guarded_step_def cache_at_def)
qed

definition demo_host :: host where
  "demo_host = \<lparr>h_world = demo_world, h_mono = (\<lambda>t. of_nat t), h_ssl = (\<lambda>t. None)\<rparr>"

definition demo_sock :: "bytes list \<Rightarrow> nat list \<Rightarrow> sock" where
  "demo_sock rs ws = \<lparr>sk_recv = map Recv rs, sk_send = map Sent ws, sk_hand = [], sk_out = [],
     sk_watch = Some 1, sk_open = True\<rparr>"

section \<open>From the socket to the socket\<close>

text \<open>What a session says is appended to the write buffer, as long as there is memory.\<close>

definition said :: "bytes \<Rightarrow> session \<Rightarrow> session \<Rightarrow> bool" where
  "said s sc sc' \<longleftrightarrow> (\<exists>b b'. cn_wbuf (snd sc) = Some b \<and> cn_wbuf (snd sc') = Some b' \<and> buf_ok b'
     \<and> b_rpos b' = b_rpos b \<and> (roomy b (length s) \<longrightarrow> b_data b' = b_data b @ s \<and> b_oom b' = []))"

lemma said_trans:
  assumes "said s sc sc1" "said t sc1 sc2"
  shows "said (s @ t) sc sc2"
proof -
  obtain b b1 where 1: "cn_wbuf (snd sc) = Some b" "cn_wbuf (snd sc1) = Some b1" "b_rpos b1 = b_rpos b"
    "roomy b (length s) \<longrightarrow> b_data b1 = b_data b @ s \<and> b_oom b1 = []"
    using assms(1) by (auto simp: said_def)
  obtain b2 where 2: "cn_wbuf (snd sc2) = Some b2" "buf_ok b2" "b_rpos b2 = b_rpos b1"
    "roomy b1 (length t) \<longrightarrow> b_data b2 = b_data b1 @ t \<and> b_oom b2 = []"
    using assms(2) 1(2) by (auto simp: said_def)
  have "b_data b2 = b_data b @ s @ t \<and> b_oom b2 = []" if r: "roomy b (length (s @ t))"
  proof -
    have "roomy b (length s)" using r by (rule roomy_mono) simp
    then have b1: "b_data b1 = b_data b @ s" "b_oom b1 = []" using 1(4) by simp_all
    then have "roomy b1 (length t)" using r by (simp add: roomy_def)
    then show ?thesis using 2(4) b1 by simp
  qed
  then show ?thesis using 1(1,3) 2(1-3) unfolding said_def by auto
qed

lemma data_ok_after_parse [simp]: "data_ok (after_parse sc) = data_ok sc"
  by (simp add: data_ok_def session_ok_def srv_ok_def after_parse_def with_tick_def cache_at_def announce_addr_def)

lemma data_ok_arrived [simp]: "data_ok (arrived n t b sc) = data_ok sc"
  by (simp add: data_ok_def session_ok_def srv_ok_def conn_ok_def arrived_def cache_at_def announce_addr_def)

lemma data_ok_set_rbuf [simp]: "data_ok (set_rbuf b sc) = data_ok sc"
  by (simp add: data_ok_def session_ok_def srv_ok_def conn_ok_def set_rbuf_def cache_at_def announce_addr_def)

lemma store_after_parse [simp]: "store_at (after_parse sc) = store_at sc"
  by (simp add: store_at_def)

text \<open>One command, parsed, dispatched and taken off the buffer.\<close>

lemma wire_step:
  assumes "outcome s M (after_parse sc) (vc_dispatch w cmd (after_parse sc))" "cn_rbuf (snd sc) = Some b"
  shows "\<exists>sc1 sc2. vc_dispatch w cmd (after_parse sc) = Some sc1 \<and> consume n sc1 = Some sc2
     \<and> data_ok sc2 \<and> store_at sc2 = M \<and> sv_auth (fst sc2) = sv_auth (fst sc)
     \<and> cn_state (snd sc2) = cn_state (snd sc) \<and> cn_user (snd sc2) = cn_user (snd sc)
     \<and> cn_rbuf (snd sc2) = Some (vc_buf_consume b n) \<and> said s sc sc2"
proof -
  obtain sc1 where 1: "vc_dispatch w cmd (after_parse sc) = Some sc1" "data_ok sc1" "store_at sc1 = M"
    "replied s (fst (after_parse sc), snd sc) (fst (after_parse sc), snd sc1)" "sv_auth (fst sc1) = sv_auth (fst sc)"
    using assms(1) by (elim outcomeE) simp
  then obtain b' where "cn_wbuf (snd sc) = Some b'" "replied s (fst sc, snd sc) (fst sc, snd sc1)"
    using replied_srv by (auto simp: replied_def)
  then have said: "said s sc sc1" by (auto simp: replied_def said_def)
  have keep: "cn_rbuf (snd sc1) = Some b" "cn_state (snd sc1) = cn_state (snd sc)" "cn_user (snd sc1) = cn_user (snd sc)"
    using 1(4) assms(2) by (auto simp: replied_def)
  let ?sc2 = "set_rbuf (vc_buf_consume b n) sc1"
  have "consume n sc1 = Some ?sc2" using keep(1) by (simp add: consume_def)
  moreover have "said s sc ?sc2" using said by (simp add: said_def set_rbuf_def)
  moreover have "store_at ?sc2 = M" using 1(3) by (simp add: store_at_def cache_at_def set_rbuf_def)
  moreover have "data_ok ?sc2" using 1(2) by simp
  ultimately show ?thesis using 1 keep by (auto simp: set_rbuf_def)
qed

text \<open>A command as a client sends it: a name in capitals and arguments without the magic of typed values.\<close>

lemma sent_args:
  assumes "\<forall>s \<in> set args. plain s" "i < length args"
  shows "cmd_args (sent_cmd (name # args)) ! Suc i = mk_arg (args ! i)"
  using assms by (simp add: sent_cmd_def strip_magic_def plain_def)

lemma sent_argc [simp]: "cmd_argc (sent_cmd (name # args)) = Suc (length args)"
  by (simp add: sent_cmd_def)

lemma mk_arg_bytes [simp]: "arg_bytes (mk_arg s) = Some s"
  by (simp add: mk_arg_def arg_bytes_def)

lemma sent_ok:
  assumes "\<forall>s \<in> set args. plain s" "plain name" "length args < 128"
  shows "cmd_ok (sent_cmd (name # args))"
proof -
  have "small_arg (mk_arg s) \<longleftrightarrow> length s \<le> VC_MAX_INLINE_ARG" for s
    by (simp add: small_arg_def arg_ok_def mk_arg_def)
  then show ?thesis using assms by (auto simp: sent_cmd_def cmd_ok_def strip_magic_def plain_def upcase_mk_arg)
qed

lemma sent_named: "named (sent_cmd (ascii ''SET'' # args)) ''SET''" "named (sent_cmd (ascii ''GET'' # args)) ''GET''"
proof -
  have arg: "arg_str (mk_arg s) = takeWhile (\<lambda>b. b \<noteq> 0) (s @ [0])" for s
    by (simp add: arg_str_def mk_arg_def c_str_def)
  show "named (sent_cmd (ascii ''SET'' # args)) ''SET''" "named (sent_cmd (ascii ''GET'' # args)) ''GET''"
    by (simp_all add: named_def sent_cmd_def strip_magic_def has_magic_def upcase_mk_arg is_word_def arg
        strcaseeq_def ascii_def to_upper_def to_lower_def)
qed

lemma names_plain: "plain (ascii ''SET'')" "plain (ascii ''GET'')"
  by (simp_all add: plain_def has_magic_def ascii_def)

lemma allowed_after_parse [simp]: "allowed acl (after_parse sc) = allowed acl sc"
  by (simp add: allowed_def)

lemma wire_set:
  assumes "data_ok sc" "world_ok w" "allowed VC_ACL_WRITE sc" "plain key" "plain val"
    and "\<forall>t. can_put (w_env w t (cache_at sc)) (cache_at sc) key val"
  shows "\<exists>V. outcome ok_text ((store_at sc |` (- V))(key \<mapsto> (val, 0))) (after_parse sc)
     (vc_dispatch w (sent_cmd [ascii ''SET'', key, val]) (after_parse sc))"
proof -
  let ?cmd = "sent_cmd [ascii ''SET'', key, val]"
  have t: "(''SET'', cmd_set, VC_ACL_WRITE) \<in> set cmd_table" by (simp add: cmd_table_def)
  have ok: "cmd_ok ?cmd" using assms(4,5) by (intro sent_ok names_plain) auto
  have args: "arg_bytes (cmd_args ?cmd ! 1) = Some key" "arg_bytes (cmd_args ?cmd ! 2) = Some val"
    using sent_args [of "[key, val]" 0] sent_args [of "[key, val]" 1] assms(4,5) by (simp_all add: numeral_2_eq_2)
  have put: "can_put (cache_env w (after_parse sc)) (cache_at (after_parse sc)) key val"
    using assms(6) by (simp add: cache_env_def)
  then have val: "val \<noteq> []" by (simp add: can_put_def)
  obtain V where "outcome ok_text ((store_at sc |` (- V))(key \<mapsto> (val, 0))) (after_parse sc) (cmd_set w ?cmd (after_parse sc))"
    using set_outcome [OF _ assms(2) ok _ _ args val put] assms(1,3) by (auto simp: set_expiry_def)
  then have "outcome ok_text ((store_at sc |` (- V))(key \<mapsto> (val, 0))) (after_parse sc) (vc_dispatch w ?cmd (after_parse sc))"
    using handler_outcome [OF t sent_named(1)] assms(3) by simp
  then show ?thesis by blast
qed

lemma wire_get:
  assumes "data_ok sc" "steady w" "allowed VC_ACL_READ sc" "plain key" "store_at sc key = Some (val, 0)"
  shows "outcome (bulk_text val) (store_at sc) (after_parse sc)
     (vc_dispatch w (sent_cmd [ascii ''GET'', key]) (after_parse sc))"
proof -
  let ?cmd = "sent_cmd [ascii ''GET'', key]"
  have t: "(''GET'', cmd_get, VC_ACL_READ) \<in> set cmd_table" by (simp add: cmd_table_def)
  have ok: "cmd_ok ?cmd" using assms(4) by (intro sent_ok names_plain) auto
  have args: "arg_bytes (cmd_args ?cmd ! 1) = Some key" using sent_args [of "[key]" 0] assms(4) by simp
  have "sees w (after_parse sc) key = Some val" using assms(5) by (simp add: sees_def visible_def expired_at_def)
  then have "outcome (bulk_text val) (store_at sc) (after_parse sc) (cmd_get w ?cmd (after_parse sc))"
    using get_outcome [OF _ assms(2) ok _ _ args, of "after_parse sc"] assms(1,3) by (simp add: value_text_def)
  from handler_outcome [OF t sent_named(2) _ this] assms(3) show ?thesis by auto
qed

text \<open>A reply that the socket takes is all that the peer receives.\<close>

lemma finish_delivers:
  assumes "said s sc sc'" "cn_wbuf (snd sc) = Some b" "b_data b = []" "b_rpos b = 0" "roomy b (length s)" "s \<noteq> []"
    and "sk_send k = map Sent ns" "\<forall>n \<in> set ns. 0 < n" "length s \<le> length ns"
  shows "\<exists>s'. finish_conn False (sc', k) = Some s' \<and> sk_out (snd s') = sk_out k @ s
     \<and> cn_user (snd (fst s')) = cn_user (snd sc')"
proof -
  obtain b' where b': "cn_wbuf (snd sc') = Some b'" "b_data b' = s" "b_rpos b' = 0"
    using assms(1-5) by (auto simp: said_def)
  then have p: "pending b' = s" by (simp add: pending_def)
  obtain j where "flush_loop b' (sk_send k) (sk_out k) = (0, vc_buf_reset b', map Sent (drop j ns) @ [], sk_out k @ pending b')"
    using flush_loop_all [of b' ns "[]" "sk_out k"] assms(7-9) p by auto
  then show ?thesis
    using b' p assms(6) by (cases sc') (simp add: finish_conn_def flush_served_def conn_flush_def)
qed

text \<open>
  C2 (roundtrip): a client that sends SET and GET of a key, its bytes cut into pieces in any way,
  receives OK and its own value, byte for byte: reading, parsing, dispatching, storing, looking up,
  replying and flushing together. The socket takes at least a byte each time it is asked.
\<close>

theorem wire_roundtrip:
  assumes "data_ok sc" "world_ok (h_world h)" "steady (h_world h)" "\<forall>t. \<not> w_oom (h_world h) t"
    and "allowed VC_ACL_READ sc" "allowed VC_ACL_WRITE sc" "cn_state (snd sc) \<noteq> VC_CONN_CLOSING"
    and "plain key" "plain val" "\<forall>t. can_put (w_env (h_world h) t (cache_at sc)) (cache_at sc) key val"
    and "cn_rbuf (snd sc) = Some rb" "buf_ok rb" "b_data rb = []" "roomy rb (length (concat ss) + 4096)"
    and "cn_wbuf (snd sc) = Some wb" "b_data wb = []" "b_rpos wb = 0" "roomy wb (length (ok_text @ bulk_text val))"
    and "sk_recv k = map Recv ss" "\<forall>s \<in> set ss. s \<noteq> [] \<and> length s \<le> 4096"
    and "concat ss = encode_cmd [ascii ''SET'', key, val] @ encode_cmd [ascii ''GET'', key]"
    and "sk_send k = map Sent ns" "\<forall>n \<in> set ns. 0 < n" "length (ok_text @ bulk_text val) \<le> length ns"
  shows "\<exists>s'. process_conn h (sc, k) = Some s' \<and> sk_out (snd s') = sk_out k @ ascii ''+OK'' @ CRLF @ bulk_text val"
proof -
  let ?w = "h_world h" and ?set = "[ascii ''SET'', key, val]" and ?get = "[ascii ''GET'', key]"
  let ?k = "k\<lparr>sk_recv := []\<rparr>"
  have send: "sendable ?set" "sendable ?get"
    using assms(8,9) names_plain by (simp_all add: sendable_def plain_def)
  obtain t b' where b': "b_data b' = concat ss" and run: "process_conn h (sc, k) = do {
      (stop, sc') \<leftarrow> dispatch_all ?w (map framed_cmd [?set, ?get]) (arrived (length ss) t b' sc);
      finish_conn stop (sc', ?k) }"
    using process_conn_pipeline [OF assms(4) _ send(2) _ assms(11-14,19,20), of "[?set, ?get]" 0] send assms(21) by auto
  define sc0 where "sc0 = arrived (length ss) t b' sc"
  have sc0: "data_ok sc0" "allowed VC_ACL_READ sc0" "allowed VC_ACL_WRITE sc0" "cn_rbuf (snd sc0) = Some b'"
    "cn_state (snd sc0) = cn_state (snd sc)" "cache_at sc0 = cache_at sc" "cn_wbuf (snd sc0) = Some wb"
    using assms(1,5,6,15) by (simp_all add: sc0_def allowed_def)
  obtain V where o1: "outcome ok_text ((store_at sc0 |` (- V))(key \<mapsto> (val, 0))) (after_parse sc0)
      (vc_dispatch ?w (sent_cmd ?set) (after_parse sc0))"
    using wire_set [OF sc0(1) assms(2) sc0(3) assms(8,9)] assms(10) sc0(6) by auto
  obtain sc1 sc2 where s1: "vc_dispatch ?w (sent_cmd ?set) (after_parse sc0) = Some sc1"
    "consume (length (encode_cmd ?set)) sc1 = Some sc2" "data_ok sc2"
    "store_at sc2 = (store_at sc0 |` (- V))(key \<mapsto> (val, 0))" "sv_auth (fst sc2) = sv_auth (fst sc0)"
    "cn_state (snd sc2) = cn_state (snd sc0)" "cn_user (snd sc2) = cn_user (snd sc0)"
    "cn_rbuf (snd sc2) = Some (vc_buf_consume b' (length (encode_cmd ?set)))" "said ok_text sc0 sc2"
    using wire_step [OF o1 sc0(4)] by blast
  have o2: "outcome (bulk_text val) (store_at sc2) (after_parse sc2) (vc_dispatch ?w (sent_cmd ?get) (after_parse sc2))"
    using s1(4,5,7) sc0(2) by (intro wire_get [OF s1(3) assms(3) _ assms(8)]) (simp_all add: allowed_def)
  obtain sc3 sc4 where s2: "vc_dispatch ?w (sent_cmd ?get) (after_parse sc2) = Some sc3"
    "consume (length (encode_cmd ?get)) sc3 = Some sc4" "cn_state (snd sc4) = cn_state (snd sc2)" "said (bulk_text val) sc2 sc4"
    using wire_step [OF o2 s1(8)] by blast
  have "dispatch_all ?w (map framed_cmd [?set, ?get]) sc0 = Some (False, sc4)"
    using s1(1,2,6) s2(1,2,3) sc0(5) assms(7) by simp
  then have "process_conn h (sc, k) = finish_conn False (sc4, ?k)" using run by (simp add: sc0_def)
  moreover obtain s' where "finish_conn False (sc4, ?k) = Some s'" "sk_out (snd s') = sk_out ?k @ ok_text @ bulk_text val"
    using finish_delivers [OF said_trans [OF s1(9) s2(4)] sc0(7) assms(16,17,18), of ?k ns] assms(22-24)
    by (auto simp: CRLF_def)
  ultimately show ?thesis by simp
qed

lemma demo_bufs:
  "cn_rbuf (demo_conn u) = Some \<lparr>b_data = [], b_cap = 16384, b_rpos = 0, b_oom = []\<rparr>"
  "cn_wbuf (demo_conn u) = Some \<lparr>b_data = [], b_cap = 16384, b_rpos = 0, b_oom = []\<rparr>"
  "cn_state (demo_conn u) = VC_CONN_CONNECTED" "cn_user (demo_conn u) = u"
  by (simp_all add: demo_conn_def)

lemma demo_sock_parts [simp]:
  "sk_recv (demo_sock rs ws) = map Recv rs" "sk_send (demo_sock rs ws) = map Sent ws" "sk_out (demo_sock rs ws) = []"
  by (simp_all add: demo_sock_def)

theorem wire_roundtrip_witness:
  "\<exists>s'. process_conn demo_host ((demo_server False demo_cache, demo_conn None),
       demo_sock [encode_cmd [ascii ''SET'', ascii ''k'', ascii ''v''], encode_cmd [ascii ''GET'', ascii ''k'']]
         (replicate 12 1)) = Some s'
     \<and> sk_out (snd s') = ascii ''+OK'' @ CRLF @ ascii ''$1'' @ CRLF @ ascii ''v'' @ CRLF"
proof -
  let ?sc = "(demo_server False demo_cache, demo_conn None)" and ?k = "ascii ''k''" and ?v = "ascii ''v''"
  have v: "bulk_text ?v = ascii ''$1'' @ CRLF @ ?v @ CRLF" "length (bulk_text ?v) = 7"
    by (simp_all add: bulk_text_def ascii_def dec_nat.simps)
  have n: "length (encode_cmd [ascii ''SET'', ?k, ?v]) = 27" "length (encode_cmd [ascii ''GET'', ?k]) = 20"
    by (simp_all add: encode_cmd_def array_text_def bulk_text_def ascii_def dec_nat.simps dec_int_def)
  have p: "plain ?k" "plain ?v" by (simp_all add: plain_def has_magic_def ascii_def)
  have put: "\<forall>t. can_put (w_env demo_world t (cache_at ?sc)) (cache_at ?sc) ?k ?v"
    using demo_can_put [of ?k ?v False "demo_conn None"] by (simp add: cache_env_def demo_world_def ascii_def)
  have w: "\<forall>t. \<not> w_oom demo_world t" "h_world demo_host = demo_world" by (simp_all add: demo_world_def demo_host_def)
  show ?thesis
    using wire_roundtrip [of ?sc demo_host ?k ?v, OF demo_data_ok, unfolded w(2),
        OF demo_world_ok demo_steady w(1) demo_allowed demo_allowed _ p put,
        where ss = "[encode_cmd [ascii ''SET'', ?k, ?v], encode_cmd [ascii ''GET'', ?k]]"
          and ns = "replicate 12 1"
          and k = "demo_sock [encode_cmd [ascii ''SET'', ?k, ?v], encode_cmd [ascii ''GET'', ?k]] (replicate 12 1)"]
    by (simp add: demo_bufs buf_ok_def roomy_def v n)
qed

lemma wire_denied:
  assumes "data_ok sc" "\<not> allowed VC_ACL_READ sc"
  shows "outcome (denial sc) (store_at sc) (after_parse sc)
     (vc_dispatch w (sent_cmd [ascii ''GET'', key]) (after_parse sc))"
proof -
  obtain a as where a: "cmd_args (sent_cmd [ascii ''GET'', key]) = a # as" by (simp add: sent_cmd_def)
  have t: "(''GET'', cmd_get, VC_ACL_READ) \<in> set cmd_table" by (simp add: cmd_table_def)
  have "is_word a ''GET''" using sent_named(2) [of "[key]"] a by (simp add: named_def)
  from table_find [OF t this] obtain sc' where "vc_dispatch w (sent_cmd [ascii ''GET'', key]) (after_parse sc) = Some sc'"
    "replied (denial sc) (after_parse sc) sc'"
    using dispatch_denied [OF a, of _ _ _ "after_parse sc" w] assms data_ok_session [of "after_parse sc"]
    by (fastforce simp: denial_def)
  moreover from replied_fst [OF this(2)] this(2)
  have "replied (denial sc) (fst sc', snd (after_parse sc)) (fst sc', snd sc')" by (cases sc'; cases "after_parse sc") simp
  ultimately show ?thesis
    using data_ok_replied [of _ "after_parse sc" sc'] store_replied [of _ "after_parse sc" sc'] assms(1)
      replied_fst [of _ "after_parse sc" sc'] unfolding outcome_def by fastforce
qed

theorem no_login_no_data_witness:
  "\<exists>srv' conn' k'. process_conn demo_host ((demo_server True demo_cache, demo_conn None),
       demo_sock [encode_cmd [ascii ''GET'', ascii ''k'']] (replicate 64 1)) = Some ((srv', conn'), k')
     \<and> sk_out k' = error_text (ascii ''NOAUTH'') (ascii ''Authentication required. Use AUTH command.'')
     \<and> cn_user conn' = None \<and> sv_cache srv' = sv_cache (demo_server True demo_cache)"
proof -
  let ?sc = "(demo_server True demo_cache, demo_conn None)" and ?get = "[ascii ''GET'', ascii ''k'']"
  let ?k = "demo_sock [encode_cmd ?get] (replicate 64 1)"
  have w: "\<forall>t. \<not> w_oom demo_world t" "h_world demo_host = demo_world" by (simp_all add: demo_world_def demo_host_def)
  have g: "sendable ?get" "length (encode_cmd ?get) = 20"
    by (simp_all add: sendable_def encode_cmd_def array_text_def bulk_text_def ascii_def dec_nat.simps dec_int_def)
  obtain t b where run: "process_conn demo_host (?sc, ?k) = do {
      (stop, sc') \<leftarrow> dispatch_all demo_world [framed_cmd ?get] (arrived 1 t b ?sc);
      finish_conn stop (sc', ?k\<lparr>sk_recv := []\<rparr>) }"
    using process_conn_pipeline [of demo_host "[?get]" ?get 0 ?sc _ "[encode_cmd ?get]" ?k] w g
    by (auto simp: demo_bufs buf_ok_def roomy_def)
  let ?got = "arrived 1 t b ?sc" and ?s = "err_text ''NOAUTH'' ''Authentication required. Use AUTH command.''"
  have "denial ?got = ?s" by (simp add: denial_def demo_bufs)
  moreover have "data_ok ?got" "\<not> allowed VC_ACL_READ ?got"
    using demo_data_ok by (simp_all add: allowed_def vc_acl_check_def demo_server_def demo_bufs)
  ultimately obtain sc1 sc2 where s: "vc_dispatch demo_world (sent_cmd ?get) (after_parse ?got) = Some sc1"
    "consume 20 sc1 = Some sc2" "cn_state (snd sc2) = VC_CONN_CONNECTED" "cn_user (snd sc2) = None" "said ?s ?got sc2"
    using wire_step [OF wire_denied, of ?got b demo_world "ascii ''k''" 20] by (auto simp: demo_bufs)
  have "length ?s = 52" by (simp add: err_text_def error_text_def ascii_def)
  then obtain s' where f: "finish_conn False (sc2, ?k\<lparr>sk_recv := []\<rparr>) = Some s'" "sk_out (snd s') = ?s"
    "cn_user (snd (fst s')) = None"
    using finish_delivers [OF s(5), of _ "?k\<lparr>sk_recv := []\<rparr>" "replicate 64 1"] s(4) by (fastforce simp: demo_bufs roomy_def)
  then have "process_conn demo_host (?sc, ?k) = Some s'" using run s(1-3) g(2) by simp
  then show ?thesis
    using f no_login_no_data [of demo_host "fst ?sc" "snd ?sc" ?k "fst (fst s')" "snd (fst s')" "snd s'"]
    by (intro exI [of _ "fst (fst s')"] exI [of _ "snd (fst s')"] exI [of _ "snd s'"])
      (simp add: err_text_def demo_server_def)
qed

end
