(* ===== verification/ServerLive.thy ===== *)
theory ServerLive
  imports ServerThms
begin

text \<open>
  Replies that the socket does not take at once: they stay in the write buffer, the connection is
  watched for room, and each time there is room for at least a byte the server goes on, until the
  client has everything.
\<close>

section \<open>Pending replies\<close>

text \<open>One event for a writable socket after the other; each time the socket takes some bytes, then blocks.\<close>

primrec writable_events :: "host \<Rightarrow> nat list \<Rightarrow> served \<Rightarrow> served option" where
  "writable_events h [] s = Some s"
| "writable_events h (n # ns) s = do {
     s \<leftarrow> conn_event h EPOLLOUT (fst s, (snd s)\<lparr>sk_send := [Sent n]\<rparr>);
     writable_events h ns s
   }"

lemma flush_once:
  assumes "0 < n"
  shows "flush_loop b [Sent n] out =
     (if length (pending b) \<le> n then (0, vc_buf_reset b, (if pending b = [] then [Sent n] else []), out @ pending b)
      else (1, b\<lparr>b_rpos := b_rpos b + n\<rparr>, [], out @ take n (pending b)))"
proof (cases "b_rpos b < b_len b")
  case False
  then show ?thesis by (simp add: flush_loop.simps [of b] pending_def)
next
  case True
  let ?m = "min n (b_len b - b_rpos b)"
  have m: "0 < ?m" using True assms by simp
  have step: "flush_loop b [Sent n] out
      = flush_loop (b\<lparr>b_rpos := b_rpos b + ?m\<rparr>) [] (out @ take ?m (drop (b_rpos b) (b_data b)))"
    using True m by (subst flush_loop.simps) (simp add: conn_write_def)
  show ?thesis
  proof (cases "length (pending b) \<le> n")
    case all: True
    then have "?m = b_len b - b_rpos b" by (simp add: pending_def)
    then show ?thesis
      using all True by (simp only: step) (simp add: flush_loop.simps [of "_\<lparr>b_rpos := _\<rparr>"] pending_def vc_buf_reset_def)
  next
    case False
    then have "?m = n" by (simp add: pending_def)
    then show ?thesis
      using False True by (simp only: step) (simp add: flush_loop.simps [of "_\<lparr>b_rpos := _\<rparr>"] conn_write_def pending_def)
  qed
qed

lemma writable_event:
  assumes "cn_state conn \<notin> {VC_CONN_FREE, VC_CONN_TLS_HAND}" "cn_wbuf conn = Some b" "0 < n"
  shows "\<exists>b' k'. conn_event h EPOLLOUT ((srv, conn), k\<lparr>sk_send := [Sent n]\<rparr>) = Some ((srv, conn\<lparr>cn_wbuf := Some b'\<rparr>), k')
     \<and> sk_out k' = sk_out k @ take n (pending b) \<and> pending b' = drop n (pending b)
     \<and> (pending b' = [] \<longrightarrow> sk_watch k' = Some (EPOLLIN OR EPOLLET OR EPOLLRDHUP))"
proof (cases "length (pending b) \<le> n")
  case True
  then show ?thesis
    using assms
    by (auto simp: conn_event_def flush_served_def conn_flush_def flush_once watch_def vc_buf_reset_def pending_def)
next
  case False
  then have "pending (b\<lparr>b_rpos := b_rpos b + n\<rparr>) = drop n (pending b)" by (simp add: pending_def add.commute)
  then show ?thesis
    using assms False
    by (auto simp: conn_event_def flush_served_def conn_flush_def flush_once simp del: pending_empty)
qed

lemma writable_all:
  assumes "cn_state conn \<notin> {VC_CONN_FREE, VC_CONN_TLS_HAND}" "cn_wbuf conn = Some b"
    and "ns \<noteq> []" "\<forall>n \<in> set ns. 0 < n" "length (pending b) \<le> length ns"
  shows "\<exists>s'. writable_events h ns ((srv, conn), k) = Some s' \<and> sk_out (snd s') = sk_out k @ pending b
     \<and> sk_watch (snd s') = Some (EPOLLIN OR EPOLLET OR EPOLLRDHUP)"
  using assms
proof (induction ns arbitrary: conn b k)
  case (Cons n ns)
  obtain b' k' where e: "conn_event h EPOLLOUT ((srv, conn), k\<lparr>sk_send := [Sent n]\<rparr>) = Some ((srv, conn\<lparr>cn_wbuf := Some b'\<rparr>), k')"
    "sk_out k' = sk_out k @ take n (pending b)" "pending b' = drop n (pending b)"
    "pending b' = [] \<longrightarrow> sk_watch k' = Some (EPOLLIN OR EPOLLET OR EPOLLRDHUP)"
    using writable_event [OF Cons.prems(1,2), of n h srv k] Cons.prems(4) by (auto simp del: pending_empty)
  have len: "length (pending b') \<le> length ns" using Cons.prems(4,5) e(3) by auto
  have out: "sk_out k' @ pending b' = sk_out k @ pending b" using e(2,3) by simp
  show ?case
  proof (cases "ns = []")
    case True
    then have "pending b' = []" using len by simp
    then show ?thesis using True e(1,4) out by (simp del: pending_empty)
  next
    case False
    then show ?thesis
      using Cons.IH [of "conn\<lparr>cn_wbuf := Some b'\<rparr>" b' k'] Cons.prems(1,4) len e(1) out by auto
  qed
qed simp

lemma close_served_state: "cn_state (snd (fst (close_served s))) = VC_CONN_FREE"
  by (cases s) (auto simp: close_served_def conn_close_def)

lemma finish_watches:
  assumes "finish_conn stop (sc0, k0) = Some (sc, k)" "cn_state (snd sc) \<noteq> VC_CONN_FREE"
    and "cn_wbuf (snd sc) = Some b" "pending b \<noteq> []"
  shows "sk_watch k = Some (EPOLLIN OR EPOLLOUT OR EPOLLET OR EPOLLRDHUP)"
proof -
  have open_end: "close_served s \<noteq> (sc, k)" for s using assms(2) close_served_state [of s] by auto
  then have go: "\<not> stop" using assms(1) by (auto simp: finish_conn_def split: Option.bind_splits if_splits)
  obtain b0 where b0: "cn_wbuf (snd sc0) = Some b0" using assms(1) go by (auto simp: finish_conn_def split: Option.bind_splits)
  show ?thesis
  proof (cases "b_data b0 = []")
    case True
    then show ?thesis using assms b0 go by (auto simp: finish_conn_def pending_def)
  next
    case False
    obtain r b1 ws out where f: "flush_loop b0 (sk_send k0) (sk_out k0) = (r, b1, ws, out)" by (metis prod_cases4)
    have "r = 0 \<longrightarrow> pending b1 = []" "r \<in> {0, 1, - 1}"
      using flush_loop_spec [OF f] by (auto simp: pending_def)
    then show ?thesis
      using assms(1,3,4) b0 False f go open_end
      by (cases sc0) (auto simp: finish_conn_def flush_served_def conn_flush_def watch_def split: if_splits)
  qed
qed

text \<open>
  C8 (liveness): no reply is left behind. When the input of a connection has been processed and
  part of the replies could not be written, the connection is watched for room in its socket; and
  when the socket then has room for at least one byte as often as there are bytes, the client
  receives exactly the rest, in order, and the connection is watched for input again.
\<close>

theorem replies_delivered:
  assumes "process_conn h s = Some ((srv, conn), k)" "cn_state conn \<notin> {VC_CONN_FREE, VC_CONN_TLS_HAND}"
    and "cn_wbuf conn = Some b" "pending b \<noteq> []"
    and "\<forall>n \<in> set ns. 0 < n" "length (pending b) \<le> length ns"
  shows "sk_watch k = Some (EPOLLIN OR EPOLLOUT OR EPOLLET OR EPOLLRDHUP)
     \<and> (\<exists>s'. writable_events h ns ((srv, conn), k) = Some s' \<and> sk_out (snd s') = sk_out k @ pending b
          \<and> sk_watch (snd s') = Some (EPOLLIN OR EPOLLET OR EPOLLRDHUP))"
proof -
  have "sk_watch k = Some (EPOLLIN OR EPOLLOUT OR EPOLLET OR EPOLLRDHUP)"
  proof -
    have "close_served s1 \<noteq> ((srv, conn), k)" for s1
      using close_served_state [of s1] assms(2) by auto
    then obtain stop sc0 k0 where "finish_conn stop (sc0, k0) = Some ((srv, conn), k)"
      using assms(1) by (cases s) (auto simp: process_conn_def Let_def split: Option.bind_splits if_splits)
    then show ?thesis using finish_watches assms(2-4) by auto
  qed
  moreover have "ns \<noteq> []" using assms(4,6) by auto
  ultimately show ?thesis using writable_all [OF assms(2,3) _ assms(5,6), of h srv k] by blast
qed

lemma demo_blocked:
  "process_conn demo_host ((srv, (demo_conn None)\<lparr>cn_wbuf := Some \<lparr>b_data = s, b_cap = 16384, b_rpos = 0, b_oom = []\<rparr>\<rparr>), demo_sock [] [])
     = Some ((srv, (demo_conn None)\<lparr>cn_wbuf := Some \<lparr>b_data = s, b_cap = 16384, b_rpos = 0, b_oom = []\<rparr>\<rparr>),
         (demo_sock [] [])\<lparr>sk_watch := Some (EPOLLIN OR EPOLLOUT OR EPOLLET OR EPOLLRDHUP)\<rparr>)" if "s \<noteq> []"
  using that
  by (simp add: process_conn_def read_loop.simps conn_read_def vc_buf_grow_def demo_bufs demo_sock_def set_rbuf_def
      serve_loop.simps finish_conn_def flush_served_def conn_flush_def flush_loop.simps conn_write_def watch_def demo_conn_def)

theorem replies_delivered_witness:
  "\<exists>srv conn k b s'. process_conn demo_host ((demo_server False demo_cache, (demo_conn None)\<lparr>cn_wbuf :=
         Some \<lparr>b_data = ascii ''+OK'' @ CRLF, b_cap = 16384, b_rpos = 0, b_oom = []\<rparr>\<rparr>), demo_sock [] [])
       = Some ((srv, conn), k) \<and> cn_wbuf conn = Some b \<and> pending b = ascii ''+OK'' @ CRLF
     \<and> writable_events demo_host [3, 1, 1, 1, 1] ((srv, conn), k) = Some s' \<and> sk_out (snd s') = ascii ''+OK'' @ CRLF"
proof -
  let ?b = "\<lparr>b_data = ascii ''+OK'' @ CRLF, b_cap = 16384, b_rpos = 0, b_oom = []\<rparr>"
  let ?conn = "(demo_conn None)\<lparr>cn_wbuf := Some ?b\<rparr>" and ?srv = "demo_server False demo_cache"
  let ?k = "(demo_sock [] [])\<lparr>sk_watch := Some (EPOLLIN OR EPOLLOUT OR EPOLLET OR EPOLLRDHUP)\<rparr>"
  have ne: "ascii ''+OK'' @ CRLF \<noteq> []" "length (ascii ''+OK'' @ CRLF) = 5" by (simp_all add: ascii_def CRLF_def)
  have p: "pending ?b = ascii ''+OK'' @ CRLF" by (simp add: pending_def)
  obtain s' where "writable_events demo_host [3, 1, 1, 1, 1] ((?srv, ?conn), ?k) = Some s'"
    "sk_out (snd s') = sk_out ?k @ pending ?b"
    using replies_delivered [OF demo_blocked [OF ne(1), of ?srv], of ?b "[3, 1, 1, 1, 1]"] p ne
    by (auto simp: demo_bufs simp del: pending_empty writable_events.simps)
  then show ?thesis
    using demo_blocked [OF ne(1), of ?srv] p
    by (intro exI [of _ ?srv] exI [of _ ?conn] exI [of _ ?k] exI [of _ ?b] exI [of _ s'])
      (simp del: pending_empty writable_events.simps)
qed

end
