(* ===== verification/ServerPool.thy ===== *)
theory ServerPool
  imports ServerLive
begin

text \<open>
  The pool of connections under arbitrary events: slots in use have their buffers and a watched
  open socket, free slots have nothing, and serving one connection leaves the others alone.
\<close>

section \<open>Slots\<close>

definition live :: "vc_conn \<Rightarrow> sock \<Rightarrow> bool" where
  "live c k \<longleftrightarrow> cn_state c \<notin> {VC_CONN_FREE, VC_CONN_CLOSING} \<and> cn_rbuf c \<noteq> None \<and> sk_open k \<and> sk_watch k \<noteq> None
     \<and> (\<exists>b. cn_wbuf c = Some b
            \<and> (pending b \<noteq> [] \<longrightarrow> sk_watch k = Some (EPOLLIN OR EPOLLOUT OR EPOLLET OR EPOLLRDHUP)))"

definition dead :: "vc_conn \<Rightarrow> sock \<Rightarrow> bool" where
  "dead c k \<longleftrightarrow> cn_state c = VC_CONN_FREE \<and> cn_rbuf c = None \<and> cn_wbuf c = None \<and> cn_ssl c = None
     \<and> \<not> sk_open k \<and> sk_watch k = None"

definition slot_ok :: "vc_conn \<Rightarrow> sock \<Rightarrow> bool" where
  "slot_ok c k \<longleftrightarrow> live c k \<or> dead c k"

definition pool_ok :: "net \<Rightarrow> bool" where
  "pool_ok n \<longleftrightarrow> (\<forall>i < length (sv_conns (n_srv n)). slot_ok (sv_conns (n_srv n) ! i) (n_sock n i))"

text \<open>Steps on a session that leave the pool alone and the connection with its buffers.\<close>

definition in_slot :: "session \<Rightarrow> session \<Rightarrow> bool" where
  "in_slot sc sc' \<longleftrightarrow> sv_conns (fst sc') = sv_conns (fst sc) \<and> cn_state (snd sc') \<in> {cn_state (snd sc), VC_CONN_CLOSING}
     \<and> (cn_rbuf (snd sc) \<noteq> None \<longrightarrow> cn_rbuf (snd sc') \<noteq> None) \<and> (cn_wbuf (snd sc) \<noteq> None \<longrightarrow> cn_wbuf (snd sc') \<noteq> None)"

lemma in_slot_trans: "in_slot sc sc1 \<Longrightarrow> in_slot sc1 sc2 \<Longrightarrow> in_slot sc sc2"
  by (auto simp: in_slot_def)

lemma framed_in_slot: "framed sc sc' \<Longrightarrow> in_slot sc sc'"
  by (simp add: framed_def in_slot_def)

lemma in_slot_serve: "serve_loop w sc = Some r \<Longrightarrow> in_slot sc (snd r)"
proof (erule serve_loop_keeps [where R = "in_slot sc"])
  fix w sc1 cmd sc2 n sc3
  assume a: "in_slot sc sc1" "vc_dispatch w cmd (after_parse sc1) = Some sc2" "consume n sc2 = Some sc3"
  have "in_slot (after_parse sc1) sc2" using dispatch_keeps [OF a(2)] by (rule framed_in_slot)
  moreover have "in_slot sc1 (after_parse sc1)" by (simp add: in_slot_def after_parse_def with_tick_def)
  moreover have "in_slot sc2 sc3" using a(3) by (auto simp: consume_def set_rbuf_def in_slot_def split: Option.bind_splits)
  ultimately show "in_slot sc sc3" using a(1) in_slot_trans by blast
next
  fix sc1 sc2
  assume "in_slot sc sc1" "ERR ''ERR'' ''protocol error'' sc1 = Some sc2"
  then show "in_slot sc sc2"
    unfolding ERR_def using framed_in_slot [OF whole.kept_reply [OF framed_refl]] in_slot_trans by blast
qed (simp add: in_slot_def)

section \<open>Serving one connection\<close>

text \<open>A connection that a command has closed is not served any further.\<close>

lemma serve_loop_closing:
  assumes "serve_loop w sc = Some (stop, sc')" "cn_state (snd sc) \<noteq> VC_CONN_CLOSING"
  shows "cn_state (snd sc') = VC_CONN_CLOSING \<longrightarrow> stop"
proof -
  have "cn_state (snd sc) \<noteq> VC_CONN_CLOSING \<longrightarrow> cn_state (snd (snd r)) = VC_CONN_CLOSING \<longrightarrow> fst r"
    if "serve_loop w sc = Some r" for r
    using that
    by (rule serve_loop.raw_induct [of "\<lambda>w sc r. cn_state (snd sc) \<noteq> VC_CONN_CLOSING \<longrightarrow>
          cn_state (snd (snd r)) = VC_CONN_CLOSING \<longrightarrow> fst r", rotated])
      (auto split: Option.bind_splits if_splits resp_parse_result.splits)
  from this [OF assms(1)] assms(2) show ?thesis by simp
qed

text \<open>What serving a connection in a good slot promises: the pool is the same and the slot is good again.\<close>

definition good_service :: "(served \<Rightarrow> served option) \<Rightarrow> bool" where
  "good_service f \<longleftrightarrow> (\<forall>srv conn k srv' conn' k'. f ((srv, conn), k) = Some ((srv', conn'), k') \<longrightarrow> live conn k
     \<longrightarrow> sv_conns srv' = sv_conns srv \<and> slot_ok conn' k')"

lemma closed_slot:
  assumes "close_served ((srv, conn), k) = ((srv', conn'), k')" "cn_state conn \<noteq> VC_CONN_FREE"
  shows "srv' = srv \<and> dead conn' k'"
  using assms by (auto simp: close_served_def conn_close_def dead_def)

lemma flushed_slot:
  assumes "flush_served ((srv, conn), k) = Some (r, (srv', conn'), k')"
  obtains b b' where "srv' = srv" "cn_wbuf conn = Some b" "conn' = conn\<lparr>cn_wbuf := Some b'\<rparr>"
    "sk_watch k' = sk_watch k" "sk_open k' = sk_open k" "r \<in> {0, 1, - 1}"
    "r = 0 \<longrightarrow> pending b' = []" "pending b = [] \<longrightarrow> pending b' = []"
proof -
  obtain b where b: "cn_wbuf conn = Some b" using assms by (auto simp: flush_served_def conn_flush_def split: Option.bind_splits)
  obtain r' b' ws out where f: "flush_loop b (sk_send k) (sk_out k) = (r', b', ws, out)" by (metis prod_cases4)
  have "r' \<in> {0, 1, - 1}" "r' = 0 \<longrightarrow> pending b' = []" "pending b = [] \<longrightarrow> pending b' = []"
    using flush_loop_spec [OF f] by (auto simp: pending_def)
  then show thesis using assms b f that by (auto simp: flush_served_def conn_flush_def simp del: pending_empty)
qed

lemma finish_slot:
  assumes "finish_conn stop ((srv, conn), k) = Some ((srv', conn'), k')"
    and "cn_state conn \<noteq> VC_CONN_FREE" "cn_state conn = VC_CONN_CLOSING \<longrightarrow> stop" "cn_rbuf conn \<noteq> None"
    and "sk_open k" "sk_watch k \<noteq> None"
  shows "srv' = srv \<and> slot_ok conn' k'"
proof -
  obtain b0 where b0: "cn_wbuf conn = Some b0"
    using assms(1) by (auto simp: finish_conn_def flush_served_def conn_flush_def split: Option.bind_splits if_splits)
  show ?thesis
  proof (cases "stop \<or> 0 < b_len b0")
    case False
    then show ?thesis using assms b0 by (auto simp: finish_conn_def slot_ok_def live_def pending_def)
  next
    case True
    obtain r conn1 k1 where f: "flush_served ((srv, conn), k) = Some (r, (srv, conn1), k1)"
      using assms(1) True b0 by (auto simp: finish_conn_def flush_served_def conn_flush_def split: Option.bind_splits if_splits prod.splits)
    then obtain b' where b': "conn1 = conn\<lparr>cn_wbuf := Some b'\<rparr>" "sk_watch k1 = sk_watch k" "sk_open k1 = sk_open k"
      "r \<in> {0, 1, - 1}" "r = 0 \<longrightarrow> pending b' = []"
      by (elim flushed_slot) auto
    have s1: "cn_state conn1 \<noteq> VC_CONN_FREE" using b'(1) assms(2) by simp
    show ?thesis
      using assms True b0 f b' closed_slot [OF _ s1, of srv k1]
      by (auto simp: finish_conn_def slot_ok_def live_def watch_def split: if_splits simp del: pending_empty)
  qed
qed

lemma process_slot: "good_service (process_conn h)"
  unfolding good_service_def
proof (intro allI impI)
  fix srv conn k srv' conn' k'
  assume p: "process_conn h ((srv, conn), k) = Some ((srv', conn'), k')" and l: "live conn k"
  obtain go sc1 rs where r: "read_loop h (srv, conn) (sk_recv k) = Some (go, sc1, rs)"
    using p by (auto simp: process_conn_def split: Option.bind_splits)
  then obtain n t b where sc1: "sc1 = arrived n t b (srv, conn)" using read_loop_shape by blast
  let ?srv = "fst sc1" and ?conn = "snd sc1" and ?k = "k\<lparr>sk_recv := rs\<rparr>"
  have c1: "sv_conns ?srv = sv_conns srv" "cn_state ?conn = cn_state conn" "cn_rbuf ?conn = Some b" "cn_wbuf ?conn = cn_wbuf conn"
    by (simp_all add: sc1 arrived_def)
  show "sv_conns srv' = sv_conns srv \<and> slot_ok conn' k'"
  proof (cases go)
    case False
    then have "close_served ((?srv, ?conn), ?k) = ((srv', conn'), k')" using p r by (simp add: process_conn_def)
    then show ?thesis using closed_slot c1 l by (fastforce simp: live_def slot_ok_def)
  next
    case True
    then obtain stop srv2 conn2 where s: "serve_loop (h_world h) sc1 = Some (stop, srv2, conn2)"
      "finish_conn stop ((srv2, conn2), ?k) = Some ((srv', conn'), k')"
      using p r by (auto simp: process_conn_def split: Option.bind_splits)
    have i: "in_slot sc1 (srv2, conn2)" using in_slot_serve [OF s(1)] by simp
    have c: "cn_state conn2 = VC_CONN_CLOSING \<longrightarrow> stop" using serve_loop_closing [OF s(1)] c1(2) l by (auto simp: live_def)
    show ?thesis using finish_slot [OF s(2) _ c] i c1 l by (auto simp: in_slot_def live_def)
  qed
qed

lemma event_slot:
  assumes "conn_event h evmask ((srv, conn), k) = Some ((srv', conn'), k')" "slot_ok conn k"
  shows "sv_conns srv' = sv_conns srv \<and> slot_ok conn' k'"
proof (cases "live conn k")
  case False
  then have "cn_state conn = VC_CONN_FREE" using assms(2) by (simp add: slot_ok_def dead_def)
  then show ?thesis using assms by (simp add: conn_event_def)
next
  case True
  then have st: "cn_state conn \<noteq> VC_CONN_FREE" by (simp add: live_def)
  have process: "sv_conns srv' = sv_conns srv1 \<and> slot_ok conn' k'"
    if "live conn1 k1" "process_conn h ((srv1, conn1), k1) = Some ((srv', conn'), k')" for srv1 conn1 k1
    using process_slot [of h] that unfolding good_service_def by blast
  have hand: "sv_conns srv' = sv_conns srv \<and> slot_ok conn' k'"
    if "tls_do_handshake ((srv, conn), k) = ((srv', conn'), k')" "cn_state conn = VC_CONN_TLS_HAND"
    using that True
    by (auto simp: tls_do_handshake_def Let_def slot_ok_def live_def split: prod.splits if_splits dest!: closed_slot [OF _ st])
  show ?thesis
  proof (cases "evmask AND (EPOLLRDHUP OR EPOLLHUP OR EPOLLERR) \<noteq> 0 \<or> cn_state conn = VC_CONN_TLS_HAND \<or> evmask AND EPOLLOUT = 0")
    case early: True
    then show ?thesis
      using assms(1) st process [OF True] hand True closed_slot [OF _ st, of srv k srv' conn' k']
      by (auto simp: conn_event_def slot_ok_def split: if_splits)
  next
    case False
    obtain r s1 where f: "flush_served ((srv, conn), k) = Some (r, s1)"
      using assms(1) st False by (auto simp: conn_event_def split: Option.bind_splits)
    obtain conn1 k1 where s1: "s1 = ((srv, conn1), k1)"
      using f by (auto simp: flush_served_def conn_flush_def split: Option.bind_splits prod.splits)
    obtain b b' where b': "cn_wbuf conn = Some b" "conn1 = conn\<lparr>cn_wbuf := Some b'\<rparr>" "sk_watch k1 = sk_watch k" "sk_open k1 = sk_open k"
      "r \<in> {0, 1, - 1}" "r = 0 \<longrightarrow> pending b' = []" "pending b = [] \<longrightarrow> pending b' = []"
      using f unfolding s1 by (elim flushed_slot) auto
    have l1: "live conn1 k1" "r = 0 \<longrightarrow> live conn1 (k1\<lparr>sk_watch := Some (EPOLLIN OR EPOLLET OR EPOLLRDHUP)\<rparr>)"
      using True b' by (auto simp: live_def simp del: pending_empty)
    have st1: "cn_state conn1 \<noteq> VC_CONN_FREE" using l1(1) by (simp add: live_def)
    show ?thesis
      using assms(1) st False f s1 b'(5) process [OF l1(1)] process [OF l1(2) [rule_format]] l1 closed_slot [OF _ st1, of srv k1 srv' conn' k']
      by (auto simp: conn_event_def watch_def slot_ok_def split: if_splits)
  qed
qed

section \<open>The pool\<close>

lemma serving_pool:
  assumes "serving i f n = Some n'" "pool_ok n"
    and "\<And>srv' conn' k'. i < length (sv_conns (n_srv n)) \<Longrightarrow>
       f ((n_srv n, sv_conns (n_srv n) ! i), n_sock n i) = Some ((srv', conn'), k') \<Longrightarrow>
       sv_conns srv' = sv_conns (n_srv n) \<and> slot_ok conn' k'"
  shows "pool_ok n' \<and> length (sv_conns (n_srv n')) = length (sv_conns (n_srv n))
     \<and> (\<forall>j. j \<noteq> i \<longrightarrow> sv_conns (n_srv n') ! j = sv_conns (n_srv n) ! j \<and> n_sock n' j = n_sock n j)"
proof -
  obtain srv' conn' k' where f: "i < length (sv_conns (n_srv n))"
    "f ((n_srv n, sv_conns (n_srv n) ! i), n_sock n i) = Some ((srv', conn'), k')"
    "n' = \<lparr>n_srv = srv'\<lparr>sv_conns := (sv_conns srv')[i := conn']\<rparr>, n_sock = (n_sock n)(i := k')\<rparr>"
    using assms(1) by (auto simp: serving_def nth_opt_def split: Option.bind_splits if_splits)
  from assms(3) [OF f(1,2)] show ?thesis
    using assms(2) f by (auto simp: pool_ok_def nth_list_update)
qed

lemma first_free_some: "first_free cs = Some i \<Longrightarrow> i < length cs \<and> cn_state (cs ! i) = VC_CONN_FREE"
  unfolding first_free_def by (rule find_index_some)

definition memory_ok :: "host \<Rightarrow> bool" where
  "memory_ok h \<longleftrightarrow> (\<forall>t cap. new_buf (h_world h) t cap \<noteq> None)"

lemma new_buf_empty: "new_buf w t cap = Some b \<Longrightarrow> pending b = []"
  by (auto simp: new_buf_def vc_buf_new_def pending_def split: prod.splits if_splits)

lemma setup_slot:
  assumes "conn_setup h p ((srv, conn), k) = Some ((srv', conn'), k')"
    and "cn_state conn = VC_CONN_CONNECTED" "cn_rbuf conn = Some rb" "cn_wbuf conn = Some wb" "pending wb = []"
  shows "sv_conns srv' = sv_conns srv \<and> slot_ok conn' k'"
  using assms
  by (auto simp: conn_setup_def Let_def slot_ok_def live_def split: Option.bind_splits option.splits simp del: pending_empty)

lemma accept_pool:
  assumes "memory_ok h" "accept_loop h ps n = Some n'" "pool_ok n"
  shows "pool_ok n' \<and> length (sv_conns (n_srv n')) = length (sv_conns (n_srv n))
     \<and> (\<forall>j. live (sv_conns (n_srv n) ! j) (n_sock n j) \<longrightarrow> j < length (sv_conns (n_srv n)) \<longrightarrow>
          sv_conns (n_srv n') ! j = sv_conns (n_srv n) ! j \<and> n_sock n' j = n_sock n j)"
  using assms(2,3)
proof (induction ps arbitrary: n)
  case Nil
  then show ?case by simp
next
  case (Cons p ps)
  let ?srv = "n_srv n"
  show ?case
  proof (cases "first_free (sv_conns ?srv)")
    case None
    then have "accept_loop h ps (n\<lparr>n_srv := ?srv\<rparr>) = Some n'" using Cons.prems(1) by (simp add: conn_alloc_def)
    then show ?thesis using Cons.IH [of n] Cons.prems(2) by simp
  next
    case (Some i)
    note i = first_free_some [OF Some]
    define c where "c = conn_init h (sv_tick ?srv) (sv_conns ?srv ! i)"
    define srv1 where "srv1 = ?srv\<lparr>sv_conns := (sv_conns ?srv)[i := c], sv_tick := sv_tick ?srv + 3\<rparr>"
    obtain n1 where n1: "serving i (conn_setup h p) (n\<lparr>n_srv := srv1\<rparr>) = Some n1" "accept_loop h ps n1 = Some n'"
      using Cons.prems(1) Some by (auto simp: conn_alloc_def c_def srv1_def split: Option.bind_splits)
    obtain rb wb where c: "cn_state c = VC_CONN_CONNECTED" "cn_rbuf c = Some rb" "cn_wbuf c = Some wb" "pending wb = []"
      using assms(1) new_buf_empty by (fastforce simp: c_def conn_init_def memory_ok_def simp del: pending_empty)
    have "pool_ok n1 \<and> length (sv_conns (n_srv n1)) = length (sv_conns ?srv)
        \<and> (\<forall>j. j \<noteq> i \<longrightarrow> sv_conns (n_srv n1) ! j = sv_conns ?srv ! j \<and> n_sock n1 j = n_sock n j)"
    proof -
      obtain srv' conn' k' where f: "conn_setup h p ((srv1, c), n_sock n i) = Some ((srv', conn'), k')"
        "n1 = \<lparr>n_srv = srv'\<lparr>sv_conns := (sv_conns srv')[i := conn']\<rparr>, n_sock = (n_sock n)(i := k')\<rparr>"
        using n1(1) i by (auto simp: serving_def srv1_def split: Option.bind_splits)
      from setup_slot [OF f(1) c] show ?thesis
        using Cons.prems(2) f(2) i by (auto simp: pool_ok_def srv1_def nth_list_update)
    qed
    moreover have "\<not> live (sv_conns ?srv ! i) (n_sock n i)" using i by (simp add: live_def)
    ultimately show ?thesis using Cons.IH [OF n1(2)] by metis
  qed
qed

lemma sweep_pool:
  assumes "sweep now j cs ks = (cs', ks')" "\<forall>i < length cs. slot_ok (cs ! i) (ks (j + i))"
  shows "length cs' = length cs \<and> (\<forall>i < length cs. slot_ok (cs' ! i) (ks' (j + i))) \<and> (\<forall>i < j. ks' i = ks i)"
  using assms
proof (induction cs arbitrary: j ks cs' ks')
  case (Cons c cs)
  define d where "d = (if idle now c then conn_close (c, ks j) else (c, ks j))"
  obtain cs1 where r: "sweep now (Suc j) cs (ks(j := snd d)) = (cs1, ks')" "cs' = fst d # cs1"
    using Cons.prems(1) by (auto simp: d_def Let_def split: prod.splits)
  have "\<forall>i < length cs. slot_ok (cs ! i) ((ks(j := snd d)) (Suc j + i))" using Cons.prems(2) by fastforce
  note IH = Cons.IH [OF r(1) this]
  have "slot_ok c (ks j)" using Cons.prems(2) by force
  then have "slot_ok (fst d) (snd d)"
    by (auto simp: d_def idle_def conn_close_def slot_ok_def dead_def)
  then show ?case using IH r(2) by (auto simp: nth_Cons split: nat.splits)
qed simp

section \<open>Reachable states\<close>

text \<open>What the worker threads do, one step at a time: an event or the sweep of idle connections.\<close>

inductive net_step :: "host \<Rightarrow> net \<Rightarrow> net \<Rightarrow> bool" for h where
  event: "handle_event h ev n = Some n' \<Longrightarrow> net_step h n n'"
| sweep: "net_step h n (idle_sweep h n)"

inductive reachable :: "host \<Rightarrow> net \<Rightarrow> net \<Rightarrow> bool" for h n0 where
  start: "reachable h n0 n0"
| step: "reachable h n0 n \<Longrightarrow> net_step h n n' \<Longrightarrow> reachable h n0 n'"

inductive_cases net_stepE: "net_step h n n'"

lemma step_pool:
  assumes "net_step h n n'" "memory_ok h" "pool_ok n"
  shows "pool_ok n' \<and> length (sv_conns (n_srv n')) = length (sv_conns (n_srv n))"
  using assms(1)
proof (cases rule: net_step.cases)
  case (event ev)
  show ?thesis
  proof (cases ev)
    case (Ev_listen ps)
    then show ?thesis using accept_pool [OF assms(2) _ assms(3)] event by (auto simp: handle_event_def)
  next
    case (Ev_conn i m)
    then have s: "serving i (conn_event h m) n = Some n'" using event by (simp add: handle_event_def)
    have "slot_ok (sv_conns (n_srv n) ! i) (n_sock n i)" if "i < length (sv_conns (n_srv n))"
      using assms(3) that by (simp add: pool_ok_def)
    then show ?thesis using serving_pool [OF s assms(3)] event_slot by blast
  qed
next
  case sweep
  obtain cs ks where w: "sweep (h_mono h (sv_tick (n_srv n))) 0 (sv_conns (n_srv n)) (n_sock n) = (cs, ks)" by fastforce
  then show ?thesis
    using sweep_pool [OF w] assms(3) sweep by (simp add: idle_sweep_def pool_ok_def Let_def)
qed

lemma pool_well_formed:
  assumes "reachable h n0 n" "memory_ok h" "pool_ok n0"
  shows "pool_ok n \<and> length (sv_conns (n_srv n)) = length (sv_conns (n_srv n0))"
  using assms(1) by induction (use step_pool assms(2,3) in auto)


definition demo_net :: net where
  "demo_net = \<lparr>n_srv = (demo_server False demo_cache)\<lparr>sv_conns := [demo_conn None, demo_conn None]\<rparr>,
     n_sock = (\<lambda>_. demo_sock [] [])\<rparr>"

lemma demo_net_ok: "pool_ok demo_net"
proof -
  have "slot_ok (demo_conn None) (demo_sock [] [])"
    by (simp add: slot_ok_def live_def demo_conn_def demo_sock_def)
  then show ?thesis by (auto simp: pool_ok_def demo_net_def less_Suc_eq)
qed


section \<open>Accepting without memory\<close>

text \<open>
  The server does not look at whether the buffers of a new connection could be
  allocated: a connection accepted without a read buffer is in use all the same, and its first
  input makes the server follow a null pointer.
\<close>

theorem accept_unchecked_buffers:
  assumes "first_free (sv_conns srv) = Some i" "new_buf (h_world h) (sv_tick srv) VC_RBUF_INIT = None" "sv_ssl_ctx srv = None"
  shows "\<exists>n. accept_loop h [p] \<lparr>n_srv = srv, n_sock = ks\<rparr> = Some n \<and> cn_state (sv_conns (n_srv n) ! i) = VC_CONN_CONNECTED
     \<and> handle_event h (Ev_conn i EPOLLIN) n = None"
  using assms first_free_some [OF assms(1)]
  by (auto simp: conn_alloc_def serving_def conn_setup_def Let_def conn_init_def handle_event_def conn_event_def
      process_conn_def read_loop.simps split: option.split)

theorem accept_unchecked_buffers_witness:
  "\<exists>n. accept_loop (demo_host\<lparr>h_world := demo_world\<lparr>w_buf := (\<lambda>t. (False, False, []))\<rparr>\<rparr>)
       [\<lparr>p_fd = 8, p_addr = None, p_sock = demo_sock [] []\<rparr>]
       \<lparr>n_srv = (demo_server False demo_cache)\<lparr>sv_conns := [(demo_conn None)\<lparr>cn_state := VC_CONN_FREE\<rparr>]\<rparr>, n_sock = (\<lambda>_. demo_sock [] [])\<rparr> = Some n
     \<and> handle_event (demo_host\<lparr>h_world := demo_world\<lparr>w_buf := (\<lambda>t. (False, False, []))\<rparr>\<rparr>) (Ev_conn 0 EPOLLIN) n = None"
  using accept_unchecked_buffers [of "(demo_server False demo_cache)\<lparr>sv_conns := [(demo_conn None)\<lparr>cn_state := VC_CONN_FREE\<rparr>]\<rparr>" 0
      "demo_host\<lparr>h_world := demo_world\<lparr>w_buf := (\<lambda>t. (False, False, []))\<rparr>\<rparr>"
      "\<lparr>p_fd = 8, p_addr = None, p_sock = demo_sock [] []\<rparr>" "\<lambda>_. demo_sock [] []"]
  by (auto simp: new_buf_def vc_buf_new_def demo_server_def first_free_def)

end
