(* ===== verification/ServerBoot.thy ===== *)
theory ServerBoot
  imports ServerPool
begin

text \<open>
  Starting and stopping the server: \<^verbatim>\<open>vcserver_create\<close>, \<^verbatim>\<open>vcserver_start\<close>, \<^verbatim>\<open>vcserver_stop\<close> and
  \<^verbatim>\<open>vcserver_destroy\<close> of \<^verbatim>\<open>net/server.c\<close>. What the operating system and the TLS library answer is an
  argument; a descriptor that is closed is recorded.
\<close>

section \<open>Creating a server\<close>

text \<open>
  The answers in the order of the calls: the allocation, the random bytes, the mappings of the
  cache, the text of the ACL file with what was on the stack when a line of it is read, the digest
  of the password running out of memory, the TLS context and what installing the certificate, the
  key and checking them return, the address, the socket, binding, listening and the epoll instance.
\<close>

record boot =
  bt_alloc :: bool
  bt_random :: "bytes option \<times> bytes option"
  bt_cache :: create_env
  bt_acl_text :: "bytes option"
  bt_junk :: "nat \<Rightarrow> bytes"
  bt_oom :: bool
  bt_ctx :: "nat option"
  bt_cert :: int
  bt_key :: int
  bt_check :: int
  bt_resolve :: bool
  bt_socket :: i32
  bt_bind :: bool
  bt_listen :: bool
  bt_epoll :: i32

definition tls_ctx_create :: "boot \<Rightarrow> nat option" where
  "tls_ctx_create bt =
     (case bt_ctx bt of None \<Rightarrow> None
      | Some ctx \<Rightarrow> if bt_cert bt \<le> 0 \<or> bt_key bt \<le> 0 \<or> bt_check bt \<le> 0 then None else Some ctx)"

text \<open>A slot of the pool as \<^verbatim>\<open>calloc\<close> leaves it.\<close>

definition zero_conn :: vc_conn where
  "zero_conn = \<lparr>cn_fd = 0, cn_state = VC_CONN_FREE, cn_ssl = None, cn_resp3 = False, cn_rbuf = None,
     cn_wbuf = None, cn_user = None, cn_token = [], cn_last_active = 0, cn_db_idx = 0, cn_peer_addr = [],
     cn_peer_port = 0\<rparr>"

definition vcserver_destroy :: "vcserver \<Rightarrow> (cmem \<times> i32 list) option" where
  "vcserver_destroy srv = do {
     m \<leftarrow> vc_destroy (sv_cache srv);
     Some (m, (if 0 \<le> sint (sv_listen_fd srv) then [sv_listen_fd srv] else [])
            @ (if 0 \<le> sint (sv_epoll_fd srv) then [sv_epoll_fd srv] else []))
   }"

text \<open>The server before it has a socket: the node id, the cache, the users and the TLS context.\<close>

definition boot_users :: "boot \<Rightarrow> vc_server_cfg \<Rightarrow> vc_auth_db \<Rightarrow> vc_auth_db" where
  "boot_users bt cfg db =
     (case cfg_requirepass cfg of None \<Rightarrow> db
      | Some pw \<Rightarrow> if pw = [] then db
          else snd (vc_auth_add_user (bt_oom bt) db (ascii ''default'') pw (VC_ACL_READ OR VC_ACL_WRITE OR VC_ACL_ADMIN)))"

definition boot_server :: "boot \<Rightarrow> vc_server_cfg \<Rightarrow> vc_cache \<Rightarrow> vc_auth_db \<Rightarrow> nat option \<Rightarrow> vcserver" where
  "boot_server bt cfg cache db ctx = \<lparr>sv_cfg = cfg, sv_cache = cache, sv_auth = boot_users bt cfg db, sv_ssl_ctx = ctx,
     sv_listen_fd = 0, sv_epoll_fd = 0, sv_conns = replicate VC_MAX_CONNS zero_conn, sv_running = False,
     sv_total_conns = 0, sv_total_commands = 0, sv_rejected_auth = 0,
     sv_node_id = (case vc_auth_gen_token (fst (bt_random bt)) (snd (bt_random bt)) of None \<Rightarrow> [] | Some t \<Rightarrow> take 16 t),
     sv_tick = 0\<rparr>"

text \<open>The socket and the epoll instance; on failure the server is destroyed.\<close>

definition boot_listen :: "boot \<Rightarrow> vcserver \<Rightarrow> (vcserver option \<times> cmem \<times> i32 list) option" where
  "boot_listen bt srv =
     (let undo = (\<lambda>srv fds. do { (m, fds') \<leftarrow> vcserver_destroy srv; Some (None, m, fds @ fds') })
      in if \<not> bt_resolve bt then undo srv []
         else if sint (bt_socket bt) < 0 then undo srv []
         else if \<not> bt_bind bt \<or> \<not> bt_listen bt then undo srv [bt_socket bt]
         else let srv = srv\<lparr>sv_listen_fd := bt_socket bt, sv_epoll_fd := bt_epoll bt\<rparr>
              in if sint (bt_epoll bt) < 0 then undo srv []
                 else Some (Some (srv\<lparr>sv_running := True\<rparr>), c_mem (sv_cache srv), []))"

definition vcserver_create :: "boot \<Rightarrow> cmem \<Rightarrow> vc_server_cfg \<Rightarrow> (vcserver option \<times> cmem \<times> i32 list) option" where
  "vcserver_create bt m cfg =
     (if \<not> bt_alloc bt then Some (None, m, [])
      else do {
        (cache, m) \<leftarrow> vc_create (bt_cache bt) m (if cfg_max_memory cfg \<noteq> 0 then cfg_max_memory cfg else 256 * 1024 * 1024)
                       (cfg_wal_path cfg \<noteq> None) (if cfg_shard_slots cfg \<noteq> 0 then cfg_shard_slots cfg else 4096);
        case cache of None \<Rightarrow> Some (None, m, [])
        | Some cache \<Rightarrow> do {
            (ok, db) \<leftarrow> vc_auth_load (bt_junk bt) (cfg_acl_file cfg) (bt_acl_text bt);
            if \<not> ok then do { m \<leftarrow> vc_destroy cache; Some (None, m, []) }
            else if cfg_tls_cert cfg \<noteq> None \<and> cfg_tls_key cfg \<noteq> None then
              (case tls_ctx_create bt of
                 None \<Rightarrow> do { m \<leftarrow> vc_destroy cache; Some (None, m, []) }
               | Some ctx \<Rightarrow> boot_listen bt (boot_server bt cfg cache db (Some ctx)))
            else boot_listen bt (boot_server bt cfg cache db None)
          }
      })"

section \<open>Threads\<close>

text \<open>
  What a turn of the loop of \<^verbatim>\<open>vcserver_start\<close> gets: its epoll instance, the address, its socket,
  the memory of the argument and whether the thread starts. The array of threads has four elements.
\<close>

abbreviation (input) VC_WORKER_THREADS :: int where "VC_WORKER_THREADS \<equiv> 4"

record worker_boot =
  wb_epoll :: i32
  wb_resolve :: bool
  wb_socket :: i32
  wb_alloc :: bool
  wb_thread :: bool

definition worker_count :: "vcserver \<Rightarrow> int" where
  "worker_count srv = (let nw = sint (cfg_worker_threads (sv_cfg srv)) in if nw \<le> 0 then VC_WORKER_THREADS else nw)"

text \<open>The threads that run, each with its epoll instance and its listening socket.\<close>

primrec start_workers :: "worker_boot list \<Rightarrow> (i32 \<times> i32) list \<Rightarrow> (int \<times> (i32 \<times> i32) list) option" where
  "start_workers [] ts = Some (0, ts)"
| "start_workers (wb # wbs) ts =
     (if sint (wb_epoll wb) < 0 then Some (- 1, ts)
      else if \<not> wb_resolve wb \<or> \<not> wb_alloc wb then None
      else if 4 \<le> length ts then None
      else if \<not> wb_thread wb then Some (- 1, ts)
      else start_workers wbs (ts @ [(wb_epoll wb, wb_socket wb)]))"

definition vcserver_start :: "(nat \<Rightarrow> worker_boot) \<Rightarrow> vcserver \<Rightarrow> (int \<times> (i32 \<times> i32) list) option" where
  "vcserver_start wb srv = start_workers (map wb [0..<nat (worker_count srv)]) []"

text \<open>Stopping waits for the threads; reading past the array of threads is a fault.\<close>

definition vcserver_stop :: "vcserver \<Rightarrow> vcserver option" where
  "vcserver_stop srv = (if 4 < worker_count srv then None else Some (srv\<lparr>sv_running := False\<rparr>))"

text \<open>\<^verbatim>\<open>vcserver_run\<close> waits for a signal and stops the server.\<close>

definition vcserver_run :: "vcserver \<Rightarrow> vcserver option" where
  "vcserver_run srv = vcserver_stop srv"

definition info_line :: "vcserver \<Rightarrow> bytes" where
  "info_line srv =
     (let st = vc_stats (sv_cache srv)
      in take 1023 (ascii ''VoidCache '' @ VC_SERVER_VERSION @ ascii ''  node='' @ sv_node_id srv
           @ ascii ''  keys='' @ dec_nat (unat (gs_total_keys st)) @ ascii ''  hits='' @ dec_nat (unat (gs_hits st))
           @ ascii ''  misses='' @ dec_nat (unat (gs_misses st)) @ [10]))"

text \<open>The result of growing the buffer is not looked at; a copy past its end is a fault.\<close>

definition vcserver_info :: "vcserver \<Rightarrow> vc_buf \<Rightarrow> vc_buf option" where
  "vcserver_info srv b = do {
     (_, b) \<leftarrow> vc_buf_grow b (length (info_line srv) + 1);
     if b_cap b < b_len b + length (info_line srv) then None
     else Some (b\<lparr>b_data := b_data b @ info_line srv\<rparr>)
   }"

section \<open>A server that has started\<close>

definition no_sock :: sock where
  "no_sock = \<lparr>sk_recv = [], sk_send = [], sk_hand = [], sk_out = [], sk_watch = None, sk_open = False\<rparr>"

text \<open>Every request to the system succeeds.\<close>

definition boots :: "boot \<Rightarrow> cmem \<Rightarrow> vc_server_cfg \<Rightarrow> bool" where
  "boots bt m cfg \<longleftrightarrow> bt_alloc bt \<and> create_ok (bt_cache bt) m (cfg_wal_path cfg \<noteq> None) \<and> blocks m = Map.empty
     \<and> unat (cfg_shard_slots cfg) \<le> 2 ^ 31
     \<and> (cfg_tls_cert cfg \<noteq> None \<and> cfg_tls_key cfg \<noteq> None \<longrightarrow> tls_ctx_create bt \<noteq> None)
     \<and> bt_resolve bt \<and> 0 \<le> sint (bt_socket bt) \<and> bt_bind bt \<and> bt_listen bt \<and> 0 \<le> sint (bt_epoll bt)"

definition configured :: "bytes option \<Rightarrow> bool" where
  "configured s \<longleftrightarrow> s \<noteq> None \<and> s \<noteq> Some []"

lemma boot_users_auth:
  "db_require_auth (boot_users bt cfg db) \<longleftrightarrow> db_require_auth db \<or>
     configured (cfg_requirepass cfg) \<and> length (db_users db) < VC_AUTH_MAX_USERS"
  by (auto simp: boot_users_def vc_auth_add_user_def configured_def split: option.split)

lemma auth_load_db:
  assumes "vc_auth_load junk path file = Some (True, db)"
  shows "db_require_auth db \<longleftrightarrow> configured path" "\<not> configured path \<longrightarrow> db_users db = []"
  using assms by (auto simp: vc_auth_load_def configured_def split: if_splits option.splits Option.bind_splits)

lemma boot_cache:
  assumes "boots bt m cfg"
  shows "\<exists>c m'. vc_create (bt_cache bt) m mm (cfg_wal_path cfg \<noteq> None)
       (if cfg_shard_slots cfg \<noteq> 0 then cfg_shard_slots cfg else 4096) = Some (Some c, m')
     \<and> cache_inv c \<and> cache_list c = []"
proof -
  have "unat (if cfg_shard_slots cfg \<noteq> 0 then cfg_shard_slots cfg else 4096) \<le> 2 ^ 31"
    using assms by (simp add: boots_def)
  then obtain c m' where c: "vc_create (bt_cache bt) m mm (cfg_wal_path cfg \<noteq> None)
       (if cfg_shard_slots cfg \<noteq> 0 then cfg_shard_slots cfg else 4096) = Some (Some c, m')" "cache_inv c"
    "shards_lives (mset (c_shards c)) = {#}"
    using vc_create_ok [of "bt_cache bt" m "cfg_wal_path cfg \<noteq> None"] assms unfolding boots_def by blast
  then show ?thesis using mset_cache_list [of c] by auto
qed

lemma boot_creates:
  assumes "boots bt m cfg" "vc_auth_load (bt_junk bt) (cfg_acl_file cfg) (bt_acl_text bt) = Some (True, db)"
  shows "\<exists>c ctx. vcserver_create bt m cfg = Some (Some ((boot_server bt cfg c db ctx)
       \<lparr>sv_listen_fd := bt_socket bt, sv_epoll_fd := bt_epoll bt, sv_running := True\<rparr>), c_mem c, [])
     \<and> cache_inv c \<and> cache_list c = [] \<and> (ctx \<noteq> None \<longleftrightarrow> cfg_tls_cert cfg \<noteq> None \<and> cfg_tls_key cfg \<noteq> None)"
proof -
  obtain c m' where c: "vc_create (bt_cache bt) m (if cfg_max_memory cfg \<noteq> 0 then cfg_max_memory cfg else 256 * 1024 * 1024)
      (cfg_wal_path cfg \<noteq> None) (if cfg_shard_slots cfg \<noteq> 0 then cfg_shard_slots cfg else 4096) = Some (Some c, m')"
    "cache_inv c" "cache_list c = []"
    using boot_cache [OF assms(1)] by blast
  define ctx where "ctx = (if cfg_tls_cert cfg \<noteq> None \<and> cfg_tls_key cfg \<noteq> None then tls_ctx_create bt else None)"
  have "boot_listen bt (boot_server bt cfg c db ctx) = Some (Some ((boot_server bt cfg c db ctx)
       \<lparr>sv_listen_fd := bt_socket bt, sv_epoll_fd := bt_epoll bt, sv_running := True\<rparr>), c_mem c, [])"
    using assms(1) by (simp add: boots_def boot_listen_def boot_server_def)
  moreover have "vcserver_create bt m cfg = boot_listen bt (boot_server bt cfg c db ctx)"
    using assms c(1) by (auto simp: vcserver_create_def boots_def ctx_def split: option.split)
  moreover have "ctx \<noteq> None \<longleftrightarrow> cfg_tls_cert cfg \<noteq> None \<and> cfg_tls_key cfg \<noteq> None"
    using assms(1) by (auto simp: ctx_def boots_def)
  ultimately show ?thesis using c(2,3) by (intro exI [of _ c] exI [of _ ctx]) simp
qed

text \<open>
  C28 (functional): a server whose requests to the system succeed starts with an empty store in a
  well-formed cache and with all slots of the pool free; it requires a login exactly when an ACL
  file or a password is configured, and speaks TLS exactly when both a certificate and a key are.
\<close>

theorem server_boots:
  assumes "boots bt m cfg" "vc_auth_load (bt_junk bt) (cfg_acl_file cfg) (bt_acl_text bt) = Some (True, db)"
  shows "\<exists>srv m'. vcserver_create bt m cfg = Some (Some srv, m', []) \<and> cache_inv (sv_cache srv)
     \<and> keys_distinct (sv_cache srv) \<and> cache_map (sv_cache srv) = Map.empty
     \<and> sv_conns srv = replicate VC_MAX_CONNS zero_conn \<and> sv_running srv
     \<and> (db_require_auth (sv_auth srv) \<longleftrightarrow> configured (cfg_acl_file cfg) \<or> configured (cfg_requirepass cfg))
     \<and> (sv_ssl_ctx srv \<noteq> None \<longleftrightarrow> cfg_tls_cert cfg \<noteq> None \<and> cfg_tls_key cfg \<noteq> None)"
proof -
  obtain c ctx where "vcserver_create bt m cfg = Some (Some ((boot_server bt cfg c db ctx)
       \<lparr>sv_listen_fd := bt_socket bt, sv_epoll_fd := bt_epoll bt, sv_running := True\<rparr>), c_mem c, [])"
    "cache_inv c" "cache_list c = []" "ctx \<noteq> None \<longleftrightarrow> cfg_tls_cert cfg \<noteq> None \<and> cfg_tls_key cfg \<noteq> None"
    using boot_creates [OF assms] by blast
  moreover have "db_require_auth (boot_users bt cfg db) \<longleftrightarrow> configured (cfg_acl_file cfg) \<or> configured (cfg_requirepass cfg)"
    using auth_load_db [OF assms(2)] by (auto simp: boot_users_auth)
  ultimately show ?thesis by (simp add: boot_server_def keys_distinct_def cache_map_def)
qed

text \<open>The password of the configuration logs in the user \<^verbatim>\<open>default\<close>, who may do everything.\<close>

lemma password_logs_in:
  assumes "cfg_requirepass cfg = Some pw" "pw \<noteq> []"
  shows "\<exists>u. vc_auth_verify (bt_oom bt) (boot_users bt cfg \<lparr>db_users = [], db_require_auth = False\<rparr>) (ascii ''default'') pw = Some u
     \<and> u_acl u = VC_ACL_READ OR VC_ACL_WRITE OR VC_ACL_ADMIN"
  using assms by (simp add: boot_users_def vc_auth_add_user_def vc_auth_verify_def)


definition demo_boot :: boot where
  "demo_boot = \<lparr>bt_alloc = True, bt_random = (None, None), bt_cache = demo_create, bt_acl_text = None,
     bt_junk = (\<lambda>_. []), bt_oom = False, bt_ctx = None, bt_cert = 0, bt_key = 0, bt_check = 0, bt_resolve = True,
     bt_socket = 3, bt_bind = True, bt_listen = True, bt_epoll = 4\<rparr>"

lemma demo_boots: "boots demo_boot \<lparr>blocks = Map.empty, tails = []\<rparr> (demo_cfg\<lparr>cfg_requirepass := pw\<rparr>)"
  using demo_create_ok by (simp add: boots_def demo_boot_def demo_cfg_def)

lemma demo_load: "vc_auth_load (bt_junk bt) (cfg_acl_file (demo_cfg\<lparr>cfg_requirepass := pw\<rparr>)) file
   = Some (True, \<lparr>db_users = [], db_require_auth = False\<rparr>)"
  by (simp add: vc_auth_load_def demo_cfg_def)

theorem server_boots_witness:
  "\<exists>srv m'. vcserver_create demo_boot \<lparr>blocks = Map.empty, tails = []\<rparr> (demo_cfg\<lparr>cfg_requirepass := Some (ascii ''secret'')\<rparr>)
       = Some (Some srv, m', []) \<and> cache_map (sv_cache srv) = Map.empty \<and> db_require_auth (sv_auth srv)"
  using server_boots [OF demo_boots demo_load, of "Some (ascii ''secret'')"] by (auto simp: configured_def ascii_def)


section \<open>A server that does not start\<close>

text \<open>
  A server that cannot resolve its address gives up and destroys what it has built; as
  its descriptors are still zero, it closes descriptor 0, the standard input of the process, twice.
\<close>

theorem boot_failure_closes_stdin:
  assumes "boots (bt\<lparr>bt_resolve := True\<rparr>) m cfg" "\<not> bt_resolve bt"
    and "vc_auth_load (bt_junk bt) (cfg_acl_file cfg) (bt_acl_text bt) = Some (True, db)"
  shows "\<exists>m'. vcserver_create bt m cfg = Some (None, m', [0, 0])"
proof -
  have b: "bt_cache (bt\<lparr>bt_resolve := True\<rparr>) = bt_cache bt" by simp
  obtain c m' where c: "vc_create (bt_cache bt) m (if cfg_max_memory cfg \<noteq> 0 then cfg_max_memory cfg else 256 * 1024 * 1024)
      (cfg_wal_path cfg \<noteq> None) (if cfg_shard_slots cfg \<noteq> 0 then cfg_shard_slots cfg else 4096) = Some (Some c, m')"
    "cache_inv c"
    using boot_cache [OF assms(1), unfolded b] by blast
  obtain m1 where "vc_destroy c = Some m1"
    using destroy_shards_ok [of "c_mem c" "c_slab c" "c_shards c" "{#}"] c(2)
    by (auto simp: vc_destroy_def cache_inv_def)
  then have "boot_listen bt (boot_server bt cfg c db ctx) = Some (None, m1, [0, 0])" for ctx
    using assms(2) by (simp add: boot_listen_def boot_server_def vcserver_destroy_def)
  moreover have "tls_ctx_create (bt\<lparr>bt_resolve := True\<rparr>) = tls_ctx_create bt"
    by (simp add: tls_ctx_create_def split: option.split)
  ultimately show ?thesis
    using assms(1,3) c(1) by (auto simp: vcserver_create_def boots_def)
qed

theorem boot_failure_closes_stdin_witness:
  "\<exists>m'. vcserver_create (demo_boot\<lparr>bt_resolve := False\<rparr>) \<lparr>blocks = Map.empty, tails = []\<rparr> (demo_cfg\<lparr>cfg_requirepass := None\<rparr>)
       = Some (None, m', [0, 0])"
proof -
  have b: "(demo_boot\<lparr>bt_resolve := False\<rparr>)\<lparr>bt_resolve := True\<rparr> = demo_boot" by (simp add: demo_boot_def)
  show ?thesis
    using boot_failure_closes_stdin [of "demo_boot\<lparr>bt_resolve := False\<rparr>", unfolded b, OF demo_boots _ demo_load] by simp
qed

section \<open>Starting the threads\<close>

lemma start_workers_all:
  assumes "\<forall>wb \<in> set wbs. 0 \<le> sint (wb_epoll wb) \<and> wb_resolve wb \<and> wb_alloc wb \<and> wb_thread wb"
  shows "start_workers wbs ts = (if length ts + length wbs \<le> 4 \<or> wbs = []
     then Some (0, ts @ map (\<lambda>wb. (wb_epoll wb, wb_socket wb)) wbs) else None)"
  using assms by (induction wbs arbitrary: ts) auto

text \<open>
  When the system grants everything, starting the server starts as many threads as are
  configured, each with an epoll instance and a socket of its own, if these are at most the four the
  array of threads has room for; with more it writes past the array.
\<close>

theorem start_within_array:
  assumes "\<forall>i. 0 \<le> sint (wb_epoll (wb i)) \<and> wb_resolve (wb i) \<and> wb_alloc (wb i) \<and> wb_thread (wb i)"
  shows "vcserver_start wb srv = (if worker_count srv \<le> 4
     then Some (0, map (\<lambda>i. (wb_epoll (wb i), wb_socket (wb i))) [0..<nat (worker_count srv)]) else None)"
proof -
  have "0 < worker_count srv" by (simp add: worker_count_def Let_def)
  then show ?thesis
    using start_workers_all [of "map wb [0..<nat (worker_count srv)]" "[]"] assms
    by (auto simp: vcserver_start_def)
qed

theorem start_within_array_witness:
  "vcserver_start (\<lambda>i. \<lparr>wb_epoll = 9, wb_resolve = True, wb_socket = 8, wb_alloc = True, wb_thread = True\<rparr>)
     (demo_server False demo_cache) = Some (0, [(9, 8)])"
  using start_within_array [of "\<lambda>i. \<lparr>wb_epoll = 9, wb_resolve = True, wb_socket = 8, wb_alloc = True, wb_thread = True\<rparr>"
      "demo_server False demo_cache"]
  by (simp add: worker_count_def demo_server_def demo_cfg_def)

end
