(* ===== verification/Slots.thy ===== *)
theory Slots
  imports CString
begin

text \<open>
  Which slot of a cluster a key belongs to: the CRC-16 of \<^verbatim>\<open>net/cluster.c\<close> with its table, and the
  rule of hash tags. The reference is the cyclic redundancy check of the polynomial 0x1021 worked out
  bit by bit, the one Redis uses.
\<close>

unbundle bit_operations_syntax

section \<open>The code\<close>

definition crc16_tab :: "u16 list" where
  "crc16_tab =
    [0x0000, 0x1021, 0x2042, 0x3063, 0x4084, 0x50a5, 0x60c6, 0x70e7, 0x8108, 0x9129, 0xa14a, 0xb16b,
     0xc18c, 0xd1ad, 0xe1ce, 0xf1ef, 0x1231, 0x0210, 0x3273, 0x2252, 0x52b5, 0x4294, 0x72f7, 0x62d6,
     0x9339, 0x8318, 0xb37b, 0xa35a, 0xd3bd, 0xc39c, 0xf3ff, 0xe3de, 0x2462, 0x3443, 0x0420, 0x1401,
     0x64e6, 0x74c7, 0x44a4, 0x5485, 0xa56a, 0xb54b, 0x8528, 0x9509, 0xe5ee, 0xf5cf, 0xc5ac, 0xd58d,
     0x3653, 0x2672, 0x1611, 0x0630, 0x76d7, 0x66f6, 0x5695, 0x46b4, 0xb75b, 0xa77a, 0x9719, 0x8738,
     0xf7df, 0xe7fe, 0xd79d, 0xc7bc, 0x4864, 0x5845, 0x6826, 0x7807, 0x08e0, 0x18c1, 0x28a2, 0x38c3,
     0xc92c, 0xd90d, 0xe96e, 0xf94f, 0x89a8, 0x99f9, 0xa9ba, 0xb99b, 0x5a65, 0x4a44, 0x7a27, 0x6a06,
     0x1ae1, 0x0ac0, 0x3aa3, 0x2a82, 0xdb6d, 0xcb4c, 0xfb2f, 0xeb0e, 0x9be9, 0x8bc8, 0xbbab, 0xabda,
     0x6c76, 0x7c57, 0x4c34, 0x5c15, 0x2cf2, 0x3cd3, 0x0cb0, 0x1c91, 0xed7e, 0xfd5f, 0xcd3c, 0xdd1d,
     0xadfa, 0xbddb, 0x8db8, 0x9d99, 0x7e67, 0x6e46, 0x5e25, 0x4e04, 0x3ee3, 0x2ec2, 0x1ea1, 0x0e80,
     0xff6f, 0xef4e, 0xdf2d, 0xcf0c, 0xbfeb, 0xafca, 0x9fa9, 0x8f88, 0x9188, 0x81a9, 0xb1ca, 0xa1eb,
     0xd10c, 0xc12d, 0xf14e, 0xe16f, 0x1080, 0x00a1, 0x30c2, 0x20e3, 0x5004, 0x4025, 0x7046, 0x6067,
     0x83b9, 0x9398, 0xa3fb, 0xb3da, 0xc33d, 0xd31c, 0xe37f, 0xf35e, 0x02b1, 0x1290, 0x22f3, 0x32d2,
     0x4235, 0x5214, 0x6277, 0x7256, 0xb5ea, 0xa5cb, 0x95a8, 0x8589, 0xf56e, 0xe54f, 0xd52c, 0xc50d,
     0x34e2, 0x24c3, 0x14a0, 0x0481, 0x7466, 0x6447, 0x5424, 0x4405, 0xa7db, 0xb7fa, 0x8799, 0x97b8,
     0xe75f, 0xf77e, 0xc71d, 0xd73c, 0x26d3, 0x36f2, 0x0691, 0x16b0, 0x6657, 0x7676, 0x4615, 0x5634,
     0xd94c, 0xc96d, 0xf90e, 0xe92f, 0x99c8, 0x89e9, 0xb98a, 0xa9ab, 0x5844, 0x4865, 0x7806, 0x6827,
     0x18c0, 0x08e1, 0x38a2, 0x28a3, 0xcb7d, 0xdb5c, 0xeb3f, 0xfb1e, 0x8bf9, 0x9bd8, 0xabbb, 0xbb9a,
     0x4a75, 0x5a54, 0x6a37, 0x7a16, 0x0af1, 0x1ad0, 0x2ab3, 0x3a92, 0xfd2e, 0xed0f, 0xdd6c, 0xcd4d,
     0xbdaa, 0xad8b, 0x9de8, 0x8dc9, 0x7c26, 0x6c07, 0x5c64, 0x4c45, 0x3ca2, 0x2c83, 0x1ce0, 0x0cc1,
     0xef1f, 0xff3e, 0xcf5d, 0xdf7c, 0xaf9b, 0xbfba, 0x8fd9, 0x9ff8, 0x6e17, 0x7e36, 0x4e55, 0x5e74,
     0x2e93, 0x3eb2, 0x0ed1, 0x1ef0]"

definition crc16_step :: "u16 \<Rightarrow> byte \<Rightarrow> u16" where
  "crc16_step crc b = push_bit 8 crc XOR crc16_tab ! unat ((drop_bit 8 crc XOR ucast b) AND 0xFF)"

definition vc_crc16 :: "bytes \<Rightarrow> u16" where
  "vc_crc16 key = foldl crc16_step 0 key"

definition memchr :: "byte \<Rightarrow> bytes \<Rightarrow> nat option" where
  "memchr c s = (let p = takeWhile (\<lambda>b. b \<noteq> c) s in if length p < length s then Some (length p) else None)"

abbreviation (input) VC_CLUSTER_SLOTS :: nat where "VC_CLUSTER_SLOTS \<equiv> 16384"

definition hash_part :: "bytes \<Rightarrow> bytes" where
  "hash_part key =
     (case memchr 123 key of None \<Rightarrow> key
      | Some i \<Rightarrow> (case memchr 125 (drop (i + 1) key) of None \<Rightarrow> key
          | Some n \<Rightarrow> if 0 < n then take n (drop (i + 1) key) else key))"

definition vc_key_slot :: "bytes \<Rightarrow> u16" where
  "vc_key_slot key = vc_crc16 (hash_part key) AND of_nat (VC_CLUSTER_SLOTS - 1)"

section \<open>The reference\<close>

definition shift_crc :: "u16 \<Rightarrow> u16" where
  "shift_crc r = (if bit r 15 then push_bit 1 r XOR 0x1021 else push_bit 1 r)"

definition ccitt_byte :: "u16 \<Rightarrow> byte \<Rightarrow> u16" where
  "ccitt_byte crc b = (shift_crc ^^ 8) (crc XOR push_bit 8 (ucast b))"

definition ccitt :: "bytes \<Rightarrow> u16" where
  "ccitt s = foldl ccitt_byte 0 s"

text \<open>The entries of the table that are right.\<close>

definition right_entry :: "nat \<Rightarrow> bool" where
  "right_entry i \<longleftrightarrow> i < 256 \<and> \<not> (64 \<le> i \<and> i < 128) \<and> i \<noteq> 206"

lemma shift_crc_xor: "shift_crc (a XOR b) = shift_crc a XOR shift_crc b"
  by (simp add: shift_crc_def bit_xor_iff push_bit_xor ac_simps flip: xor.assoc)

lemma shifts_xor: "(shift_crc ^^ n) (a XOR b) = (shift_crc ^^ n) a XOR (shift_crc ^^ n) b"
  by (induction n) (simp_all add: shift_crc_xor)

lemma funpow8: "(f ^^ 8) x = f (f (f (f (f (f (f (f x)))))))"
  by (simp add: eval_nat_numeral)

lemma shift_numeral:
  "shift_crc (numeral n) = (if bit (numeral n :: u16) 15 then push_bit 1 (numeral n) XOR 0x1021 else push_bit 1 (numeral n))"
  "shift_crc 0 = 0"
  by (simp_all add: shift_crc_def)

primrec check_table :: "u16 list \<Rightarrow> u16 \<Rightarrow> bool" where
  "check_table [] i = True"
| "check_table (e # es) i \<longleftrightarrow>
     (e = (shift_crc ^^ 8) (push_bit 8 i)) = (\<not> (64 \<le> i \<and> i < 128) \<and> i \<noteq> 206) \<and> check_table es (i + 1)"

lemma table_check: "check_table crc16_tab 0"
proof -
  have "\<not> (64 :: u16) \<le> 1" by (simp add: word_le_nat_alt)
  then show ?thesis by (simp add: crc16_tab_def funpow8 shift_numeral)
qed

lemma check_table_nth:
  "check_table es i \<Longrightarrow> k < length es \<Longrightarrow> unat i + k < 2 ^ 16 \<Longrightarrow>
     (es ! k = (shift_crc ^^ 8) (push_bit 8 (i + of_nat k))) = (\<not> (64 \<le> unat i + k \<and> unat i + k < 128) \<and> unat i + k \<noteq> 206)"
proof (induction es arbitrary: i k)
  case (Cons e es)
  show ?case
  proof (cases k)
    case 0
    have "(64 \<le> i) = (64 \<le> unat i)" "(i < 128) = (unat i < 128)" "(i = 206) = (unat i = 206)"
      by (simp_all add: word_le_nat_alt word_less_nat_alt word_unat_eq_iff)
    then show ?thesis using Cons.prems 0 by simp
  next
    case (Suc j)
    have "unat (i + 1) = unat i + 1" using Cons.prems(3) Suc by (simp add: unat_word_ariths)
    then show ?thesis using Cons.IH [of "i + 1" j] Cons.prems Suc by (simp add: ac_simps)
  qed
qed simp

lemma table_length: "length crc16_tab = 256"
  by (simp add: crc16_tab_def)

lemma table_entry:
  assumes "i < 256"
  shows "(crc16_tab ! i = (shift_crc ^^ 8) (push_bit 8 (of_nat i))) = right_entry i"
  using check_table_nth [OF table_check, of i] assms by (simp add: table_length right_entry_def)

lemma shift_small: "unat x < 2 ^ 15 \<Longrightarrow> shift_crc x = push_bit 1 x"
proof -
  assume a: "unat x < 2 ^ 15"
  have "\<not> bit x 15"
    using a bit_unsigned_iff [of x 15, where ?'a = nat] by (simp add: bit_iff_odd)
  then show ?thesis by (simp add: shift_crc_def)
qed

lemma shifts_small: "unat x < 2 ^ 8 \<Longrightarrow> k \<le> 8 \<Longrightarrow> (shift_crc ^^ k) x = push_bit k x"
proof (induction k)
  case (Suc k)
  have "unat (push_bit k x) = take_bit 16 (unat x * 2 ^ k)"
    by (simp add: unsigned_push_bit_eq flip: push_bit_eq_mult)
  then have "unat (push_bit k x) \<le> unat x * 2 ^ k" by simp
  also have "\<dots> < 2 ^ 8 * 2 ^ 7"
    using Suc.prems power_increasing [of k 7 "2 :: nat"] by (intro mult_less_le_imp_less) auto
  finally show ?case using Suc shift_small [of "push_bit k x"] by simp
qed simp

text \<open>A step of the code agrees with the reference when the entry it takes from the table is right.\<close>

lemma crc16_step_right:
  assumes "right_entry (unat ((drop_bit 8 crc XOR ucast b) AND 0xFF))"
  shows "crc16_step crc b = ccitt_byte crc b"
proof -
  let ?i = "(drop_bit 8 crc XOR ucast b) AND 0xFF :: u16"
  have i: "unat ?i < 256" using assms by (simp add: right_entry_def)
  have m: "(0xFF :: u16) = mask 8" by (simp add: mask_eq_exp_minus_1)
  have split: "crc XOR push_bit 8 (ucast b) = push_bit 8 ?i XOR (crc AND 0xFF)"
    unfolding m by (rule bit_word_eqI) (auto simp: bit_simps)
  have "unat (crc AND 0xFF) = take_bit 8 (unat crc)"
    unfolding m by (simp add: unsigned_take_bit_eq flip: take_bit_eq_mask)
  then have "unat (crc AND 0xFF) < 2 ^ 8" using take_bit_nat_less_exp by metis
  then have "(shift_crc ^^ 8) (crc AND 0xFF) = push_bit 8 (crc AND 0xFF)" by (simp add: shifts_small)
  moreover have "push_bit 8 (crc AND 0xFF) = push_bit 8 crc"
    unfolding m by (rule bit_word_eqI) (auto simp: bit_simps)
  moreover have "crc16_tab ! unat ?i = (shift_crc ^^ 8) (push_bit 8 ?i)"
    using table_entry [OF i] assms by simp
  ultimately show ?thesis by (simp add: crc16_step_def ccitt_byte_def split shifts_xor xor.commute)
qed

section \<open>Slots\<close>

text \<open>The entries of the table that a message makes the reference use.\<close>

definition table_uses :: "bytes \<Rightarrow> nat set" where
  "table_uses s = {unat ((drop_bit 8 (ccitt (take i s)) XOR ucast (s ! i)) AND 0xFF) | i. i < length s}"

lemma vc_crc16_snoc [simp]: "vc_crc16 (s @ [b]) = crc16_step (vc_crc16 s) b" "ccitt (s @ [b]) = ccitt_byte (ccitt s) b"
  by (simp_all add: vc_crc16_def ccitt_def)

lemma table_uses_snoc:
  "table_uses (s @ [b]) = insert (unat ((drop_bit 8 (ccitt s) XOR ucast b) AND 0xFF)) (table_uses s)"
  by (force simp: table_uses_def nth_append less_Suc_eq)

text \<open>
  C33 (equivalence): on every message that makes no use of the entries 64 to 127 and 206 of the
  table, the table-driven CRC of the code is the cyclic redundancy check of the polynomial 0x1021
  worked out bit by bit; each of these 65 entries is wrong, every other one is right.
\<close>

theorem crc16_ccitt:
  "(\<forall>i < 256. (crc16_tab ! i = ccitt_byte 0 (of_nat i)) = (\<not> (64 \<le> i \<and> i < 128) \<and> i \<noteq> 206))
   \<and> (table_uses s \<subseteq> {i. right_entry i} \<longrightarrow> vc_crc16 s = ccitt s)"
proof
  have "ccitt_byte 0 (of_nat i) = (shift_crc ^^ 8) (push_bit 8 (of_nat i))" if "i < 256" for i
    using that by (simp add: ccitt_byte_def unsigned_of_nat take_bit_nat_eq_self)
  then show "\<forall>i < 256. (crc16_tab ! i = ccitt_byte 0 (of_nat i)) = (\<not> (64 \<le> i \<and> i < 128) \<and> i \<noteq> 206)"
    using table_entry by (simp add: right_entry_def)
  show "table_uses s \<subseteq> {i. right_entry i} \<longrightarrow> vc_crc16 s = ccitt s"
  proof (induction s rule: rev_induct)
    case Nil
    then show ?case by (simp add: vc_crc16_def ccitt_def)
  next
    case (snoc b s)
    then show ?case by (auto simp: table_uses_snoc crc16_step_right)
  qed
qed

theorem crc16_ccitt_witness:
  "table_uses (ascii ''12'') \<subseteq> {i. right_entry i} \<and> vc_crc16 (ascii ''12'') = ccitt (ascii ''12'')
   \<and> crc16_tab ! 49 = ccitt_byte 0 49"
proof -
  have "ascii ''12'' = ([] @ [49]) @ [50]" by (simp add: ascii_def)
  moreover have "table_uses (([] @ [49]) @ [50]) \<subseteq> {i. right_entry i}"
    by (simp only: table_uses_snoc)
      (simp add: table_uses_def ccitt_def ccitt_byte_def funpow8 shift_numeral right_entry_def)
  ultimately have "table_uses (ascii ''12'') \<subseteq> {i. right_entry i}" by simp
  then show ?thesis using crc16_ccitt [of "ascii ''12''"] by (auto dest!: spec [of _ 49])
qed

lemma key_slot_less: "unat (vc_key_slot key) < VC_CLUSTER_SLOTS"
proof -
  have m: "of_nat (VC_CLUSTER_SLOTS - 1) = (mask 14 :: u16)" by (simp add: mask_eq_exp_minus_1)
  have "unat (vc_key_slot key) = take_bit 14 (unat (vc_crc16 (hash_part key)))"
    unfolding vc_key_slot_def m by (simp add: unsigned_take_bit_eq flip: take_bit_eq_mask)
  then show ?thesis using take_bit_nat_less_exp [of 14] by simp
qed

text \<open>
  A slot is always below 16384, and keys that share a hash tag share a slot: when
  the first brace of the key opens a tag that is not empty, only the tag decides.
\<close>

theorem key_slot_tag:
  "unat (vc_key_slot key) < VC_CLUSTER_SLOTS
   \<and> (123 \<notin> set pre \<and> 125 \<notin> set tag \<and> tag \<noteq> [] \<longrightarrow>
        vc_key_slot (pre @ [123] @ tag @ [125] @ post) = vc_key_slot ([123] @ tag @ [125]))"
proof
  show "unat (vc_key_slot key) < VC_CLUSTER_SLOTS" by (rule key_slot_less)
  have "hash_part (p @ [123] @ tag @ [125] @ q) = tag" if "123 \<notin> set p" "125 \<notin> set tag" "tag \<noteq> []" for p q
  proof -
    have "takeWhile (\<lambda>b. b \<noteq> 123) (p @ [123] @ tag @ [125] @ q) = p" using that(1) by (subst takeWhile_append2) auto
    moreover have "takeWhile (\<lambda>b. b \<noteq> 125) (tag @ [125] @ q) = tag" using that(2) by (subst takeWhile_append2) auto
    ultimately show ?thesis using that(3) by (simp add: hash_part_def memchr_def)
  qed
  from this [of pre post] this [of "[]" "[]"]
  show "123 \<notin> set pre \<and> 125 \<notin> set tag \<and> tag \<noteq> [] \<longrightarrow>
      vc_key_slot (pre @ [123] @ tag @ [125] @ post) = vc_key_slot ([123] @ tag @ [125])"
    by (simp add: vc_key_slot_def)
qed

theorem key_slot_tag_witness:
  "vc_key_slot (ascii ''user{42}.name'') = vc_key_slot (ascii ''{42}'')"
  using key_slot_tag [of "[]" "ascii ''user''" "ascii ''42''" "ascii ''.name''"] by (simp add: ascii_def)

text \<open>The key \<^verbatim>\<open>foo\<close>, in slot 12182 of a Redis cluster, is in another one for the code.\<close>

theorem key_slot_foo: "vc_key_slot (ascii ''foo'') \<noteq> ccitt (ascii ''foo'') AND 16383 \<and> ccitt (ascii ''foo'') AND 16383 = 12182"
proof -
  have "ascii ''foo'' = [102, 111, 111]" by (simp add: ascii_def)
  moreover have "ccitt [102, 111, 111] = 44950" by (simp add: ccitt_def ccitt_byte_def funpow8 shift_numeral)
  moreover have "vc_crc16 [102, 111, 111] = 46315" by (simp add: vc_crc16_def crc16_step_def crc16_tab_def)
  ultimately show ?thesis by (simp add: vc_key_slot_def hash_part_def memchr_def)
qed

end
