(* ===== verification/Cluster.thy ===== *)
theory Cluster
  imports Slots Session
begin

text \<open>
  The cluster client of \<^verbatim>\<open>net/cluster.c\<close>: sockets, the pool of connections of a node, the reader of
  replies, the topology and its refresh, the health check and sending a command. What the network
  and the TLS library answer is an argument, taken in the order of the ticks of the client. A socket
  carries the bytes its peer will send before the connection ends and how many bytes each call to
  send takes; without a further one sending fails. The threads of the client take turns.
\<close>

abbreviation (input) VC_CLUSTER_MAX_NODES :: nat where "VC_CLUSTER_MAX_NODES \<equiv> 64"
abbreviation (input) VC_CLUSTER_MAX_CONNS :: nat where "VC_CLUSTER_MAX_CONNS \<equiv> 8"
abbreviation (input) VC_CLUSTER_MAX_RETRIES :: nat where "VC_CLUSTER_MAX_RETRIES \<equiv> 3"

section \<open>Sockets\<close>

record nsock =
  ns_in :: bytes
  ns_send :: "nat list"
  ns_out :: bytes

text \<open>
  An address to connect to: the descriptor of the socket; the result of connecting, 0, 1 when it is
  in progress, or a failure; the result of waiting for it; and the error it ended with.
\<close>

record attempt =
  at_fd :: i32
  at_connect :: int
  at_select :: int
  at_err :: int

text \<open>The result is the descriptor, negative on failure, with the descriptors closed on the way.\<close>

primrec connect_loop :: "attempt list \<Rightarrow> i32 list \<Rightarrow> i32 \<times> i32 list" where
  "connect_loop [] closed = (- 1, closed)"
| "connect_loop (a # as) closed =
     (if sint (at_fd a) < 0 then connect_loop as closed
      else if at_connect a = 0 then (at_fd a, closed)
      else if at_connect a \<noteq> 1 then connect_loop as (closed @ [at_fd a])
      else if at_select a \<le> 0 then connect_loop as (closed @ [at_fd a])
      else if at_err a \<noteq> 0 then connect_loop as (closed @ [at_fd a])
      else (at_fd a, closed))"

definition tcp_connect :: "attempt list option \<Rightarrow> i32 \<times> i32 list" where
  "tcp_connect addrs = (case addrs of None \<Rightarrow> (- 1, []) | Some as \<Rightarrow> connect_loop as [])"

primrec sendall_loop :: "nat list \<Rightarrow> bytes \<Rightarrow> bytes \<Rightarrow> bool \<times> nat list \<times> bytes" where
  "sendall_loop [] buf out = (buf = [], [], out)"
| "sendall_loop (n # ns) buf out =
     (if buf = [] then (True, n # ns, out)
      else if n = 0 then (False, ns, out)
      else sendall_loop ns (drop n buf) (out @ take n buf))"

definition sock_sendall :: "bytes \<Rightarrow> nsock \<Rightarrow> bool \<times> nsock" where
  "sock_sendall buf k =
     (let (ok, ns, out) = sendall_loop (ns_send k) buf (ns_out k) in (ok, k\<lparr>ns_send := ns, ns_out := out\<rparr>))"

text \<open>
  Reading a line: whether there was one, what was stored in the buffer and the bytes that follow.
  The carriage return becomes the end mark, the line feed stays behind it.
\<close>

primrec readline_loop :: "nat \<Rightarrow> bytes \<Rightarrow> bytes \<Rightarrow> bool \<times> bytes \<times> bytes" where
  "readline_loop 0 buf s = (False, buf, s)"
| "readline_loop (Suc room) buf s =
     (case s of [] \<Rightarrow> (False, buf, [])
      | c # s \<Rightarrow> if buf \<noteq> [] \<and> last buf = 13 \<and> c = 10 then (True, butlast buf @ [0, 10], s)
                else readline_loop room (buf @ [c]) s)"

definition sock_readline :: "nat \<Rightarrow> bytes \<Rightarrow> bool \<times> bytes \<times> bytes" where
  "sock_readline maxlen s = readline_loop (maxlen - 1) [] s"

definition sock_readn :: "nat \<Rightarrow> bytes \<Rightarrow> bool \<times> bytes \<times> bytes" where
  "sock_readn n s = (n \<le> length s, take n s, drop n s)"

text \<open>A buffer that is written over, and the string that starts at its second byte.\<close>

definition overwrite :: "bytes \<Rightarrow> bytes \<Rightarrow> bytes" where
  "overwrite buf w = w @ drop (length w) buf"

definition rest_str :: "bytes \<Rightarrow> bytes option" where
  "rest_str l = (if 0 \<in> set (drop 1 l) then Some (c_str (drop 1 l)) else None)"

definition atoll :: "bytes \<Rightarrow> int" where
  "atoll s = fst (strtoll s)"

definition atoi :: "bytes \<Rightarrow> i32" where
  "atoi s = of_int (atoll s)"

section \<open>Replies\<close>

text \<open>The reply and the bytes that follow it; \<open>oom\<close> tells which sizes cannot be allocated.\<close>

definition resp_read_reply :: "(nat \<Rightarrow> bool) \<Rightarrow> bytes \<Rightarrow> (bytes option \<times> bytes) option" where
  "resp_read_reply oom s =
     (let (ok, line, s) = sock_readline 1024 s;
          dup = (\<lambda>t. if oom (length t + 1) then None else Some t)
      in if \<not> ok then Some (None, s)
         else let ty = hd line in
           if ty = 43 \<or> ty = 45 \<or> ty = 58 then do { t \<leftarrow> rest_str line; Some (dup t, s) }
           else if ty = 36 then do {
             t \<leftarrow> rest_str line;
             let blen = atoll t;
             if blen < 0 then Some (dup [], s)
             else if oom (nat blen + 3) then Some (None, s)
             else (let (ok, buf, s) = sock_readn (nat blen + 2) s
                   in if ok then Some (Some (take (nat blen) buf), s) else Some (None, s))
           }
           else if ty = 42 then do { t \<leftarrow> rest_str line; Some (dup (42 # dec_int (atoll t)), s) }
           else Some (None, s))"

section \<open>Nodes\<close>

record vc_node_conn =
  nc_fd :: i32
  nc_ssl :: "nat option"
  nc_in_use :: bool
  nc_last_used :: i64

record vc_cluster_node =
  nd_host :: bytes
  nd_port :: u16
  nd_alive :: bool
  nd_last_seen :: i64
  nd_backoff :: i64
  nd_conns :: "vc_node_conn list"

record vc_cluster =
  cl_nodes :: "vc_cluster_node list"
  cl_slot_map :: "8 word list"
  cl_running :: bool
  cl_ssl_ctx :: "nat option"
  cl_username :: bytes
  cl_password :: bytes

definition parse_hostport :: "nat \<Rightarrow> bytes \<Rightarrow> (bytes \<times> u16) option" where
  "parse_hostport hsz s =
     (if 58 \<notin> set s then None
      else let port = rev (takeWhile (\<lambda>b. b \<noteq> 58) (rev s)); host = take (length s - length port - 1) s;
               p = ucast (atoi port) :: u16
           in if hsz \<le> length host \<or> p = 0 then None else Some (host, p))"

definition find_node :: "vc_cluster_node list \<Rightarrow> bytes \<Rightarrow> u16 \<Rightarrow> nat option" where
  "find_node ns host port = find_index (\<lambda>n. nd_port n = port \<and> nd_host n = host) ns"

definition new_node :: "bytes \<Rightarrow> u16 \<Rightarrow> vc_cluster_node" where
  "new_node host port = \<lparr>nd_host = take 63 host, nd_port = port, nd_alive = True, nd_last_seen = 0,
     nd_backoff = 100000000,
     nd_conns = replicate VC_CLUSTER_MAX_CONNS \<lparr>nc_fd = - 1, nc_ssl = None, nc_in_use = False, nc_last_used = 0\<rparr>\<rparr>"

text \<open>The index of the node, or -1 when there is no room.\<close>

definition node_find_or_add :: "vc_cluster \<Rightarrow> bytes \<Rightarrow> u16 \<Rightarrow> int \<times> vc_cluster" where
  "node_find_or_add cl host port =
     (case find_node (cl_nodes cl) host port of Some i \<Rightarrow> (int i, cl)
      | None \<Rightarrow> if VC_CLUSTER_MAX_NODES \<le> length (cl_nodes cl) then (- 1, cl)
                else (int (length (cl_nodes cl)), cl\<lparr>cl_nodes := cl_nodes cl @ [new_node host port]\<rparr>))"

section \<open>The client and its world\<close>

text \<open>
  What the calls made at a tick return: the addresses of a host, a TLS object and its handshake, the
  socket of a new connection, the clock, and the sizes that cannot be allocated.
\<close>

record cenv =
  ce_addrs :: "nat \<Rightarrow> attempt list option"
  ce_ssl :: "nat \<Rightarrow> nat option"
  ce_shake :: "nat \<Rightarrow> int"
  ce_peer :: "nat \<Rightarrow> nsock"
  ce_now :: "nat \<Rightarrow> i64"
  ce_oom :: "nat \<Rightarrow> nat \<Rightarrow> bool"

record client =
  cs_cl :: vc_cluster
  cs_sock :: "i32 \<Rightarrow> nsock"
  cs_tick :: nat
  cs_closed :: "i32 list"

definition node_at :: "nat \<Rightarrow> client \<Rightarrow> vc_cluster_node" where
  "node_at i st = cl_nodes (cs_cl st) ! i"

definition upd_node :: "nat \<Rightarrow> (vc_cluster_node \<Rightarrow> vc_cluster_node) \<Rightarrow> client \<Rightarrow> client" where
  "upd_node i f st = st\<lparr>cs_cl := (cs_cl st)\<lparr>cl_nodes := (cl_nodes (cs_cl st))[i := f (node_at i st)]\<rparr>\<rparr>"

definition upd_conn :: "nat \<Rightarrow> nat \<Rightarrow> (vc_node_conn \<Rightarrow> vc_node_conn) \<Rightarrow> client \<Rightarrow> client" where
  "upd_conn i j f = upd_node i (\<lambda>n. n\<lparr>nd_conns := (nd_conns n)[j := f (nd_conns n ! j)]\<rparr>)"

definition conn_at :: "nat \<Rightarrow> nat \<Rightarrow> client \<Rightarrow> vc_node_conn" where
  "conn_at i j st = nd_conns (node_at i st) ! j"

definition set_sock :: "i32 \<Rightarrow> nsock \<Rightarrow> client \<Rightarrow> client" where
  "set_sock fd k st = st\<lparr>cs_sock := (cs_sock st)(fd := k)\<rparr>"

definition next_tick :: "client \<Rightarrow> client" where
  "next_tick st = st\<lparr>cs_tick := Suc (cs_tick st)\<rparr>"

section \<open>The pool of a node\<close>

definition node_conn_release :: "nat \<Rightarrow> nat \<Rightarrow> client \<Rightarrow> client" where
  "node_conn_release i j = upd_conn i j (\<lambda>c. c\<lparr>nc_in_use := False\<rparr>)"

definition node_conn_close :: "nat \<Rightarrow> nat \<Rightarrow> client \<Rightarrow> client" where
  "node_conn_close i j st =
     (let fd = nc_fd (conn_at i j st);
          st = (if 0 \<le> sint fd then st\<lparr>cs_closed := cs_closed st @ [fd]\<rparr> else st)
      in upd_conn i j (\<lambda>c. c\<lparr>nc_ssl := None, nc_fd := (if 0 \<le> sint fd then - 1 else fd), nc_in_use := False\<rparr>) st)"

definition auth_text :: "vc_cluster \<Rightarrow> bytes" where
  "auth_text cl =
     (let bulk = (\<lambda>s. ascii ''$'' @ dec_nat (length s) @ CRLF @ s @ CRLF)
      in if cl_username cl \<noteq> []
         then ascii ''*3'' @ CRLF @ ascii ''$4'' @ CRLF @ ascii ''AUTH'' @ CRLF @ bulk (cl_username cl) @ bulk (cl_password cl)
         else ascii ''*2'' @ CRLF @ ascii ''$4'' @ CRLF @ ascii ''AUTH'' @ CRLF @ bulk (cl_password cl))"

text \<open>Sending more of the command than its buffer of 256 bytes holds is a fault.\<close>

definition node_auth :: "i32 \<Rightarrow> client \<Rightarrow> client option" where
  "node_auth fd st =
     (if cl_password (cs_cl st) = [] then Some st
      else let (alen, buf) = snprintf 256 (auth_text (cs_cl st)) in
        if length buf < alen then None
        else let (_, k) = sock_sendall (take alen buf) (cs_sock st fd);
                 (_, _, rest) = sock_readline 64 (ns_in k)
             in Some (set_sock fd (k\<lparr>ns_in := rest\<rparr>) st))"

text \<open>A new connection in the slot: the socket, the TLS handshake and the login.\<close>

definition conn_open :: "cenv \<Rightarrow> nat \<Rightarrow> nat \<Rightarrow> client \<Rightarrow> (nat option \<times> client) option" where
  "conn_open e i j st =
     (let t = cs_tick st; (fd, closed) = tcp_connect (ce_addrs e t);
          st = next_tick (st\<lparr>cs_closed := cs_closed st @ closed\<rparr>)
      in if sint fd < 0 then Some (None, st)
         else do {
           (ok, ssl) \<leftarrow> (case cl_ssl_ctx (cs_cl st) of None \<Rightarrow> Some (True, None)
              | Some _ \<Rightarrow> do { ssl \<leftarrow> ce_ssl e t; Some (0 < ce_shake e t, Some ssl) });
           if \<not> ok then Some (None, st\<lparr>cs_closed := cs_closed st @ [fd]\<rparr>)
           else do {
             st \<leftarrow> node_auth fd (set_sock fd (ce_peer e t) (upd_conn i j (\<lambda>c. c\<lparr>nc_fd := fd, nc_ssl := ssl,
                     nc_in_use := True, nc_last_used := ce_now e t\<rparr>) st));
             Some (Some j, st)
           }
         })"

definition node_conn_get :: "cenv \<Rightarrow> nat \<Rightarrow> client \<Rightarrow> (nat option \<times> client) option" where
  "node_conn_get e i st =
     (case find_index (\<lambda>c. \<not> nc_in_use c \<and> 0 \<le> sint (nc_fd c)) (nd_conns (node_at i st)) of
        Some j \<Rightarrow> Some (Some j, next_tick (upd_conn i j (\<lambda>c. c\<lparr>nc_in_use := True, nc_last_used := ce_now e (cs_tick st)\<rparr>) st))
      | None \<Rightarrow> (case find_index (\<lambda>c. sint (nc_fd c) < 0) (nd_conns (node_at i st)) of
            None \<Rightarrow> Some (None, st)
          | Some j \<Rightarrow> conn_open e i j st))"

section \<open>The topology\<close>

text \<open>
  One address of the reply to CLUSTER SLOTS, from the line in \<open>l\<close> on: the host and the port with the
  line buffer and the bytes that follow. The host is read into a buffer of 256 bytes; storing past
  it, and using bytes that were never stored, is a fault.
\<close>

definition read_host :: "bytes \<Rightarrow> bytes \<Rightarrow> (bytes \<times> bytes) option" where
  "read_host tmp s = do {
     t \<leftarrow> rest_str tmp;
     let hlen = atoll t;
     if hlen < 0 \<or> 255 < hlen \<or> hlen = 255 \<and> 257 \<le> length s then None
     else let (_, got, s) = sock_readn (nat hlen + 2) s; h = take (nat hlen) got
          in if length h < nat hlen \<and> 0 \<notin> set h \<and> length h < 63 then None
             else Some (take 63 (c_str h), s)
   }"

definition read_addr :: "bytes \<Rightarrow> bytes \<Rightarrow> (bytes \<times> u16 \<times> bytes \<times> bytes) option" where
  "read_addr l s =
     (if hd l = 42 then do {
        let (_, tmp, s) = sock_readline 256 s;
        (host, s) \<leftarrow> read_host tmp s;
        let (_, w, s) = sock_readline 256 s;
        t \<leftarrow> rest_str (overwrite tmp w);
        Some (host, of_int (atoll t), l, s)
      }
      else do {
        h \<leftarrow> rest_str l;
        let (_, w, s) = sock_readline 256 s;
        t \<leftarrow> rest_str (overwrite l w);
        Some (take 63 h, of_int (atoll t), overwrite l w, s)
      })"

text \<open>The addresses of a range; the first one is the owner.\<close>

primrec refresh_addrs :: "nat \<Rightarrow> bool \<Rightarrow> int \<Rightarrow> bytes \<Rightarrow> vc_cluster \<Rightarrow> bytes \<Rightarrow> (int \<times> vc_cluster \<times> bytes) option" where
  "refresh_addrs 0 first owner l cl s = Some (owner, cl, s)"
| "refresh_addrs (Suc n) first owner l cl s =
     (let (ok, w, s) = sock_readline 256 s; l = overwrite l w
      in if \<not> ok then Some (owner, cl, s)
         else do {
           (host, port, l, s) \<leftarrow> read_addr l s;
           let (idx, cl) = node_find_or_add cl host port;
           refresh_addrs n False (if 0 \<le> idx \<and> first then idx else owner) l cl s
         })"

definition assign_slots :: "int \<Rightarrow> int \<Rightarrow> 8 word \<Rightarrow> 8 word list \<Rightarrow> 8 word list" where
  "assign_slots lo hi v m = map (\<lambda>(k, x). if lo \<le> int k \<and> int k \<le> hi then v else x) (enumerate 0 m)"

definition set_owner :: "i32 \<Rightarrow> i32 \<Rightarrow> int \<Rightarrow> vc_cluster \<Rightarrow> vc_cluster" where
  "set_owner slot_start slot_end owner cl =
     (if owner < 0 then cl
      else cl\<lparr>cl_slot_map := assign_slots (max 0 (sint slot_start))
          (if sint slot_end < int VC_CLUSTER_SLOTS then sint slot_end else int VC_CLUSTER_SLOTS - 1)
          (of_int owner) (cl_slot_map cl)\<rparr>)"

primrec refresh_ranges :: "nat \<Rightarrow> vc_cluster \<Rightarrow> bytes \<Rightarrow> (vc_cluster \<times> bytes) option" where
  "refresh_ranges 0 cl s = Some (cl, s)"
| "refresh_ranges (Suc n) cl s =
     (let (ok1, l, s) = sock_readline 256 s in if \<not> ok1 then Some (cl, s) else
      let (ok2, w, s) = sock_readline 256 s; l = overwrite l w in if \<not> ok2 then Some (cl, s) else do {
      slot_start \<leftarrow> rest_str l;
      let (ok3, w, s) = sock_readline 256 s; l = overwrite l w in if \<not> ok3 then Some (cl, s) else do {
      slot_end \<leftarrow> rest_str l;
      let (ok4, w, s) = sock_readline 256 s; l = overwrite l w in if \<not> ok4 then Some (cl, s) else do {
      naddrs \<leftarrow> rest_str l;
      (owner, cl, s) \<leftarrow> refresh_addrs (nat (sint (atoi naddrs))) True (- 1) l cl s;
      refresh_ranges n (set_owner (atoi slot_start) (atoi slot_end) owner cl) s
      }}})"

definition cluster_slots_cmd :: bytes where
  "cluster_slots_cmd = ascii ''*2'' @ CRLF @ ascii ''$7'' @ CRLF @ ascii ''CLUSTER'' @ CRLF @ ascii ''$5'' @ CRLF @ ascii ''SLOTS'' @ CRLF"

definition set_alive :: "bool \<Rightarrow> nat \<Rightarrow> client \<Rightarrow> client" where
  "set_alive b i = upd_node i (\<lambda>n. n\<lparr>nd_alive := b\<rparr>)"

text \<open>Asking one node for the slots; the first component tells that the topology was read.\<close>

definition refresh_from :: "cenv \<Rightarrow> nat \<Rightarrow> client \<Rightarrow> (bool \<times> client) option" where
  "refresh_from e i st = do {
     (nc, st) \<leftarrow> node_conn_get e i st;
     case nc of None \<Rightarrow> Some (False, st)
     | Some j \<Rightarrow>
         (let fd = nc_fd (conn_at i j st); (sent, k) = sock_sendall cluster_slots_cmd (cs_sock st fd);
              st = set_sock fd k st
          in if \<not> sent then Some (False, set_alive False i (node_conn_close i j st))
             else let (ok, line, s) = sock_readline 256 (ns_in k); st = set_sock fd (k\<lparr>ns_in := s\<rparr>) st
             in if \<not> ok then Some (False, node_conn_close i j st)
             else if hd line \<noteq> 42 then Some (False, node_conn_release i j st)
             else do {
               nranges \<leftarrow> rest_str line;
               (cl, s) \<leftarrow> refresh_ranges (nat (sint (atoi nranges)))
                  ((cs_cl st)\<lparr>cl_slot_map := replicate VC_CLUSTER_SLOTS (- 1)\<rparr>) s;
               Some (True, node_conn_release i j (set_sock fd (k\<lparr>ns_in := s\<rparr>) (st\<lparr>cs_cl := cl\<rparr>)))
             })
   }"

primrec refresh_loop :: "cenv \<Rightarrow> nat list \<Rightarrow> client \<Rightarrow> (int \<times> client) option" where
  "refresh_loop e [] st = Some (- 1, st)"
| "refresh_loop e (i # is) st =
     (if \<not> nd_alive (node_at i st) then refresh_loop e is st
      else do {
        (done, st) \<leftarrow> refresh_from e i st;
        if done then Some (0, st) else refresh_loop e is st
      })"

definition vc_cluster_refresh :: "cenv \<Rightarrow> client \<Rightarrow> (int \<times> client) option" where
  "vc_cluster_refresh e st = refresh_loop e [0..<length (cl_nodes (cs_cl st))] st"

section \<open>The health check\<close>

definition ping_cmd :: bytes where
  "ping_cmd = ascii ''*1'' @ CRLF @ ascii ''$4'' @ CRLF @ ascii ''PING'' @ CRLF"

definition next_backoff :: "i64 \<Rightarrow> i64" where
  "next_backoff b = (if sint b < 3200000000 then b * 2 else 3200000000)"

definition read_reply_at :: "cenv \<Rightarrow> i32 \<Rightarrow> client \<Rightarrow> (bytes option \<times> client) option" where
  "read_reply_at e fd st = do {
     (r, s) \<leftarrow> resp_read_reply (ce_oom e (cs_tick st)) (ns_in (cs_sock st fd));
     Some (r, next_tick (set_sock fd ((cs_sock st fd)\<lparr>ns_in := s\<rparr>) st))
   }"

text \<open>The check of one node.\<close>

definition health_node :: "cenv \<Rightarrow> nat \<Rightarrow> client \<Rightarrow> client option" where
  "health_node e i st =
     (let n = node_at i st in
      if \<not> nd_alive n \<and> sint (ce_now e (cs_tick st) - nd_last_seen n) < sint (nd_backoff n) then Some (next_tick st)
      else do {
        let st = (if nd_alive n then st else next_tick st);
        (nc, st) \<leftarrow> node_conn_get e i st;
        case nc of
          None \<Rightarrow> do {
            let st = next_tick (upd_node i (\<lambda>n. n\<lparr>nd_alive := False, nd_backoff := next_backoff (nd_backoff n),
                       nd_last_seen := ce_now e (cs_tick st)\<rparr>) st);
            (_, st) \<leftarrow> vc_cluster_refresh e st;
            Some st
          }
        | Some j \<Rightarrow>
            (let fd = nc_fd (conn_at i j st); (sent, k) = sock_sendall ping_cmd (cs_sock st fd); st = set_sock fd k st
             in if \<not> sent then do {
                  let st = upd_node i (\<lambda>n. n\<lparr>nd_alive := False, nd_backoff := next_backoff (nd_backoff n)\<rparr>) (node_conn_close i j st);
                  (_, st) \<leftarrow> vc_cluster_refresh e st;
                  Some st
                }
                else do {
                  (_, st) \<leftarrow> read_reply_at e fd st;
                  Some (node_conn_release i j (next_tick (upd_node i (\<lambda>n. n\<lparr>nd_alive := True,
                    nd_last_seen := ce_now e (cs_tick st), nd_backoff := 100000000\<rparr>) st)))
                })
      })"

text \<open>A round of the thread, over the nodes there are when the loop looks.\<close>

function health_round :: "cenv \<Rightarrow> nat \<Rightarrow> client \<Rightarrow> client option" where
  "health_round e i st =
     (if i < length (cl_nodes (cs_cl st)) \<and> i < VC_CLUSTER_MAX_NODES
      then do { st \<leftarrow> health_node e i st; health_round e (Suc i) st } else Some st)"
  by pat_completeness auto
termination by (relation "measure (\<lambda>(e, i, st). VC_CLUSTER_MAX_NODES - i)") auto

declare health_round.simps [simp del]

section \<open>Connecting\<close>

text \<open>The tokens of \<^verbatim>\<open>strtok\<close>: what is between commas, empty pieces left out.\<close>

definition split_commas :: "bytes \<Rightarrow> bytes list" where
  "split_commas s = filter (\<lambda>t. t \<noteq> []) (foldr (\<lambda>c ts. if c = 44 then [] # ts else (c # hd ts) # tl ts) s [[]])"

primrec add_seeds :: "bytes list \<Rightarrow> vc_cluster \<Rightarrow> vc_cluster" where
  "add_seeds [] cl = cl"
| "add_seeds (t # ts) cl =
     add_seeds ts (case parse_hostport 64 t of None \<Rightarrow> cl | Some (host, port) \<Rightarrow> snd (node_find_or_add cl host port))"

text \<open>
  The seed list is copied into a buffer of 1024 bytes whose last byte is never stored; a list that
  reaches it is a fault. The TLS context is what the library returns when a CA is given.
\<close>

definition vc_cluster_connect ::
  "cenv \<Rightarrow> bool \<Rightarrow> bytes \<Rightarrow> bytes option \<Rightarrow> bytes option \<Rightarrow> nat option option \<Rightarrow> client option option" where
  "vc_cluster_connect e alloc seeds username password tls =
     (if \<not> alloc then Some None
      else if tls = Some None then Some None
      else if 1023 \<le> length seeds then None
      else let cl = add_seeds (split_commas seeds) \<lparr>cl_nodes = [], cl_slot_map = replicate VC_CLUSTER_SLOTS (- 1),
             cl_running = True, cl_ssl_ctx = (case tls of None \<Rightarrow> None | Some c \<Rightarrow> c),
             cl_username = (case username of None \<Rightarrow> [] | Some u \<Rightarrow> take 63 u),
             cl_password = (case password of None \<Rightarrow> [] | Some p \<Rightarrow> take 127 p)\<rparr>
      in if cl_nodes cl = [] then Some None
         else do {
           (r, st) \<leftarrow> vc_cluster_refresh e \<lparr>cs_cl = cl, cs_sock = (\<lambda>_. \<lparr>ns_in = [], ns_send = [], ns_out = []\<rparr>),
             cs_tick = 0, cs_closed = []\<rparr>;
           Some (Some (if r < 0 \<and> length (cl_nodes (cs_cl st)) = 1
             then st\<lparr>cs_cl := (cs_cl st)\<lparr>cl_slot_map := replicate VC_CLUSTER_SLOTS 0\<rparr>\<rparr> else st))
         })"

definition vc_cluster_destroy :: "client \<Rightarrow> i32 list" where
  "vc_cluster_destroy st =
     cs_closed st @ filter (\<lambda>fd. 0 \<le> sint fd) (concat (map (\<lambda>n. map nc_fd (nd_conns n)) (cl_nodes (cs_cl st))))"

section \<open>Commands\<close>

datatype vc_cluster_err =
  VC_CLUSTER_OK | VC_CLUSTER_ERR_NONODE | VC_CLUSTER_ERR_NET | VC_CLUSTER_ERR_PROTO
  | VC_CLUSTER_ERR_AUTH | VC_CLUSTER_ERR_MOVED

definition vc_cluster_node_for_slot :: "vc_cluster \<Rightarrow> u16 \<Rightarrow> int option" where
  "vc_cluster_node_for_slot cl slot = do { v \<leftarrow> nth_opt (cl_slot_map cl) (unat slot); Some (sint v) }"

text \<open>The address after the second space of \<^verbatim>\<open>MOVED slot host:port\<close>.\<close>

definition moved_to :: "bytes \<Rightarrow> (bytes \<times> u16) option" where
  "moved_to rep =
     (case memchr 32 (drop 6 (c_str rep)) of None \<Rightarrow> None
      | Some n \<Rightarrow> parse_hostport 64 (drop (6 + n + 1) (c_str rep)))"

primrec cmd_attempts :: "nat \<Rightarrow> cenv \<Rightarrow> bytes \<Rightarrow> int \<Rightarrow> client \<Rightarrow> (vc_cluster_err \<times> bytes option \<times> client) option" where
  "cmd_attempts 0 e cmd ni st = Some (VC_CLUSTER_ERR_NET, None, st)"
| "cmd_attempts (Suc left) e cmd ni st =
     (if ni < 0 \<or> int (length (cl_nodes (cs_cl st))) \<le> ni then Some (VC_CLUSTER_ERR_NONODE, None, st)
      else case (if nd_alive (node_at (nat ni) st) then Some (nat ni) else find_index nd_alive (cl_nodes (cs_cl st))) of
        None \<Rightarrow> Some (VC_CLUSTER_ERR_NONODE, None, st)
      | Some i \<Rightarrow> do {
          (nc, st) \<leftarrow> node_conn_get e i st;
          case nc of None \<Rightarrow> cmd_attempts left e cmd (int i) (set_alive False i st)
          | Some j \<Rightarrow>
              (let fd = nc_fd (conn_at i j st); (sent, k) = sock_sendall cmd (cs_sock st fd); st = set_sock fd k st
               in if \<not> sent then cmd_attempts left e cmd (int i) (set_alive False i (node_conn_close i j st))
                  else do {
                    (rep, st) \<leftarrow> read_reply_at e fd st;
                    let st = node_conn_release i j st;
                    case rep of None \<Rightarrow> cmd_attempts left e cmd (int i) (set_alive False i st)
                    | Some rep \<Rightarrow>
                        if take 6 rep = ascii ''MOVED '' then
                          (case moved_to rep of None \<Rightarrow> cmd_attempts left e cmd (int i) st
                           | Some (host, port) \<Rightarrow> do {
                               let (ni, cl) = node_find_or_add (cs_cl st) host port;
                               (_, st) \<leftarrow> vc_cluster_refresh e (st\<lparr>cs_cl := cl\<rparr>);
                               cmd_attempts left e cmd ni st
                             })
                        else Some (VC_CLUSTER_OK, Some rep, st)
                  })
        })"

definition vc_cluster_cmd :: "cenv \<Rightarrow> bytes option \<Rightarrow> bytes \<Rightarrow> client \<Rightarrow> (vc_cluster_err \<times> bytes option \<times> client) option" where
  "vc_cluster_cmd e key cmd st = do {
     ni \<leftarrow> vc_cluster_node_for_slot (cs_cl st) (case key of None \<Rightarrow> 0 | Some k \<Rightarrow> vc_key_slot k);
     if ni < 0 then Some (VC_CLUSTER_ERR_NONODE, None, st)
     else cmd_attempts VC_CLUSTER_MAX_RETRIES e cmd ni st
   }"

text \<open>Formatting a command: what is stored in the buffer and the length of the whole text so far.\<close>

primrec format_args :: "nat \<Rightarrow> bytes list \<Rightarrow> nat \<Rightarrow> bytes \<Rightarrow> nat \<times> bytes" where
  "format_args outsz [] pos out = (pos, out)"
| "format_args outsz (a # as) pos out =
     (if pos < outsz
      then let (n, t) = snprintf (outsz - pos) (ascii ''$'' @ dec_nat (length a) @ CRLF @ a @ CRLF)
           in format_args outsz as (pos + n) (take pos out @ t)
      else (pos, out))"

definition vc_resp_format :: "nat \<Rightarrow> bytes list \<Rightarrow> nat \<times> bytes" where
  "vc_resp_format outsz args =
     (let (pos, out) = snprintf outsz (ascii ''*'' @ dec_nat (length args) @ CRLF)
      in format_args outsz args pos (if outsz = 0 then [] else out))"

end
