(* ===== verification/ClusterThms.thy ===== *)
theory ClusterThms
  imports Cluster CommandThms
begin

text \<open>
  What the cluster client keeps whatever the nodes answer: the routing table leads only to nodes it
  knows, a connection serves one user at a time, and the back-off of a node stays within its bounds.
  Commands it formats are what the parser of the server reads.
\<close>

section \<open>The invariant of the client\<close>

definition conn_fine :: "vc_node_conn \<Rightarrow> bool" where
  "conn_fine c \<longleftrightarrow> nc_in_use c \<longrightarrow> 0 \<le> sint (nc_fd c)"

definition node_fine :: "vc_cluster_node \<Rightarrow> bool" where
  "node_fine n \<longleftrightarrow> length (nd_host n) \<le> 63 \<and> length (nd_conns n) = VC_CLUSTER_MAX_CONNS
     \<and> (\<forall>c \<in> set (nd_conns n). conn_fine c) \<and> (\<exists>k \<le> 5. nd_backoff n = of_nat (100000000 * 2 ^ k))"

definition address :: "vc_cluster_node \<Rightarrow> bytes \<times> u16" where
  "address n = (nd_host n, nd_port n)"

definition routes :: "nat \<Rightarrow> 8 word list \<Rightarrow> bool" where
  "routes n m \<longleftrightarrow> length m = VC_CLUSTER_SLOTS \<and> (\<forall>v \<in> set m. sint v = - 1 \<or> 0 \<le> sint v \<and> sint v < int n)"

definition cluster_fine :: "vc_cluster \<Rightarrow> bool" where
  "cluster_fine cl \<longleftrightarrow> length (cl_nodes cl) \<le> VC_CLUSTER_MAX_NODES \<and> (\<forall>n \<in> set (cl_nodes cl). node_fine n)
     \<and> distinct (map address (cl_nodes cl)) \<and> routes (length (cl_nodes cl)) (cl_slot_map cl)
     \<and> length (cl_username cl) \<le> 63 \<and> length (cl_password cl) \<le> 127"

lemma routes_mono: "routes n m \<Longrightarrow> n \<le> n' \<Longrightarrow> routes n' m"
  by (fastforce simp: routes_def)

lemma new_node_fine: "node_fine (new_node host port)"
  by (auto simp: node_fine_def new_node_def conn_fine_def intro: exI [of _ 0])

lemma add_fine:
  assumes "cluster_fine cl" "length host \<le> 63" "node_find_or_add cl host port = (i, cl')"
  shows "cluster_fine cl' \<and> length (cl_nodes cl) \<le> length (cl_nodes cl')
     \<and> (i = - 1 \<or> 0 \<le> i \<and> i < int (length (cl_nodes cl'))) \<and> cl_slot_map cl' = cl_slot_map cl"
proof (cases "find_node (cl_nodes cl) host port")
  case (Some j)
  then show ?thesis
    using assms find_index_some [of _ "cl_nodes cl" j] by (auto simp: node_find_or_add_def find_node_def)
next
  case None
  then have "(host, port) \<notin> set (map address (cl_nodes cl))"
    by (auto simp: find_node_def find_index_none address_def)
  moreover have "address (new_node host port) = (host, port)" using assms(2) by (simp add: address_def new_node_def)
  ultimately show ?thesis
    using assms None new_node_fine [of host port] routes_mono [of "length (cl_nodes cl)" "cl_slot_map cl" "Suc (length (cl_nodes cl))"]
    by (auto simp: node_find_or_add_def cluster_fine_def simp del: set_map split: if_splits)
qed

lemma parse_hostport_short: "parse_hostport 64 s = Some (host, port) \<Longrightarrow> length host \<le> 63"
  by (auto simp: parse_hostport_def Let_def split: if_splits)

lemma seeds_fine: "cluster_fine cl \<Longrightarrow> cluster_fine (add_seeds ts cl)"
proof (induction ts arbitrary: cl)
  case (Cons t ts)
  then show ?case
    using add_fine [OF Cons.prems, of "fst (the (parse_hostport 64 t))" "snd (the (parse_hostport 64 t))"] parse_hostport_short [of t]
    by (cases "parse_hostport 64 t") (auto simp: split_def prod_eq_iff)
qed simp

section \<open>Reading the topology\<close>

lemma read_addr_short:
  assumes "read_addr l s = Some (host, port, l', s')"
  shows "length host \<le> 63"
  using assms
  by (auto simp: read_addr_def read_host_def Let_def split: if_splits Option.bind_splits prod.splits)

lemma addrs_fine:
  assumes "refresh_addrs n first owner l cl s = Some (owner', cl', s')" "cluster_fine cl"
    and "owner = - 1 \<or> 0 \<le> owner \<and> owner < int (length (cl_nodes cl))"
  shows "cluster_fine cl' \<and> (owner' = - 1 \<or> 0 \<le> owner' \<and> owner' < int (length (cl_nodes cl')))"
  using assms
proof (induction n arbitrary: first owner l cl s)
  case 0
  then show ?case by auto
next
  case (Suc n)
  obtain ok w s1 where r: "sock_readline 256 s = (ok, w, s1)" by (metis prod_cases3)
  show ?case
  proof (cases ok)
    case False
    then show ?thesis using Suc.prems r by auto
  next
    case True
    then obtain host port l2 s2 where a: "read_addr (overwrite l w) s1 = Some (host, port, l2, s2)"
      using Suc.prems(1) r by (auto split: Option.bind_splits)
    obtain i cl1 where f: "node_find_or_add cl host port = (i, cl1)" by fastforce
    note fine = add_fine [OF Suc.prems(2) read_addr_short [OF a] f]
    show ?thesis
      using Suc.IH [of False "if 0 \<le> i \<and> first then i else owner" l2 cl1 s2] Suc.prems(1,3) r True a f fine by auto
  qed
qed

lemma assign_routes:
  assumes "routes n m" "sint v = - 1 \<or> 0 \<le> sint v \<and> sint v < int n"
  shows "routes n (assign_slots lo hi v m)"
proof -
  have "x = v \<or> x \<in> set m" if "x \<in> set (assign_slots lo hi v m)" for x
    using that by (auto simp: assign_slots_def in_set_enumerate_eq split: if_splits)
  moreover have "length (assign_slots lo hi v m) = length m" by (simp add: assign_slots_def)
  ultimately show ?thesis using assms unfolding routes_def by metis
qed

lemma owner_fine:
  assumes "cluster_fine cl" "owner = - 1 \<or> 0 \<le> owner \<and> owner < int (length (cl_nodes cl))"
  shows "cluster_fine (set_owner a b owner cl)"
proof (cases "owner = - 1")
  case True
  then show ?thesis using assms(1) by (simp add: set_owner_def)
next
  case False
  then have o: "0 \<le> owner" "owner < 64" using assms by (auto simp: cluster_fine_def)
  then have "sint (of_int owner :: 8 word) = owner" by (simp add: signed_of_int signed_take_bit_int_eq_self)
  then show ?thesis
    using assms False o by (auto simp: set_owner_def cluster_fine_def intro!: assign_routes)
qed

lemma ranges_fine: "refresh_ranges n cl s = Some (cl', s') \<Longrightarrow> cluster_fine cl \<Longrightarrow> cluster_fine cl'"
proof (induction n arbitrary: cl s)
  case (Suc n)
  have step: "cluster_fine cl'"
    if "refresh_addrs k True (- 1) l cl s1 = Some (owner, cl1, s2)" "refresh_ranges n (set_owner a b owner cl1) s2 = Some (cl', s')"
    for k l s1 owner cl1 s2 a b
    using addrs_fine [OF that(1) Suc.prems(2)] Suc.IH [OF that(2)] owner_fine by auto
  show ?case
    using Suc.prems by (auto simp: Let_def split: prod.splits if_splits Option.bind_splits dest: step)
qed simp

section \<open>The pool of connections\<close>

definition client_fine :: "client \<Rightarrow> bool" where
  "client_fine st \<longleftrightarrow> cluster_fine (cs_cl st)"

lemma upd_node_fine:
  assumes "client_fine st" "i < length (cl_nodes (cs_cl st)) \<Longrightarrow> node_fine (f (node_at i st)) \<and> address (f (node_at i st)) = address (node_at i st)"
  shows "client_fine (upd_node i f st)"
proof (cases "i < length (cl_nodes (cs_cl st))")
  case True
  have "map address ((cl_nodes (cs_cl st))[i := f (node_at i st)]) = map address (cl_nodes (cs_cl st))"
    using assms(2) True by (simp add: map_update node_at_def list_update_same_conv)
  then show ?thesis
    using assms True by (auto simp: client_fine_def cluster_fine_def upd_node_def dest!: set_update_subset_insert [THEN subsetD])
next
  case False
  then show ?thesis using assms(1) by (simp add: upd_node_def client_fine_def list_update_beyond)
qed

lemma node_at_fine: "client_fine st \<Longrightarrow> i < length (cl_nodes (cs_cl st)) \<Longrightarrow> node_fine (node_at i st)"
  by (simp add: client_fine_def cluster_fine_def node_at_def)

lemma upd_conn_fine:
  assumes "client_fine st" "\<And>c. conn_fine c \<Longrightarrow> conn_fine (f c)"
  shows "client_fine (upd_conn i j f st)"
  unfolding upd_conn_def
proof (rule upd_node_fine [OF assms(1)])
  assume "i < length (cl_nodes (cs_cl st))"
  then have n: "node_fine (node_at i st)" using assms(1) by (simp add: node_at_fine)
  let ?cs = "nd_conns (node_at i st)"
  have "\<forall>c \<in> set (?cs[j := f (?cs ! j)]). conn_fine c"
  proof (cases "j < length ?cs")
    case True
    then show ?thesis
      using n assms(2) by (auto simp: node_fine_def dest!: set_update_subset_insert [THEN subsetD])
  next
    case False
    then show ?thesis using n by (simp add: node_fine_def list_update_beyond)
  qed
  then show "node_fine (node_at i st\<lparr>nd_conns := ?cs[j := f (?cs ! j)]\<rparr>)
      \<and> address (node_at i st\<lparr>nd_conns := ?cs[j := f (?cs ! j)]\<rparr>) = address (node_at i st)"
    using n by (simp add: node_fine_def address_def)
qed

lemma cs_cl_simps [simp]: "cs_cl (set_sock fd k st) = cs_cl st" "cs_cl (next_tick st) = cs_cl st"
  by (simp_all add: set_sock_def next_tick_def)

lemma client_fine_simps [simp]:
  "client_fine (st\<lparr>cs_cl := cl\<rparr>) = cluster_fine cl"
  "client_fine (set_sock fd k st) = client_fine st" "client_fine (next_tick st) = client_fine st"
  "client_fine (st\<lparr>cs_closed := xs\<rparr>) = client_fine st"
  by (simp_all add: client_fine_def)

lemma release_fine: "client_fine st \<Longrightarrow> client_fine (node_conn_release i j st)"
  unfolding node_conn_release_def by (rule upd_conn_fine) (simp_all add: conn_fine_def)

lemma close_fine: "client_fine st \<Longrightarrow> client_fine (node_conn_close i j st)"
  unfolding node_conn_close_def Let_def by (rule upd_conn_fine) (simp_all add: conn_fine_def)

lemma alive_fine: "client_fine st \<Longrightarrow> client_fine (set_alive b i st)"
  unfolding set_alive_def by (rule upd_node_fine) (auto simp: node_fine_def address_def dest: node_at_fine)

lemma auth_fine: "node_auth fd st = Some st' \<Longrightarrow> client_fine st' = client_fine st"
  by (auto simp: node_auth_def Let_def split: if_splits prod.splits)

lemma connect_loop_fd: "connect_loop as closed = (fd, closed') \<Longrightarrow> 0 \<le> sint fd \<or> fd = - 1"
  by (induction as arbitrary: closed) (auto split: if_splits)

lemma get_fine:
  assumes "node_conn_get e i st = Some (nc, st')" "client_fine st"
  shows "client_fine st'"
proof (cases "find_index (\<lambda>c. \<not> nc_in_use c \<and> 0 \<le> sint (nc_fd c)) (nd_conns (node_at i st))")
  case (Some j)
  have "client_fine (upd_node i (\<lambda>n. n\<lparr>nd_conns := (nd_conns n)[j := (nd_conns n ! j)\<lparr>nc_in_use := True, nc_last_used := t\<rparr>]\<rparr>) st)" for t
  proof (rule upd_node_fine [OF assms(2)])
    assume "i < length (cl_nodes (cs_cl st))"
    then have n: "node_fine (node_at i st)" using assms(2) by (simp add: node_at_fine)
    then show "node_fine (node_at i st\<lparr>nd_conns := (nd_conns (node_at i st))[j := (nd_conns (node_at i st) ! j)\<lparr>nc_in_use := True, nc_last_used := t\<rparr>]\<rparr>)
        \<and> address (node_at i st\<lparr>nd_conns := (nd_conns (node_at i st))[j := (nd_conns (node_at i st) ! j)\<lparr>nc_in_use := True, nc_last_used := t\<rparr>]\<rparr>) = address (node_at i st)"
      using find_index_some [OF Some]
      by (auto simp: node_fine_def address_def conn_fine_def dest!: set_update_subset_insert [THEN subsetD])
  qed
  then show ?thesis using assms(1) Some by (auto simp: node_conn_get_def upd_conn_def)
next
  case None
  have opened: "client_fine st'" if "conn_open e i j st = Some (nc, st')" for j
  proof -
    have "client_fine (upd_conn i j (\<lambda>c. c\<lparr>nc_fd := fd, nc_ssl := ssl, nc_in_use := True, nc_last_used := t\<rparr>) st1)"
      if "client_fine st1" "0 \<le> sint fd" for fd ssl t st1
      using that by (intro upd_conn_fine) (simp_all add: conn_fine_def)
    then show ?thesis
      using that assms(2)
      by (auto simp: conn_open_def Let_def not_less split: prod.splits if_splits Option.bind_splits option.splits dest: auth_fine)
  qed
  show ?thesis
    using assms None by (auto simp: node_conn_get_def split: option.splits dest: opened)
qed

section \<open>Whatever the nodes answer\<close>

lemma routes_replicate: "v = - 1 \<or> v = 0 \<and> 0 < n \<Longrightarrow> routes n (replicate VC_CLUSTER_SLOTS v)"
  by (auto simp: routes_def)

lemma refresh_from_fine:
  assumes "refresh_from e i st = Some (d, st')" "client_fine st"
  shows "client_fine st'"
proof -
  obtain nc st1 where g: "node_conn_get e i st = Some (nc, st1)"
    using assms(1) by (auto simp: refresh_from_def split: Option.bind_splits)
  have f1: "client_fine st1" by (rule get_fine [OF g assms(2)])
  have topology: "cluster_fine cl"
    if "refresh_ranges n ((cs_cl st1)\<lparr>cl_slot_map := replicate VC_CLUSTER_SLOTS (- 1)\<rparr>) s = Some (cl, s2)" for cl n s s2
    using ranges_fine [OF that] f1 routes_replicate by (simp add: client_fine_def cluster_fine_def)
  show ?thesis
    using assms(1) g f1
    by (auto simp: refresh_from_def Let_def split: option.splits prod.splits if_splits Option.bind_splits
        intro!: close_fine release_fine alive_fine intro: topology)
qed

lemma refresh_loop_fine: "refresh_loop e is st = Some (r, st') \<Longrightarrow> client_fine st \<Longrightarrow> client_fine st'"
  by (induction "is" arbitrary: st) (auto split: if_splits Option.bind_splits dest: refresh_from_fine)

lemma refresh_fine: "vc_cluster_refresh e st = Some (r, st') \<Longrightarrow> client_fine st \<Longrightarrow> client_fine st'"
  unfolding vc_cluster_refresh_def by (rule refresh_loop_fine)

lemma backoff_next:
  assumes "\<exists>k \<le> 5. b = of_nat (100000000 * 2 ^ k)"
  shows "\<exists>k \<le> 5. next_backoff b = of_nat (100000000 * 2 ^ k)"
proof -
  obtain k where k: "k \<le> 5" "b = of_nat (100000000 * 2 ^ k)" using assms by blast
  have "k = 0 \<or> k = 1 \<or> k = 2 \<or> k = 3 \<or> k = 4 \<or> k = 5" using k(1) by arith
  then have "next_backoff b = of_nat (100000000 * 2 ^ (min 5 (Suc k)))" using k(2) by (elim disjE) (simp_all add: next_backoff_def)
  then show ?thesis by (intro exI [of _ "min 5 (Suc k)"]) simp
qed

lemma reply_fine: "read_reply_at e fd st = Some (r, st') \<Longrightarrow> client_fine st' = client_fine st"
  by (auto simp: read_reply_at_def split: Option.bind_splits)

lemma health_node_fine:
  assumes "health_node e i st = Some st'" "client_fine st"
  shows "client_fine st'"
proof -
  have dead: "client_fine (upd_node i (\<lambda>n. n\<lparr>nd_alive := False, nd_backoff := next_backoff (nd_backoff n), nd_last_seen := t\<rparr>) st1)"
    "client_fine (upd_node i (\<lambda>n. n\<lparr>nd_alive := False, nd_backoff := next_backoff (nd_backoff n)\<rparr>) st1)"
    if "client_fine st1" for t st1
    using that by (intro upd_node_fine; auto simp: node_fine_def address_def simp del: of_nat_mult of_nat_power
        dest!: node_at_fine intro: backoff_next)+
  have seen: "client_fine (upd_node i (\<lambda>n. n\<lparr>nd_alive := True, nd_last_seen := t, nd_backoff := 100000000\<rparr>) st1)"
    if "client_fine st1" for t st1
    using that by (intro upd_node_fine) (auto simp: node_fine_def address_def dest!: node_at_fine intro: exI [of _ 0])
  have lost: "client_fine st2"
    if "vc_cluster_refresh e (next_tick (upd_node i (\<lambda>n. n\<lparr>nd_alive := False, nd_backoff := next_backoff (nd_backoff n), nd_last_seen := t\<rparr>) st1)) = Some (r, st2)"
      "client_fine st1" for t r st1 st2
    using refresh_fine [OF that(1)] dead(1) [OF that(2)] by simp
  have cut: "client_fine st2"
    if "vc_cluster_refresh e (upd_node i (\<lambda>n. n\<lparr>nd_alive := False, nd_backoff := next_backoff (nd_backoff n)\<rparr>)
          (node_conn_close i j (set_sock fd k st1))) = Some (r, st2)" "client_fine st1" for j fd k r st1 st2
    using refresh_fine [OF that(1)] dead(2) close_fine that(2) by simp
  show ?thesis
    using assms
    by (auto simp: health_node_def Let_def split: option.splits prod.splits if_splits Option.bind_splits
        dest!: get_fine dest: reply_fine lost cut intro!: release_fine seen)
qed

lemma health_fine: "health_round e i st = Some st' \<Longrightarrow> client_fine st \<Longrightarrow> client_fine st'"
proof (induction e i st rule: health_round.induct)
  case (1 e i st)
  show ?case
    using 1(2,3) 1(1) health_node_fine [of e i st]
    by (auto simp: health_round.simps [of e i st] split: if_splits Option.bind_splits)
qed

lemma attempts_fine: "cmd_attempts n e cmd ni st = Some (err, rep, st') \<Longrightarrow> client_fine st \<Longrightarrow> client_fine st'"
proof (induction n arbitrary: ni st)
  case (Suc n)
  have moved: "client_fine st2"
    if "vc_cluster_refresh e (st1\<lparr>cs_cl := cl\<rparr>) = Some (r, st2)" "node_find_or_add (cs_cl st1) host port = (k, cl)"
      "moved_to t = Some (host, port)" "client_fine st1" for st1 cl r st2 k host port t
  proof -
    have "length host \<le> 63" using that(3) by (auto simp: moved_to_def split: option.splits dest: parse_hostport_short)
    then have "client_fine (st1\<lparr>cs_cl := cl\<rparr>)" using add_fine [OF _ _ that(2)] that(4) by (simp add: client_fine_def)
    then show ?thesis using refresh_fine [OF that(1)] by simp
  qed
  have again: "client_fine st'" if "cmd_attempts n e cmd k st1 = Some (err, rep, st')" "client_fine st1" for k st1
    using Suc.IH that by blast
  have read: "client_fine (node_conn_release i j st2)"
    if "read_reply_at e fd (set_sock fd' k st1) = Some (r, st2)" "client_fine st1" for i j fd fd' k r st1 st2
    using reply_fine [OF that(1)] that(2) by (intro release_fine) simp
  show ?case
    using Suc.prems
    by (auto simp: Let_def split: option.splits prod.splits if_splits Option.bind_splits
        dest!: get_fine elim!: again intro!: alive_fine close_fine intro: read moved)
qed simp

text \<open>What a program does with a client, and its health check, in any order.\<close>

inductive client_step :: "cenv \<Rightarrow> client \<Rightarrow> client \<Rightarrow> bool" for e where
  command: "vc_cluster_cmd e key cmd st = Some (err, rep, st') \<Longrightarrow> client_step e st st'"
| refresh: "vc_cluster_refresh e st = Some (r, st') \<Longrightarrow> client_step e st st'"
| health: "health_round e 0 st = Some st' \<Longrightarrow> client_step e st st'"

lemma step_fine: "client_step e st st' \<Longrightarrow> client_fine st \<Longrightarrow> client_fine st'"
  by (induction rule: client_step.induct)
    (auto simp: vc_cluster_cmd_def split: Option.bind_splits if_splits dest: attempts_fine refresh_fine health_fine)

lemma connect_fine:
  assumes "vc_cluster_connect e alloc seeds username password tls = Some (Some st)"
  shows "client_fine st"
proof -
  define cl where "cl = add_seeds (split_commas seeds) \<lparr>cl_nodes = [], cl_slot_map = replicate VC_CLUSTER_SLOTS (- 1),
      cl_running = True, cl_ssl_ctx = (case tls of None \<Rightarrow> None | Some c \<Rightarrow> c),
      cl_username = (case username of None \<Rightarrow> [] | Some u \<Rightarrow> take 63 u),
      cl_password = (case password of None \<Rightarrow> [] | Some p \<Rightarrow> take 127 p)\<rparr>"
  have fine: "cluster_fine cl"
    unfolding cl_def by (rule seeds_fine) (simp add: cluster_fine_def routes_replicate split: option.split)
  obtain r st1 where r: "vc_cluster_refresh e \<lparr>cs_cl = cl, cs_sock = (\<lambda>_. \<lparr>ns_in = [], ns_send = [], ns_out = []\<rparr>),
      cs_tick = 0, cs_closed = []\<rparr> = Some (r, st1)"
    "st = (if r < 0 \<and> length (cl_nodes (cs_cl st1)) = 1
       then st1\<lparr>cs_cl := (cs_cl st1)\<lparr>cl_slot_map := replicate VC_CLUSTER_SLOTS 0\<rparr>\<rparr> else st1)"
    using assms by (auto simp: vc_cluster_connect_def Let_def cl_def split: if_splits Option.bind_splits)
  have "client_fine st1" using refresh_fine [OF r(1)] fine by (simp add: client_fine_def)
  then show ?thesis using r(2) by (auto simp: client_fine_def cluster_fine_def routes_replicate)
qed

text \<open>
  C25 (invariant): whatever bytes the nodes answer, in every state of a client that commands,
  refreshes of the topology and health checks lead to: every slot is unassigned or belongs to a node
  the client knows, there are at most 64 nodes and none twice, every node has its eight connections,
  those in use being open, and waits between 100 ms and 3.2 s before it is tried again.
\<close>

theorem client_invariant:
  assumes "vc_cluster_connect e alloc seeds username password tls = Some (Some st0)" "(client_step e)\<^sup>*\<^sup>* st0 st"
  shows "client_fine st"
  using assms(2) by induction (auto intro: connect_fine [OF assms(1)] step_fine)

section \<open>One user at a time\<close>

lemma node_at_upd [simp]:
  "i < length (cl_nodes (cs_cl st)) \<Longrightarrow> node_at i (upd_node i f st) = f (node_at i st)"
  "node_at i (set_sock fd k st) = node_at i st" "node_at i (next_tick st) = node_at i st"
  "node_at i (st\<lparr>cs_closed := xs\<rparr>) = node_at i st"
  by (simp_all add: node_at_def upd_node_def set_sock_def next_tick_def)

lemma node_auth_node: "node_auth fd st = Some st' \<Longrightarrow> node_at i st' = node_at i st"
  by (auto simp: node_auth_def Let_def split: if_splits prod.splits)

text \<open>
  C32 (safety): a connection serves one user at a time: the pool of a node hands out only a
  connection that was not in use, open and marked as in use from then on, and leaves the other
  connections of the node as they are.
\<close>

theorem conn_exclusive:
  assumes "client_fine st" "i < length (cl_nodes (cs_cl st))" "node_conn_get e i st = Some (Some j, st')"
  shows "j < VC_CLUSTER_MAX_CONNS \<and> \<not> nc_in_use (conn_at i j st) \<and> nc_in_use (conn_at i j st')
     \<and> 0 \<le> sint (nc_fd (conn_at i j st')) \<and> (\<forall>k. k \<noteq> j \<longrightarrow> conn_at i k st' = conn_at i k st)"
proof -
  have n: "node_fine (node_at i st)" using assms(1,2) by (rule node_at_fine)
  show ?thesis
  proof (cases "find_index (\<lambda>c. \<not> nc_in_use c \<and> 0 \<le> sint (nc_fd c)) (nd_conns (node_at i st))")
    case (Some j')
    then show ?thesis
      using assms(2,3) n find_index_some [OF Some] by (auto simp: node_conn_get_def upd_conn_def conn_at_def node_fine_def)
  next
    case None
    then obtain j' where j': "find_index (\<lambda>c. sint (nc_fd c) < 0) (nd_conns (node_at i st)) = Some j'"
      "conn_open e i j' st = Some (Some j, st')"
      using assms(3) by (auto simp: node_conn_get_def split: option.splits)
    then have "j < length (nd_conns (node_at i st))" "sint (nc_fd (nd_conns (node_at i st) ! j)) < 0" "j' = j"
      using find_index_some [OF j'(1)] by (auto simp: conn_open_def Let_def split: prod.splits if_splits Option.bind_splits)
    moreover from this have "\<not> nc_in_use (nd_conns (node_at i st) ! j)"
      using n by (force simp: node_fine_def conn_fine_def)
    ultimately show ?thesis
      using assms(2) n j'(2)
      by (auto simp: conn_open_def Let_def conn_at_def upd_conn_def node_fine_def not_less
          split: prod.splits if_splits Option.bind_splits option.splits dest!: node_auth_node [of _ _ _ i])
  qed
qed

section \<open>Examples\<close>

text \<open>A network in which nothing answers, and one in which every node sends the same bytes.\<close>

definition quiet_net :: cenv where
  "quiet_net = \<lparr>ce_addrs = (\<lambda>_. None), ce_ssl = (\<lambda>_. None), ce_shake = (\<lambda>_. 0),
     ce_peer = (\<lambda>_. \<lparr>ns_in = [], ns_send = [], ns_out = []\<rparr>), ce_now = (\<lambda>_. 0), ce_oom = (\<lambda>_ _. False)\<rparr>"

definition talking_net :: "bytes \<Rightarrow> cenv" where
  "talking_net s = quiet_net\<lparr>ce_addrs := (\<lambda>t. Some [\<lparr>at_fd = of_nat t + 5, at_connect = 0, at_select = 0, at_err = 0\<rparr>]),
     ce_peer := (\<lambda>_. \<lparr>ns_in = s, ns_send = [100], ns_out = []\<rparr>)\<rparr>"

definition demo_client :: client where
  "demo_client = \<lparr>cs_cl = \<lparr>cl_nodes = [new_node (ascii ''127.0.0.1'') 6379], cl_slot_map = replicate VC_CLUSTER_SLOTS (- 1),
       cl_running = True, cl_ssl_ctx = None, cl_username = [], cl_password = []\<rparr>,
     cs_sock = (\<lambda>_. \<lparr>ns_in = [], ns_send = [], ns_out = []\<rparr>), cs_tick = 0, cs_closed = []\<rparr>"

lemma find_index_replicate: "find_index P (replicate n x) = (if 0 < n \<and> P x then Some 0 else None)"
  by (induction n) auto

lemma demo_client_fine: "client_fine demo_client"
  using new_node_fine [of "ascii ''127.0.0.1''" 6379]
  by (simp add: client_fine_def demo_client_def cluster_fine_def routes_replicate)

theorem conn_exclusive_witness:
  "\<exists>st'. node_conn_get (talking_net []) 0 demo_client = Some (Some 0, st') \<and> nc_in_use (conn_at 0 0 st')
     \<and> nc_fd (conn_at 0 0 st') = 5"
proof -
  have "\<exists>st'. node_conn_get (talking_net []) 0 demo_client = Some (Some 0, st') \<and> nc_fd (conn_at 0 0 st') = 5"
    by (simp add: node_conn_get_def demo_client_def node_at_def new_node_def find_index_replicate conn_open_def talking_net_def
        tcp_connect_def next_tick_def node_auth_def upd_conn_def upd_node_def set_sock_def conn_at_def quiet_net_def)
  then show ?thesis using conn_exclusive [OF demo_client_fine, of 0 "talking_net []" 0] by (auto simp: demo_client_def)
qed

lemma demo_seed: "split_commas (ascii ''a:1'') = [ascii ''a:1'']" "parse_hostport 64 (ascii ''a:1'') = Some (ascii ''a'', 1)"
proof -
  have "strtoll [49] = (1, 1, False)" by (simp add: strtoll_def Let_def is_space_def is_digit_def digits_val_def)
  then show "parse_hostport 64 (ascii ''a:1'') = Some (ascii ''a'', 1)"
    by (simp add: parse_hostport_def ascii_def atoi_def atoll_def Let_def)
qed (simp add: split_commas_def ascii_def)

theorem client_invariant_witness:
  "\<exists>st0 st. vc_cluster_connect quiet_net True (ascii ''a:1'') None None None = Some (Some st0)
     \<and> (client_step quiet_net)\<^sup>*\<^sup>* st0 st \<and> client_fine st"
proof -
  obtain st0 where st0: "vc_cluster_connect quiet_net True (ascii ''a:1'') None None None = Some (Some st0)"
    by (simp add: vc_cluster_connect_def demo_seed node_find_or_add_def find_node_def vc_cluster_refresh_def refresh_from_def
        node_conn_get_def node_at_def new_node_def find_index_replicate conn_open_def quiet_net_def tcp_connect_def)
  then show ?thesis using client_invariant [OF st0, of st0] by blast
qed

end
