(* ===== verification/ClusterWire.thy ===== *)
theory ClusterWire
  imports ClusterThms
begin

text \<open>
  The cluster client on the wire: what it formats is what the server parses, what a node replies is
  what a command returns; and where it does not understand the server: arrays, and the topology.
\<close>

section \<open>Formatting\<close>

lemma format_args_grows: "format_args outsz as pos out = (n, out') \<Longrightarrow> pos \<le> n"
proof (induction as arbitrary: pos out)
  case (Cons a as)
  show ?case
    using Cons.prems Cons.IH by (fastforce simp: snprintf_def Let_def split: if_splits)
qed simp

lemma format_args_fits:
  assumes "format_args outsz as pos out = (n, out')" "n < outsz" "pos \<le> length out"
  shows "take n out' = take pos out @ concat (map bulk_text as) \<and> n \<le> length out'"
  using assms(1,3)
proof (induction as arbitrary: pos out)
  case (Cons a as)
  let ?out = "take pos out @ take (outsz - pos - 1) (bulk_text a) @ [0]"
  have pos: "pos < outsz" using format_args_grows [OF Cons.prems(1)] assms(2) by simp
  then have run: "format_args outsz as (pos + length (bulk_text a)) ?out = (n, out')"
    using Cons.prems(1) by (simp add: snprintf_def bulk_text_def Let_def)
  have fits: "pos + length (bulk_text a) < outsz" using format_args_grows [OF run] assms(2) by simp
  then have t: "take (outsz - pos - 1) (bulk_text a) = bulk_text a" by simp
  have "pos + length (bulk_text a) \<le> length ?out" using Cons.prems(2) unfolding t by simp
  from Cons.IH [OF run this] show ?case using Cons.prems(2) unfolding t by simp
qed simp

lemma resp_format_fits:
  assumes "vc_resp_format outsz args = (n, out)" "n < outsz"
  shows "take n out = encode_cmd args" "n = length (encode_cmd args)"
proof -
  let ?h = "array_text (int (length args))"
  have run: "format_args outsz args (length ?h) (take (outsz - 1) ?h @ [0]) = (n, out)"
    using assms by (auto simp: vc_resp_format_def snprintf_def array_text_def dec_int_def split: if_splits)
  have "length ?h < outsz" using format_args_grows [OF run] assms(2) by simp
  then have t: "take (outsz - 1) ?h = ?h" by simp
  show all: "take n out = encode_cmd args"
    using format_args_fits [OF run assms(2)] unfolding t by (simp add: encode_cmd_def)
  show "n = length (encode_cmd args)"
    using format_args_fits [OF run assms(2)] length_take [of n out] unfolding t all by simp
qed

text \<open>
  A command that fits the buffer it is formatted into is parsed by the server as
  that command, with exactly the bytes of the text consumed, whatever follows them.
\<close>

theorem resp_format_roundtrip:
  assumes "vc_resp_format outsz args = (n, out)" "n < outsz" "sendable args"
  shows "resp_parse_command (\<lambda>_. False) (take n out @ rest) = RESP_PARSE_OK (sent_cmd args) n"
  using encode_cmd_parse [OF assms(3), of rest] resp_format_fits [OF assms(1,2)] by simp

theorem resp_format_roundtrip_witness:
  "\<exists>out. vc_resp_format 64 [ascii ''GET'', ascii ''k''] = (20, out)
     \<and> resp_parse_command (\<lambda>_. False) (take 20 out @ [42]) = RESP_PARSE_OK (sent_cmd [ascii ''GET'', ascii ''k'']) 20"
proof -
  have "\<exists>out. vc_resp_format 64 [ascii ''GET'', ascii ''k''] = (20, out)"
    by (simp add: vc_resp_format_def snprintf_def dec_nat.simps Let_def)
  then show ?thesis using resp_format_roundtrip [of 64 "[ascii ''GET'', ascii ''k'']" 20 _ "[42]"] by (auto simp: sendable_def)
qed

section \<open>Replies\<close>

lemma readline_loop_text:
  assumes "13 \<notin> set t" "buf = [] \<or> last buf \<noteq> 13" "length t + 2 \<le> room"
  shows "readline_loop room buf (t @ CRLF @ rest) = (True, buf @ t @ [0, 10], rest)"
  using assms
proof (induction t arbitrary: buf room)
  case Nil
  then obtain r where "room = Suc (Suc r)" by (metis add_2_eq_Suc le_Suc_ex list.size(3) add_0)
  then show ?case using Nil by (auto simp: CRLF_def)
next
  case (Cons c t)
  obtain r where r: "room = Suc r" using Cons.prems(3) by (cases room) auto
  then have "readline_loop r (buf @ [c]) (t @ CRLF @ rest) = (True, (buf @ [c]) @ t @ [0, 10], rest)"
    using Cons.prems by (intro Cons.IH) auto
  then show ?case using Cons.prems r by auto
qed

lemma readline_text:
  assumes "13 \<notin> set t" "length t + 3 \<le> maxlen"
  shows "sock_readline maxlen (t @ CRLF @ rest) = (True, t @ [0, 10], rest)"
  using readline_loop_text [OF assms(1), of "[]" "maxlen - 1"] assms(2) by (simp add: sock_readline_def)

lemma rest_str_text: "0 \<notin> set t \<Longrightarrow> rest_str (c # t @ [0, 10]) = Some t"
proof -
  assume "0 \<notin> set t"
  then have "takeWhile (\<lambda>b. b \<noteq> 0) (t @ [0, 10]) = t" by (subst takeWhile_append2) auto
  then show ?thesis by (simp add: rest_str_def c_str_def)
qed

lemma dec_nat_plain: "13 \<notin> set (dec_nat n)" "0 \<notin> set (dec_nat n)"
  using dec_nat_digits [of n] by (auto simp: list_all_iff is_digit_def)

lemma atoll_dec_nat: "int n < 2 ^ 63 \<Longrightarrow> atoll (dec_nat n) = int n"
  using strtoll_dec_nat [of n "[]"] by (simp add: atoll_def)

lemma read_bulk:
  assumes "\<forall>m. \<not> oom m" "length v < 2 ^ 62"
  shows "resp_read_reply oom (bulk_text v @ rest) = Some (Some v, rest)"
proof -
  let ?d = "dec_nat (length v)"
  have len: "length ?d \<le> 19" using assms(2) by (intro length_dec_object) simp
  have "sock_readline 1024 ((36 # ?d) @ CRLF @ v @ CRLF @ rest) = (True, (36 # ?d) @ [0, 10], v @ CRLF @ rest)"
    using len dec_nat_plain by (intro readline_text) auto
  moreover have "bulk_text v @ rest = (36 # ?d) @ CRLF @ v @ CRLF @ rest" by (simp add: bulk_text_def ascii_def)
  moreover have "atoll ?d = int (length v)" using assms(2) by (intro atoll_dec_nat) simp
  ultimately show ?thesis
    using assms(1) dec_nat_plain
    by (simp add: resp_read_reply_def rest_str_text sock_readn_def CRLF_def)
qed

lemma sendall_all:
  assumes "length buf \<le> length ns" "\<forall>n \<in> set ns. 0 < n"
  shows "\<exists>ns'. sendall_loop ns buf out = (True, ns', out @ buf)"
  using assms
proof (induction ns arbitrary: buf out)
  case (Cons n ns)
  show ?case
  proof (cases "buf = []")
    case False
    then have "length (drop n buf) \<le> length ns" using Cons.prems by auto
    from Cons.IH [OF this, of "out @ take n buf"] show ?thesis using False Cons.prems(2) by auto
  qed simp
qed simp

lemma conn_at_upd [simp]:
  "conn_at i j (set_sock fd k st) = conn_at i j st" "conn_at i j (next_tick st) = conn_at i j st"
  by (simp_all add: conn_at_def)

text \<open>
  C26 (functional): a command for a key goes to the node its slot belongs to, over an idle connection
  of that node, and returns what the node replies: when the node is alive, takes the command and
  answers with a string that does not redirect, the caller receives this string, the node has
  received exactly the command, and the next reply on the connection is the one that follows.
\<close>

theorem cluster_cmd_reply:
  assumes "vc_cluster_node_for_slot (cs_cl st) (vc_key_slot key) = Some (int i)"
    and "i < length (cl_nodes (cs_cl st))" "nd_alive (node_at i st)"
    and "find_index (\<lambda>c. \<not> nc_in_use c \<and> 0 \<le> sint (nc_fd c)) (nd_conns (node_at i st)) = Some j"
    and "k = cs_sock st (nc_fd (conn_at i j st))" "length cmd \<le> length (ns_send k)" "\<forall>n \<in> set (ns_send k). 0 < n"
    and "ns_in k = bulk_text v @ rest" "length v < 2 ^ 62" "take 6 v \<noteq> ascii ''MOVED ''" "\<forall>t m. \<not> ce_oom e t m"
  shows "\<exists>st'. vc_cluster_cmd e (Some key) cmd st = Some (VC_CLUSTER_OK, Some v, st')
     \<and> ns_out (cs_sock st' (nc_fd (conn_at i j st))) = ns_out k @ cmd
     \<and> ns_in (cs_sock st' (nc_fd (conn_at i j st))) = rest"
proof -
  let ?fd = "nc_fd (conn_at i j st)"
  note j = find_index_some [OF assms(4)]
  define st1 where "st1 = next_tick (upd_conn i j (\<lambda>c. c\<lparr>nc_in_use := True, nc_last_used := ce_now e (cs_tick st)\<rparr>) st)"
  have get: "node_conn_get e i st = Some (Some j, st1)" using assms(4) by (simp add: node_conn_get_def st1_def)
  have fd: "nc_fd (conn_at i j st1) = ?fd" "cs_sock st1 ?fd = k"
    using assms(2,5) j by (simp_all add: st1_def conn_at_def upd_conn_def next_tick_def upd_node_def node_at_def)
  obtain ns where s: "sendall_loop (ns_send k) cmd (ns_out k) = (True, ns, ns_out k @ cmd)" using sendall_all [OF assms(6,7)] by blast
  define k1 where "k1 = k\<lparr>ns_send := ns, ns_out := ns_out k @ cmd\<rparr>"
  have send: "sock_sendall cmd (cs_sock st1 ?fd) = (True, k1)" using s fd(2) by (simp add: sock_sendall_def k1_def)
  define st2 where "st2 = next_tick (set_sock ?fd (k1\<lparr>ns_in := rest\<rparr>) (set_sock ?fd k1 st1))"
  have "resp_read_reply (ce_oom e (cs_tick st1)) (ns_in k1) = Some (Some v, rest)"
    using assms(8,11) read_bulk [OF _ assms(9), of "ce_oom e (cs_tick st1)" rest] by (simp add: k1_def)
  then have read: "read_reply_at e ?fd (set_sock ?fd k1 st1) = Some (Some v, st2)"
    by (simp add: read_reply_at_def st2_def set_sock_def)
  have "vc_cluster_cmd e (Some key) cmd st = cmd_attempts (Suc (Suc (Suc 0))) e cmd (int i) st"
    using assms(1) by (simp add: vc_cluster_cmd_def numeral_3_eq_3)
  also have "\<dots> = Some (VC_CLUSTER_OK, Some v, node_conn_release i j st2)"
    using assms(2,3,10) get fd(1) send read by simp
  finally show ?thesis
    by (simp add: st2_def k1_def node_conn_release_def upd_conn_def upd_node_def next_tick_def set_sock_def)
qed

definition demo_answer :: "bytes \<Rightarrow> client" where
  "demo_answer s = (upd_conn 0 0 (\<lambda>c. c\<lparr>nc_fd := 5\<rparr>) demo_client)
     \<lparr>cs_sock := (\<lambda>_. \<lparr>ns_in = s, ns_send = replicate 40 1, ns_out = []\<rparr>)\<rparr>"

lemma demo_answer_parts:
  "cl_nodes (cs_cl (demo_answer s)) = [(new_node (ascii ''127.0.0.1'') 6379)\<lparr>nd_conns :=
     \<lparr>nc_fd = 5, nc_ssl = None, nc_in_use = False, nc_last_used = 0\<rparr>
     # replicate 7 \<lparr>nc_fd = - 1, nc_ssl = None, nc_in_use = False, nc_last_used = 0\<rparr>\<rparr>]"
  "cl_slot_map (cs_cl (demo_answer s)) = replicate VC_CLUSTER_SLOTS (- 1)"
  "cs_sock (demo_answer s) fd = \<lparr>ns_in = s, ns_send = replicate 40 1, ns_out = []\<rparr>"
proof -
  have r: "replicate 8 x = x # replicate 7 x" for x :: vc_node_conn by (simp add: numeral_eq_Suc)
  show "cl_nodes (cs_cl (demo_answer s)) = [(new_node (ascii ''127.0.0.1'') 6379)\<lparr>nd_conns :=
     \<lparr>nc_fd = 5, nc_ssl = None, nc_in_use = False, nc_last_used = 0\<rparr>
     # replicate 7 \<lparr>nc_fd = - 1, nc_ssl = None, nc_in_use = False, nc_last_used = 0\<rparr>\<rparr>]"
    by (simp add: demo_answer_def demo_client_def upd_conn_def upd_node_def node_at_def new_node_def r)
qed (simp_all add: demo_answer_def demo_client_def upd_conn_def upd_node_def)

theorem cluster_cmd_reply_witness:
  "\<exists>st st'. vc_cluster_cmd quiet_net (Some (ascii ''k'')) (encode_cmd [ascii ''GET'', ascii ''k'']) st = Some (VC_CLUSTER_OK, Some (ascii ''v''), st')
     \<and> ns_out (cs_sock st' 5) = encode_cmd [ascii ''GET'', ascii ''k'']"
proof -
  define st where "st = (demo_answer (bulk_text (ascii ''v'')))\<lparr>cs_cl := (cs_cl (demo_answer (bulk_text (ascii ''v''))))
    \<lparr>cl_slot_map := replicate VC_CLUSTER_SLOTS 0\<rparr>\<rparr>"
  have node: "node_at 0 st = (new_node (ascii ''127.0.0.1'') 6379)\<lparr>nd_conns :=
     \<lparr>nc_fd = 5, nc_ssl = None, nc_in_use = False, nc_last_used = 0\<rparr>
     # replicate 7 \<lparr>nc_fd = - 1, nc_ssl = None, nc_in_use = False, nc_last_used = 0\<rparr>\<rparr>"
    by (simp add: node_at_def st_def demo_answer_parts)
  have "unat (vc_key_slot (ascii ''k'')) < VC_CLUSTER_SLOTS" by (rule key_slot_less)
  then have "vc_cluster_node_for_slot (cs_cl st) (vc_key_slot (ascii ''k'')) = Some (int 0)"
    by (simp add: vc_cluster_node_for_slot_def st_def)
  moreover have "nd_alive (node_at 0 st)" "i < 1 \<longrightarrow> i < length (cl_nodes (cs_cl st))" "cs_sock st fd = \<lparr>ns_in = bulk_text (ascii ''v''),
      ns_send = replicate 40 1, ns_out = []\<rparr>" "nc_fd (conn_at 0 0 st) = 5" "\<not> ce_oom quiet_net t m"
    "find_index (\<lambda>c. \<not> nc_in_use c \<and> 0 \<le> sint (nc_fd c)) (nd_conns (node_at 0 st)) = Some 0" for i fd t m
    by (simp_all add: node conn_at_def new_node_def quiet_net_def) (simp_all add: st_def demo_answer_parts)
  moreover have "length (encode_cmd [ascii ''GET'', ascii ''k'']) = 20"
    by (simp add: encode_cmd_def array_text_def bulk_text_def ascii_def dec_nat.simps dec_int_def)
  ultimately show ?thesis
    using cluster_cmd_reply [of st "ascii ''k''" 0 0 _ "encode_cmd [ascii ''GET'', ascii ''k'']" "ascii ''v''" "[]" quiet_net]
    by (auto simp: ascii_def)
qed

section \<open>Arrays\<close>

text \<open>
  A reply that is an array is returned as its header; its elements stay on the
  connection, where the next command takes them for its reply.
\<close>

theorem array_left_unread:
  assumes "\<forall>m. \<not> oom m" "n < 2 ^ 62" "length v < 2 ^ 62"
  shows "resp_read_reply oom (array_text (int n) @ bulk_text v @ rest) = Some (Some (ascii ''*'' @ dec_nat n), bulk_text v @ rest)
     \<and> resp_read_reply oom (bulk_text v @ rest) = Some (Some v, rest)"
proof
  have "length (dec_nat n) \<le> 19" using assms(2) by (intro length_dec_object) simp
  then have "sock_readline 1024 ((42 # dec_nat n) @ CRLF @ bulk_text v @ rest) = (True, (42 # dec_nat n) @ [0, 10], bulk_text v @ rest)"
    using dec_nat_plain by (intro readline_text) auto
  moreover have "array_text (int n) @ bulk_text v @ rest = (42 # dec_nat n) @ CRLF @ bulk_text v @ rest"
    by (simp add: array_text_def ascii_def dec_int_def)
  moreover have "atoll (dec_nat n) = int n" using assms(2) by (intro atoll_dec_nat) simp
  ultimately show "resp_read_reply oom (array_text (int n) @ bulk_text v @ rest) = Some (Some (ascii ''*'' @ dec_nat n), bulk_text v @ rest)"
    using assms(1) dec_nat_plain by (simp add: resp_read_reply_def rest_str_text dec_int_def ascii_def)
  show "resp_read_reply oom (bulk_text v @ rest) = Some (Some v, rest)" using read_bulk [OF assms(1,3)] .
qed

theorem array_left_unread_witness:
  "resp_read_reply (\<lambda>_. False) (array_text 1 @ bulk_text (ascii ''v'')) = Some (Some (ascii ''*1''), bulk_text (ascii ''v''))"
  using array_left_unread [of "\<lambda>_. False" 1 "ascii ''v''" "[]"] by (simp add: dec_nat.simps ascii_def)

section \<open>The topology of the server\<close>

text \<open>What the server answers to CLUSTER SLOTS, line by line.\<close>

definition slots_reply :: bytes where
  "slots_reply = concat (map (\<lambda>t. ascii t @ CRLF)
     [''*1'', ''*3'', '':0'', '':16383'', ''*2'', ''$9'', ''127.0.0.1'', '':6379''])"

lemma slots_reply_text:
  "slots_reply = array_text 1 @ array_text 3 @ int_text 0 @ int_text 16383 @ array_text 2
     @ bulk_text (ascii ''127.0.0.1'') @ int_text 6379"
  by (simp add: slots_reply_def array_text_def int_text_def bulk_text_def dec_int_def dec_nat.simps ascii_def)

lemma reply_line:
  "length t < 250 \<Longrightarrow> 13 \<notin> set (ascii t) \<Longrightarrow> sock_readline 256 (ascii t @ CRLF @ rest) = (True, ascii t @ [0, 10], rest)"
  by (rule readline_text) simp_all

lemma readline_end: "sock_readline maxlen [] = (False, [], [])"
  unfolding sock_readline_def by (cases "maxlen - 1") simp_all

lemma assign_all: "\<forall>k < length m. lo \<le> int k \<and> int k \<le> hi \<Longrightarrow> assign_slots lo hi v m = replicate (length m) v"
  by (rule nth_equalityI) (simp_all add: assign_slots_def nth_enumerate_eq)

lemma small_numbers:
  "atoll [48] = 0" "atoll [49] = 1" "atoll [50] = 2" "atoll [49, 54, 51, 56, 51] = 16383" "atoll [54, 51, 55, 57] = 6379"
  "atoll [50, 55, 46, 48, 46, 48, 46, 49] = 27"
  by (simp_all add: atoll_def strtoll_def Let_def is_space_def is_digit_def digits_val_def)

lemma slots_misread:
  assumes "cl_nodes cl = [n]" "address n = (ascii ''127.0.0.1'', 6379)" "cl_slot_map cl = replicate VC_CLUSTER_SLOTS (- 1)"
  shows "refresh_ranges 1 cl (concat (map (\<lambda>t. ascii t @ CRLF) [''*3'', '':0'', '':16383'', ''*2'', ''$9'', ''127.0.0.1'', '':6379'']))
     = Some (cl\<lparr>cl_nodes := [n, new_node (ascii ''9'') 27, new_node (ascii ''6379'') 6379],
           cl_slot_map := replicate VC_CLUSTER_SLOTS 1\<rparr>, [])"
proof -
  have lines: "sock_readline 256 (ascii t @ CRLF @ R) = (True, ascii t @ [0, 10], R)"
    if "t \<in> {''*3'', '':0'', '':16383'', ''*2'', ''$9'', ''127.0.0.1'', '':6379''}" for t R
    using that by (intro reply_line) (auto simp: ascii_def)
  have last_line: "sock_readline 256 (ascii '':6379'' @ CRLF) = (True, ascii '':6379'' @ [0, 10], [])"
    using lines [of "'':6379''" "[]"] by simp
  let ?l = "ascii ''*2'' @ [0, 10] @ [56, 51, 0, 10]"
  have a1: "read_addr (overwrite ?l (ascii ''$9'' @ [0, 10])) (ascii ''127.0.0.1'' @ CRLF @ ascii '':6379'' @ CRLF)
      = Some ([57], 27, ascii ''127.0.0.1'' @ [0, 10], ascii '':6379'' @ CRLF)"
    using lines [of "''127.0.0.1''"] small_numbers(6)
    by (simp add: read_addr_def) (simp add: rest_str_def c_str_def overwrite_def ascii_def)
  have a2: "read_addr (overwrite (ascii ''127.0.0.1'' @ [0, 10]) (ascii '':6379'' @ [0, 10])) [] =
      Some ([54, 51, 55, 57], 6379, ascii '':6379'' @ [0, 10] @ [46, 49, 0, 10], [])"
    using small_numbers(5)
    by (simp add: read_addr_def readline_end rest_str_def c_str_def overwrite_def ascii_def)
  define cl1 where "cl1 = cl\<lparr>cl_nodes := [n, new_node [57] 27]\<rparr>"
  have f1: "node_find_or_add cl [57] 27 = (1, cl1)"
    using assms(1,2) by (auto simp: node_find_or_add_def find_node_def address_def cl1_def)
  have f2: "node_find_or_add cl1 [54, 51, 55, 57] 6379 = (2, cl1\<lparr>cl_nodes := [n, new_node [57] 27, new_node [54, 51, 55, 57] 6379]\<rparr>)"
    using assms(1,2) by (auto simp: node_find_or_add_def find_node_def address_def cl1_def new_node_def ascii_def)
  have addrs: "refresh_addrs 2 True (- 1) ?l cl (ascii ''$9'' @ CRLF @ ascii ''127.0.0.1'' @ CRLF @ ascii '':6379'' @ CRLF)
      = Some (1, cl1\<lparr>cl_nodes := [n, new_node [57] 27, new_node [54, 51, 55, 57] 6379]\<rparr>, [])"
    using lines [of "''$9''"] a1 a2 f1 f2 last_line by (simp add: numeral_2_eq_2)
  have "rest_str (overwrite (ascii ''*3'' @ [0, 10]) (ascii '':0'' @ [0, 10])) = Some [48]"
    "rest_str (overwrite (overwrite (ascii ''*3'' @ [0, 10]) (ascii '':0'' @ [0, 10])) (ascii '':16383'' @ [0, 10])) = Some [49, 54, 51, 56, 51]"
    "overwrite (overwrite (overwrite (ascii ''*3'' @ [0, 10]) (ascii '':0'' @ [0, 10])) (ascii '':16383'' @ [0, 10])) (ascii ''*2'' @ [0, 10]) = ?l"
    "rest_str ?l = Some [50]"
    by (simp_all add: rest_str_def c_str_def overwrite_def ascii_def)
  moreover have "set_owner (atoi [48]) (atoi [49, 54, 51, 56, 51]) 1 (cl1\<lparr>cl_nodes := ns\<rparr>)
      = cl\<lparr>cl_nodes := ns, cl_slot_map := replicate VC_CLUSTER_SLOTS 1\<rparr>" for ns
    using assms(3) by (simp add: set_owner_def atoi_def small_numbers cl1_def assign_all)
  moreover have "nat (sint (atoi [50])) = 2" by (simp add: atoi_def small_numbers)
  ultimately show ?thesis
    using lines [of "''*3''"] lines [of "'':0''"] lines [of "'':16383''"] lines [of "''*2''"] addrs
    by (simp add: Let_def) (simp add: ascii_def)
qed

lemma reply_then:
  assumes "session_ok sc" "emits wr s"
    and "\<And>sc1. session_ok sc1 \<Longrightarrow> fst sc1 = fst sc \<Longrightarrow> \<exists>sc2. f sc1 = Some sc2 \<and> replied t sc1 sc2"
  shows "\<exists>sc2. reply wr sc \<bind> f = Some sc2 \<and> replied (s @ t) sc sc2"
proof -
  obtain sc1 where r: "reply wr sc = Some sc1" "replied s sc sc1"
    using reply_replied [OF _ assms(2), of sc] assms(1) by (auto simp: session_ok_def)
  then show ?thesis
    using assms(3) [OF replied_ok [OF r(2) assms(1)] replied_fst [OF r(2)]] replied_trans [OF r(2)] by auto
qed

lemma reply_last: "session_ok sc \<Longrightarrow> emits wr s \<Longrightarrow> \<exists>sc2. reply wr sc = Some sc2 \<and> replied s sc sc2"
  using reply_replied [of sc wr s] by (simp add: session_ok_def)

lemma slots_answer:
  assumes "session_ok sc" "announce_addr (fst sc) = ascii ''127.0.0.1''" "cfg_port (sv_cfg (fst sc)) = 6379"
  shows "\<exists>sc'. do {
       sc \<leftarrow> ARRAY 1 sc; sc \<leftarrow> ARRAY 3 sc; sc \<leftarrow> INT_REPLY 0 sc; sc \<leftarrow> INT_REPLY 16383 sc; sc \<leftarrow> ARRAY 2 sc;
       sc \<leftarrow> BULK (announce_addr (fst sc)) sc;
       INT_REPLY (uint (cfg_port (sv_cfg (fst sc)))) sc } = Some sc' \<and> replied slots_reply sc sc'"
  unfolding slots_reply_text ARRAY_def INT_REPLY_def BULK_def
proof (rule reply_then [OF assms(1) emits_array_header], simp, simp)
  fix sc1 assume 1: "session_ok sc1" "fst sc1 = fst sc"
  show "\<exists>sc2. do { sc \<leftarrow> reply (resp_write_array_header 3) sc1; sc \<leftarrow> reply (resp_write_integer 0) sc;
      sc \<leftarrow> reply (resp_write_integer 16383) sc; sc \<leftarrow> reply (resp_write_array_header 2) sc;
      sc \<leftarrow> reply (resp_write_bulk (announce_addr (fst sc))) sc; reply (resp_write_integer (uint (cfg_port (sv_cfg (fst sc))))) sc }
      = Some sc2 \<and> replied (array_text 3 @ int_text 0 @ int_text 16383 @ array_text 2 @ bulk_text (ascii ''127.0.0.1'') @ int_text 6379) sc1 sc2"
    apply (rule reply_then [OF 1(1) emits_array_header], simp, simp)
    apply (rule reply_then, assumption, rule emits_integer, simp, simp)
    apply (rule reply_then, assumption, rule emits_integer, simp, simp)
    apply (rule reply_then, assumption, rule emits_array_header, simp, simp)
    apply (simp add: 1(2) assms(2) del: split_paired_Ex)
    apply (rule reply_then, assumption, rule emits_bulk, simp)
    apply (simp add: 1(2) assms(3) del: split_paired_Ex)
    apply (rule reply_last, assumption, rule emits_integer, simp, simp)
    done
qed

lemma demo_refresh:
  "\<exists>st'. vc_cluster_refresh (talking_net slots_reply) demo_client = Some (0, st')
     \<and> cl_slot_map (cs_cl st') = replicate VC_CLUSTER_SLOTS 1 \<and> address (node_at 1 st') = (ascii ''9'', 27)"
proof -
  let ?e = "talking_net slots_reply" and ?n = "new_node (ascii ''127.0.0.1'') 6379"
  define rest where "rest = concat (map (\<lambda>t. ascii t @ CRLF) [''*3'', '':0'', '':16383'', ''*2'', ''$9'', ''127.0.0.1'', '':6379''])"
  define n where "n = ?n\<lparr>nd_conns := (nd_conns ?n)[0 := \<lparr>nc_fd = 5, nc_ssl = None, nc_in_use = True, nc_last_used = 0\<rparr>]\<rparr>"
  define st1 where "st1 = demo_client\<lparr>cs_cl := (cs_cl demo_client)\<lparr>cl_nodes := [n]\<rparr>, cs_tick := 1,
     cs_sock := (cs_sock demo_client)(5 := \<lparr>ns_in = slots_reply, ns_send = [100], ns_out = []\<rparr>)\<rparr>"
  have get: "node_conn_get ?e 0 demo_client = Some (Some 0, st1)"
    by (simp add: node_conn_get_def demo_client_def node_at_def new_node_def find_index_replicate conn_open_def talking_net_def
        quiet_net_def tcp_connect_def next_tick_def node_auth_def upd_conn_def upd_node_def set_sock_def st1_def n_def)
  have at: "conn_at 0 0 st1 = \<lparr>nc_fd = 5, nc_ssl = None, nc_in_use = True, nc_last_used = 0\<rparr>"
    by (simp add: st1_def conn_at_def node_at_def n_def new_node_def)
  have "length cluster_slots_cmd = 28" by (simp add: cluster_slots_cmd_def ascii_def)
  then have sent: "sock_sendall cluster_slots_cmd (cs_sock st1 5) = (True, \<lparr>ns_in = slots_reply, ns_send = [], ns_out = cluster_slots_cmd\<rparr>)"
    by (auto simp: sock_sendall_def st1_def)
  have line: "sock_readline 256 slots_reply = (True, ascii ''*1'' @ [0, 10], rest)"
    using reply_line [of "''*1''" rest] by (simp add: slots_reply_def rest_def) (simp add: ascii_def)
  have num: "rest_str (ascii ''*1'' @ [0, 10]) = Some [49]" "nat (sint (atoi [49])) = 1" "hd (ascii ''*1'' @ [0, 10]) = 42"
    by (simp_all add: rest_str_def c_str_def ascii_def atoi_def small_numbers)
  define cl where "cl = (cs_cl st1)\<lparr>cl_slot_map := replicate VC_CLUSTER_SLOTS (- 1)\<rparr>"
  have "address n = (ascii ''127.0.0.1'', 6379)" by (simp add: n_def address_def new_node_def)
  then have "refresh_ranges 1 cl rest = Some (cl\<lparr>cl_nodes := [n, new_node (ascii ''9'') 27, new_node (ascii ''6379'') 6379],
        cl_slot_map := replicate VC_CLUSTER_SLOTS 1\<rparr>, [])"
    unfolding rest_def by (intro slots_misread) (simp_all add: cl_def st1_def)
  then have "\<exists>st'. refresh_from ?e 0 demo_client = Some (True, st') \<and> cl_slot_map (cs_cl st') = replicate VC_CLUSTER_SLOTS 1
      \<and> address (node_at 1 st') = (ascii ''9'', 27)"
    using get at sent line num
    by (simp add: refresh_from_def cl_def node_conn_release_def upd_conn_def upd_node_def node_at_def set_sock_def address_def new_node_def
        del: refresh_ranges.simps)
  moreover have "nd_alive (node_at 0 demo_client)" by (simp add: demo_client_def node_at_def new_node_def)
  ultimately show ?thesis
    by (auto simp: vc_cluster_refresh_def demo_client_def)
qed


end
