(* ===== verification/Vcli.thy ===== *)
theory Vcli
  imports Cluster Resp Auth
begin

text \<open>
  The command line client of \<^verbatim>\<open>cli/vcli.c\<close>: cutting a line into words, encoding and sending a
  command and printing the reply. The socket is that of the cluster client, whose functions to send and to read a line are the same; what is printed is collected. The text of
  floating-point numbers and of the latency is a parameter; the stack has no bound, and strings have
  fewer than \<open>2 ^ 31\<close> bytes where \<^verbatim>\<open>printf\<close> takes their length.
\<close>

section \<open>Settings and input and output\<close>

record conf =
  cf_color :: bool
  cf_raw :: bool
  cf_latency :: "bytes option"
  cf_fmt :: "bytes \<Rightarrow> bytes"
  cf_atof :: "bytes \<Rightarrow> bytes"
  cf_oom :: "nat \<Rightarrow> bool"

record vcli_conn =
  vc_sock :: nsock
  vc_out :: bytes
  vc_err :: bytes

definition esc :: "string \<Rightarrow> bytes" where
  "esc s = 27 # ascii s"

abbreviation (input) COL_RESET :: bytes where "COL_RESET \<equiv> esc ''[0m''"
abbreviation (input) COL_RED :: bytes where "COL_RED \<equiv> esc ''[31m''"
abbreviation (input) COL_GREEN :: bytes where "COL_GREEN \<equiv> esc ''[32m''"
abbreviation (input) COL_YELLOW :: bytes where "COL_YELLOW \<equiv> esc ''[33m''"
abbreviation (input) COL_MAGENTA :: bytes where "COL_MAGENTA \<equiv> esc ''[35m''"
abbreviation (input) COL_CYAN :: bytes where "COL_CYAN \<equiv> esc ''[36m''"
abbreviation (input) COL_BOLD :: bytes where "COL_BOLD \<equiv> esc ''[1m''"
abbreviation (input) COL_DIM :: bytes where "COL_DIM \<equiv> esc ''[2m''"

text \<open>A label and a value, each in its color when there are colors.\<close>

definition paint :: "conf \<Rightarrow> bytes \<Rightarrow> bytes \<Rightarrow> bytes \<Rightarrow> bytes \<Rightarrow> bytes" where
  "paint cf c1 label c2 val = (if cf_color cf then c1 @ label @ c2 @ val @ COL_RESET else label @ val)"

definition say :: "bytes \<Rightarrow> vcli_conn \<Rightarrow> vcli_conn" where
  "say t c = c\<lparr>vc_out := vc_out c @ t\<rparr>"

definition complain :: "bytes \<Rightarrow> vcli_conn \<Rightarrow> vcli_conn" where
  "complain t c = c\<lparr>vc_err := vc_err c @ t\<rparr>"

definition set_in :: "bytes \<Rightarrow> vcli_conn \<Rightarrow> vcli_conn" where
  "set_in s c = c\<lparr>vc_sock := (vc_sock c)\<lparr>ns_in := s\<rparr>\<rparr>"

definition cli_sendall :: "bytes \<Rightarrow> vcli_conn \<Rightarrow> bool \<times> vcli_conn" where
  "cli_sendall buf c = (let (ok, k) = sock_sendall buf (vc_sock c) in (ok, c\<lparr>vc_sock := k\<rparr>))"

definition read_line :: "nat \<Rightarrow> vcli_conn \<Rightarrow> bool \<times> bytes \<times> vcli_conn" where
  "read_line maxlen c = (let (ok, line, s) = sock_readline maxlen (ns_in (vc_sock c)) in (ok, line, set_in s c))"

definition read_exactly :: "nat \<Rightarrow> vcli_conn \<Rightarrow> bool \<times> bytes \<times> vcli_conn" where
  "read_exactly n c = (let (ok, buf, s) = sock_readn n (ns_in (vc_sock c)) in (ok, buf, set_in s c))"

definition indent :: "nat \<Rightarrow> bytes" where
  "indent depth = concat (replicate depth (ascii ''   ''))"

section \<open>Typed values\<close>

text \<open>The bytes of a number, least significant first, as far as there are any.\<close>

definition le_value :: "bytes \<Rightarrow> i64" where
  "le_value data = foldr (\<lambda>b v. ucast b OR push_bit 8 v) (take 8 data) 0"

text \<open>
  The text of a value in a buffer whose first \<open>plen\<close> bytes are the bulk string. A floating-point number
  is copied from eight bytes, however short the string is; beyond what was read this is a fault.
\<close>

definition print_vc_typed :: "conf \<Rightarrow> bytes \<Rightarrow> nat \<Rightarrow> bytes option" where
  "print_vc_typed cf payload plen =
     (if plen < 5 \<or> take 4 payload \<noteq> VC_WIRE_MAGIC then Some (c_str (take plen payload))
      else let ty = payload ! 4; data = drop 5 payload; dlen = plen - 5 in
        if ty = VC_TYPE_INT64
        then Some (paint cf COL_CYAN (ascii ''(integer) '') COL_BOLD (dec_int (sint (le_value (take dlen data)))))
        else if ty = VC_TYPE_FLOAT64
        then if length data < 8 then None
             else Some (paint cf COL_CYAN (ascii ''(float) '') COL_BOLD (cf_fmt cf (take 8 data)))
        else if ty = VC_TYPE_BOOL
        then do {
          b \<leftarrow> nth_opt data 0;
          Some (paint cf COL_MAGENTA (ascii ''(bool) '') COL_BOLD (if b \<noteq> 0 then ascii ''true'' else ascii ''false''))
        }
        else if ty = VC_TYPE_JSON
        then Some ((if cf_raw cf then [] else paint cf COL_YELLOW (ascii ''(json) '') [] []) @ c_str (take dlen data))
        else if ty = VC_TYPE_BINARY
        then Some (paint cf COL_DIM (ascii ''(binary '' @ dec_nat dlen @ ascii '' bytes)'') [] [])
        else Some (c_str (take plen payload)))"

section \<open>Printing a reply\<close>

definition nil_text :: "conf \<Rightarrow> bytes" where
  "nil_text cf = (if cf_raw cf then [] else paint cf COL_DIM (ascii ''(nil)'') [] [] @ [10])"

definition printable :: "bytes \<Rightarrow> bool" where
  "printable s \<longleftrightarrow> (\<forall>b \<in> set s. \<not> b < 9 \<and> b \<noteq> 127)"

definition bulk_out :: "conf \<Rightarrow> nat \<Rightarrow> bytes \<Rightarrow> nat \<Rightarrow> bytes option" where
  "bulk_out cf depth buf blen =
     (let s = take blen buf in
      if \<not> cf_raw cf \<and> has_magic s then do { t \<leftarrow> print_vc_typed cf buf blen; Some (indent depth @ t @ [10]) }
      else if cf_raw cf then Some (indent depth @ s @ [10])
      else if printable s then Some (indent depth @ paint cf COL_GREEN ([34] @ c_str s @ [34]) [] [] @ [10])
      else Some (indent depth @ paint cf COL_DIM (ascii ''(binary '' @ dec_nat blen @ ascii '' bytes)'') [] [] @ [10]))"

text \<open>A reply that is on one line.\<close>

definition print_line :: "conf \<Rightarrow> byte \<Rightarrow> bytes \<Rightarrow> vcli_conn \<Rightarrow> vcli_conn" where
  "print_line cf ty rest c =
     (if ty = 43 then say ((if cf_raw cf then rest else paint cf COL_GREEN rest [] []) @ [10]) c
      else if ty = 45 then complain (paint cf COL_RED (ascii ''(error) '' @ rest) [] [] @ [10]) c
      else if ty = 58 then
        say ((if cf_raw cf then dec_int (atoll rest)
              else paint cf COL_CYAN (ascii ''(integer) '') COL_BOLD (dec_int (atoll rest))) @ [10]) c
      else if ty = 44 then
        say ((if cf_raw cf then cf_atof cf rest else paint cf COL_CYAN (ascii ''(double) '') COL_BOLD (cf_atof cf rest)) @ [10]) c
      else if ty = 35 then
        (let v = (if rest \<noteq> [] \<and> hd rest = 116 then ascii ''true'' else ascii ''false'')
         in say ((if cf_raw cf then v else paint cf COL_MAGENTA (ascii ''(boolean) '') COL_BOLD v) @ [10]) c)
      else say (nil_text cf) c)"

text \<open>What is being printed: a reply at a depth, or the elements of a collection from the \<open>i\<close>-th on.\<close>

datatype shape = Items | Pairs | Members
datatype job = Job_reply nat | Job_loop shape int int nat

definition print_bulk :: "conf \<Rightarrow> nat \<Rightarrow> int \<Rightarrow> vcli_conn \<Rightarrow> (int \<times> vcli_conn) option" where
  "print_bulk cf depth blen c =
     (if blen < 0 then Some (0, say (nil_text cf) c)
      else if cf_oom cf (nat blen + 3) then Some (- 1, c)
      else let (ok, buf, c) = read_exactly (nat blen + 2) c
           in if \<not> ok then Some (- 1, c)
              else do { t \<leftarrow> bulk_out cf depth (buf[nat blen := 0]) (nat blen); Some (0, say t c) })"

text \<open>
  An error in a bulk string. The length is used as it is: for -1, -2 and -3 the end mark is stored in
  front of the buffer, and less than was announced is printed up to whatever follows.
\<close>

definition print_blob_error :: "conf \<Rightarrow> int \<Rightarrow> vcli_conn \<Rightarrow> (int \<times> vcli_conn) option" where
  "print_blob_error cf blen c =
     (if blen < - 3 \<or> cf_oom cf (nat (blen + 3)) then Some (- 1, c)
      else if blen < 0 then None
      else let (ok, buf, c) = read_exactly (nat blen + 2) c
           in if \<not> ok then None
              else Some (0, complain (paint cf COL_RED (ascii ''(error) '' @ c_str (take (nat blen) buf)) [] [] @ [10]) c))"

text \<open>The labels in front of an element, of a key and of a value.\<close>

definition item_label :: "conf \<Rightarrow> int \<Rightarrow> nat \<Rightarrow> bytes" where
  "item_label cf i depth = (if cf_raw cf then [] else indent depth @ dec_int (i + 1) @ ascii '') '')"

definition pair_label :: "conf \<Rightarrow> string \<Rightarrow> nat \<Rightarrow> bytes" where
  "pair_label cf name depth =
     indent (depth + 1) @ (if cf_raw cf then [] else paint cf COL_BOLD (ascii name) [] [])"

definition heading :: "conf \<Rightarrow> string \<Rightarrow> bytes" where
  "heading cf name = (if cf_raw cf then [] else paint cf COL_BOLD (ascii name) [] [] @ [10])"

definition print_collection :: "conf \<Rightarrow> byte \<Rightarrow> int \<Rightarrow> vcli_conn \<Rightarrow> vcli_conn" where
  "print_collection cf ty n c =
     (if ty = 42 then
        (if cf_raw cf then c else if n < 0 then say (ascii ''(nil)'' @ [10]) c
         else if n = 0 then say (ascii ''(empty array)'' @ [10]) c else c)
      else if ty = 37 then say (heading cf ''(map)'') c
      else say (heading cf ''(set)'') c)"

definition shape_of :: "byte \<Rightarrow> shape" where
  "shape_of ty = (if ty = 42 then Items else if ty = 37 then Pairs else Members)"

definition unknown_type :: "byte \<Rightarrow> bytes" where
  "unknown_type ty = ascii ''Unknown RESP type: '' @ [39, ty, 39] @ ascii '' (0x'' @ hex_pair ty @ ascii '')'' @ [10]"

partial_function (option) print_job :: "conf \<Rightarrow> job \<Rightarrow> vcli_conn \<Rightarrow> (int \<times> vcli_conn) option" where
  "print_job cf j c =
     (case j of
        Job_loop sh i n depth \<Rightarrow>
          (if n \<le> i then Some (0, c)
           else case sh of
             Items \<Rightarrow> do {
               (r, c) \<leftarrow> print_job cf (Job_reply (depth + 1)) (say (item_label cf i depth) c);
               if r < 0 then Some (- 1, c) else print_job cf (Job_loop sh (i + 1) n depth) c
             }
           | Pairs \<Rightarrow> do {
               (r, c) \<leftarrow> print_job cf (Job_reply (depth + 2)) (say (pair_label cf ''key: '' depth) c);
               if r < 0 then Some (- 1, c)
               else do {
                 (r, c) \<leftarrow> print_job cf (Job_reply (depth + 2)) (say (pair_label cf ''val: '' depth) c);
                 if r < 0 then Some (- 1, c) else print_job cf (Job_loop sh (i + 1) n depth) c
               }
             }
           | Members \<Rightarrow> do {
               (r, c) \<leftarrow> print_job cf (Job_reply (depth + 1)) (say (indent (depth + 1)) c);
               if r < 0 then Some (- 1, c) else print_job cf (Job_loop sh (i + 1) n depth) c
             })
      | Job_reply depth \<Rightarrow>
          (case read_line 4096 c of (ok, line, c) \<Rightarrow>
             if \<not> ok then Some (- 1, c)
             else if hd line \<in> {43, 45, 58, 44, 35, 95} then Some (0, print_line cf (hd line) (c_str (tl line)) c)
             else if hd line = 36 then print_bulk cf depth (atoll (c_str (tl line))) c
             else if hd line \<in> {42, 37, 126} then
               print_job cf (Job_loop (shape_of (hd line)) 0 (atoll (c_str (tl line))) depth)
                 (print_collection cf (hd line) (atoll (c_str (tl line))) c)
             else if hd line = 33 then print_blob_error cf (atoll (c_str (tl line))) c
             else Some (- 1, complain (unknown_type (hd line)) c)))"

definition print_reply :: "conf \<Rightarrow> nat \<Rightarrow> vcli_conn \<Rightarrow> (int \<times> vcli_conn) option" where
  "print_reply cf depth c = print_job cf (Job_reply depth) c"

section \<open>Commands\<close>

text \<open>The text of a command in a buffer of \<open>bufsz\<close> bytes, or -1 when it does not fit.\<close>

primrec encode_args :: "nat \<Rightarrow> bytes list \<Rightarrow> bytes \<Rightarrow> bytes option" where
  "encode_args bufsz [] buf = Some buf"
| "encode_args bufsz (a # as) buf =
     (let t = ascii ''$'' @ dec_nat (length a) @ CRLF @ a @ CRLF
      in if bufsz \<le> length buf + length t then None else encode_args bufsz as (buf @ t))"

definition encode_command :: "nat \<Rightarrow> bytes list \<Rightarrow> bytes option" where
  "encode_command bufsz argv = encode_args bufsz argv (ascii ''*'' @ dec_nat (length argv) @ CRLF)"

text \<open>A line of the input without its end; nothing is left of an empty one.\<close>

definition cli_readline :: "bytes \<Rightarrow> bytes option" where
  "cli_readline l = (if l = [] then None else Some (c_str (if last l = 10 then butlast l else l)))"

text \<open>At most \<open>n\<close> words of a string, in quotes of either kind or up to a blank.\<close>

definition blank :: "byte \<Rightarrow> bool" where
  "blank b \<longleftrightarrow> b = 32 \<or> b = 9"

definition next_token :: "bytes \<Rightarrow> bytes \<times> bytes" where
  "next_token p =
     (if hd p = 34 \<or> hd p = 39
      then let t = takeWhile (\<lambda>b. b \<noteq> hd p) (tl p) in (t, drop (length t + 1) (tl p))
      else let t = takeWhile (\<lambda>b. \<not> blank b) p in (t, drop (length t + 1) p))"

primrec tokenize :: "nat \<Rightarrow> bytes \<Rightarrow> bytes list" where
  "tokenize 0 p = []"
| "tokenize (Suc n) p =
     (let p = dropWhile blank p
      in if p = [] then [] else let (t, rest) = next_token p in t # tokenize n rest)"

definition do_command :: "conf \<Rightarrow> bytes list \<Rightarrow> vcli_conn \<Rightarrow> (int \<times> vcli_conn) option" where
  "do_command cf argv c =
     (case encode_command (256 * 1024) argv of
        None \<Rightarrow> Some (- 1, complain (ascii ''Command too long'' @ [10]) c)
      | Some cmd \<Rightarrow>
          (case cli_sendall cmd c of (ok, c) \<Rightarrow>
             if \<not> ok then Some (- 1, complain (ascii ''Connection lost'' @ [10]) c)
             else do {
               (r, c) \<leftarrow> print_reply cf 0 c;
               Some (r, case cf_latency cf of
                 Some t \<Rightarrow> if r = 0 then say (COL_DIM @ ascii '' ['' @ t @ ascii '' ms]'' @ COL_RESET @ [10]) c else c
               | None \<Rightarrow> c)
             }))"

end
