(* ===== verification/VcliMain.thy ===== *)
theory VcliMain
  imports Vcli ServerBoot
begin

text \<open>
  The main program of \<^verbatim>\<open>cli/vcli.c\<close>: its options, the session of a client with its handshake, and the
  three ways to run commands; the cluster mode; and the server mode, which is how the server is
  started. What the system and the libraries return is in one record.
\<close>

section \<open>Help\<close>

definition print_help :: "bytes \<Rightarrow> bytes" where
  "print_help prog =
     COL_BOLD @ ascii ''VoidCache CLI '' @ COL_RESET @ ascii ''('' @ VC_SERVER_VERSION @ ascii '')''
      @ [10, 10] @ ascii ''Usage: '' @ prog @ ascii '' [options] [command [args...]]'' @ [10, 10]
      @ ascii ''Connection options:'' @ [10]
      @ ascii ''  -h <hostname>     Server hostname (default: 127.0.0.1)'' @ [10]
      @ ascii ''  -p <port>         Server port (default: 6379)'' @ [10]
      @ ascii ''  -a <password>     Password'' @ [10]
      @ ascii ''  -u <username>     Username for ACL auth'' @ [10]
      @ ascii ''  -n <db>           Database number (VoidCache always uses 0)'' @ [10]
      @ ascii ''  --tls             Enable TLS'' @ [10]
      @ ascii ''  --cacert <file>   CA certificate for TLS verification'' @ [10]
      @ ascii ''  --cluster         Connect in cluster routing mode'' @ [10, 10]
      @ ascii ''Display options:'' @ [10]
      @ ascii ''  --raw             Print raw output (no type decorations)'' @ [10]
      @ ascii ''  --no-color        Disable colored output'' @ [10]
      @ ascii ''  --latency         Show per-command latency'' @ [10, 10] @ ascii ''Modes:'' @ [10]
      @ ascii ''  --pipe            Read commands from stdin (batch mode)'' @ [10]
      @ ascii ''  server            Start VoidCache server (see --help-server)'' @ [10, 10]
      @ ascii ''VoidCache extended commands:'' @ [10]
      @ ascii ''  VCSET <key> <type> <value>   Store typed value'' @ [10]
      @ ascii ''    types: int, float, bool, json, binary, string'' @ [10]
      @ ascii ''  VCGET <key>                  Get with type metadata'' @ [10]
      @ ascii ''  VCINFO                       Server info as JSON'' @ [10, 10] @ ascii ''Examples:''
      @ [10] @ ascii ''  '' @ prog @ ascii '' PING'' @ [10] @ ascii ''  '' @ prog
      @ ascii '' SET mykey myvalue'' @ [10] @ ascii ''  '' @ prog @ ascii '' VCSET score int 42''
      @ [10] @ ascii ''  '' @ prog @ ascii '' VCSET config json '' @ [39] @ ascii ''{'' @ [34]
      @ ascii ''timeout'' @ [34] @ ascii '':30}'' @ [39, 10] @ ascii ''  '' @ prog
      @ ascii '' -h 10.0.0.1 -p 6379 --tls -a password INFO'' @ [10] @ ascii ''  '' @ prog
      @ ascii '' --cluster -h 10.0.0.1 GET mykey'' @ [10]"

definition print_server_help :: bytes where
  "print_server_help =
     COL_BOLD @ ascii ''VoidCache Server'' @ COL_RESET @ [10, 10]
      @ ascii ''Usage: vcli server [options]'' @ [10, 10]
      @ ascii ''  --port <port>         Listen port (default: 6379)'' @ [10]
      @ ascii ''  --bind <addr>         Bind address (default: 0.0.0.0)'' @ [10]
      @ ascii ''  --tls-cert <file>     TLS certificate (enables TLS)'' @ [10]
      @ ascii ''  --tls-key  <file>     TLS private key'' @ [10]
      @ ascii ''  --acl-file <file>     ACL file (username pw_sha256_hex flags)'' @ [10]
      @ ascii ''  --requirepass <pass>  Simple password (Redis compat)'' @ [10]
      @ ascii ''  --maxmemory <bytes>   Memory cap (e.g. 256m, 1g)'' @ [10]
      @ ascii ''  --wal <path>          WAL file path'' @ [10]
      @ ascii ''  --threads <n>         Worker threads (default: 4)'' @ [10]
      @ ascii ''  --cluster             Enable cluster mode'' @ [10]
      @ ascii ''  --announce-addr <ip>  Address reported to cluster peers'' @ [10]
      @ ascii ''  --announce-port <p>   Port reported to cluster peers'' @ [10, 10]
      @ ascii ''ACL file format (one user per line):'' @ [10]
      @ ascii ''  <username> <sha256_of_password_hex> <acl_flags>'' @ [10]
      @ ascii ''  flags: r=read  w=write  a=admin  p=pubsub  *=all'' @ [10, 10] @ ascii ''Example:''
      @ [10] @ ascii ''  vcli server --port 6379 --tls-cert cert.pem --tls-key key.pem '' @ [92, 10]
      @ ascii ''              --requirepass secret --maxmemory 1g'' @ [10]"

definition repl_help :: bytes where
  "repl_help =
     ascii ''Standard Redis commands:  GET SET DEL EXISTS EXPIRE TTL'' @ [10]
      @ ascii ''                          INCR DECR APPEND KEYS SCAN DBSIZE'' @ [10]
      @ ascii ''                          MGET MSET RENAME FLUSHDB INFO'' @ [10]
      @ ascii ''VoidCache extended:       VCSET VCGET VCINFO'' @ [10]
      @ ascii ''  VCSET <key> int <n>         '' @ [226, 128, 148] @ ascii '' store typed integer''
      @ [10] @ ascii ''  VCSET <key> float <n>       '' @ [226, 128, 148]
      @ ascii '' store typed float'' @ [10] @ ascii ''  VCSET <key> bool true|false ''
      @ [226, 128, 148] @ ascii '' store typed boolean'' @ [10] @ ascii ''  VCSET <key> json '' @ [39]
      @ ascii ''<json>'' @ [39] @ ascii ''   '' @ [226, 128, 148]
      @ ascii '' store JSON (validated server-side)'' @ [10] @ ascii ''  VCSET <key> binary <data>   ''
      @ [226, 128, 148] @ ascii '' store binary blob'' @ [10]
      @ ascii ''  VCGET <key>                 '' @ [226, 128, 148] @ ascii '' get with type metadata''
      @ [10] @ ascii ''  VCINFO                      '' @ [226, 128, 148]
      @ ascii '' server info as JSON'' @ [10] @ ascii ''  CLUSTER INFO/NODES/MYID/SLOTS'' @ [10]"

section \<open>Options\<close>

text \<open>
  \<open>strtoull\<close>: the value, which saturates and is negated modulo \<open>2 ^ 64\<close> after a minus sign, and the
  rest of the string.
\<close>

definition strtoull :: "bytes \<Rightarrow> u64 \<times> bytes" where
  "strtoull s =
     (let s1 = dropWhile is_space s;
          sign = (if s1 \<noteq> [] \<and> (hd s1 = 43 \<or> hd s1 = 45) then 1 else 0 :: nat);
          ds = takeWhile is_digit (drop sign s1);
          v = digits_val ds
      in if ds = [] then (0, s)
         else (if 2 ^ 64 \<le> v then - 1 else if sign = 1 \<and> hd s1 = 45 then - of_nat v else of_nat v,
               drop (sign + length ds) s1))"

definition parse_mem :: "bytes \<Rightarrow> u64" where
  "parse_mem s =
     (let (v, rest) = strtoull s
      in if rest \<noteq> [] \<and> (hd rest = 109 \<or> hd rest = 77) then v * (1024 * 1024)
         else if rest \<noteq> [] \<and> (hd rest = 103 \<or> hd rest = 71) then v * (1024 * 1024 * 1024)
         else if rest \<noteq> [] \<and> (hd rest = 107 \<or> hd rest = 75) then v * 1024
         else v)"

record opts =
  op_host :: bytes
  op_port :: u16
  op_username :: bytes
  op_password :: bytes
  op_tls :: bool
  op_cacert :: bytes
  op_pipe :: bool
  op_cluster :: bool
  op_server :: bool
  op_cfg :: vc_server_cfg
  op_raw :: bool
  op_color :: bool
  op_latency :: bool

definition default_opts :: "bool \<Rightarrow> opts" where
  "default_opts tty =
     \<lparr>op_host = ascii ''127.0.0.1'', op_port = 6379, op_username = [], op_password = [], op_tls = False,
      op_cacert = [], op_pipe = False, op_cluster = False, op_server = False,
      op_cfg = \<lparr>cfg_bind_addr = Some (ascii ''0.0.0.0''), cfg_port = 6379, cfg_tls_cert = None, cfg_tls_key = None,
        cfg_acl_file = None, cfg_worker_threads = 4, cfg_max_memory = 256 * 1024 * 1024, cfg_wal_path = None,
        cfg_shard_slots = 4096, cfg_cluster_enabled = False, cfg_cluster_announce_addr = None,
        cfg_cluster_announce_port = 0, cfg_requirepass = None\<rparr>,
      op_raw = False, op_color = tty, op_latency = False\<rparr>"

text \<open>The options of the server and of the client that take a value, and those that take none.\<close>

definition server_option :: "bytes \<Rightarrow> bytes \<Rightarrow> vc_server_cfg \<Rightarrow> vc_server_cfg option" where
  "server_option a v cfg =
     (if a = ascii ''--port'' then Some (cfg\<lparr>cfg_port := scast (atoi v)\<rparr>)
      else if a = ascii ''--bind'' then Some (cfg\<lparr>cfg_bind_addr := Some v\<rparr>)
      else if a = ascii ''--tls-cert'' then Some (cfg\<lparr>cfg_tls_cert := Some v\<rparr>)
      else if a = ascii ''--tls-key'' then Some (cfg\<lparr>cfg_tls_key := Some v\<rparr>)
      else if a = ascii ''--acl-file'' then Some (cfg\<lparr>cfg_acl_file := Some v\<rparr>)
      else if a = ascii ''--requirepass'' then Some (cfg\<lparr>cfg_requirepass := Some v\<rparr>)
      else if a = ascii ''--maxmemory'' then Some (cfg\<lparr>cfg_max_memory := unat (parse_mem v)\<rparr>)
      else if a = ascii ''--wal'' then Some (cfg\<lparr>cfg_wal_path := Some v\<rparr>)
      else if a = ascii ''--threads'' then Some (cfg\<lparr>cfg_worker_threads := atoi v\<rparr>)
      else if a = ascii ''--announce-addr'' then Some (cfg\<lparr>cfg_cluster_announce_addr := Some v\<rparr>)
      else if a = ascii ''--announce-port'' then Some (cfg\<lparr>cfg_cluster_announce_port := scast (atoi v)\<rparr>)
      else None)"

definition client_option :: "bytes \<Rightarrow> bytes \<Rightarrow> opts \<Rightarrow> opts option" where
  "client_option a v op =
     (if a = ascii ''-h'' then Some (op\<lparr>op_host := take 255 v\<rparr>)
      else if a = ascii ''-p'' then Some (op\<lparr>op_port := scast (atoi v)\<rparr>)
      else if a = ascii ''-a'' then Some (op\<lparr>op_password := take 255 v\<rparr>)
      else if a = ascii ''-u'' then Some (op\<lparr>op_username := take 63 v\<rparr>)
      else if a = ascii ''--cacert'' then Some (op\<lparr>op_cacert := take 255 v\<rparr>)
      else if a = ascii ''-n'' then Some op
      else None)"

definition client_flag :: "bytes \<Rightarrow> opts \<Rightarrow> opts option" where
  "client_flag a op =
     (if a = ascii ''--tls'' then Some (op\<lparr>op_tls := True\<rparr>)
      else if a = ascii ''--raw'' then Some (op\<lparr>op_raw := True\<rparr>)
      else if a = ascii ''--no-color'' then Some (op\<lparr>op_color := False\<rparr>)
      else if a = ascii ''--latency'' then Some (op\<lparr>op_latency := True\<rparr>)
      else if a = ascii ''--pipe'' then Some (op\<lparr>op_pipe := True\<rparr>)
      else if a = ascii ''--cluster'' then Some (op\<lparr>op_cluster := True\<rparr>)
      else None)"

text \<open>The outcome: a help text to print, or the options and the words of the command that follow them.\<close>

datatype parsed = Help | Help_server | Run opts "bytes list"

fun parse_args :: "bytes list \<Rightarrow> opts \<Rightarrow> parsed" where
  "parse_args [] op = Run op []"
| "parse_args (a # as) op =
     (if a = ascii ''--help'' \<or> a = ascii ''-?'' then Help
      else if a = ascii ''--help-server'' then Help_server
      else if a = ascii ''server'' then parse_args as (op\<lparr>op_server := True\<rparr>)
      else if op_server op then
        (case as of
           v # bs \<Rightarrow>
             (case server_option a v (op_cfg op) of
                Some cfg \<Rightarrow> parse_args bs (op\<lparr>op_cfg := cfg\<rparr>)
              | None \<Rightarrow> parse_args as (if a = ascii ''--cluster'' then op\<lparr>op_cfg := (op_cfg op)\<lparr>cfg_cluster_enabled := True\<rparr>\<rparr> else op))
         | [] \<Rightarrow> Run (if a = ascii ''--cluster'' then op\<lparr>op_cfg := (op_cfg op)\<lparr>cfg_cluster_enabled := True\<rparr>\<rparr> else op) [])
      else case client_flag a op of
        Some op \<Rightarrow> parse_args as op
      | None \<Rightarrow>
          (case as of
             v # bs \<Rightarrow> (case client_option a v op of Some op \<Rightarrow> parse_args bs op | None \<Rightarrow> Run op (a # as))
           | [] \<Rightarrow> Run op (a # as)))"

section \<open>The system\<close>

text \<open>
  The terminal; the address, the socket and the connection of a client; its TLS context and
  handshake; its lines of input; how the settings format numbers; and the worlds of the cluster
  client and of the server, with what the workers make of the server until it is stopped.
\<close>

record system =
  sy_tty_out :: bool
  sy_tty_in :: bool
  sy_resolve :: bool
  sy_fd :: i32
  sy_connect :: bool
  sy_strerror :: bytes
  sy_ctx :: bool
  sy_shake :: int
  sy_sock :: nsock
  sy_lines :: "bytes list"
  sy_ms :: bytes
  sy_fmt :: "bytes \<Rightarrow> bytes"
  sy_atof :: "bytes \<Rightarrow> bytes"
  sy_oom :: "nat \<Rightarrow> bool"
  sy_net :: cenv
  sy_cl_alloc :: bool
  sy_cl_ctx :: "nat option"
  sy_boot :: boot
  sy_mem :: cmem
  sy_workers :: "nat \<Rightarrow> worker_boot"
  sy_life :: "vcserver \<Rightarrow> vcserver"

definition conf_of :: "system \<Rightarrow> opts \<Rightarrow> conf" where
  "conf_of sy op =
     \<lparr>cf_color = op_color op, cf_raw = op_raw op, cf_latency = (if op_latency op then Some (sy_ms sy) else None),
      cf_fmt = sy_fmt sy, cf_atof = sy_atof sy, cf_oom = sy_oom sy\<rparr>"

section \<open>The session of a client\<close>

definition cli_tcp_connect :: "system \<Rightarrow> bytes \<Rightarrow> u16 \<Rightarrow> i32 \<times> bytes \<times> i32 list" where
  "cli_tcp_connect sy host port =
     (if \<not> sy_resolve sy then (- 1, ascii ''Could not resolve '' @ host @ [10], [])
      else if sint (sy_fd sy) < 0 then (- 1, [], [])
      else if \<not> sy_connect sy
      then (- 1, ascii ''Could not connect to '' @ host @ ascii '':'' @ dec_nat (unat port) @ ascii '': '' @ sy_strerror sy @ [10], [sy_fd sy])
      else (sy_fd sy, [], []))"

text \<open>
  The reply to HELLO is read and thrown away line by line, into a buffer that keeps what was there
  when a line cannot be read. Reading a byte of it that was never stored is a fault, and so is a
  number of lines that overflows.
\<close>

primrec hello_lines :: "conf \<Rightarrow> nat \<Rightarrow> bytes \<Rightarrow> vcli_conn \<Rightarrow> vcli_conn option" where
  "hello_lines cf 0 buf c = Some c"
| "hello_lines cf (Suc k) buf c =
     (let (_, w, c) = read_line 256 c; buf = overwrite buf w
      in if hd buf = 36 then do {
           t \<leftarrow> rest_str buf;
           let bl = atoll t;
           if 0 < bl \<and> \<not> cf_oom cf (nat bl + 3)
           then (let (_, _, c) = read_exactly (nat bl + 2) c in hello_lines cf k buf c)
           else hello_lines cf k buf c
         }
         else hello_lines cf k buf c)"

definition hello_cmd :: bytes where
  "hello_cmd = ascii ''*2'' @ CRLF @ ascii ''$5'' @ CRLF @ ascii ''HELLO'' @ CRLF @ ascii ''$1'' @ CRLF @ ascii ''3'' @ CRLF"

definition cli_hello :: "conf \<Rightarrow> vcli_conn \<Rightarrow> (bool \<times> vcli_conn) option" where
  "cli_hello cf c =
     (let (_, c) = cli_sendall hello_cmd c; (_, buf, c) = read_line 256 c
      in if buf = [] then None
         else if hd buf = 37 then do {
           t \<leftarrow> rest_str buf;
           let pairs = atoll t;
           if 2 ^ 63 \<le> pairs * 2 \<or> pairs * 2 < - (2 ^ 63) then None
           else do { c \<leftarrow> hello_lines cf (nat (pairs * 2)) buf c; Some (True, c) }
         }
         else Some (False, c))"

definition cli_auth :: "conf \<Rightarrow> opts \<Rightarrow> vcli_conn \<Rightarrow> vcli_conn option" where
  "cli_auth cf op c =
     (if op_password op = [] then Some c
      else let bulk = (\<lambda>s. ascii ''$'' @ dec_nat (length s) @ CRLF @ s @ CRLF);
        (alen, buf) = snprintf 512 (if op_username op \<noteq> []
          then ascii ''*3'' @ CRLF @ ascii ''$4'' @ CRLF @ ascii ''AUTH'' @ CRLF @ bulk (op_username op) @ bulk (op_password op)
          else ascii ''*2'' @ CRLF @ ascii ''$4'' @ CRLF @ ascii ''AUTH'' @ CRLF @ bulk (op_password op))
      in if length buf < alen then None
         else let (_, c) = cli_sendall (take alen buf) c in do { (_, c) \<leftarrow> print_reply cf 0 c; Some c })"

definition run_line :: "conf \<Rightarrow> bytes \<Rightarrow> vcli_conn \<Rightarrow> vcli_conn option" where
  "run_line cf l1 c =
     (let toks = tokenize VC_MAX_ARGS l1
      in if toks \<noteq> [] then do { (_, c) \<leftarrow> do_command cf toks c; Some c } else Some c)"

primrec pipe_loop :: "conf \<Rightarrow> bytes list \<Rightarrow> vcli_conn \<Rightarrow> vcli_conn option" where
  "pipe_loop cf [] c = Some c"
| "pipe_loop cf (l # ls) c =
     (case cli_readline l of None \<Rightarrow> Some c
      | Some l1 \<Rightarrow> do { c \<leftarrow> run_line cf l1 c; pipe_loop cf ls c })"

primrec repl_loop :: "conf \<Rightarrow> bytes \<Rightarrow> bytes list \<Rightarrow> vcli_conn \<Rightarrow> vcli_conn option" where
  "repl_loop cf prompt [] c = Some (say prompt c)"
| "repl_loop cf prompt (l # ls) c =
     (case cli_readline l of None \<Rightarrow> Some (say prompt c)
      | Some l1 \<Rightarrow>
          if l1 = [] then repl_loop cf prompt ls (say prompt c)
          else if strcaseeq l1 (ascii ''quit'') \<or> strcaseeq l1 (ascii ''exit'') then Some (say prompt c)
          else if strcaseeq l1 (ascii ''help'') then repl_loop cf prompt ls (say repl_help (say prompt c))
          else do { c \<leftarrow> run_line cf l1 (say prompt c); repl_loop cf prompt ls c })"

definition banner :: "opts \<Rightarrow> bytes" where
  "banner op =
     (let name = ascii ''VoidCache '' @ VC_SERVER_VERSION;
          addr = ascii ''  connected to '' @ op_host op @ ascii '':'' @ dec_nat (unat (op_port op))
            @ (if op_tls op then ascii '' [TLS]'' else []) @ [10]
      in if op_color op
         then COL_BOLD @ name @ COL_RESET @ addr
           @ COL_DIM @ ascii ''Type commands, HELP for extended commands, QUIT to exit.'' @ COL_RESET @ [10]
         else name @ addr)"

definition prompt_of :: "system \<Rightarrow> opts \<Rightarrow> bytes" where
  "prompt_of sy op =
     (if sy_tty_in sy then take 63 (op_host op @ ascii '':'' @ dec_nat (unat (op_port op)) @ ascii ''> '') else [])"

section \<open>Main\<close>

definition client_main :: "system \<Rightarrow> opts \<Rightarrow> bytes list \<Rightarrow> (int \<times> vcli_conn \<times> i32 list) option" where
  "client_main sy op cmd =
     (let cf = conf_of sy op; (fd, msg, closed) = cli_tcp_connect sy (op_host op) (op_port op);
          c = \<lparr>vc_sock = sy_sock sy, vc_out = [], vc_err = msg\<rparr>
      in if sint fd < 0 then Some (1, c, closed)
         else if op_tls op \<and> \<not> sy_ctx sy then Some (1, c, [fd])
         else if op_tls op \<and> sy_shake sy \<le> 0 then Some (1, complain (ascii ''TLS handshake failed'' @ [10]) c, [fd])
         else do {
           (_, c) \<leftarrow> cli_hello cf c;
           c \<leftarrow> cli_auth cf op c;
           c \<leftarrow> (if cmd \<noteq> [] then do { (_, c) \<leftarrow> do_command cf (take VC_MAX_ARGS cmd) c; Some c }
                else if op_pipe op then pipe_loop cf (sy_lines sy) c
                else repl_loop cf (prompt_of sy op) (sy_lines sy) (say (banner op) c));
           Some (0, c, [fd])
         })"

text \<open>
  The command of the cluster mode is first formatted from one argument whatever its number of words,
  which for more than one word reads arguments that were never passed: a fault. The reply is not
  initialised; reading it after a failure is a fault.
\<close>

definition cluster_main :: "system \<Rightarrow> opts \<Rightarrow> bytes list \<Rightarrow> (int \<times> bytes \<times> bytes \<times> i32 list) option" where
  "cluster_main sy op cmd = do {
     cl \<leftarrow> vc_cluster_connect (sy_net sy) (sy_cl_alloc sy)
            (take 511 (op_host op @ ascii '':'' @ dec_nat (unat (op_port op))))
            (if op_username op \<noteq> [] then Some (op_username op) else None)
            (if op_password op \<noteq> [] then Some (op_password op) else None)
            (if op_tls op \<and> op_cacert op \<noteq> [] then Some (sy_cl_ctx sy) else None);
     case cl of None \<Rightarrow> Some (1, [], ascii ''Cluster connection failed'' @ [10], [])
     | Some st \<Rightarrow>
         if cmd = [] then Some (0, [], [], vc_cluster_destroy st)
         else if 1 < length cmd then None
         else do {
           text \<leftarrow> encode_command (256 * 1024) cmd;
           (_, rep, st) \<leftarrow> vc_cluster_cmd (sy_net sy) None text st;
           r \<leftarrow> rep;
           Some (0, c_str r @ [10], [], vc_cluster_destroy st)
         }
   }"

definition server_main :: "system \<Rightarrow> vc_server_cfg \<Rightarrow> (int \<times> bytes \<times> i32 list) option" where
  "server_main sy cfg = do {
     (srv, _, fds) \<leftarrow> vcserver_create (sy_boot sy) (sy_mem sy) cfg;
     case srv of None \<Rightarrow> Some (1, ascii ''Failed to create server'' @ [10], fds)
     | Some srv \<Rightarrow> do {
         (r, _) \<leftarrow> vcserver_start (sy_workers sy) srv;
         if r < 0 then do { (_, fds) \<leftarrow> vcserver_destroy srv; Some (1, ascii ''Failed to start workers'' @ [10], fds) }
         else do {
           srv \<leftarrow> vcserver_run (sy_life sy srv);
           (_, fds) \<leftarrow> vcserver_destroy srv;
           Some (0, [], fds)
         }
       }
   }"

text \<open>The exit code, what is printed and what is complained about, and the descriptors closed.\<close>

definition vcli_main :: "system \<Rightarrow> bytes \<Rightarrow> bytes list \<Rightarrow> (int \<times> bytes \<times> bytes \<times> i32 list) option" where
  "vcli_main sy prog args =
     (case parse_args args (default_opts (sy_tty_out sy)) of
        Help \<Rightarrow> Some (0, print_help prog, [], [])
      | Help_server \<Rightarrow> Some (0, print_server_help, [], [])
      | Run op cmd \<Rightarrow>
          if op_server op then do { (r, msg, fds) \<leftarrow> server_main sy (op_cfg op); Some (r, [], msg, fds) }
          else if op_cluster op then cluster_main sy op cmd
          else do { (r, c, fds) \<leftarrow> client_main sy op cmd; Some (r, vc_out c, vc_err c, fds) })"

end
