(* ===== verification/VcliThms.thy ===== *)
theory VcliThms
  imports Vcli ClusterWire
begin

text \<open>
  What the command line client prints and sends: the printer of replies against a recursive
  definition on the tree of a reply, the encoder against the parser of the server, words against
  their quotation, and lines of commands run one after the other.
\<close>

section \<open>Replies as trees\<close>

datatype rtree =
  RSimple bytes | RError bytes | RInt int | RNull | RNil | RBool bool | RBulk bytes
  | RArray "rtree list" | RMap "rtree list" | RSet "rtree list"

text \<open>The text of a reply; a map has its keys and values one after the other.\<close>

primrec rtext :: "rtree \<Rightarrow> bytes" where
  "rtext (RSimple s) = 43 # s @ CRLF"
| "rtext (RError s) = 45 # s @ CRLF"
| "rtext (RInt n) = int_text n"
| "rtext RNull = null_text True"
| "rtext RNil = null_text False"
| "rtext (RBool b) = 35 # (if b then 116 else 102) # CRLF"
| "rtext (RBulk s) = bulk_text s"
| "rtext (RArray ts) = array_text (int (length ts)) @ concat (map rtext ts)"
| "rtext (RMap ts) = map_text (int (length ts div 2)) @ concat (map rtext ts)"
| "rtext (RSet ts) = 126 # dec_nat (length ts) @ CRLF @ concat (map rtext ts)"

text \<open>
  Replies the printer is made for: lines without a carriage return that fit its buffer, numbers of 64
  bits, and typed values that are complete.
\<close>

definition one_line :: "bytes \<Rightarrow> bool" where
  "one_line s \<longleftrightarrow> 13 \<notin> set s \<and> length s \<le> 4092"

primrec fine_reply :: "rtree \<Rightarrow> bool" where
  "fine_reply (RSimple s) = one_line s"
| "fine_reply (RError s) = one_line s"
| "fine_reply (RInt n) = (- (2 ^ 63) \<le> n \<and> n < 2 ^ 63)"
| "fine_reply RNull = True"
| "fine_reply RNil = True"
| "fine_reply (RBool b) = True"
| "fine_reply (RBulk s) = (length s < 2 ^ 62 \<and> (has_magic s \<and> s ! 4 = VC_TYPE_FLOAT64 \<longrightarrow> 13 \<le> length s))"
| "fine_reply (RArray ts) = (length ts < 2 ^ 62 \<and> list_all fine_reply ts)"
| "fine_reply (RMap ts) = (length ts < 2 ^ 62 \<and> even (length ts) \<and> list_all fine_reply ts)"
| "fine_reply (RSet ts) = (length ts < 2 ^ 62 \<and> list_all fine_reply ts)"

text \<open>What the user sees of a reply at a depth, and what goes to the error stream.\<close>

definition shown_typed :: "conf \<Rightarrow> u8 \<Rightarrow> bytes \<Rightarrow> bytes" where
  "shown_typed cf ty data =
     (if ty = VC_TYPE_INT64 then paint cf COL_CYAN (ascii ''(integer) '') COL_BOLD (dec_int (sint (le_value data)))
      else if ty = VC_TYPE_FLOAT64 then paint cf COL_CYAN (ascii ''(float) '') COL_BOLD (cf_fmt cf (take 8 data))
      else if ty = VC_TYPE_BOOL
      then paint cf COL_MAGENTA (ascii ''(bool) '') COL_BOLD (if data \<noteq> [] \<and> hd data \<noteq> 0 then ascii ''true'' else ascii ''false'')
      else if ty = VC_TYPE_JSON then paint cf COL_YELLOW (ascii ''(json) '') [] [] @ c_str data
      else if ty = VC_TYPE_BINARY then paint cf COL_DIM (ascii ''(binary '' @ dec_nat (length data) @ ascii '' bytes)'') [] []
      else c_str (typed_payload ty data))"

definition shown_string :: "conf \<Rightarrow> bytes \<Rightarrow> bytes" where
  "shown_string cf s =
     (if cf_raw cf then s
      else if has_magic s then shown_typed cf (s ! 4) (drop 5 s)
      else if printable s then paint cf COL_GREEN ([34] @ c_str s @ [34]) [] []
      else paint cf COL_DIM (ascii ''(binary '' @ dec_nat (length s) @ ascii '' bytes)'') [] [])"

primrec label_items :: "conf \<Rightarrow> nat \<Rightarrow> int \<Rightarrow> bytes list \<Rightarrow> bytes" where
  "label_items cf depth i [] = []"
| "label_items cf depth i (s # ss) = item_label cf i depth @ s @ label_items cf depth (i + 1) ss"

fun label_pairs :: "conf \<Rightarrow> nat \<Rightarrow> bytes list \<Rightarrow> bytes" where
  "label_pairs cf depth (k # v # ss) =
     pair_label cf ''key: '' depth @ k @ pair_label cf ''val: '' depth @ v @ label_pairs cf depth ss"
| "label_pairs cf depth ss = []"

fun shown :: "conf \<Rightarrow> nat \<Rightarrow> rtree \<Rightarrow> bytes" where
  "shown cf depth (RSimple s) = (if cf_raw cf then c_str s else paint cf COL_GREEN (c_str s) [] []) @ [10]"
| "shown cf depth (RError s) = []"
| "shown cf depth (RInt n) =
     (if cf_raw cf then dec_int n else paint cf COL_CYAN (ascii ''(integer) '') COL_BOLD (dec_int n)) @ [10]"
| "shown cf depth RNull = nil_text cf"
| "shown cf depth RNil = nil_text cf"
| "shown cf depth (RBool b) =
     (let v = (if b then ascii ''true'' else ascii ''false'')
      in (if cf_raw cf then v else paint cf COL_MAGENTA (ascii ''(boolean) '') COL_BOLD v) @ [10])"
| "shown cf depth (RBulk s) = indent depth @ shown_string cf s @ [10]"
| "shown cf depth (RArray ts) =
     (if ts = [] \<and> \<not> cf_raw cf then ascii ''(empty array)'' @ [10] else [])
     @ label_items cf depth 0 (map (shown cf (depth + 1)) ts)"
| "shown cf depth (RMap ts) = heading cf ''(map)'' @ label_pairs cf depth (map (shown cf (depth + 2)) ts)"
| "shown cf depth (RSet ts) =
     heading cf ''(set)'' @ concat (map (\<lambda>t. indent (depth + 1) @ shown cf (depth + 1) t) ts)"

primrec moaned :: "conf \<Rightarrow> rtree \<Rightarrow> bytes" where
  "moaned cf (RSimple s) = []"
| "moaned cf (RError s) = paint cf COL_RED (ascii ''(error) '' @ c_str s) [] [] @ [10]"
| "moaned cf (RInt n) = []"
| "moaned cf RNull = []"
| "moaned cf RNil = []"
| "moaned cf (RBool b) = []"
| "moaned cf (RBulk s) = []"
| "moaned cf (RArray ts) = concat (map (moaned cf) ts)"
| "moaned cf (RMap ts) = concat (map (moaned cf) ts)"
| "moaned cf (RSet ts) = concat (map (moaned cf) ts)"

section \<open>The printer\<close>

definition printed :: "bytes \<Rightarrow> bytes \<Rightarrow> bytes \<Rightarrow> vcli_conn \<Rightarrow> vcli_conn" where
  "printed out err rest c = complain err (say out (set_in rest c))"

lemma printed_simps [simp]:
  "say s (set_in r c) = printed s [] r c" "say s (printed o1 e r c) = printed (o1 @ s) e r c"
  "complain s (set_in r c) = printed [] s r c" "complain s (printed o1 e r c) = printed o1 (e @ s) r c"
  "set_in r' (printed o1 e r c) = printed o1 e r' c" "printed o2 e2 r2 (printed o1 e1 r1 c) = printed (o1 @ o2) (e1 @ e2) r2 c"
  "printed o1 e1 r1 (say s c) = printed (s @ o1) e1 r1 c"
  "printed o1 e1 r1 (set_in r c) = printed o1 e1 r1 c"
  by (simp_all add: printed_def say_def complain_def set_in_def)

lemma printed_in [simp]: "ns_in (vc_sock (printed o1 e r c)) = r" "ns_in (vc_sock (say s c)) = ns_in (vc_sock c)"
  "ns_in (vc_sock (set_in r c)) = r"
  by (simp_all add: printed_def say_def complain_def set_in_def)

lemma printed_id: "ns_in (vc_sock c) = r \<Longrightarrow> printed [] [] r c = c"
  by (simp add: printed_def say_def complain_def set_in_def) 

lemma printed_say: "ns_in (vc_sock c) = r \<Longrightarrow> say s c = printed s [] r c"
  by (simp add: printed_def say_def complain_def set_in_def) 

lemma read_line_text:
  assumes "ns_in (vc_sock c) = t @ CRLF @ rest" "13 \<notin> set t" "length t + 3 \<le> maxlen"
  shows "read_line maxlen c = (True, t @ [0, 10], set_in rest c)"
  using readline_text [OF assms(2,3)] assms(1) by (simp add: read_line_def)

lemma c_str_line: "c_str (t @ [0, 10]) = c_str t"
  by (induction t) (auto simp: c_str_def)

lemma dec_int_line: "13 \<notin> set (dec_int n)" "0 \<notin> set (dec_int n)"
  using dec_nat_plain by (auto simp: dec_int_def)

lemma c_str_dec [simp]: "c_str (dec_nat n) = dec_nat n" "c_str (dec_int i) = dec_int i"
  using dec_nat_plain dec_int_line by (simp_all add: c_str_id)

text \<open>A reply on one line, and the first line of a collection.\<close>

lemma job_line:
  assumes "ns_in (vc_sock c) = (ty # t) @ CRLF @ rest" "13 \<notin> set (ty # t)" "length t \<le> 4092" "ty \<in> {43, 45, 58, 44, 35, 95}"
  shows "print_job cf (Job_reply depth) c = Some (0, print_line cf ty (c_str t) (set_in rest c))"
  using read_line_text [OF assms(1,2), of 4096] assms(3,4) c_str_line [of t]
  by (subst print_job.simps) auto

lemma length_dec_line: "int n < 2 ^ 62 \<Longrightarrow> length (dec_nat n) \<le> 4092"
  using length_dec_object [of n] by simp

lemma job_collection:
  assumes "ns_in (vc_sock c) = (ty # dec_nat n) @ CRLF @ rest" "int n < 2 ^ 62" "ty \<in> {42, 37, 126}"
  shows "print_job cf (Job_reply depth) c =
    print_job cf (Job_loop (shape_of ty) 0 (int n) depth) (print_collection cf ty (int n) (set_in rest c))"
proof -
  have "read_line 4096 c = (True, (ty # dec_nat n) @ [0, 10], set_in rest c)"
    using assms length_dec_line [of n] dec_nat_plain by (intro read_line_text) auto
  moreover have "atoll (dec_nat n) = int n" using assms(2) by (intro atoll_dec_nat) simp
  ultimately show ?thesis using assms(3) c_str_line [of "dec_nat n"] by (subst print_job.simps) auto
qed

lemma job_bulk:
  assumes "ns_in (vc_sock c) = bulk_text v @ rest" "length v < 2 ^ 62"
  shows "print_job cf (Job_reply depth) c = print_bulk cf depth (int (length v)) (set_in (v @ CRLF @ rest) c)"
proof -
  have "read_line 4096 c = (True, (36 # dec_nat (length v)) @ [0, 10], set_in (v @ CRLF @ rest) c)"
    using assms length_dec_line [of "length v"] dec_nat_plain
    by (intro read_line_text) (auto simp: bulk_text_def ascii_def)
  moreover have "atoll (dec_nat (length v)) = int (length v)" using assms(2) by (intro atoll_dec_nat) simp
  ultimately show ?thesis using c_str_line [of "dec_nat (length v)"] by (subst print_job.simps) auto
qed

lemma typed_parts:
  "take 4 (typed_payload ty d @ r) = VC_WIRE_MAGIC" "(typed_payload ty d @ r) ! 4 = ty" "drop 5 (typed_payload ty d @ r) = d @ r"
  by (simp_all add: typed_payload_def nth_append)

lemma magic_parts: "has_magic s \<Longrightarrow> \<exists>ty d. s = typed_payload ty d"
  using append_take_drop_id [of 4 s] Cons_nth_drop_Suc [of 4 s]
  by (auto simp: has_magic_def typed_payload_def intro!: exI [of _ "s ! 4"] exI [of _ "drop 5 s"])

lemma print_typed:
  assumes "ty = VC_TYPE_FLOAT64 \<longrightarrow> 8 \<le> length d" "\<not> cf_raw cf"
  shows "print_vc_typed cf (typed_payload ty d @ [0, 10]) (5 + length d) = Some (shown_typed cf ty d)"
proof -
  have "nth_opt (d @ [0, 10]) 0 = Some (if d = [] then 0 else hd d)"
    by (simp add: nth_opt_def hd_conv_nth nth_append)
  moreover have "take (5 + length d) (typed_payload ty d @ [0, 10]) = typed_payload ty d" by simp
  ultimately show ?thesis
    unfolding print_vc_typed_def typed_parts Let_def using assms by (cases "d = []") (auto simp: shown_typed_def)
qed

lemma print_bulk_text:
  assumes "fine_reply (RBulk v)" "\<forall>m. \<not> cf_oom cf m"
  shows "print_bulk cf depth (int (length v)) (set_in (v @ CRLF @ rest) c)
    = Some (0, printed (indent depth @ shown_string cf v @ [10]) [] rest c)"
proof -
  have "read_exactly (length v + 2) (set_in (v @ CRLF @ rest) c) = (True, v @ CRLF, set_in rest c)"
    by (simp add: read_exactly_def sock_readn_def set_in_def CRLF_def)
  moreover have "(v @ CRLF)[length v := 0] = v @ [0, 10]" by (simp add: CRLF_def list_update_append)
  moreover have "bulk_out cf depth (v @ [0, 10]) (length v) = Some (indent depth @ shown_string cf v @ [10])"
  proof (cases "has_magic v \<and> \<not> cf_raw cf")
    case True
    then obtain ty d where v: "v = typed_payload ty d" using magic_parts by blast
    have "v ! 4 = ty" "drop 5 v = d" using typed_parts [of ty d "[]"] v by simp_all
    then show ?thesis
      using True print_typed [of ty d cf] assms(1) v by (simp add: bulk_out_def shown_string_def)
  qed (auto simp: bulk_out_def shown_string_def)
  ultimately show ?thesis using assms(2) by (simp add: print_bulk_def nat_add_distrib)
qed

text \<open>A loop over the elements of a collection, given that each of them is printed.\<close>

definition prints :: "conf \<Rightarrow> rtree \<Rightarrow> bool" where
  "prints cf t \<longleftrightarrow> (\<forall>depth c rest. ns_in (vc_sock c) = rtext t @ rest \<longrightarrow>
     print_job cf (Job_reply depth) c = Some (0, printed (shown cf depth t) (moaned cf t) rest c))"

lemma printsD:
  "prints cf t \<Longrightarrow> ns_in (vc_sock c) = rtext t @ rest \<Longrightarrow>
     print_job cf (Job_reply depth) c = Some (0, printed (shown cf depth t) (moaned cf t) rest c)"
  by (simp add: prints_def)

lemma loop_done: "n \<le> i \<Longrightarrow> print_job cf (Job_loop sh i n depth) c = Some (0, c)"
  by (subst print_job.simps) simp

lemma loop_items:
  assumes "\<forall>t \<in> set ts. prints cf t" "ns_in (vc_sock c) = concat (map rtext ts) @ rest" "n = i + int (length ts)"
  shows "print_job cf (Job_loop Items i n depth) c
    = Some (0, printed (label_items cf depth i (map (shown cf (depth + 1)) ts)) (concat (map (moaned cf) ts)) rest c)"
  using assms
proof (induction ts arbitrary: c i)
  case Nil
  then show ?case by (simp add: loop_done printed_id)
next
  case (Cons t ts)
  let ?c = "printed (item_label cf i depth @ shown cf (depth + 1) t) (moaned cf t) (concat (map rtext ts) @ rest) c"
  have "print_job cf (Job_reply (depth + 1)) (say (item_label cf i depth) c) = Some (0, ?c)"
    using Cons.prems by (subst printsD [of cf t]) auto
  moreover have "print_job cf (Job_loop Items (i + 1) n depth) ?c
      = Some (0, printed (label_items cf depth (i + 1) (map (shown cf (depth + 1)) ts)) (concat (map (moaned cf) ts)) rest ?c)"
    using Cons.prems by (intro Cons.IH) auto
  ultimately show ?case using Cons.prems(3) by (subst print_job.simps) simp
qed

lemma loop_members:
  assumes "\<forall>t \<in> set ts. prints cf t" "ns_in (vc_sock c) = concat (map rtext ts) @ rest" "n = i + int (length ts)"
  shows "print_job cf (Job_loop Members i n depth) c
    = Some (0, printed (concat (map (\<lambda>t. indent (depth + 1) @ shown cf (depth + 1) t) ts)) (concat (map (moaned cf) ts)) rest c)"
  using assms
proof (induction ts arbitrary: c i)
  case Nil
  then show ?case by (simp add: loop_done printed_id)
next
  case (Cons t ts)
  let ?c = "printed (indent (depth + 1) @ shown cf (depth + 1) t) (moaned cf t) (concat (map rtext ts) @ rest) c"
  have "print_job cf (Job_reply (depth + 1)) (say (indent (depth + 1)) c) = Some (0, ?c)"
    using Cons.prems by (subst printsD [of cf t]) auto
  moreover have "print_job cf (Job_loop Members (i + 1) n depth) ?c
      = Some (0, printed (concat (map (\<lambda>t. indent (depth + 1) @ shown cf (depth + 1) t) ts)) (concat (map (moaned cf) ts)) rest ?c)"
    using Cons.prems by (intro Cons.IH) auto
  ultimately show ?case using Cons.prems(3) by (subst print_job.simps) simp
qed

lemma loop_pairs:
  assumes "\<forall>t \<in> set ts. prints cf t" "ns_in (vc_sock c) = concat (map rtext ts) @ rest" "even (length ts)"
    and "n = i + int (length ts div 2)"
  shows "print_job cf (Job_loop Pairs i n depth) c
    = Some (0, printed (label_pairs cf depth (map (shown cf (depth + 2)) ts)) (concat (map (moaned cf) ts)) rest c)"
  using assms
proof (induction ts arbitrary: c i rule: induct_list012)
  case 1
  then show ?case by (simp add: loop_done printed_id)
next
  case (3 k v ts)
  let ?key = "pair_label cf ''key: '' depth" and ?val = "pair_label cf ''val: '' depth"
  let ?c = "printed (?key @ shown cf (depth + 2) k) (moaned cf k) (rtext v @ concat (map rtext ts) @ rest) c"
  let ?d = "printed (?val @ shown cf (depth + 2) v) (moaned cf v) (concat (map rtext ts) @ rest) ?c"
  have "print_job cf (Job_reply (depth + 2)) (say ?key c) = Some (0, ?c)"
    using 3(3,4) by (subst printsD [of cf k]) auto
  moreover have "print_job cf (Job_reply (depth + 2)) (say ?val ?c) = Some (0, ?d)"
    using 3(3) by (subst printsD [of cf v]) auto
  moreover have "print_job cf (Job_loop Pairs (i + 1) n depth) ?d
      = Some (0, printed (label_pairs cf depth (map (shown cf (depth + 2)) ts)) (concat (map (moaned cf) ts)) rest ?d)"
    using 3(3-6) by (intro 3(1)) auto
  ultimately show ?case using 3(6) by (subst print_job.simps) simp
qed simp

lemma prints_lines:
  "one_line s \<Longrightarrow> prints cf (RSimple s)" "one_line s \<Longrightarrow> prints cf (RError s)" "prints cf RNull" "prints cf (RBool b)"
  unfolding prints_def
  by (auto simp: one_line_def null_text_def ascii_def print_line_def Let_def c_str_def job_line [where t = s and rest = rest for rest]
      job_line [where t = "[]"] job_line [where t = "[116]"] job_line [where t = "[102]"])

lemma prints_int:
  assumes "fine_reply (RInt n)"
  shows "prints cf (RInt n)"
proof -
  have "length (dec_int n) \<le> 4092"
  proof -
    have "length (dec_nat (nat n)) \<le> 19" "length (dec_nat (nat (- n))) \<le> 19"
      using assms by (auto intro!: length_dec_object)
    then show ?thesis by (simp add: dec_int_def)
  qed
  moreover have "atoll (dec_int n) = n" using assms strtoll_dec_int [of n] by (simp add: atoll_def)
  ultimately show ?thesis
    using dec_int_line unfolding prints_def
    by (auto simp: int_text_def ascii_def print_line_def job_line [where t = "dec_int n"])
qed

lemma prints_nil: "prints cf RNil"
proof -
  have "print_job cf (Job_reply depth) c = Some (0, printed (nil_text cf) [] rest c)"
    if "ns_in (vc_sock c) = [36, 45, 49] @ CRLF @ rest" for depth c rest
  proof -
    have "read_line 4096 c = (True, [36, 45, 49] @ [0, 10], set_in rest c)"
      using that by (intro read_line_text) auto
    moreover have "atoll [45, 49] = - 1" using strtoll_dec_int [of "- 1"] by (simp add: atoll_def dec_int_def dec_nat.simps)
    ultimately show ?thesis by (subst print_job.simps) (simp add: print_bulk_def c_str_def)
  qed
  then show ?thesis by (simp add: prints_def null_text_def ascii_def)
qed

lemma prints_collections:
  assumes "fine_reply t" "t = RArray ts \<or> t = RMap ts \<or> t = RSet ts" "\<forall>t \<in> set ts. prints cf t"
  shows "prints cf t"
  unfolding prints_def
proof (intro allI impI)
  fix depth :: nat and c :: vcli_conn and rest :: bytes
  assume c: "ns_in (vc_sock c) = rtext t @ rest"
  let ?r = "concat (map rtext ts) @ rest"
  have len: "int (length ts) < 2 ^ 62" "int (length ts div 2) < 2 ^ 62" using assms(1,2) by auto
  note first = job_collection [where rest = ?r and c = c and cf = cf and depth = depth]
  from assms(2) consider (arr) "t = RArray ts" | (map) "t = RMap ts" | (members) "t = RSet ts" by blast
  then show "print_job cf (Job_reply depth) c = Some (0, printed (shown cf depth t) (moaned cf t) rest c)"
  proof cases
    case arr
    let ?c = "print_collection cf 42 (int (length ts)) (set_in ?r c)"
    have "?c = printed (if ts = [] \<and> \<not> cf_raw cf then ascii ''(empty array)'' @ [10] else []) [] ?r c"
      using printed_id [of "set_in ?r c" ?r] by (simp add: print_collection_def)
    then show ?thesis
      using first [of 42 "length ts"] loop_items [OF assms(3), of ?c rest "int (length ts)" 0] c len arr
      by (simp add: array_text_def ascii_def dec_int_def shape_of_def)
  next
    case map
    then show ?thesis
      using first [of 37 "length ts div 2"] loop_pairs [OF assms(3), of "printed (heading cf ''(map)'') [] ?r c" rest "int (length ts div 2)" 0]
        c len assms(1) by (simp add: map_text_def ascii_def dec_int_def shape_of_def print_collection_def)
  next
    case members
    then show ?thesis
      using first [of 126 "length ts"] loop_members [OF assms(3), of "printed (heading cf ''(set)'') [] ?r c" rest "int (length ts)" 0] c len
      by (simp add: shape_of_def print_collection_def)
  qed
qed

lemma prints_fine:
  assumes "\<forall>m. \<not> cf_oom cf m"
  shows "fine_reply t \<Longrightarrow> prints cf t"
proof (induction t)
  case (RBulk v)
  then show ?case using job_bulk print_bulk_text [OF _ assms] by (simp add: prints_def)
next
  case (RArray ts)
  then show ?case by (intro prints_collections) (auto simp: list_all_iff)
next
  case (RMap ts)
  then show ?case by (intro prints_collections) (auto simp: list_all_iff)
next
  case (RSet ts)
  then show ?case by (intro prints_collections) (auto simp: list_all_iff)
qed (auto intro: prints_lines prints_int prints_nil)

text \<open>
  C23 (equivalence): the printer, which reads a reply line by line from the connection, prints what
  the recursive definition on the tree of the reply says, for replies nested to any depth, returns,
  and leaves the connection at exactly the byte after the reply.
\<close>

theorem print_reply_tree:
  assumes "fine_reply t" "\<forall>m. \<not> cf_oom cf m" "ns_in (vc_sock c) = rtext t @ rest"
  shows "\<exists>c'. print_reply cf depth c = Some (0, c') \<and> vc_out c' = vc_out c @ shown cf depth t
     \<and> vc_err c' = vc_err c @ moaned cf t \<and> vc_sock c' = (vc_sock c)\<lparr>ns_in := rest\<rparr>"
  using printsD [OF prints_fine [OF assms(2,1)] assms(3)]
  by (simp add: print_reply_def printed_def say_def complain_def set_in_def)

definition demo_conf :: conf where
  "demo_conf = \<lparr>cf_color = False, cf_raw = False, cf_latency = None, cf_fmt = id, cf_atof = id, cf_oom = (\<lambda>_. False)\<rparr>"

definition demo_cli :: "bytes \<Rightarrow> vcli_conn" where
  "demo_cli s = \<lparr>vc_sock = \<lparr>ns_in = s, ns_send = replicate 64 1, ns_out = []\<rparr>, vc_out = [], vc_err = []\<rparr>"

theorem print_reply_tree_witness:
  "\<exists>c'. print_reply demo_conf 0 (demo_cli (rtext (RArray [RInt 7, RBulk (ascii ''ab''), RNull]) @ [43])) = Some (0, c')
     \<and> vc_out c' = ascii ''1) (integer) 7'' @ [10] @ ascii ''2)    '' @ [34, 97, 98, 34, 10] @ ascii ''3) (nil)'' @ [10]
     \<and> ns_in (vc_sock c') = [43]"
proof -
  let ?t = "RArray [RInt 7, RBulk (ascii ''ab''), RNull]"
  have "shown demo_conf 0 ?t = ascii ''1) (integer) 7'' @ [10] @ ascii ''2)    '' @ [34, 97, 98, 34, 10] @ ascii ''3) (nil)'' @ [10]"
    by (simp add: demo_conf_def paint_def item_label_def indent_def shown_string_def has_magic_def printable_def nil_text_def
        ascii_def dec_int_def dec_nat.simps c_str_def)
  moreover have "fine_reply ?t" by (simp add: has_magic_def ascii_def)
  moreover have "\<forall>m. \<not> cf_oom demo_conf m" by (simp add: demo_conf_def)
  ultimately show ?thesis
    using print_reply_tree [of ?t demo_conf "demo_cli (rtext ?t @ [43])" "[43]" 0] by (auto simp: demo_cli_def)
qed

section \<open>Commands\<close>

lemma encode_args_all:
  "encode_args n as buf =
    (if as = [] \<or> length buf + length (concat (map bulk_text as)) < n then Some (buf @ concat (map bulk_text as)) else None)"
  by (induction as arbitrary: buf) (auto simp: Let_def bulk_text_def)

text \<open>
  The client sends a command exactly when its text fits the buffer, it sends this
  text whole, and the server parses it as the words of the command, whatever follows.
\<close>

theorem encode_command_roundtrip:
  assumes "argv \<noteq> []"
  shows "encode_command n argv = (if length (encode_cmd argv) < n then Some (encode_cmd argv) else None)
     \<and> (sendable argv \<longrightarrow> encode_command n argv = Some text \<longrightarrow>
          resp_parse_command (\<lambda>_. False) (text @ rest) = RESP_PARSE_OK (sent_cmd argv) (length text))"
proof -
  have "encode_command n argv = (if length (encode_cmd argv) < n then Some (encode_cmd argv) else None)"
    using assms by (simp add: encode_command_def encode_args_all encode_cmd_def array_text_def dec_int_def)
  then show ?thesis using encode_cmd_parse [of argv rest] by (auto split: if_splits)
qed

theorem encode_command_roundtrip_witness:
  "encode_command 64 [ascii ''GET'', ascii ''k''] = Some (encode_cmd [ascii ''GET'', ascii ''k''])
   \<and> resp_parse_command (\<lambda>_. False) (encode_cmd [ascii ''GET'', ascii ''k''] @ [42]) = RESP_PARSE_OK (sent_cmd [ascii ''GET'', ascii ''k'']) 20
   \<and> encode_command 20 [ascii ''GET'', ascii ''k''] = None"
proof -
  have "length (encode_cmd [ascii ''GET'', ascii ''k'']) = 20"
    by (simp add: encode_cmd_def array_text_def bulk_text_def ascii_def dec_nat.simps dec_int_def)
  then show ?thesis
    using encode_command_roundtrip [of "[ascii ''GET'', ascii ''k'']" 64 "encode_cmd [ascii ''GET'', ascii ''k'']" "[42]"]
      encode_command_roundtrip [of "[ascii ''GET'', ascii ''k'']" 20]
    by (auto simp: sendable_def)
qed

section \<open>Words\<close>

text \<open>A line of words, each in the quotes that it does not contain.\<close>

definition quoted :: "bytes \<Rightarrow> bytes" where
  "quoted w = (if 34 \<notin> set w then 34 # w @ [34] else 39 # w @ [39])"

definition quoted_line :: "bytes list \<Rightarrow> bytes" where
  "quoted_line ws = concat (map (\<lambda>w. quoted w @ [32]) ws)"

definition word_ok :: "bytes \<Rightarrow> bool" where
  "word_ok w \<longleftrightarrow> 0 \<notin> set w \<and> 10 \<notin> set w \<and> (34 \<notin> set w \<or> 39 \<notin> set w)"

lemma next_token_quoted:
  assumes "word_ok w"
  shows "next_token (quoted w @ rest) = (w, rest)"
proof -
  have "takeWhile (\<lambda>b. b \<noteq> q) (w @ q # rest) = w" if "q \<notin> set w" for q
    using that by (subst takeWhile_append2) auto
  then show ?thesis using assms by (auto simp: next_token_def quoted_def word_ok_def)
qed

lemma tokenize_quoted:
  assumes "\<forall>w \<in> set ws. word_ok w" "length ws \<le> n"
  shows "tokenize n (quoted_line ws) = ws"
  using assms
proof (induction n arbitrary: ws)
  case (Suc n)
  show ?case
  proof (cases ws)
    case (Cons w ws')
    let ?l = "quoted w @ 32 # quoted_line ws'"
    have "dropWhile blank ?l = ?l" by (simp add: quoted_def blank_def)
    moreover have "next_token ?l = (w, 32 # quoted_line ws')" using Suc.prems Cons by (intro next_token_quoted) simp
    moreover have "tokenize n (32 # quoted_line ws') = tokenize n (quoted_line ws')" by (cases n) (simp_all add: blank_def)
    moreover have "tokenize n (quoted_line ws') = ws'" using Suc Cons by simp
    moreover have "?l \<noteq> []" by (simp add: quoted_def)
    ultimately show ?thesis using Cons by (simp add: quoted_line_def)
  qed (simp add: quoted_line_def)
qed (simp add: quoted_line_def)

lemma readline_quoted:
  assumes "\<forall>w \<in> set ws. word_ok w"
  shows "cli_readline (quoted_line ws @ [10]) = Some (quoted_line ws)"
proof -
  have "0 \<notin> set (quoted_line ws)" using assms by (auto simp: quoted_line_def quoted_def word_ok_def)
  then show ?thesis by (simp add: cli_readline_def c_str_id)
qed

text \<open>
  A line of at most 128 quoted words, as the terminal delivers it with its line end,
  is cut into exactly these words, blanks, tabs, the other kind of quotes and empty words included.
\<close>

theorem tokenize_roundtrip:
  assumes "\<forall>w \<in> set ws. word_ok w" "length ws \<le> VC_MAX_ARGS"
  shows "\<exists>l. cli_readline (quoted_line ws @ [10]) = Some l \<and> tokenize VC_MAX_ARGS l = ws"
  using readline_quoted [OF assms(1)] tokenize_quoted [OF assms] by blast

theorem tokenize_roundtrip_witness:
  "\<exists>l. cli_readline (quoted_line [ascii ''SET'', [97, 32, 34], []] @ [10]) = Some l \<and> tokenize VC_MAX_ARGS l = [ascii ''SET'', [97, 32, 34], []]"
  by (rule tokenize_roundtrip) (auto simp: word_ok_def ascii_def)

end
