(* ===== verification/VcliWire.thy ===== *)
theory VcliWire
  imports VcliMain VcliThms ServerThms
begin

text \<open>
  The session of the command line client: commands run one after the other stay in step with their
  replies, the greeting is thrown away exactly, and client and server together do what the user asks.
\<close>

section \<open>Sending\<close>

text \<open>The socket takes at least a byte each time, often enough for \<open>n\<close> bytes.\<close>

definition takes :: "nat \<Rightarrow> nsock \<Rightarrow> bool" where
  "takes n k \<longleftrightarrow> n \<le> length (ns_send k) \<and> (\<forall>m \<in> set (ns_send k). 0 < m)"

lemma sendall_takes:
  assumes "length buf \<le> length ns" "\<forall>n \<in> set ns. 0 < n"
  shows "\<exists>ns'. sendall_loop ns buf out = (True, ns', out @ buf) \<and> length ns \<le> length ns' + length buf \<and> set ns' \<subseteq> set ns"
  using assms
proof (induction ns arbitrary: buf out)
  case (Cons n ns)
  show ?case
  proof (cases "buf = []")
    case False
    then have "length (drop n buf) \<le> length ns" using Cons.prems by auto
    from Cons.IH [OF this, of "out @ take n buf"] Cons.prems(2)
    obtain ns' where "sendall_loop ns (drop n buf) (out @ take n buf) = (True, ns', out @ buf)"
      "length ns \<le> length ns' + length (drop n buf)" "set ns' \<subseteq> set ns" by auto
    moreover have "length (drop n buf) < length buf" using False Cons.prems(2) by simp
    then have "length (n # ns) \<le> length ns' + length buf"
      using \<open>length ns \<le> length ns' + length (drop n buf)\<close> by (simp only: length_Cons)
    ultimately show ?thesis using False Cons.prems(2) by auto
  qed simp
qed simp

definition sent :: "bytes \<Rightarrow> vcli_conn \<Rightarrow> vcli_conn \<Rightarrow> bool" where
  "sent s c c' \<longleftrightarrow> ns_out (vc_sock c') = ns_out (vc_sock c) @ s
     \<and> (\<forall>n. takes (length s + n) (vc_sock c) \<longrightarrow> takes n (vc_sock c'))"

lemma sent_trans: "sent s c c1 \<Longrightarrow> sent t c1 c2 \<Longrightarrow> sent (s @ t) c c2"
  unfolding sent_def by (simp add: add.assoc)

lemma takes_sock: "takes n (k\<lparr>ns_in := r\<rparr>) = takes n k"
  by (simp add: takes_def)

lemma sent_printed: "sent s c c' \<Longrightarrow> sent s c (printed o1 e r c')" "sent s c c' \<Longrightarrow> sent s c (set_in r c')"
  by (simp_all add: sent_def takes_sock printed_def say_def complain_def set_in_def)

lemma sendall_sent:
  assumes "takes (length s) (vc_sock c)"
  shows "\<exists>c'. cli_sendall s c = (True, c') \<and> sent s c c' \<and> vc_out c' = vc_out c \<and> vc_err c' = vc_err c
     \<and> ns_in (vc_sock c') = ns_in (vc_sock c)"
proof -
  obtain ns where ns: "sendall_loop (ns_send (vc_sock c)) s (ns_out (vc_sock c)) = (True, ns, ns_out (vc_sock c) @ s)"
    "length (ns_send (vc_sock c)) \<le> length ns + length s" "set ns \<subseteq> set (ns_send (vc_sock c))"
    using sendall_takes [of s "ns_send (vc_sock c)" "ns_out (vc_sock c)"] assms unfolding takes_def by blast
  then have "cli_sendall s c = (True, c\<lparr>vc_sock := (vc_sock c)\<lparr>ns_send := ns, ns_out := ns_out (vc_sock c) @ s\<rparr>\<rparr>)"
    by (simp add: cli_sendall_def sock_sendall_def)
  moreover have "takes n (k\<lparr>ns_send := ns, ns_out := x\<rparr>)" if "takes (length s + n) (vc_sock c)" for n k x
    using that ns(2,3) unfolding takes_def by (simp add: subset_iff)
  ultimately show ?thesis by (simp add: sent_def)
qed

section \<open>One command after the other\<close>

definition command_ok :: "bytes list \<Rightarrow> bool" where
  "command_ok ws \<longleftrightarrow> ws \<noteq> [] \<and> length ws \<le> VC_MAX_ARGS \<and> (\<forall>w \<in> set ws. word_ok w) \<and> length (encode_cmd ws) < 256 * 1024"

lemma do_command_step:
  assumes "argv \<noteq> []" "length (encode_cmd argv) < 256 * 1024" "takes (length (encode_cmd argv)) (vc_sock c)"
    and "fine_reply t" "\<forall>m. \<not> cf_oom cf m" "cf_latency cf = None" "ns_in (vc_sock c) = rtext t @ rest"
  shows "\<exists>c'. do_command cf argv c = Some (0, c') \<and> sent (encode_cmd argv) c c' \<and> ns_in (vc_sock c') = rest
     \<and> vc_out c' = vc_out c @ shown cf 0 t \<and> vc_err c' = vc_err c @ moaned cf t"
proof -
  have e: "encode_command (256 * 1024) argv = Some (encode_cmd argv)"
    using assms(1,2) by (simp add: encode_command_def encode_args_all encode_cmd_def array_text_def dec_int_def)
  obtain c1 where c1: "cli_sendall (encode_cmd argv) c = (True, c1)" "sent (encode_cmd argv) c c1"
    "vc_out c1 = vc_out c" "vc_err c1 = vc_err c" "ns_in (vc_sock c1) = ns_in (vc_sock c)"
    using sendall_sent [OF assms(3)] by blast
  have "print_reply cf 0 c1 = Some (0, printed (shown cf 0 t) (moaned cf t) rest c1)"
    using printsD [OF prints_fine [OF assms(5,4)], of c1 rest 0] assms(7) c1(5) by (simp add: print_reply_def)
  then have "do_command cf argv c = Some (0, printed (shown cf 0 t) (moaned cf t) rest c1)"
    unfolding do_command_def e using c1(1) assms(6) by simp
  moreover have "vc_out (printed o1 e1 r c1) = vc_out c @ o1" "vc_err (printed o1 e1 r c1) = vc_err c @ e1" for o1 e1 r
    using c1(3,4) by (simp_all add: printed_def say_def complain_def set_in_def)
  ultimately show ?thesis using sent_printed(1) [OF c1(2)] by simp
qed

text \<open>
  C27 (functional): in pipe mode the client runs any number of lines of quoted words, each answered by
  one reply nested to any depth: the server receives exactly these commands in order, every reply is
  printed for the command it answers, none is left over and none is taken for another.
\<close>

theorem pipe_in_step:
  assumes "\<forall>ws \<in> set cmds. command_ok ws" "\<forall>t \<in> set ts. fine_reply t" "length ts = length cmds"
    and "\<forall>m. \<not> cf_oom cf m" "cf_latency cf = None"
    and "takes (length (concat (map encode_cmd cmds))) (vc_sock c)" "ns_in (vc_sock c) = concat (map rtext ts) @ rest"
  shows "\<exists>c'. pipe_loop cf (map (\<lambda>ws. quoted_line ws @ [10]) cmds) c = Some c'
     \<and> ns_out (vc_sock c') = ns_out (vc_sock c) @ concat (map encode_cmd cmds) \<and> ns_in (vc_sock c') = rest
     \<and> vc_out c' = vc_out c @ concat (map (shown cf 0) ts) \<and> vc_err c' = vc_err c @ concat (map (moaned cf) ts)"
  using assms
proof (induction cmds arbitrary: ts c)
  case (Cons ws cmds)
  obtain t ts' where ts: "ts = t # ts'" using Cons.prems(3) by (cases ts) auto
  have ok: "command_ok ws" using Cons.prems(1) by simp
  have line: "cli_readline (quoted_line ws @ [10]) = Some (quoted_line ws)" "tokenize VC_MAX_ARGS (quoted_line ws) = ws"
    using ok readline_quoted [of ws] tokenize_quoted [of ws] by (auto simp: command_ok_def)
  have room: "takes (length (encode_cmd ws)) (vc_sock c)" using Cons.prems(6) by (simp add: takes_def)
  have t: "fine_reply t" "ns_in (vc_sock c) = rtext t @ concat (map rtext ts') @ rest" using Cons.prems(2,7) ts by simp_all
  have ws: "ws \<noteq> []" "length (encode_cmd ws) < 256 * 1024" using ok by (simp_all add: command_ok_def)
  obtain c1 where c1: "do_command cf ws c = Some (0, c1)" "sent (encode_cmd ws) c c1"
    "ns_in (vc_sock c1) = concat (map rtext ts') @ rest" "vc_out c1 = vc_out c @ shown cf 0 t" "vc_err c1 = vc_err c @ moaned cf t"
    using do_command_step [OF ws room t(1) Cons.prems(4,5) t(2)] by blast
  have "takes (length (concat (map encode_cmd cmds))) (vc_sock c1)"
    using c1(2) Cons.prems(6) by (simp add: sent_def)
  moreover have "\<forall>ws \<in> set cmds. command_ok ws" "\<forall>t \<in> set ts'. fine_reply t" "length ts' = length cmds"
    using Cons.prems(1-3) ts by simp_all
  ultimately obtain c' where c': "pipe_loop cf (map (\<lambda>ws. quoted_line ws @ [10]) cmds) c1 = Some c'"
    "ns_out (vc_sock c') = ns_out (vc_sock c1) @ concat (map encode_cmd cmds)" "ns_in (vc_sock c') = rest"
    "vc_out c' = vc_out c1 @ concat (map (shown cf 0) ts')" "vc_err c' = vc_err c1 @ concat (map (moaned cf) ts')"
    using Cons.IH [OF _ _ _ Cons.prems(4,5) _ c1(3)] by blast
  have "run_line cf (quoted_line ws) c = Some c1" using line(2) ws(1) c1(1) by (simp add: run_line_def)
  then have "pipe_loop cf (map (\<lambda>ws. quoted_line ws @ [10]) (ws # cmds)) c = Some c'" using line(1) c'(1) by simp
  then show ?case using c1 c' ts by (simp add: sent_def)
qed simp

theorem pipe_in_step_witness:
  "\<exists>c'. pipe_loop demo_conf (map (\<lambda>ws. quoted_line ws @ [10]) [[ascii ''PING''], [ascii ''GET'', ascii ''k'']])
       (demo_cli (concat (map rtext [RSimple (ascii ''PONG''), RNil]))) = Some c'
     \<and> vc_out c' = ascii ''PONG'' @ [10] @ ascii ''(nil)'' @ [10]"
proof -
  let ?cmds = "[[ascii ''PING''], [ascii ''GET'', ascii ''k'']]" and ?ts = "[RSimple (ascii ''PONG''), RNil]"
  have "\<forall>ws \<in> set ?cmds. command_ok ws" "takes (length (concat (map encode_cmd ?cmds))) (vc_sock (demo_cli s))" for s
    by (simp_all add: command_ok_def word_ok_def takes_def demo_cli_def encode_cmd_def array_text_def bulk_text_def ascii_def
        dec_nat.simps dec_int_def)
  moreover have "\<forall>t \<in> set ?ts. fine_reply t" by (simp add: one_line_def ascii_def)
  moreover have "concat (map (shown demo_conf 0) ?ts) = ascii ''PONG'' @ [10] @ ascii ''(nil)'' @ [10]"
    by (simp add: demo_conf_def paint_def nil_text_def c_str_def ascii_def)
  ultimately show ?thesis
    using pipe_in_step [of ?cmds ?ts demo_conf "demo_cli (concat (map rtext ?ts))" "[]"]
    by (auto simp: demo_conf_def demo_cli_def)
qed

section \<open>The greeting\<close>

text \<open>Elements that take one line, or are a string that is not empty.\<close>

primrec flat :: "rtree \<Rightarrow> bool" where
  "flat (RSimple s) = (13 \<notin> set s \<and> length s \<le> 252)"
| "flat (RError s) = (13 \<notin> set s \<and> length s \<le> 252)"
| "flat (RInt n) = (- (2 ^ 63) \<le> n \<and> n < 2 ^ 63)"
| "flat RNull = True"
| "flat RNil = False"
| "flat (RBool b) = True"
| "flat (RBulk s) = (s \<noteq> [] \<and> length s < 2 ^ 62)"
| "flat (RArray ts) = False"
| "flat (RMap ts) = False"
| "flat (RSet ts) = False"

lemma hello_skip:
  assumes "ns_in (vc_sock c) = (ty # t) @ CRLF @ rest" "13 \<notin> set (ty # t)" "length t \<le> 252" "ty \<noteq> 36"
  shows "\<exists>buf'. hello_lines cf (Suc k) buf c = hello_lines cf k buf' (set_in rest c)"
  using read_line_text [OF assms(1,2), of 256] assms(3,4) by (auto simp: overwrite_def)

lemma hello_bulk:
  assumes "ns_in (vc_sock c) = bulk_text v @ rest" "v \<noteq> []" "length v < 2 ^ 62" "\<forall>m. \<not> cf_oom cf m"
  shows "\<exists>buf'. hello_lines cf (Suc k) buf c = hello_lines cf k buf' (set_in rest c)"
proof -
  let ?d = "dec_nat (length v)"
  have len: "length ?d \<le> 19" using assms(3) by (intro length_dec_object) simp
  have line: "read_line 256 c = (True, (36 # ?d) @ [0, 10], set_in (v @ CRLF @ rest) c)"
    using assms(1) dec_nat_plain len by (intro read_line_text) (auto simp: bulk_text_def ascii_def)
  have "takeWhile (\<lambda>b. b \<noteq> 0) (?d @ [0, 10] @ r) = ?d" for r
    using dec_nat_plain [of "length v"] by (subst takeWhile_append2) auto
  then have "rest_str (overwrite buf ((36 # ?d) @ [0, 10])) = Some ?d" by (simp add: overwrite_def rest_str_def c_str_def)
  moreover have "atoll ?d = int (length v)" using assms(3) by (intro atoll_dec_nat) simp
  moreover have "read_exactly (nat (int (length v)) + 2) (set_in (v @ CRLF @ rest) c) = (True, v @ CRLF, set_in rest c)"
    by (simp add: read_exactly_def sock_readn_def set_in_def CRLF_def)
  ultimately have "hello_lines cf (Suc k) buf c = hello_lines cf k (overwrite buf ((36 # ?d) @ [0, 10])) (set_in rest c)"
    using line assms(2,4) by (simp add: overwrite_def)
  then show ?thesis by blast
qed

lemma hello_flat:
  assumes "flat t" "ns_in (vc_sock c) = rtext t @ rest" "\<forall>m. \<not> cf_oom cf m"
  shows "\<exists>buf'. hello_lines cf (Suc k) buf c = hello_lines cf k buf' (set_in rest c)"
proof (cases t)
  case (RInt n)
  have "length (dec_nat (nat n)) \<le> 19" "length (dec_nat (nat (- n))) \<le> 19"
    using assms(1) RInt by (auto intro!: length_dec_object)
  then have "length (dec_int n) \<le> 252" by (simp add: dec_int_def)
  then show ?thesis
    using assms(2) RInt dec_int_line [of n] by (intro hello_skip [where ty = 58 and t = "dec_int n"]) (auto simp: int_text_def ascii_def)
next
  case (RBulk v)
  then show ?thesis using assms by (intro hello_bulk) auto
next
  case RNull
  then show ?thesis using assms(2) by (intro hello_skip [where ty = 95 and t = "[]"]) (auto simp: null_text_def ascii_def)
next
  case (RBool b)
  then show ?thesis using assms(2) by (intro hello_skip [where ty = 35 and t = "[if b then 116 else 102]"]) auto
next
  case (RSimple s)
  then show ?thesis using assms(1,2) by (intro hello_skip [where ty = 43 and t = s]) auto
next
  case (RError s)
  then show ?thesis using assms(1,2) by (intro hello_skip [where ty = 45 and t = s]) auto
qed (use assms(1) in simp_all)

lemma hello_all:
  assumes "\<forall>t \<in> set ts. flat t" "ns_in (vc_sock c) = concat (map rtext ts) @ rest" "\<forall>m. \<not> cf_oom cf m"
  shows "hello_lines cf (length ts) buf c = Some (set_in rest c)"
  using assms(1,2)
proof (induction ts arbitrary: buf c)
  case Nil
  then show ?case by (simp add: set_in_def)
next
  case (Cons t ts)
  obtain buf' where "hello_lines cf (Suc (length ts)) buf c = hello_lines cf (length ts) buf' (set_in (concat (map rtext ts) @ rest) c)"
    using hello_flat [of t c "concat (map rtext ts) @ rest" cf "length ts" buf] Cons.prems assms(3) by auto
  then show ?case using Cons.IH [of "set_in (concat (map rtext ts) @ rest) c" buf'] Cons.prems(1) by (simp add: set_in_def)
qed

lemma cli_hello_map:
  assumes "\<forall>t \<in> set ts. flat t" "even (length ts)" "length ts < 2 ^ 62" "takes (length hello_cmd) (vc_sock c)"
    and "ns_in (vc_sock c) = rtext (RMap ts) @ rest" "\<forall>m. \<not> cf_oom cf m"
  shows "\<exists>c'. cli_hello cf c = Some (True, c') \<and> sent hello_cmd c c' \<and> ns_in (vc_sock c') = rest
     \<and> vc_out c' = vc_out c \<and> vc_err c' = vc_err c"
proof -
  let ?d = "dec_nat (length ts div 2)"
  obtain c1 where c1: "cli_sendall hello_cmd c = (True, c1)" "sent hello_cmd c c1"
    "vc_out c1 = vc_out c" "vc_err c1 = vc_err c" "ns_in (vc_sock c1) = ns_in (vc_sock c)"
    using sendall_sent [OF assms(4)] by blast
  have "length ?d \<le> 19" using assms(3) by (intro length_dec_object) simp
  then have line: "read_line 256 c1 = (True, (37 # ?d) @ [0, 10], set_in (concat (map rtext ts) @ rest) c1)"
    using assms(5) c1(5) dec_nat_plain by (intro read_line_text) (auto simp: map_text_def ascii_def dec_int_def)
  have "rest_str (37 # ?d @ [0, 10]) = Some ?d" using dec_nat_plain by (intro rest_str_text) simp
  moreover have "atoll ?d = int (length ts div 2)" using assms(3) by (intro atoll_dec_nat) simp
  moreover have "nat (int (length ts div 2) * 2) = length ts" using assms(2) by (simp add: nat_mult_distrib)
  moreover have "int (length ts div 2) * 2 < 2 ^ 63" using assms(3) by simp
  moreover have "hello_lines cf (length ts) (37 # ?d @ [0, 10]) (set_in (concat (map rtext ts) @ rest) c1) = Some (set_in rest c1)"
    using hello_all [OF assms(1), of "set_in (concat (map rtext ts) @ rest) c1" rest cf] assms(6) by (simp add: set_in_def)
  ultimately have "cli_hello cf c = Some (True, set_in rest c1)"
    using c1(1) line by (simp add: cli_hello_def)
  then show ?thesis using c1 sent_printed(2) [OF c1(2)] by (simp add: set_in_def)
qed

section \<open>Client and server\<close>

text \<open>The reply of the server to the greeting of the client.\<close>

definition hello_tree :: "bytes \<Rightarrow> rtree" where
  "hello_tree node = RMap [RBulk (ascii ''server''), RBulk (ascii ''voidcache''), RBulk (ascii ''version''), RBulk VC_SERVER_VERSION,
     RBulk (ascii ''proto''), RInt 3, RBulk (ascii ''id''), RBulk node, RBulk (ascii ''mode''), RBulk (ascii ''standalone'')]"

lemma hello_cmd_text: "hello_cmd = encode_cmd [ascii ''HELLO'', ascii ''3'']"
  by (simp add: hello_cmd_def encode_cmd_def array_text_def bulk_text_def dec_int_def dec_nat.simps) (simp add: ascii_def)

lemma hello_named: "named (sent_cmd (ascii ''HELLO'' # args)) ''HELLO''"
proof -
  have arg: "arg_str (mk_arg s) = takeWhile (\<lambda>b. b \<noteq> 0) (s @ [0])" for s
    by (simp add: arg_str_def mk_arg_def c_str_def)
  show ?thesis
    by (simp add: named_def sent_cmd_def strip_magic_def has_magic_def VC_WIRE_MAGIC_def upcase_mk_arg is_word_def arg
        strcaseeq_def ascii_def to_upper_def to_lower_def)
qed

lemma hello_emits: "length node \<le> MAX_OBJECT \<Longrightarrow> emits (resp_write_hello VC_SERVER_VERSION node True) (rtext (hello_tree node))"
  using emits_hello [of VC_SERVER_VERSION node True] by (simp add: hello_tree_def)

lemma said_replied:
  assumes "replied s (srv, conn\<lparr>cn_resp3 := r\<rparr>) sc'"
  shows "said s (srv, conn) sc'" "cn_user (snd sc') = cn_user conn"
  using assms by (auto simp: replied_def said_def)

lemma hello_served:
  assumes "data_ok sc"
  shows "\<exists>sc1. vc_dispatch w (sent_cmd [ascii ''HELLO'', ascii ''3'']) sc = Some sc1
     \<and> said (rtext (hello_tree (sv_node_id (fst sc)))) sc sc1 \<and> data_ok sc1 \<and> store_at sc1 = store_at sc
     \<and> sv_auth (fst sc1) = sv_auth (fst sc) \<and> cn_user (snd sc1) = cn_user (snd sc)"
proof -
  obtain srv conn where sc: "sc = (srv, conn)" by (cases sc)
  let ?cmd = "sent_cmd [ascii ''HELLO'', ascii ''3'']" and ?c3 = "conn\<lparr>cn_resp3 := True\<rparr>"
  have t: "(''HELLO'', cmd_hello, 0) \<in> set cmd_table" by (simp add: cmd_table_def)
  have "argn ?cmd 1 = Some (mk_arg (ascii ''3''))"
    by (simp add: argn_def sent_cmd_def strip_magic_def has_magic_def ascii_def)
  moreover have "parse_num (arg_str (mk_arg (ascii ''3''))) = 3"
    using strtoll_dec_nat [of 3 "[]"] by (simp add: parse_num_def arg_str_def mk_arg_def c_str_def ascii_def dec_nat.simps)
  ultimately have p: "hello_proto ?cmd = Some 3" by (simp add: hello_proto_def)
  have a: "hello_auth w ?cmd 2 sc = Some (False, sc)" by (subst hello_auth.simps) simp
  have ok: "session_ok (srv, ?c3)" using assms sc by (simp add: data_ok_def session_ok_def conn_ok_def)
  have "length (sv_node_id srv) \<le> MAX_OBJECT" using ok by (simp add: session_ok_def srv_ok_def)
  then obtain sc1 where r: "reply (resp_write_hello VC_SERVER_VERSION (sv_node_id srv) True) (srv, ?c3) = Some sc1"
    "replied (rtext (hello_tree (sv_node_id srv))) (srv, ?c3) sc1"
    using reply_last [OF ok hello_emits] by blast
  have "cmd_hello w ?cmd sc = Some sc1" using p a r(1) sc by (simp add: cmd_hello_def)
  then have d: "vc_dispatch w ?cmd sc = Some (counted sc1)" using dispatch_runs [OF t hello_named, of sc w "[ascii ''3'']"] by simp
  have k: "fst sc1 = srv" using replied_fst [OF r(2)] by simp
  have "data_ok sc1" using replied_ok [OF r(2) ok] k assms sc by (simp add: data_ok_def cache_at_def)
  moreover have "said s (srv, conn) (counted sc1) = said s (srv, conn) sc1" "snd (counted sc1) = snd sc1"
    "store_at (counted sc1) = store_at sc" "sv_auth (fst (counted sc1)) = sv_auth srv" for s
    using k sc by (cases sc1; simp add: said_def counted_def store_at_def cache_at_def)+
  ultimately show ?thesis using d said_replied [OF r(2)] sc by simp
qed

text \<open>What a session adds to its write buffer, and what the server says to commands that arrive one after the other.\<close>

definition adds :: "bytes \<Rightarrow> session \<Rightarrow> session \<Rightarrow> bool" where
  "adds s sc sc' \<longleftrightarrow> (\<exists>b b'. cn_wbuf (snd sc) = Some b \<and> cn_wbuf (snd sc') = Some b' \<and> b_data b' = b_data b @ s)"

lemma said_adds:
  assumes "said s sc sc1" "cn_wbuf (snd sc) = Some b" "roomy b (length s + n)"
  shows "adds s sc sc1" "\<exists>b1. cn_wbuf (snd sc1) = Some b1 \<and> roomy b1 n"
proof -
  have "roomy b (length s)" using assms(3) by (rule roomy_mono) simp
  then obtain b1 where "cn_wbuf (snd sc1) = Some b1" "b_data b1 = b_data b @ s" "b_oom b1 = []"
    using assms(1,2) by (auto simp: said_def)
  then show "adds s sc sc1" "\<exists>b1. cn_wbuf (snd sc1) = Some b1 \<and> roomy b1 n"
    using assms(2,3) by (auto simp: adds_def roomy_def)
qed

primrec serves :: "world \<Rightarrow> bytes list list \<Rightarrow> session \<Rightarrow> bytes \<Rightarrow> bool" where
  "serves w [] sc r = (r = [])"
| "serves w (ws # cmds) sc r = (\<exists>sc1 r1 r2. vc_dispatch w (sent_cmd ws) (after_parse sc) = Some sc1 \<and> adds r1 sc sc1
     \<and> serves w cmds sc1 r2 \<and> r = r1 @ r2)"

text \<open>A client that connects a peer that says \<open>r\<close> and takes \<open>n\<close> bytes.\<close>

definition connects :: "system \<Rightarrow> opts \<Rightarrow> bytes \<Rightarrow> nat \<Rightarrow> bool" where
  "connects sy op r n \<longleftrightarrow> sy_resolve sy \<and> 0 \<le> sint (sy_fd sy) \<and> sy_connect sy \<and> (op_tls op \<longrightarrow> sy_ctx sy \<and> 0 < sy_shake sy)
     \<and> (\<forall>m. \<not> sy_oom sy m) \<and> ns_in (sy_sock sy) = r \<and> takes n (sy_sock sy)"

lemma after_parse_said [simp]: "said s (after_parse sc) sc' = said s sc sc'"
  by (simp add: said_def)

lemma get_served:
  assumes "data_ok sc" "steady w" "allowed VC_ACL_READ sc" "plain key" "store_at sc key = Some (val, 0)"
    and r: "r = rtext (hello_tree (sv_node_id (fst sc))) @ bulk_text val" and b: "cn_wbuf (snd sc) = Some b" "roomy b (length r)"
  shows "serves w [[ascii ''HELLO'', ascii ''3''], [ascii ''GET'', key]] sc r"
proof -
  have "data_ok (after_parse sc)" "store_at (after_parse sc) = store_at sc" "sv_node_id (fst (after_parse sc)) = sv_node_id (fst sc)"
    "sv_auth (fst (after_parse sc)) = sv_auth (fst sc)" "cn_user (snd (after_parse sc)) = cn_user (snd sc)"
    using assms(1) by (simp_all add: after_parse_def with_tick_def data_ok_def session_ok_def srv_ok_def cache_at_def
        store_at_def announce_addr_def)
  then obtain sc1 where 1: "vc_dispatch w (sent_cmd [ascii ''HELLO'', ascii ''3'']) (after_parse sc) = Some sc1"
    "said (rtext (hello_tree (sv_node_id (fst sc)))) sc sc1" "data_ok sc1" "store_at sc1 = store_at sc"
    "sv_auth (fst sc1) = sv_auth (fst sc)" "cn_user (snd sc1) = cn_user (snd sc)"
    using hello_served [of "after_parse sc" w] by auto
  have "allowed VC_ACL_READ sc1" using assms(3) 1(5,6) by (simp add: allowed_def)
  then have "outcome (bulk_text val) (store_at sc1) (after_parse sc1) (vc_dispatch w (sent_cmd [ascii ''GET'', key]) (after_parse sc1))"
    using wire_get [OF 1(3) assms(2) _ assms(4)] 1(4) assms(5) by simp
  then obtain sc2 srv where 2: "vc_dispatch w (sent_cmd [ascii ''GET'', key]) (after_parse sc1) = Some sc2"
    "replied (bulk_text val) (srv, snd (after_parse sc1)) (srv, snd sc2)"
    unfolding outcome_def by blast
  from 2(2) have said: "said (bulk_text val) sc1 sc2" by (auto simp: replied_def said_def)
  have room: "roomy b (length (rtext (hello_tree (sv_node_id (fst sc)))) + (length (bulk_text val) + 0))" using b(2) r by simp
  obtain b1 where b1: "cn_wbuf (snd sc1) = Some b1" "roomy b1 (length (bulk_text val) + 0)"
    using said_adds(2) [OF 1(2) b(1) room] by blast
  have "adds (rtext (hello_tree (sv_node_id (fst sc)))) sc sc1" "adds (bulk_text val) sc1 sc2"
    using said_adds(1) [OF 1(2) b(1) room] said_adds(1) [OF said b1] by simp_all
  moreover have "serves w [[ascii ''GET'', key]] sc1 (bulk_text val)" if "adds (bulk_text val) sc1 sc2"
    using that 2(1) by simp
  ultimately show ?thesis using 1(1) unfolding serves.simps(2) [of _ _ "[[ascii ''GET'', key]]"] r by blast
qed

text \<open>The client greets its peer, throws the answer away and runs the command of its arguments.\<close>

lemma client_runs:
  assumes "connects sy op (rtext (RMap ts) @ rtext t) (length (hello_cmd @ encode_cmd cmd))"
    and "\<forall>t \<in> set ts. flat t" "even (length ts)" "length ts < 2 ^ 62" "fine_reply t"
    and "cmd \<noteq> []" "length cmd \<le> VC_MAX_ARGS" "length (encode_cmd cmd) < 256 * 1024" "op_password op = []" "\<not> op_latency op"
  shows "\<exists>c. client_main sy op cmd = Some (0, c, [sy_fd sy]) \<and> vc_out c = shown (conf_of sy op) 0 t
     \<and> ns_out (vc_sock c) = ns_out (sy_sock sy) @ hello_cmd @ encode_cmd cmd"
proof -
  let ?c = "\<lparr>vc_sock = sy_sock sy, vc_out = [], vc_err = []\<rparr>" and ?cf = "conf_of sy op"
  have cf: "\<forall>m. \<not> cf_oom ?cf m" "cf_latency ?cf = None" using assms(1,10) by (simp_all add: connects_def conf_of_def)
  have room: "takes (length hello_cmd + length (encode_cmd cmd)) (sy_sock sy)" using assms(1) by (simp add: connects_def)
  have "takes (length hello_cmd) (vc_sock ?c)" using room by (simp add: takes_def)
  moreover have "ns_in (vc_sock ?c) = rtext (RMap ts) @ rtext t" using assms(1) by (simp add: connects_def)
  ultimately obtain c1 where c1: "cli_hello ?cf ?c = Some (True, c1)" "sent hello_cmd ?c c1" "ns_in (vc_sock c1) = rtext t" "vc_out c1 = vc_out ?c"
    using cli_hello_map [OF assms(2-4) _ _ cf(1)] by blast
  have "takes (length (encode_cmd cmd)) (vc_sock c1)" using c1(2) room by (simp add: sent_def)
  then obtain c2 where c2: "do_command ?cf cmd c1 = Some (0, c2)" "sent (encode_cmd cmd) c1 c2" "vc_out c2 = shown ?cf 0 t"
    using do_command_step [OF assms(6,8) _ assms(5) cf, of c1 "[]"] c1(3,4) by auto
  have "cli_tcp_connect sy (op_host op) (op_port op) = (sy_fd sy, [], [])" "0 \<le> sint (sy_fd sy)"
    "\<not> (op_tls op \<and> \<not> sy_ctx sy)" "\<not> (op_tls op \<and> sy_shake sy \<le> 0)"
    using assms(1) by (auto simp: connects_def cli_tcp_connect_def)
  then have "client_main sy op cmd = Some (0, c2, [sy_fd sy])"
    using assms(6,7,9) c1(1) c2(1) by (simp add: client_main_def cli_auth_def Let_def)
  then show ?thesis using sent_trans [OF c1(2) c2(2)] c2(3) by (simp add: sent_def)
qed

lemma hello_small:
  assumes "data_ok sc"
  shows "length (rtext (hello_tree (sv_node_id (fst sc)))) \<le> 1000"
proof -
  have n: "length (sv_node_id (fst sc)) \<le> 64" using assms by (simp add: data_ok_def session_ok_def srv_ok_def)
  then have "length (dec_nat (length (sv_node_id (fst sc)))) \<le> 19" by (intro length_dec_object) simp
  then show ?thesis
    using n by (simp add: hello_tree_def map_text_def int_text_def bulk_text_def ascii_def dec_int_def dec_nat.simps)
qed

lemma get_small: "length key \<le> 200000 \<Longrightarrow> length (encode_cmd [ascii ''GET'', key]) < 256 * 1024"
  using length_dec_object [of "length key"]
  by (simp add: encode_cmd_def array_text_def bulk_text_def ascii_def dec_int_def dec_nat.simps)

text \<open>
  C22 (functional): a user who asks the server for a key with the command line client sees its value:
  the client greets the server, which answers with the description of itself, throws exactly this
  answer away, sends the command, and prints the value the server has stored for the key.
\<close>

theorem vcli_get:
  assumes "data_ok sc" "steady w" "allowed VC_ACL_READ sc" "plain key" "store_at sc key = Some (val, 0)"
    and "cn_wbuf (snd sc) = Some b" "roomy b (length (bulk_text val) + 1000)"
    and "sv_node_id (fst sc) \<noteq> []" "fine_reply (RBulk val)" "length key \<le> 200000"
    and "op_password op = []" "\<not> op_latency op"
  shows "\<exists>r. serves w [[ascii ''HELLO'', ascii ''3''], [ascii ''GET'', key]] sc r \<and>
     (\<forall>sy. connects sy op r (length (encode_cmd [ascii ''HELLO'', ascii ''3''] @ encode_cmd [ascii ''GET'', key])) \<longrightarrow>
       (\<exists>c. client_main sy op [ascii ''GET'', key] = Some (0, c, [sy_fd sy]) \<and> vc_out c = shown_string (conf_of sy op) val @ [10]
          \<and> ns_out (vc_sock c) = ns_out (sy_sock sy) @ encode_cmd [ascii ''HELLO'', ascii ''3''] @ encode_cmd [ascii ''GET'', key]))"
proof -
  let ?r = "rtext (hello_tree (sv_node_id (fst sc))) @ bulk_text val"
  have "roomy b (length ?r)" using roomy_mono [OF assms(7)] hello_small [OF assms(1)] by simp
  then have "serves w [[ascii ''HELLO'', ascii ''3''], [ascii ''GET'', key]] sc ?r"
    using get_served [OF assms(1-5) refl assms(6)] by blast
  moreover obtain ts where ts: "hello_tree (sv_node_id (fst sc)) = RMap ts" "\<forall>t \<in> set ts. flat t" "even (length ts)" "length ts < 2 ^ 62"
  proof -
    have "length (sv_node_id (fst sc)) \<le> 64" using assms(1) by (simp add: data_ok_def session_ok_def srv_ok_def)
    then show thesis using that assms(8) by (simp add: hello_tree_def ascii_def)
  qed
  moreover have "\<exists>c. client_main sy op [ascii ''GET'', key] = Some (0, c, [sy_fd sy]) \<and> vc_out c = shown_string (conf_of sy op) val @ [10]
      \<and> ns_out (vc_sock c) = ns_out (sy_sock sy) @ encode_cmd [ascii ''HELLO'', ascii ''3''] @ encode_cmd [ascii ''GET'', key]"
    if "connects sy op ?r (length (encode_cmd [ascii ''HELLO'', ascii ''3''] @ encode_cmd [ascii ''GET'', key]))" for sy
    using client_runs [OF _ ts(2-4) assms(9) _ _ get_small [OF assms(10)] assms(11,12), of sy] that ts(1)
    by (simp add: hello_cmd_text indent_def)
  ultimately show ?thesis by blast
qed

definition demo_system :: "bytes \<Rightarrow> system" where
  "demo_system r = \<lparr>sy_tty_out = False, sy_tty_in = False, sy_resolve = True, sy_fd = 3, sy_connect = True, sy_strerror = [],
     sy_ctx = True, sy_shake = 1, sy_sock = \<lparr>ns_in = r, ns_send = replicate 64 1, ns_out = []\<rparr>, sy_lines = [], sy_ms = [],
     sy_fmt = id, sy_atof = id, sy_oom = (\<lambda>_. False), sy_net = quiet_net, sy_cl_alloc = True, sy_cl_ctx = None,
     sy_boot = demo_boot, sy_mem = \<lparr>blocks = Map.empty, tails = []\<rparr>,
     sy_workers = (\<lambda>_. \<lparr>wb_epoll = 5, wb_resolve = True, wb_socket = 6, wb_alloc = True, wb_thread = True\<rparr>), sy_life = id\<rparr>"

theorem vcli_get_witness:
  "\<exists>sc r c. store_at sc (ascii ''k'') = Some (ascii ''v'', 0)
     \<and> serves demo_world [[ascii ''HELLO'', ascii ''3''], [ascii ''GET'', ascii ''k'']] sc r
     \<and> client_main (demo_system r) (default_opts False) [ascii ''GET'', ascii ''k''] = Some (0, c, [3])
     \<and> vc_out c = [34] @ ascii ''v'' @ [34, 10]"
proof -
  let ?sc = "(demo_server False demo_cache, demo_conn None)" and ?k = "ascii ''k''" and ?v = "ascii ''v''"
  have "small_arg (mk_arg ?k)" by (simp add: small_arg_def arg_ok_def mk_arg_def)
  moreover have "can_put (cache_env demo_world ?sc) (cache_at ?sc) ?k ?v" by (intro demo_can_put) (simp_all add: ascii_def)
  ultimately obtain c where c: "data_ok (with_cache c ?sc)" "cache_map c ?k = Some (?v, 0)"
    using set_data [OF demo_data_ok demo_world_ok, of "mk_arg ?k" ?k False ?v 0] by (auto simp: set_expiry_def)
  let ?s = "with_cache c ?sc"
  have s: "allowed VC_ACL_READ ?s" "store_at ?s ?k = Some (?v, 0)" "sv_node_id (fst ?s) \<noteq> []"
    using c(2) by (simp_all add: with_cache_def allowed_def demo_server_def store_at_def cache_at_def ascii_def)
  have v: "plain ?k" "fine_reply (RBulk ?v)" "length ?k \<le> 200000" by (simp_all add: plain_def has_magic_def ascii_def)
  have b: "cn_wbuf (snd ?s) = Some \<lparr>b_data = [], b_cap = 16384, b_rpos = 0, b_oom = []\<rparr>"
    "roomy \<lparr>b_data = [], b_cap = 16384, b_rpos = 0, b_oom = []\<rparr> (length (bulk_text ?v) + 1000)"
    by (simp_all add: with_cache_def demo_conn_def roomy_def bulk_text_def ascii_def dec_nat.simps)
  have op: "op_password (default_opts False) = []" "\<not> op_latency (default_opts False)" by (simp_all add: default_opts_def)
  have r: "connects (demo_system r) (default_opts False) r (length (encode_cmd [ascii ''HELLO'', ascii ''3''] @ encode_cmd [ascii ''GET'', ?k]))"
    for r by (simp add: connects_def demo_system_def default_opts_def takes_def encode_cmd_def array_text_def bulk_text_def ascii_def
        dec_int_def dec_nat.simps)
  have shown: "shown_string (conf_of sy (default_opts False)) ?v @ [10] = [34] @ ?v @ [34, 10]" for sy
    by (simp add: shown_string_def conf_of_def default_opts_def has_magic_def printable_def paint_def ascii_def c_str_def)
  have fd: "sy_fd (demo_system r) = 3" for r by (simp add: demo_system_def)
  obtain r where r': "serves demo_world [[ascii ''HELLO'', ascii ''3''], [ascii ''GET'', ?k]] ?s r"
    "\<exists>c. client_main (demo_system r) (default_opts False) [ascii ''GET'', ?k] = Some (0, c, [3]) \<and> vc_out c = [34] @ ?v @ [34, 10]"
    using vcli_get [OF c(1) demo_steady s(1) v(1) s(2) b s(3) v(2,3) op] r unfolding shown by (metis fd)
  then show ?thesis using s(2) by blast
qed

end
