(* ===== verification/VcliOpts.thy ===== *)
theory VcliOpts
  imports VcliMain VcliThms
begin

text \<open>
  The options of the command line program and what they do to the server it starts; numbers of bytes;
  and a reply that makes the client read past the end of its buffer.
\<close>

section \<open>Options\<close>

text \<open>The options of the server that take a value.\<close>

definition takes_value :: "bytes \<Rightarrow> bool" where
  "takes_value a \<longleftrightarrow> a \<in> ascii ` {''--port'', ''--bind'', ''--tls-cert'', ''--tls-key'', ''--acl-file'', ''--requirepass'',
     ''--maxmemory'', ''--wal'', ''--threads'', ''--announce-addr'', ''--announce-port''}"

definition apply_option :: "vc_server_cfg \<Rightarrow> bytes \<times> bytes \<Rightarrow> vc_server_cfg" where
  "apply_option cfg av = the (server_option (fst av) (snd av) cfg)"

lemma takes_value_option: "takes_value a \<Longrightarrow> server_option a v cfg = Some (apply_option cfg (a, v))"
  by (auto simp: takes_value_def apply_option_def server_option_def ascii_def)

lemma takes_value_other:
  "takes_value a \<Longrightarrow> a \<noteq> ascii ''--help'' \<and> a \<noteq> ascii ''-?'' \<and> a \<noteq> ascii ''--help-server'' \<and> a \<noteq> ascii ''server''"
  by (auto simp: takes_value_def ascii_def)

lemma parse_server_options:
  assumes "\<forall>av \<in> set avs. takes_value (fst av)" "op_server op"
  shows "parse_args (concat (map (\<lambda>(a, v). [a, v]) avs)) op = Run (op\<lparr>op_cfg := foldl apply_option (op_cfg op) avs\<rparr>) []"
  using assms
proof (induction avs arbitrary: op)
  case (Cons av avs)
  obtain a v where av: "av = (a, v)" by (cases av)
  have "takes_value a" using Cons.prems(1) av by simp
  then have "parse_args (a # v # concat (map (\<lambda>(a, v). [a, v]) avs)) op
      = parse_args (concat (map (\<lambda>(a, v). [a, v]) avs)) (op\<lparr>op_cfg := apply_option (op_cfg op) (a, v)\<rparr>)"
    using takes_value_other takes_value_option Cons.prems(2) by (simp del: parse_args.simps add: parse_args.simps(2) [of a])
  then show ?case using Cons.IH [of "op\<lparr>op_cfg := apply_option (op_cfg op) (a, v)\<rparr>"] Cons.prems av by simp
qed simp

lemma parse_server:
  assumes "\<forall>av \<in> set avs. takes_value (fst av)"
  shows "parse_args (ascii ''server'' # concat (map (\<lambda>(a, v). [a, v]) avs)) op
    = Run (op\<lparr>op_server := True, op_cfg := foldl apply_option (op_cfg op) avs\<rparr>) []"
  using parse_server_options [OF assms, of "op\<lparr>op_server := True\<rparr>"] by (simp add: ascii_def)



section \<open>Numbers of bytes\<close>

lemma strtoull_dec:
  assumes "n < 2 ^ 64" "rest = [] \<or> \<not> is_digit (hd rest)"
  shows "strtoull (dec_nat n @ rest) = (of_nat n, rest)"
proof -
  have d: "takeWhile is_digit (dec_nat n @ rest) = dec_nat n" using takeWhile_digits [OF dec_nat_digits assms(2)] .
  obtain b bs where b: "dec_nat n = b # bs" "is_digit b" using dec_nat_digits [of n] dec_nat_nonempty [of n] by (cases "dec_nat n") auto
  then have "b \<noteq> 43" "b \<noteq> 45" "\<not> is_space b" by (auto simp: is_digit_def is_space_def word_le_nat_alt)
  then show ?thesis using assms(1) d b(1) digits_val_dec_nat [of n] by (auto simp: strtoull_def Let_def)
qed

text \<open>
  A number of bytes with one of the suffixes k, m and g is read as the multiple of 1024,
  of its square and of its cube, exactly as long as this is below \<open>2 ^ 64\<close>; above, it wraps around.
\<close>

theorem parse_mem_suffix:
  assumes "n < 2 ^ 64" "(suffix, unit) \<in> {([], 1), ([107], 1024), ([75], 1024), ([109], 1024 ^ 2), ([77], 1024 ^ 2), ([103], 1024 ^ 3), ([71], 1024 ^ 3)}"
  shows "unat (parse_mem (dec_nat n @ suffix)) = n * unit mod 2 ^ 64"
proof -
  have "strtoull (dec_nat n @ suffix) = (of_nat n, suffix)" using assms by (intro strtoull_dec) (auto simp: is_digit_def)
  then have "parse_mem (dec_nat n @ suffix) = of_nat (n * unit)"
    using assms(2) by (auto simp: parse_mem_def)
  then show ?thesis by (simp only: unsigned_of_nat take_bit_eq_mod) simp
qed

theorem parse_mem_suffix_witness:
  "unat (parse_mem (dec_nat 256 @ [109])) = 256 * 1024 ^ 2 \<and> unat (parse_mem (dec_nat (2 ^ 34) @ [103])) = 0"
  using parse_mem_suffix [of 256 "[109]" "1024 ^ 2"] parse_mem_suffix [of "2 ^ 34" "[103]" "1024 ^ 3"] by simp

section \<open>A short number\<close>

text \<open>
  A string that has the mark of a typed floating-point number and fewer than six bytes
  after it makes the client read past the end of what it received, at any depth of a reply.
\<close>

theorem short_float_overreads:
  assumes "length d < 6" "\<not> cf_raw cf" "\<forall>m. \<not> cf_oom cf m" "ns_in (vc_sock c) = bulk_text (typed_payload VC_TYPE_FLOAT64 d) @ rest"
  shows "print_reply cf depth c = None"
proof -
  let ?v = "typed_payload VC_TYPE_FLOAT64 d"
  have "read_exactly (length ?v + 2) (set_in (?v @ CRLF @ rest) c) = (True, ?v @ CRLF, set_in rest c)"
    by (simp add: read_exactly_def sock_readn_def set_in_def CRLF_def)
  moreover have "(?v @ CRLF)[length ?v := 0] = ?v @ [0, 10]" by (simp add: CRLF_def list_update_append)
  moreover have "print_vc_typed cf (?v @ [0, 10]) (length ?v) = None"
    unfolding print_vc_typed_def typed_parts Let_def using assms(1) by simp
  moreover have "has_magic ?v" by (simp add: has_magic_def typed_payload_def)
  ultimately have "print_bulk cf depth (int (length ?v)) (set_in (?v @ CRLF @ rest) c) = None"
    using assms(2,3) by (simp add: print_bulk_def bulk_out_def nat_add_distrib)
  then show ?thesis using job_bulk [OF assms(4)] assms(1) by (simp add: print_reply_def)
qed

theorem short_float_overreads_witness:
  "print_reply demo_conf 0 (demo_cli (bulk_text (typed_payload VC_TYPE_FLOAT64 []))) = None"
  by (rule short_float_overreads [of "[]" _ _ "[]"]) (simp_all add: demo_conf_def demo_cli_def)

end
