(* ===== verification/Interleave.thy ===== *)
theory Interleave
  imports Cache
begin

text \<open>
  Threads that run at the same time on one shard of \<^verbatim>\<open>src/src/voidcache.c\<close>, as steps of any thread in
  any order. A step is an access to an atomic variable, or an access to the memory these protect;
  memory is sequentially consistent. \<open>gen\<close> counts how often the sequence counter has been incremented
  since the start, which the 64-bit counter shows modulo \<open>2 ^ 64\<close>.
\<close>

section \<open>Lock and sequence counter of a shard\<close>

text \<open>
  Where a thread is: outside, holding the write lock, inside the writing section, or reading without
  the lock since the counter had a value, with what it has seen so far. A thing seen is a slot and
  something that was true of the entry there, the reference bit apart, which readers set.
\<close>

type_synonym seen = "(nat \<times> (vc_entry \<Rightarrow> bool)) list"

datatype pc = Outside | Holding | Writing | Reading u64 seen

record par =
  p_shard :: vc_shard
  p_mem :: cmem
  p_slab :: slab
  p_pc :: "nat \<Rightarrow> pc"
  p_gen :: nat

definition move :: "nat \<Rightarrow> pc \<Rightarrow> vc_shard \<Rightarrow> par \<Rightarrow> par" where
  "move t l s y = y\<lparr>p_shard := s, p_pc := (p_pc y)(t := l)\<rparr>"

definition sans_bit :: "vc_entry \<Rightarrow> vc_entry" where
  "sans_bit e = e\<lparr>e_clock_bit := 0\<rparr>"

definition still_seen :: "vc_shard \<Rightarrow> seen \<Rightarrow> bool" where
  "still_seen s obs \<longleftrightarrow> (\<forall>(i, P) \<in> set obs. i < length (s_table s) \<and> P (sans_bit (s_table s ! i)))"

inductive par_step :: "par \<Rightarrow> par \<Rightarrow> bool" where
  lock: "p_pc y t = Outside \<Longrightarrow> shard_lock (p_shard y) = Some s \<Longrightarrow> par_step y (move t Holding s y)"
| unlock: "p_pc y t = Holding \<Longrightarrow> par_step y (move t Outside (shard_unlock (p_shard y)) y)"
| write_begin: "p_pc y t = Holding \<Longrightarrow> par_step y ((move t Writing (seq_write_begin (p_shard y)) y)\<lparr>p_gen := Suc (p_gen y)\<rparr>)"
| write_end: "p_pc y t = Writing \<Longrightarrow> par_step y ((move t Holding (seq_write_end (p_shard y)) y)\<lparr>p_gen := Suc (p_gen y)\<rparr>)"
| change: "p_pc y t = Writing \<Longrightarrow> s_seq s = s_seq (p_shard y) \<Longrightarrow> s_wlock s = s_wlock (p_shard y) \<Longrightarrow>
    par_step y (y\<lparr>p_shard := s, p_mem := m, p_slab := sl\<rparr>)"
| touched: "e = s_table (p_shard y) ! i \<Longrightarrow> i < length (s_table (p_shard y)) \<Longrightarrow> par_step y (y\<lparr>p_shard := touch (p_shard y) i e\<rparr>)"
| missed: "par_step y (y\<lparr>p_shard := (p_shard y)\<lparr>s_misses := s_misses (p_shard y) + 1\<rparr>\<rparr>)"
| read_begin: "p_pc y t = Outside \<Longrightarrow> seq_read_begin (p_shard y) = Some q \<Longrightarrow> par_step y (move t (Reading q []) (p_shard y) y)"
| see: "p_pc y t = Reading q obs \<Longrightarrow> i < length (s_table (p_shard y)) \<Longrightarrow> P (sans_bit (s_table (p_shard y) ! i)) \<Longrightarrow>
    par_step y (move t (Reading q ((i, P) # obs)) (p_shard y) y)"
| read_end: "p_pc y t = Reading q obs \<Longrightarrow> par_step y (move t Outside (p_shard y) y)"

inductive_simps par_step_iff: "par_step y y'"

definition par_rest :: "par \<Rightarrow> bool" where
  "par_rest y \<longleftrightarrow> (\<forall>t. p_pc y t = Outside) \<and> s_wlock (p_shard y) = 0 \<and> s_seq (p_shard y) = 0 \<and> p_gen y = 0"

text \<open>
  The invariant: the lock word tells whether a thread holds the lock, at most one does, the counter is
  odd exactly while one writes, and a reader whose counter value is current has seen the present.
\<close>

definition holder :: "pc \<Rightarrow> bool" where
  "holder l \<longleftrightarrow> l = Holding \<or> l = Writing"

definition par_inv :: "par \<Rightarrow> bool" where
  "par_inv y \<longleftrightarrow> s_seq (p_shard y) = of_nat (p_gen y)
     \<and> (s_wlock (p_shard y) = 0 \<longleftrightarrow> (\<forall>t. \<not> holder (p_pc y t)))
     \<and> (\<forall>t u. holder (p_pc y t) \<and> holder (p_pc y u) \<longrightarrow> t = u)
     \<and> (odd (p_gen y) \<longleftrightarrow> (\<exists>t. p_pc y t = Writing))
     \<and> (\<forall>t q obs. p_pc y t = Reading q obs \<longrightarrow>
          (\<exists>g \<le> p_gen y. q = of_nat g \<and> even g \<and> (g = p_gen y \<longrightarrow> still_seen (p_shard y) obs)))"

lemma par_inv_start: "par_rest y \<Longrightarrow> par_inv y"
  by (simp add: par_rest_def par_inv_def holder_def)

lemma even_counter: "of_nat n AND (1 :: u64) = 0 \<longleftrightarrow> even n"
proof -
  have "bit (of_nat n :: u64) 0 = odd n" by (simp add: bit_simps flip: bit_0)
  then show ?thesis by (simp add: and_one_eq mod_2_eq_odd bit_0)
qed

lemma still_seen_table: "s_table s' = s_table s \<Longrightarrow> still_seen s' obs = still_seen s obs"
  by (simp add: still_seen_def)

lemma still_seen_touch: "still_seen (touch s i (s_table s ! i)) obs = still_seen s obs"
proof -
  have "sans_bit ((s_table s)[i := (s_table s ! i)\<lparr>e_clock_bit := 1\<rparr>] ! j) = sans_bit (s_table s ! j)" for j
    by (cases "i < length (s_table s)") (simp_all add: nth_list_update sans_bit_def list_update_beyond)
  then show ?thesis by (simp add: still_seen_def touch_def)
qed

lemma moved [simp]:
  "p_shard (move t l s y) = s" "p_pc (move t l s y) = (p_pc y)(t := l)" "p_gen (move t l s y) = p_gen y"
  "p_mem (move t l s y) = p_mem y" "p_slab (move t l s y) = p_slab y"
  by (simp_all add: move_def)

lemma one_holder: "par_inv y \<Longrightarrow> holder (p_pc y t) \<Longrightarrow> holder (p_pc y u) \<Longrightarrow> u = t"
  unfolding par_inv_def by blast

lemma reader_since: "par_inv y \<Longrightarrow> p_pc y u = Reading q obs \<Longrightarrow> \<exists>g \<le> p_gen y. q = of_nat g \<and> even g"
  unfolding par_inv_def by blast

lemma reader_older:
  assumes "par_inv y" "p_pc y u = Reading q obs"
  shows "\<exists>g \<le> Suc (p_gen y). q = of_nat g \<and> even g \<and> (g = Suc (p_gen y) \<longrightarrow> X)"
proof -
  obtain g where "g \<le> p_gen y" "q = of_nat g" "even g" using reader_since [OF assms] by blast
  then show ?thesis by (intro exI [of _ g]) auto
qed

lemma par_inv_read:
  assumes "par_inv y" "\<not> holder (p_pc y t)" "\<not> holder l"
    and "\<And>q obs. l = Reading q obs \<Longrightarrow> \<exists>g \<le> p_gen y. q = of_nat g \<and> even g \<and> (g = p_gen y \<longrightarrow> still_seen (p_shard y) obs)"
  shows "par_inv (move t l (p_shard y) y)"
proof -
  have same: "holder (((p_pc y)(t := l)) u) = holder (p_pc y u)" "((p_pc y)(t := l)) u = Writing \<longleftrightarrow> p_pc y u = Writing" for u
    using assms(2,3) by (auto simp: holder_def)
  have "\<exists>g \<le> p_gen y. q = of_nat g \<and> even g \<and> (g = p_gen y \<longrightarrow> still_seen (p_shard y) obs)"
    if "((p_pc y)(t := l)) u = Reading q obs" for u q obs
    using that assms(1,4) unfolding par_inv_def by (cases "u = t") auto
  then show ?thesis using assms(1) unfolding par_inv_def moved same by blast
qed

lemma par_inv_step:
  assumes "par_step y y'" "par_inv y"
  shows "par_inv y'"
  using assms
proof cases
  case (lock t s)
  then show ?thesis
    using assms(2) by (auto simp: par_inv_def shard_lock_def holder_def still_seen_def split: if_splits)
next
  case (unlock t)
  then have "p_pc y u \<noteq> Writing" for u using one_holder [OF assms(2), of t u] by (auto simp: holder_def)
  then show ?thesis
    using unlock assms(2) by (auto simp: par_inv_def shard_unlock_def holder_def still_seen_def)
next
  case (write_begin t)
  have alone: "p_pc y u \<noteq> Writing" for u using one_holder [OF assms(2), of t u] write_begin by (auto simp: holder_def)
  show ?thesis
    unfolding write_begin(1) par_inv_def
  proof (intro conjI)
    show "\<forall>u q obs. p_pc ((move t Writing (seq_write_begin (p_shard y)) y)\<lparr>p_gen := Suc (p_gen y)\<rparr>) u = Reading q obs \<longrightarrow>
       (\<exists>g \<le> p_gen ((move t Writing (seq_write_begin (p_shard y)) y)\<lparr>p_gen := Suc (p_gen y)\<rparr>). q = of_nat g \<and> even g
          \<and> (g = p_gen ((move t Writing (seq_write_begin (p_shard y)) y)\<lparr>p_gen := Suc (p_gen y)\<rparr>) \<longrightarrow>
             still_seen (p_shard ((move t Writing (seq_write_begin (p_shard y)) y)\<lparr>p_gen := Suc (p_gen y)\<rparr>)) obs))"
      using reader_older [OF assms(2)] by simp
  qed (use alone write_begin(2) assms(2) in \<open>auto simp: par_inv_def holder_def seq_write_begin_def\<close>)
next
  case (write_end t)
  have alone: "u = t" if "p_pc y u = Writing" for u
    using that one_holder [OF assms(2), of t u] write_end by (auto simp: holder_def)
  show ?thesis
    unfolding write_end(1) par_inv_def
  proof (intro conjI)
    show "\<forall>u q obs. p_pc ((move t Holding (seq_write_end (p_shard y)) y)\<lparr>p_gen := Suc (p_gen y)\<rparr>) u = Reading q obs \<longrightarrow>
       (\<exists>g \<le> p_gen ((move t Holding (seq_write_end (p_shard y)) y)\<lparr>p_gen := Suc (p_gen y)\<rparr>). q = of_nat g \<and> even g
          \<and> (g = p_gen ((move t Holding (seq_write_end (p_shard y)) y)\<lparr>p_gen := Suc (p_gen y)\<rparr>) \<longrightarrow>
             still_seen (p_shard ((move t Holding (seq_write_end (p_shard y)) y)\<lparr>p_gen := Suc (p_gen y)\<rparr>)) obs))"
      using reader_older [OF assms(2)] by simp
  qed (use alone write_end(2) assms(2) in \<open>auto simp: par_inv_def holder_def seq_write_end_def\<close>)
next
  case (change t s m sl)
  then have odd: "odd (p_gen y)" using assms(2) by (auto simp: par_inv_def)
  have "\<exists>g \<le> p_gen y. q = of_nat g \<and> even g \<and> (g = p_gen y \<longrightarrow> still_seen s obs)" if "p_pc y u = Reading q obs" for u q obs
    using reader_since [OF assms(2) that] odd by auto
  then show ?thesis using change assms(2) by (simp add: par_inv_def)
next
  case (touched e i)
  then show ?thesis using assms(2) by (simp add: par_inv_def still_seen_touch) (simp add: touch_def)
next
  case missed
  then show ?thesis using assms(2) by (simp add: par_inv_def still_seen_def)
next
  case (read_begin t q)
  then have "q = of_nat (p_gen y)" "even (p_gen y)"
    using assms(2) even_counter by (auto simp: par_inv_def seq_read_begin_def split: if_splits)
  then show ?thesis using read_begin by (auto intro!: par_inv_read [OF assms(2)] simp: holder_def still_seen_def)
next
  case (see t q obs i P)
  obtain g where "g \<le> p_gen y" "q = of_nat g" "even g" "g = p_gen y \<longrightarrow> still_seen (p_shard y) obs"
    using see(2) assms(2) unfolding par_inv_def by blast
  then show ?thesis using see by (auto intro!: par_inv_read [OF assms(2)] exI [of _ g] simp: holder_def still_seen_def)
next
  case (read_end t q obs)
  then show ?thesis by (auto intro!: par_inv_read [OF assms(2)] simp: holder_def)
qed

lemma par_inv_reached: "par_step\<^sup>*\<^sup>* y y' \<Longrightarrow> par_rest y \<Longrightarrow> par_inv y'"
  by (induction rule: rtranclp_induct) (auto intro: par_inv_start par_inv_step)

text \<open>
  C15 (safety): whatever the threads do and in whatever order, at most one holds the write lock of a
  shard, and while a thread changes the table no other thread is in its critical section.
\<close>

theorem one_writer:
  assumes "par_rest y" "par_step\<^sup>*\<^sup>* y y'" "holder (p_pc y' t)" "holder (p_pc y' u)"
  shows "t = u"
  using one_holder [OF par_inv_reached [OF assms(2,1)]] assms(3,4) by blast

text \<open>
  C14 (safety): what a reader without the lock has seen is a snapshot. When the counter still has the
  value it had at the beginning, all that the reader has seen since, piece by piece while other
  threads locked, wrote, freed and unlocked, is true of the table as it is now, and no thread is
  writing; so the lookup has the result it has on the table at this moment. The counter must not have
  gone round once, which takes \<open>2 ^ 63\<close> writes.
\<close>

theorem validated_snapshot:
  assumes "par_rest y" "par_step\<^sup>*\<^sup>* y y'" "p_gen y' < 2 ^ 64"
    and "p_pc y' t = Reading q obs" "\<not> seq_read_retry (p_shard y') q"
  shows "(\<forall>(i, P) \<in> set obs. i < length (s_table (p_shard y')) \<and> P (sans_bit (s_table (p_shard y') ! i)))
     \<and> (\<forall>u. p_pc y' u \<noteq> Writing)"
proof -
  have inv: "par_inv y'" using par_inv_reached [OF assms(2,1)] .
  then obtain g where g: "g \<le> p_gen y'" "q = of_nat g" "even g" "g = p_gen y' \<longrightarrow> still_seen (p_shard y') obs"
    using assms(4) unfolding par_inv_def by blast
  have "of_nat (p_gen y') = (of_nat g :: u64)" using inv assms(5) g(2) by (simp add: par_inv_def seq_read_retry_def)
  then have "unat (of_nat (p_gen y') :: u64) = unat (of_nat g :: u64)" by simp
  then have "g = p_gen y'" using assms(3) g(1) by (simp add: unsigned_of_nat take_bit_nat_eq_self)
  moreover have "p_pc y' u \<noteq> Writing" for u using inv g(3) \<open>g = p_gen y'\<close> unfolding par_inv_def by blast
  ultimately show ?thesis using g(4) by (simp add: still_seen_def)
qed

definition demo_slot :: vc_entry where
  "demo_slot = \<lparr>e_state = LIVE, e_flags = VC_EFLAG_KEY_LONG OR VC_EFLAG_VAL_MMAP, e_val_len = 1, e_key_len = 40, e_key_hash = 0,
     e_expire_ns = 0, e_clock_bit = 0, e_probe_dist = 0, e_payload = le_bytes 8 (64 :: addr) @ le_bytes 8 (4096 :: addr) @ replicate 16 0\<rparr>"

definition demo_par :: par where
  "demo_par = \<lparr>p_shard = \<lparr>s_table = [demo_slot], s_cap = 1, s_count = 1, s_clock_hand = 0, s_seq = 0, s_wlock = 0, s_hits = 0,
       s_misses = 0, s_sets = 1, s_evictions = 0, s_expirations = 0\<rparr>,
     p_mem = \<lparr>blocks = [64 \<mapsto> (MallocBlk, replicate 40 107), 4096 \<mapsto> (MmapBlk, replicate 4096 0)], tails = []\<rparr>,
     p_slab = [], p_pc = (\<lambda>_. Outside), p_gen = 0\<rparr>"

lemma demo_rest: "par_rest demo_par"
  by (simp add: par_rest_def demo_par_def)

theorem one_writer_witness:
  "\<exists>y'. par_step\<^sup>*\<^sup>* demo_par y' \<and> holder (p_pc y' 3) \<and> (\<forall>u. holder (p_pc y' u) \<longrightarrow> 3 = u)"
proof -
  have "shard_lock (p_shard demo_par) = Some ((p_shard demo_par)\<lparr>s_wlock := 1\<rparr>)" by (simp add: demo_par_def shard_lock_def)
  then have "par_step demo_par (move 3 Holding ((p_shard demo_par)\<lparr>s_wlock := 1\<rparr>) demo_par)"
    by (intro lock) (simp_all add: demo_par_def)
  then have step: "par_step\<^sup>*\<^sup>* demo_par (move 3 Holding ((p_shard demo_par)\<lparr>s_wlock := 1\<rparr>) demo_par)" by simp
  have "holder (p_pc (move 3 Holding s demo_par) 3)" for s by (simp add: holder_def)
  with step one_writer [OF demo_rest step, of 3] show ?thesis by blast
qed

theorem validated_snapshot_witness:
  "\<exists>y'. par_step\<^sup>*\<^sup>* demo_par y' \<and> p_pc y' 1 = Reading 0 [(0, \<lambda>e. e_state e = LIVE)] \<and> e_state (sans_bit (s_table (p_shard y') ! 0)) = LIVE"
proof -
  let ?s = "p_shard demo_par"
  define y1 where "y1 = move 1 (Reading 0 []) ?s demo_par"
  define y2 where "y2 = move 1 (Reading 0 [(0, \<lambda>e. e_state e = LIVE)]) (p_shard y1) y1"
  have "par_step demo_par y1" unfolding y1_def by (intro read_begin) (simp_all add: demo_par_def seq_read_begin_def)
  moreover have "par_step y1 y2"
    unfolding y2_def by (intro see) (simp_all add: y1_def demo_par_def demo_slot_def sans_bit_def)
  ultimately have steps: "par_step\<^sup>*\<^sup>* demo_par y2" by simp
  have y2: "p_pc y2 1 = Reading 0 [(0, \<lambda>e. e_state e = LIVE)]" "p_gen y2 < 2 ^ 64" "\<not> seq_read_retry (p_shard y2) 0"
    by (simp_all add: y2_def y1_def demo_par_def seq_read_retry_def)
  show ?thesis using validated_snapshot [OF demo_rest steps y2(2,1,3)] steps y2(1) by auto
qed

section \<open>A reader and a freed key\<close>

lemma freed_key:
  assumes "entry_free_resources m sl e = Some (m', sl')" "entry_key e = Some (PHeap a)" "a \<noteq> NULL"
  shows "blocks m' a = None"
proof -
  have k: "e_flags e AND VC_EFLAG_KEY_LONG \<noteq> 0" "payload_ptr e 0 = Some a"
    using assms(2) by (auto simp: entry_key_def split: if_splits Option.bind_splits)
  obtain m1 where m1: "c_free m a = Some m1" using assms(1) k by (auto simp: entry_free_resources_def split: Option.bind_splits)
  then have "blocks m1 a = None" using assms(3) by (auto simp: c_free_def split: option.splits prod.splits bkind.splits)
  then show ?thesis
    using assms(1) k m1
    by (auto simp: entry_free_resources_def slab_free_def mem_write_def c_munmap_def Let_def
        split: if_splits Option.bind_splits option.splits prod.splits bkind.splits)
qed



end
