(* ===== verification/Treiber.thy ===== *)
theory Treiber
  imports Slab
begin

text \<open>
  The free list of a slab class when several threads use it: \<open>slab_alloc\<close> and \<open>slab_free\<close> of
  \<^verbatim>\<open>src/src/voidcache.c\<close> one memory access at a time. The theory \<open>Slab\<close> runs each of them in one go;
  \<open>pop_alone\<close> and \<open>push_alone\<close> show that this is what the accesses do when nobody comes in between, and
  the last theorem what can happen when somebody does.
\<close>

text \<open>
  Where a thread is: outside, at the top of the loop of a pop, with the head loaded, with the next
  pointer read; the same for a push of a block.
\<close>

datatype tpc = Idle | PopTop | PopHead addr | PopNext addr addr | PushTop addr | PushHead addr addr | PushLinked addr addr

record treiber =
  t_mem :: cmem
  t_class :: slab_class
  t_pc :: "nat \<Rightarrow> tpc"
  t_own :: "nat \<Rightarrow> addr set"

definition goes :: "nat \<Rightarrow> tpc \<Rightarrow> treiber \<Rightarrow> treiber" where
  "goes t c k = k\<lparr>t_pc := (t_pc k)(t := c)\<rparr>"

definition popped :: "nat \<Rightarrow> addr \<Rightarrow> addr \<Rightarrow> treiber \<Rightarrow> treiber" where
  "popped t p n k = k\<lparr>t_class := (t_class k)\<lparr>sc_head := n, sc_alloc_count := sc_alloc_count (t_class k) + 1\<rparr>,
     t_own := (t_own k)(t := insert p (t_own k t))\<rparr>"

definition pushed :: "addr \<Rightarrow> treiber \<Rightarrow> treiber" where
  "pushed p k = k\<lparr>t_class := (t_class k)\<lparr>sc_head := p, sc_free_count := sc_free_count (t_class k) + 1\<rparr>\<rparr>"

inductive tr_step :: "treiber \<Rightarrow> treiber \<Rightarrow> bool" where
  pop: "t_pc k t = Idle \<Longrightarrow> tr_step k (goes t PopTop k)"
| pop_empty: "t_pc k t = PopTop \<Longrightarrow> sc_head (t_class k) = NULL \<Longrightarrow> tr_step k (goes t Idle k)"
| pop_load: "t_pc k t = PopTop \<Longrightarrow> sc_head (t_class k) \<noteq> NULL \<Longrightarrow> tr_step k (goes t (PopHead (sc_head (t_class k))) k)"
| pop_next: "t_pc k t = PopHead p \<Longrightarrow> mem_read (t_mem k) p 0 8 = Some bs \<Longrightarrow> tr_step k (goes t (PopNext p (of_le bs)) k)"
| pop_swap: "t_pc k t = PopNext p n \<Longrightarrow> sc_head (t_class k) = p \<Longrightarrow> tr_step k (goes t Idle (popped t p n k))"
| pop_again: "t_pc k t = PopNext p n \<Longrightarrow> tr_step k (goes t PopTop k)"
| push: "t_pc k t = Idle \<Longrightarrow> p \<in> t_own k t \<Longrightarrow>
    tr_step k (goes t (PushTop p) (k\<lparr>t_own := (t_own k)(t := t_own k t - {p})\<rparr>))"
| push_load: "t_pc k t = PushTop p \<Longrightarrow> tr_step k (goes t (PushHead p (sc_head (t_class k))) k)"
| push_link: "t_pc k t = PushHead p h \<Longrightarrow> mem_write (t_mem k) p 0 (le_bytes 8 h) = Some m \<Longrightarrow>
    tr_step k (goes t (PushLinked p h) (k\<lparr>t_mem := m\<rparr>))"
| push_swap: "t_pc k t = PushLinked p h \<Longrightarrow> sc_head (t_class k) = h \<Longrightarrow> tr_step k (goes t Idle (pushed p k))"
| push_again: "t_pc k t = PushLinked p h \<Longrightarrow> tr_step k (goes t (PushTop p) k)"

lemma goes_sel [simp]:
  "t_mem (goes t c k) = t_mem k" "t_class (goes t c k) = t_class k" "t_own (goes t c k) = t_own k"
  "t_pc (goes t c k) = (t_pc k)(t := c)" "goes t d (goes t c k) = goes t d k"
  by (simp_all add: goes_def)

lemma popped_sel [simp]:
  "t_mem (popped t p n k) = t_mem k" "sc_head (t_class (popped t p n k)) = n" "t_pc (popped t p n k) = t_pc k"
  "t_own (popped t p n k) = (t_own k)(t := insert p (t_own k t))" "popped t p n (goes t c k) = goes t c (popped t p n k)"
  by (simp_all add: popped_def goes_def)

lemma pushed_sel [simp]:
  "t_mem (pushed p k) = t_mem k" "sc_head (t_class (pushed p k)) = p" "t_pc (pushed p k) = t_pc k" "t_own (pushed p k) = t_own k"
  by (simp_all add: pushed_def)

section \<open>A thread left alone\<close>

lemma pop_run:
  assumes "t_pc k t = Idle" "sc_head (t_class k) = p" "p \<noteq> NULL" "mem_read (t_mem k) p 0 8 = Some bs"
  shows "tr_step\<^sup>*\<^sup>* k (goes t Idle (popped t p (of_le bs) k))"
proof -
  have "tr_step k (goes t PopTop k)" using assms by (intro pop)
  moreover have "tr_step (goes t PopTop k) (goes t (PopHead p) k)"
    using pop_load [of "goes t PopTop k" t] assms by simp
  moreover have "tr_step (goes t (PopHead p) k) (goes t (PopNext p (of_le bs)) k)"
    using pop_next [of "goes t (PopHead p) k" t p bs] assms by simp
  moreover have "tr_step (goes t (PopNext p (of_le bs)) k) (goes t Idle (popped t p (of_le bs) k))"
    using pop_swap [of "goes t (PopNext p (of_le bs)) k" t p "of_le bs"] assms by simp
  ultimately show ?thesis by (meson converse_rtranclp_into_rtranclp rtranclp.rtrancl_refl)
qed

lemma push_run:
  assumes "t_pc k t = Idle" "p \<in> t_own k t" "mem_write (t_mem k) p 0 (le_bytes 8 (sc_head (t_class k))) = Some m"
  shows "tr_step\<^sup>*\<^sup>* k (goes t Idle (pushed p (k\<lparr>t_own := (t_own k)(t := t_own k t - {p}), t_mem := m\<rparr>)))"
proof -
  let ?h = "sc_head (t_class k)" and ?k = "k\<lparr>t_own := (t_own k)(t := t_own k t - {p})\<rparr>"
  let ?l = "?k\<lparr>t_mem := m\<rparr>"
  have sw: "(goes t c k)\<lparr>t_mem := m\<rparr> = goes t c (k\<lparr>t_mem := m\<rparr>)" "pushed p (goes t c k) = goes t c (pushed p k)" for c k
    by (simp_all add: goes_def pushed_def)
  have "tr_step k (goes t (PushTop p) ?k)" using assms by (intro push)
  moreover have "tr_step (goes t (PushTop p) ?k) (goes t (PushHead p ?h) ?k)"
    using push_load [of "goes t (PushTop p) ?k" t p] by simp
  moreover have "tr_step (goes t (PushHead p ?h) ?k) (goes t (PushLinked p ?h) ?l)"
    using push_link [of "goes t (PushHead p ?h) ?k" t p ?h m] assms by (simp add: sw)
  moreover have "tr_step (goes t (PushLinked p ?h) ?l) (goes t Idle (pushed p ?l))"
    using push_swap [of "goes t (PushLinked p ?h) ?l" t p ?h] by (simp add: sw)
  ultimately have "tr_step\<^sup>*\<^sup>* k (goes t Idle (pushed p ?l))"
    by (meson converse_rtranclp_into_rtranclp rtranclp.rtrancl_refl)
  then show ?thesis by simp
qed

text \<open>The operations of the theory \<open>Slab\<close> are these runs.\<close>

lemma pop_alone:
  assumes "slab_alloc (t_mem k) sl sz = Some (p, cls, sl')" "p \<noteq> NULL" "sl ! cls = t_class k" "t_pc k t = Idle"
  shows "\<exists>k'. tr_step\<^sup>*\<^sup>* k k' \<and> t_mem k' = t_mem k \<and> t_class k' = sl' ! cls \<and> t_pc k' = t_pc k
     \<and> t_own k' = (t_own k)(t := insert p (t_own k t))"
proof -
  obtain bs where a: "sc_head (t_class k) = p" "mem_read (t_mem k) p 0 8 = Some bs" "cls < length sl"
    "sl' = sl[cls := (t_class k)\<lparr>sc_head := of_le bs, sc_alloc_count := sc_alloc_count (t_class k) + 1\<rparr>]"
    using assms(1-3) by (auto simp: slab_alloc_def Let_def nth_opt_def split: if_splits Option.bind_splits)
  from pop_run [OF assms(4) a(1) assms(2) a(2)] show ?thesis
    using assms(4) a(3,4) by (intro exI [of _ "goes t Idle (popped t p (of_le bs) k)"]) (simp add: popped_def fun_upd_idem)
qed

lemma push_alone:
  assumes "slab_free (t_mem k) sl p cls = Some (m, sl')" "sl ! cls = t_class k" "t_pc k t = Idle" "p \<in> t_own k t"
  shows "\<exists>k'. tr_step\<^sup>*\<^sup>* k k' \<and> t_mem k' = m \<and> t_class k' = sl' ! cls \<and> t_pc k' = t_pc k
     \<and> t_own k' = (t_own k)(t := t_own k t - {p})"
proof -
  have a: "mem_write (t_mem k) p 0 (le_bytes 8 (sc_head (t_class k))) = Some m" "cls < length sl"
    "sl' = sl[cls := (t_class k)\<lparr>sc_head := p, sc_free_count := sc_free_count (t_class k) + 1\<rparr>]"
    using assms(1,2) by (auto simp: slab_free_def nth_opt_def split: if_splits Option.bind_splits)
  from push_run [OF assms(3,4) a(1)] show ?thesis
    using assms(3) a(2,3)
    by (intro exI [of _ "goes t Idle (pushed p (k\<lparr>t_own := (t_own k)(t := t_own k t - {p}), t_mem := m\<rparr>))"])
      (simp add: pushed_def fun_upd_idem)
qed

section \<open>Two threads\<close>

text \<open>
  C38 (error): the pop compares the head only with the address it has loaded. With two blocks on the
  free list, a second thread can take both and give the first one back while the first thread stands
  between its load and its exchange; the exchange succeeds, and the block the second thread still
  uses is handed out again: both threads own it.
\<close>

theorem slab_block_given_twice:
  assumes "t_pc k = (\<lambda>_. Idle)" "sc_head (t_class k) = a" "a \<noteq> NULL" "b \<noteq> NULL" "a \<noteq> b"
    and "mem_read (t_mem k) a 0 8 = Some (le_bytes 8 b)" "mem_read (t_mem k) b 0 8 = Some (le_bytes 8 (c :: addr))"
  shows "\<exists>k'. tr_step\<^sup>*\<^sup>* k k' \<and> b \<in> t_own k' 0 \<and> b \<in> t_own k' 1"
proof -
  have le: "of_le (le_bytes 8 (x :: addr)) = x" for x by (simp add: of_le_le_bytes)
  define k1 where "k1 = goes 0 (PopNext a b) k"
  define k2 where "k2 = goes 1 Idle (popped 1 a b k1)"
  define k3 where "k3 = goes 1 Idle (popped 1 b c k2)"
  obtain m where m: "mem_write (t_mem k) a 0 (le_bytes 8 c) = Some m"
    using assms(6) by (auto simp: mem_read_def mem_write_def splice_def sub_bytes_def split: option.splits prod.splits if_splits)
  have mb: "mem_read m b 0 8 = Some (le_bytes 8 c)"
    using m assms(5,7) by (auto simp: mem_read_def mem_write_def split: option.splits prod.splits Option.bind_splits)
  define k4 where "k4 = goes 1 Idle (pushed a (k3\<lparr>t_own := (t_own k3)(1 := t_own k3 1 - {a}), t_mem := m\<rparr>))"
  define k5 where "k5 = goes 0 Idle (popped 0 a b k4)"
  define k6 where "k6 = goes 0 Idle (popped 0 b c k5)"
  have "tr_step\<^sup>*\<^sup>* k k1"
  proof -
    have "tr_step k (goes 0 PopTop k)" using assms(1) by (intro pop) simp
    moreover have "tr_step (goes 0 PopTop k) (goes 0 (PopHead a) k)"
      using pop_load [of "goes 0 PopTop k" 0] assms(2,3) by simp
    moreover have "tr_step (goes 0 (PopHead a) k) k1"
      using pop_next [of "goes 0 (PopHead a) k" 0 a "le_bytes 8 b"] assms(6) by (simp add: le k1_def)
    ultimately show ?thesis by (meson converse_rtranclp_into_rtranclp rtranclp.rtrancl_refl)
  qed
  also have "tr_step\<^sup>*\<^sup>* k1 k2"
    unfolding k2_def using pop_run [of k1 1 a "le_bytes 8 b"] assms by (simp add: k1_def le)
  also have "tr_step\<^sup>*\<^sup>* k2 k3"
    unfolding k3_def using pop_run [of k2 1 b "le_bytes 8 c"] assms by (simp add: k2_def k1_def le)
  also have "tr_step\<^sup>*\<^sup>* k3 k4"
    unfolding k4_def using m by (intro push_run) (simp_all add: k3_def k2_def k1_def assms(1))
  also have "tr_step k4 k5"
    unfolding k5_def by (intro pop_swap) (simp_all add: k4_def k3_def k2_def k1_def)
  also have "tr_step\<^sup>*\<^sup>* k5 k6"
    unfolding k6_def using pop_run [of k5 0 b "le_bytes 8 c"] assms mb by (simp add: k5_def k4_def le)
  finally have "tr_step\<^sup>*\<^sup>* k k6" .
  moreover have "b \<in> t_own k6 0 \<and> b \<in> t_own k6 1" using assms(5) by (simp add: k6_def k5_def k4_def k3_def k2_def)
  ultimately show ?thesis by blast
qed

definition demo_free_list :: treiber where
  "demo_free_list = \<lparr>t_mem = \<lparr>blocks = [64 \<mapsto> (SlabBlk, le_bytes 8 (128 :: addr)), 128 \<mapsto> (SlabBlk, le_bytes 8 (0 :: addr))], tails = []\<rparr>,
     t_class = \<lparr>sc_head = 64, sc_arena = 64, sc_block_size = 64, sc_arena_size = 128, sc_alloc_count = 0, sc_free_count = 0\<rparr>,
     t_pc = (\<lambda>_. Idle), t_own = (\<lambda>_. {})\<rparr>"

theorem slab_block_given_twice_witness:
  "\<exists>k'. tr_step\<^sup>*\<^sup>* demo_free_list k' \<and> 128 \<in> t_own k' 0 \<and> 128 \<in> t_own k' 1"
  by (rule slab_block_given_twice [of demo_free_list 64 128 0])
    (simp_all add: demo_free_list_def mem_read_def sub_bytes_def)

end
