(* ===== verification/Wepoll.thy ===== *)
theory Wepoll
  imports Memory
begin

text \<open>
  The epoll replacement of the Windows build, \<^verbatim>\<open>src/compat/wepoll.c\<close>: the table of registered
  sockets, \<open>epoll_ctl\<close> and \<open>epoll_wait\<close>. The entries live on the heap and are linked by their \<open>next\<close>
  pointers; a pointer that leads nowhere makes the result \<open>None\<close>, and so does a chain without an end.
  The completion port itself is the kernel's: the calls to associate a socket are recorded, and what
  \<^verbatim>\<open>GetQueuedCompletionStatus\<close> answers is an argument. Each operation runs with the lock of the port, so
  one after the other.
\<close>

type_synonym socket = u64

record sock_entry =
  sock :: socket
  registered_events :: u32
  pending_events :: u32
  sdata :: u64
  snext :: addr
  deleted :: int

type_synonym sheap = "addr \<rightharpoonup> sock_entry"

text \<open>
  The port, without the fields that nothing reads (the peer sockets, their number and the active
  events) and with the heap of entries and the keys given to the kernel. Its sizes are numbers: the
  table never has more than \<open>2 ^ 60\<close> slots, so nothing wraps.
\<close>

record epoll_port =
  iocp :: u64
  sock_table :: "addr list"
  sock_table_size :: nat
  sock_table_used :: nat
  w_heap :: sheap
  w_keys :: "(socket \<times> addr) list"

datatype win_error = ERROR_ALREADY_EXISTS | ERROR_NOT_ENOUGH_MEMORY | ERROR_NOT_FOUND | ERROR_INVALID_PARAMETER

definition INITIAL_TABLE_SIZE :: nat where "INITIAL_TABLE_SIZE = 64"

abbreviation WEPOLLIN :: u32 where "WEPOLLIN \<equiv> 1"
abbreviation WEPOLLOUT :: u32 where "WEPOLLOUT \<equiv> 4"
abbreviation WEPOLLERR :: u32 where "WEPOLLERR \<equiv> 8"
abbreviation WEPOLLHUP :: u32 where "WEPOLLHUP \<equiv> 16"
abbreviation WEPOLLRDNORM :: u32 where "WEPOLLRDNORM \<equiv> 64"
abbreviation WEPOLLWRNORM :: u32 where "WEPOLLWRNORM \<equiv> 256"
abbreviation WEPOLLRDHUP :: u32 where "WEPOLLRDHUP \<equiv> 8192"

section \<open>The table of sockets\<close>

definition sock_hash :: "socket \<Rightarrow> nat \<Rightarrow> nat" where
  "sock_hash s n = unat ((s * 2654435761) AND (of_nat n - 1))"

partial_function (option) chain_find :: "sheap \<Rightarrow> addr \<Rightarrow> socket \<Rightarrow> addr option" where
  "chain_find h e s =
     (if e = NULL then Some NULL
      else do { n \<leftarrow> h e; if sock n = s then Some e else chain_find h (snext n) s })"

definition sock_lookup :: "epoll_port \<Rightarrow> socket \<Rightarrow> addr option" where
  "sock_lookup port s = do {
     e \<leftarrow> nth_opt (sock_table port) (sock_hash s (sock_table_size port));
     chain_find (w_heap port) e s
   }"

partial_function (option) rehash_chain :: "sheap \<Rightarrow> addr list \<Rightarrow> nat \<Rightarrow> addr \<Rightarrow> (sheap \<times> addr list) option" where
  "rehash_chain h new_table new_size e =
     (if e = NULL then Some (h, new_table)
      else do {
        n \<leftarrow> h e;
        let idx = sock_hash (sock n) new_size;
        t \<leftarrow> nth_opt new_table idx;
        rehash_chain (h(e \<mapsto> n\<lparr>snext := t\<rparr>)) (new_table[idx := e]) new_size (snext n)
      })"

fun rehash_from :: "sheap \<Rightarrow> addr list \<Rightarrow> nat \<Rightarrow> addr list \<Rightarrow> (sheap \<times> addr list) option" where
  "rehash_from h new_table new_size [] = Some (h, new_table)"
| "rehash_from h new_table new_size (e # es) = do {
     (h, new_table) \<leftarrow> rehash_chain h new_table new_size e;
     rehash_from h new_table new_size es
   }"

text \<open>
  \<open>room\<close> says whether the allocator has the memory; a request of \<open>2 ^ 64\<close> bytes or more always fails.
\<close>

definition sock_insert :: "bool \<Rightarrow> epoll_port \<Rightarrow> addr \<Rightarrow> (int \<times> epoll_port) option" where
  "sock_insert room port entry = do {
     let grow = sock_table_used port * 2 \<ge> sock_table_size port;
     let new_size = sock_table_size port * 2;
     if grow \<and> \<not> (room \<and> new_size * 8 < 2 ^ 64) then Some (-1, port)
     else do {
       port \<leftarrow> (if grow then do {
           (h, t) \<leftarrow> rehash_from (w_heap port) (replicate new_size NULL) new_size (sock_table port);
           Some (port\<lparr>w_heap := h, sock_table := t, sock_table_size := new_size\<rparr>)
         } else Some port);
       n \<leftarrow> w_heap port entry;
       let idx = sock_hash (sock n) (sock_table_size port);
       t \<leftarrow> nth_opt (sock_table port) idx;
       Some (0, port\<lparr>w_heap := (w_heap port)(entry \<mapsto> n\<lparr>snext := t\<rparr>), sock_table := (sock_table port)[idx := entry],
         sock_table_used := sock_table_used port + 1\<rparr>)
     }
   }"

text \<open>
  The walk of \<open>sock_remove\<close> with the link it came through: the slot of the table (\<open>NULL\<close>) or the entry
  before. The result is the entry found and the table and heap with it unlinked.
\<close>

partial_function (option) chain_unlink ::
  "sheap \<Rightarrow> addr list \<Rightarrow> nat \<Rightarrow> addr \<Rightarrow> addr \<Rightarrow> socket \<Rightarrow> (addr \<times> sheap \<times> addr list) option" where
  "chain_unlink h table idx prev e s =
     (if e = NULL then Some (NULL, h, table)
      else do {
        n \<leftarrow> h e;
        if sock n = s then
          (if prev = NULL then Some (e, h, table[idx := snext n])
           else do { p \<leftarrow> h prev; Some (e, h(prev \<mapsto> p\<lparr>snext := snext n\<rparr>), table) })
        else chain_unlink h table idx e (snext n) s
      })"

definition sock_remove :: "epoll_port \<Rightarrow> socket \<Rightarrow> (addr \<times> epoll_port) option" where
  "sock_remove port s = do {
     let idx = sock_hash s (sock_table_size port);
     e \<leftarrow> nth_opt (sock_table port) idx;
     (e, h, t) \<leftarrow> chain_unlink (w_heap port) (sock_table port) idx NULL e s;
     if e = NULL then Some (NULL, port)
     else Some (e, port\<lparr>w_heap := h, sock_table := t, sock_table_used := sock_table_used port - 1\<rparr>)
   }"

section \<open>Event masks\<close>

definition epoll_events_to_afd :: "u32 \<Rightarrow> u32" where
  "epoll_events_to_afd events =
     (if events AND (WEPOLLIN OR WEPOLLRDNORM) \<noteq> 0 then 0x0001 OR 0x0080 else 0)
     OR (if events AND (WEPOLLOUT OR WEPOLLWRNORM) \<noteq> 0 then 0x0004 else 0)
     OR (if events AND WEPOLLRDHUP \<noteq> 0 then 0x0008 else 0)
     OR (0x0010 OR 0x0020 OR 0x0100)"

definition afd_to_epoll_events :: "u32 \<Rightarrow> u32" where
  "afd_to_epoll_events afd =
     (if afd AND (0x0001 OR 0x0080) \<noteq> 0 then WEPOLLIN else 0)
     OR (if afd AND 0x0004 \<noteq> 0 then WEPOLLOUT else 0)
     OR (if afd AND 0x0008 \<noteq> 0 then WEPOLLRDHUP OR WEPOLLIN else 0)
     OR (if afd AND 0x0010 \<noteq> 0 then WEPOLLERR OR WEPOLLHUP else 0)
     OR (if afd AND 0x0020 \<noteq> 0 then WEPOLLHUP else 0)
     OR (if afd AND 0x0100 \<noteq> 0 then WEPOLLERR else 0)"

section \<open>The interface\<close>

text \<open>The arguments say whether the two allocations succeed and what the kernel returns for the port.\<close>

definition epoll_create1 :: "bool \<Rightarrow> u64 \<Rightarrow> bool \<Rightarrow> epoll_port option" where
  "epoll_create1 room_port port room_table =
     (if \<not> room_port \<or> port = 0 \<or> \<not> room_table then None
      else Some \<lparr>iocp = port, sock_table = replicate INITIAL_TABLE_SIZE NULL, sock_table_size = INITIAL_TABLE_SIZE,
             sock_table_used = 0, w_heap = Map.empty, w_keys = []\<rparr>)"

definition epoll_create :: "int \<Rightarrow> bool \<Rightarrow> u64 \<Rightarrow> bool \<Rightarrow> epoll_port option" where
  "epoll_create size_arg room_port port room_table = epoll_create1 room_port port room_table"

partial_function (option) free_chain :: "sheap \<Rightarrow> addr \<Rightarrow> sheap option" where
  "free_chain h e = (if e = NULL then Some h else do { n \<leftarrow> h e; free_chain (h(e := None)) (snext n) })"

fun free_chains :: "sheap \<Rightarrow> addr list \<Rightarrow> sheap option" where
  "free_chains h [] = Some h"
| "free_chains h (e # es) = do { h \<leftarrow> free_chain h e; free_chains h es }"

text \<open>What is left of the entries after \<open>epoll_close\<close>, which then gives up the table and the port.\<close>

definition epoll_close :: "epoll_port option \<Rightarrow> (int \<times> sheap) option" where
  "epoll_close ephnd = (case ephnd of None \<Rightarrow> Some (-1, Map.empty)
     | Some port \<Rightarrow> do { h \<leftarrow> free_chains (w_heap port) (sock_table port); Some (0, h) })"

definition EPOLL_CTL_ADD :: int where "EPOLL_CTL_ADD = 1"
definition EPOLL_CTL_MOD :: int where "EPOLL_CTL_MOD = 2"
definition EPOLL_CTL_DEL :: int where "EPOLL_CTL_DEL = 3"

text \<open>
  \<open>ret\<close> is the address the allocator gives the new entry (\<open>NULL\<close> when it has none), \<open>room\<close> whether it
  has a larger table.
\<close>

definition epoll_ctl ::
  "addr \<Rightarrow> bool \<Rightarrow> epoll_port \<Rightarrow> int \<Rightarrow> socket \<Rightarrow> u32 \<Rightarrow> u64 \<Rightarrow> (int \<times> win_error option \<times> epoll_port) option" where
  "epoll_ctl ret room port op s events data =
     (if op = EPOLL_CTL_ADD then do {
        e \<leftarrow> sock_lookup port s;
        if e \<noteq> NULL then Some (-1, Some ERROR_ALREADY_EXISTS, port)
        else if ret = NULL then Some (-1, Some ERROR_NOT_ENOUGH_MEMORY, port)
        else do {
          let entry = \<lparr>sock = s, registered_events = events, pending_events = 0, sdata = data, snext = NULL, deleted = 0\<rparr>;
          let port = port\<lparr>w_heap := (w_heap port)(ret \<mapsto> entry), w_keys := (s, ret) # w_keys port\<rparr>;
          (r, port) \<leftarrow> sock_insert room port ret;
          if r < 0 then Some (-1, Some ERROR_NOT_ENOUGH_MEMORY, port\<lparr>w_heap := (w_heap port)(ret := None)\<rparr>)
          else Some (0, None, port)
        }
      }
      else if op = EPOLL_CTL_MOD then do {
        e \<leftarrow> sock_lookup port s;
        if e = NULL then Some (-1, Some ERROR_NOT_FOUND, port)
        else do {
          n \<leftarrow> w_heap port e;
          Some (0, None, port\<lparr>w_heap := (w_heap port)(e \<mapsto> n\<lparr>registered_events := events, sdata := data\<rparr>)\<rparr>)
        }
      }
      else if op = EPOLL_CTL_DEL then do {
        (e, port) \<leftarrow> sock_remove port s;
        if e = NULL then Some (-1, Some ERROR_NOT_FOUND, port)
        else Some (0, None, port\<lparr>w_heap := (w_heap port)(e := None)\<rparr>)
      }
      else Some (-1, Some ERROR_INVALID_PARAMETER, port))"

text \<open>
  An answer of \<^verbatim>\<open>GetQueuedCompletionStatus\<close>: its return value, the completion key, and whether there was a
  packet. After the answers the queue is empty: a wait without a limit then never returns.
\<close>

type_synonym completion = "bool \<times> addr \<times> bool"

definition wait_ms :: "int \<Rightarrow> u32" where
  "wait_ms timeout = (if timeout < 0 then 0xFFFFFFFF else of_int timeout)"

definition completion_events :: "bool \<Rightarrow> sock_entry \<Rightarrow> u32" where
  "completion_events ok e =
     (if ok then WEPOLLIN OR WEPOLLOUT else WEPOLLERR OR WEPOLLHUP) AND (registered_events e OR WEPOLLERR OR WEPOLLHUP)"

fun wait_loop :: "epoll_port \<Rightarrow> nat \<Rightarrow> u32 \<Rightarrow> (u32 \<times> u64) list \<Rightarrow> completion list \<Rightarrow> (u32 \<times> u64) list option" where
  "wait_loop port maxevents ms events [] =
     (if length events < maxevents \<and> events = [] \<and> ms = 0xFFFFFFFF then None else Some events)"
| "wait_loop port maxevents ms events ((ok, key, packet) # cs) =
     (if \<not> length events < maxevents then Some events
      else if \<not> ok \<and> \<not> packet then Some events
      else if key = NULL then wait_loop port maxevents ms events cs
      else do {
        e \<leftarrow> w_heap port key;
        let revents = completion_events ok e;
        if revents = 0 then wait_loop port maxevents ms events cs
        else wait_loop port maxevents ms (events @ [(revents, sdata e)]) cs
      })"

definition epoll_wait :: "epoll_port \<Rightarrow> int \<Rightarrow> int \<Rightarrow> completion list \<Rightarrow> (win_error + (u32 \<times> u64) list) option" where
  "epoll_wait port maxevents timeout cs =
     (if maxevents \<le> 0 then Some (Inl ERROR_INVALID_PARAMETER)
      else map_option Inr (wait_loop port (nat maxevents) (wait_ms timeout) [] cs))"

end
