(* ===== verification/WepollThms.thy ===== *)
theory WepollThms
  imports Wepoll
begin

text \<open>
  What the table of sockets of \<^verbatim>\<open>src/compat/wepoll.c\<close> means, and that its operations keep it: a set of
  disjoint chains that end, every entry in the chain of its hash, every live entry in a chain. Adding,
  changing and deleting a socket are then the updates of a map from sockets to what was registered.
\<close>

section \<open>Chains\<close>

fun chain :: "sheap \<Rightarrow> addr \<Rightarrow> addr list \<Rightarrow> bool" where
  "chain h p [] \<longleftrightarrow> p = NULL"
| "chain h p (x # xs) \<longleftrightarrow> p = x \<and> x \<noteq> NULL \<and> (\<exists>n. h x = Some n \<and> chain h (snext n) xs)"

lemma chain_frame: "(\<And>x. x \<in> set xs \<Longrightarrow> h' x = h x) \<Longrightarrow> chain h' p xs = chain h p xs"
  by (induction xs arbitrary: p) auto

lemma chains_frame:
  assumes "list_all2 (chain h) t cs" "\<And>x. x \<in> set (concat cs) \<Longrightarrow> h' x = h x"
  shows "list_all2 (chain h') t cs"
proof -
  have "chain h' p xs" if "chain h p xs" "xs \<in> set cs" for p xs
    using that assms(2) chain_frame [of xs h' h p] by auto
  then show ?thesis using assms(1) by (auto simp: list_all2_conv_all_nth)
qed

text \<open>What is registered in an entry, which the links do not touch.\<close>

definition info :: "sheap \<Rightarrow> addr \<Rightarrow> (socket \<times> u32 \<times> u64) option" where
  "info h x = map_option (\<lambda>n. (sock n, registered_events n, sdata n)) (h x)"

abbreviation skey :: "sheap \<Rightarrow> addr \<Rightarrow> socket" where
  "skey h x \<equiv> fst (the (info h x))"

lemma info_link [simp]: "h x = Some n \<Longrightarrow> info (h(x \<mapsto> n\<lparr>snext := t\<rparr>)) = info h"
  by (auto simp: info_def)

lemma dom_info: "dom h = {x. info h x \<noteq> None}"
  by (auto simp: info_def)

lemma chain_find_chain:
  assumes "chain h e xs"
  shows "chain_find h e s = Some (case find (\<lambda>x. skey h x = s) xs of None \<Rightarrow> NULL | Some x \<Rightarrow> x)"
  using assms
proof (induction xs arbitrary: e)
  case (Cons x xs)
  then show ?case by (subst chain_find.simps) (auto simp: info_def)
qed (simp add: chain_find.simps)

section \<open>The table\<close>

lemma sock_hash_less: "k < 64 \<Longrightarrow> sock_hash s (2 ^ k) < 2 ^ k"
proof -
  assume "k < 64"
  have "(of_nat (2 ^ k) :: u64) - 1 = mask k" by (simp add: mask_eq_exp_minus_1)
  then have "sock_hash s (2 ^ k) = take_bit k (unat (s * 2654435761))"
    by (simp add: sock_hash_def unsigned_take_bit_eq flip: take_bit_eq_mask)
  then show ?thesis by simp
qed

definition table_inv :: "sheap \<Rightarrow> nat \<Rightarrow> addr list \<Rightarrow> addr list list \<Rightarrow> bool" where
  "table_inv h n t cs \<longleftrightarrow> (\<exists>k. k \<le> 60 \<and> n = 2 ^ k) \<and> length t = n \<and> list_all2 (chain h) t cs \<and> distinct (concat cs)
     \<and> (\<forall>i < n. \<forall>x \<in> set (cs ! i). sock_hash (skey h x) n = i)"

definition port_rep :: "epoll_port \<Rightarrow> addr list list \<Rightarrow> bool" where
  "port_rep port cs \<longleftrightarrow> table_inv (w_heap port) (sock_table_size port) (sock_table port) cs
     \<and> dom (w_heap port) = set (concat cs) \<and> distinct (map (skey (w_heap port)) (concat cs))
     \<and> sock_table_used port = length (concat cs)"

definition port_inv :: "epoll_port \<Rightarrow> bool" where
  "port_inv port \<longleftrightarrow> (\<exists>cs. port_rep port cs)"

text \<open>The map the port stands for, as the code reads it.\<close>

definition registered :: "epoll_port \<Rightarrow> socket \<Rightarrow> (u32 \<times> u64) option" where
  "registered port s = (case sock_lookup port s of None \<Rightarrow> None
     | Some e \<Rightarrow> if e = NULL then None else map_option snd (info (w_heap port) e))"

lemma table_inv_hash: "table_inv h n t cs \<Longrightarrow> sock_hash s n < n"
  using sock_hash_less by (auto simp: table_inv_def)

lemma table_inv_len: "table_inv h n t cs \<Longrightarrow> length t = n \<and> length cs = n"
  by (auto simp: table_inv_def dest: list_all2_lengthD)

lemma table_inv_chain: "table_inv h n t cs \<Longrightarrow> i < n \<Longrightarrow> chain h (t ! i) (cs ! i)"
  by (auto simp: table_inv_def list_all2_conv_all_nth)

lemma in_concat_nth: "x \<in> set (concat cs) \<longleftrightarrow> (\<exists>i < length cs. x \<in> set (cs ! i))"
proof -
  have "x \<in> set (concat cs) \<longleftrightarrow> (\<exists>c \<in> set cs. x \<in> set c)" by simp
  then show ?thesis by (metis in_set_conv_nth)
qed

lemma chain_not_null: "chain h p xs \<Longrightarrow> x \<in> set xs \<Longrightarrow> x \<noteq> NULL \<and> h x \<noteq> None"
  by (induction xs arbitrary: p) auto

lemma table_inv_live: "table_inv h n t cs \<Longrightarrow> x \<in> set (concat cs) \<Longrightarrow> x \<noteq> NULL \<and> h x \<noteq> None"
  unfolding in_concat_nth using table_inv_len table_inv_chain chain_not_null by metis

lemma table_inv_slot: "table_inv h n t cs \<Longrightarrow> x \<in> set (concat cs) \<Longrightarrow> x \<in> set (cs ! sock_hash (skey h x) n)"
  unfolding in_concat_nth table_inv_def by (metis list_all2_lengthD)

lemma lookup_rep:
  assumes "port_rep port cs"
  shows "sock_lookup port s = Some (case find (\<lambda>x. skey (w_heap port) x = s) (cs ! sock_hash s (sock_table_size port)) of None \<Rightarrow> NULL | Some x \<Rightarrow> x)"
proof -
  let ?i = "sock_hash s (sock_table_size port)"
  have t: "table_inv (w_heap port) (sock_table_size port) (sock_table port) cs" using assms by (simp add: port_rep_def)
  show ?thesis
    using chain_find_chain [OF table_inv_chain [OF t table_inv_hash [OF t, of s]]] table_inv_hash [OF t, of s] table_inv_len [OF t]
    by (simp add: sock_lookup_def nth_opt_def)
qed

lemma lookup_cases:
  assumes "port_rep port cs"
  obtains (absent) "sock_lookup port s = Some NULL" "registered port s = None" "\<And>x. x \<in> set (concat cs) \<Longrightarrow> skey (w_heap port) x \<noteq> s"
  | (present) x where "sock_lookup port s = Some x" "x \<noteq> NULL" "x \<in> set (cs ! sock_hash s (sock_table_size port))"
    "x \<in> set (concat cs)" "skey (w_heap port) x = s" "registered port s = map_option snd (info (w_heap port) x)"
proof (cases "find (\<lambda>x. skey (w_heap port) x = s) (cs ! sock_hash s (sock_table_size port))")
  case None
  have t: "table_inv (w_heap port) (sock_table_size port) (sock_table port) cs" using assms by (simp add: port_rep_def)
  have "skey (w_heap port) x \<noteq> s" if "x \<in> set (concat cs)" for x
    using None table_inv_slot [OF t that] by (auto simp: find_None_iff)
  then show thesis using absent lookup_rep [OF assms, of s] None by (simp add: registered_def)
next
  case (Some x)
  let ?i = "sock_hash s (sock_table_size port)"
  have t: "table_inv (w_heap port) (sock_table_size port) (sock_table port) cs" using assms by (simp add: port_rep_def)
  have x: "x \<in> set (cs ! ?i)" "skey (w_heap port) x = s" using Some by (auto simp: find_Some_iff)
  have c: "x \<in> set (concat cs)" using x(1) table_inv_hash [OF t, of s] table_inv_len [OF t] unfolding in_concat_nth by auto
  then show thesis
    using present [OF _ _ x(1) c x(2)] lookup_rep [OF assms, of s] Some table_inv_live [OF t c] by (simp add: registered_def)
qed

lemma registered_iff:
  assumes "port_rep port cs"
  shows "registered port s = Some d \<longleftrightarrow> (\<exists>x \<in> set (concat cs). info (w_heap port) x = Some (s, d))"
proof -
  have t: "table_inv (w_heap port) (sock_table_size port) (sock_table port) cs"
    and inj: "inj_on (skey (w_heap port)) (set (concat cs))"
    using assms unfolding port_rep_def distinct_map by blast+
  show ?thesis
  proof (cases rule: lookup_cases [OF assms, of s, case_names absent present])
    case absent
    have "info (w_heap port) x \<noteq> Some (s, d)" if "x \<in> set (concat cs)" for x using absent(3) [OF that] by auto
    then show ?thesis using absent(2) by simp
  next
    case (present x)
    then obtain d' where d': "info (w_heap port) x = Some (s, d')"
      using table_inv_live [OF t present(4)] by (auto simp: info_def)
    have "y = x" if "y \<in> set (concat cs)" "info (w_heap port) y = Some (s, d)" for y
      using inj_onD [OF inj _ that(1) present(4)] that(2) present(5) by simp
    then have "(\<exists>y \<in> set (concat cs). info (w_heap port) y = Some (s, d)) \<longleftrightarrow> info (w_heap port) x = Some (s, d)"
      using present(4) by blast
    then show ?thesis using present(6) d' by simp
  qed
qed

lemma table_inv_same:
  assumes "table_inv h n t cs"
    and "\<And>x. x \<in> set (concat cs) \<Longrightarrow> map_option snext (h' x) = map_option snext (h x) \<and> skey h' x = skey h x"
  shows "table_inv h' n t cs"
proof -
  have "chain h' p xs" if "chain h p xs" "xs \<in> set cs" for p xs
  proof -
    have "\<forall>x \<in> set xs. map_option snext (h' x) = map_option snext (h x)" using that(2) assms(2) by auto
    then show ?thesis using that(1) by (induction xs arbitrary: p) (auto 4 4)
  qed
  then have "list_all2 (chain h') t cs" using assms(1) by (auto simp: table_inv_def list_all2_conv_all_nth)
  moreover have "sock_hash (skey h' x) n = i" if "i < n" "x \<in> set (cs ! i)" for i x
  proof -
    have "x \<in> set (concat cs)" using that table_inv_len [OF assms(1)] unfolding in_concat_nth by metis
    then show ?thesis using assms(1) that assms(2) [of x] unfolding table_inv_def by simp
  qed
  ultimately show ?thesis using assms(1) unfolding table_inv_def by blast
qed

lemma table_inv_frame: "table_inv h n t cs \<Longrightarrow> (\<And>x. x \<in> set (concat cs) \<Longrightarrow> h' x = h x) \<Longrightarrow> table_inv h' n t cs"
  by (rule table_inv_same) (simp_all add: info_def)

section \<open>Linking and rehashing\<close>

lemma mset_link: "i < length ns \<Longrightarrow> mset (concat (ns[i := x # ns ! i])) = add_mset x (mset (concat ns))"
proof -
  assume i: "i < length ns"
  then have "concat ns = concat (take i ns) @ ns ! i @ concat (drop (Suc i) ns)"
    by (metis concat.simps(2) concat_append id_take_nth_drop)
  moreover have "concat (ns[i := x # ns ! i]) = concat (take i ns) @ (x # ns ! i) @ concat (drop (Suc i) ns)"
    using i by (simp add: upd_conv_take_nth_drop)
  ultimately show ?thesis by (simp only: mset_append mset.simps union_mset_add_mset_left union_mset_add_mset_right append_Cons)
qed

lemma set_of_mset: "mset xs = mset ys \<Longrightarrow> set xs = set ys"
  by (metis set_mset_mset)

lemma table_inv_link:
  assumes "table_inv h n t ns" "h x = Some m" "x \<noteq> NULL" "x \<notin> set (concat ns)" "i = sock_hash (sock m) n"
  shows "table_inv (h(x \<mapsto> m\<lparr>snext := t ! i\<rparr>)) n (t[i := x]) (ns[i := x # ns ! i])"
proof -
  let ?h = "h(x \<mapsto> m\<lparr>snext := t ! i\<rparr>)" and ?ns = "ns[i := x # ns ! i]"
  have i: "i < n" "length ns = n" "length t = n" using assms(5) table_inv_hash [OF assms(1)] table_inv_len [OF assms(1)] by auto
  have key: "skey ?h y = skey h y" for y using info_link [of h x m] assms(2) by simp
  have "list_all2 (chain ?h) t ns"
  proof (rule chains_frame)
    show "list_all2 (chain h) t ns" using assms(1) by (simp add: table_inv_def)
    show "?h y = h y" if "y \<in> set (concat ns)" for y using that assms(4) by (metis fun_upd_apply)
  qed
  then have "list_all2 (chain ?h) (t[i := x]) ?ns"
    using i assms(3) by (auto simp: list_all2_conv_all_nth nth_list_update)
  moreover have "mset (concat ?ns) = mset (x # concat ns)" using mset_link [of i ns x] i by (simp only: mset.simps)
  then have "distinct (concat ?ns)" using mset_eq_imp_distinct_iff [of "concat ?ns" "x # concat ns"] assms(1,4)
    unfolding table_inv_def by (simp only: distinct.simps not_False_eq_True simp_thms)
  moreover have "sock_hash (skey ?h y) n = j" if "j < n" "y \<in> set (?ns ! j)" for j y
  proof (cases "y = x \<and> j = i")
    case True
    then show ?thesis unfolding key using assms(2,5) by (simp add: info_def)
  next
    case False
    then have "y \<in> set (ns ! j)" using that i by (auto simp: nth_list_update split: if_splits)
    then show ?thesis unfolding key using assms(1) that(1) by (simp add: table_inv_def)
  qed
  moreover have "(\<exists>k. k \<le> 60 \<and> n = 2 ^ k) \<and> length (t[i := x]) = n" using assms(1) by (simp add: table_inv_def)
  ultimately show ?thesis unfolding table_inv_def by blast
qed

lemma rehash_chain_ok:
  assumes "table_inv h n t ns" "chain h e xs" "distinct xs" "set xs \<inter> set (concat ns) = {}"
  shows "\<exists>h' t' ns'. rehash_chain h t n e = Some (h', t') \<and> table_inv h' n t' ns' \<and> mset (concat ns') = mset xs + mset (concat ns)
     \<and> info h' = info h \<and> (\<forall>y. y \<notin> set xs \<longrightarrow> h' y = h y)"
  using assms
proof (induction xs arbitrary: h t ns e)
  case (Cons x xs)
  then obtain m where m: "e = x" "x \<noteq> NULL" "h x = Some m" "chain h (snext m) xs" by auto
  define i where "i = sock_hash (sock m) n"
  define h1 where "h1 = h(x \<mapsto> m\<lparr>snext := t ! i\<rparr>)"
  define ns1 where "ns1 = ns[i := x # ns ! i]"
  have x: "x \<notin> set (concat ns)" "x \<notin> set xs" using Cons.prems(3,4) by auto
  have i: "i < n" "length ns = n" "length t = n"
    using table_inv_hash [OF Cons.prems(1)] table_inv_len [OF Cons.prems(1)] by (auto simp: i_def)
  have inv: "table_inv h1 n (t[i := x]) ns1"
    unfolding h1_def ns1_def using table_inv_link [OF Cons.prems(1) m(3,2) x(1) i_def] .
  have ms: "mset (concat ns1) = add_mset x (mset (concat ns))" unfolding ns1_def by (rule mset_link) (use i in simp)
  have "h1 y = h y" if "y \<in> set xs" for y using that x(2) by (auto simp: h1_def)
  then have c: "chain h1 (snext m) xs" using m(4) chain_frame [of xs h1 h] by blast
  have "set (concat ns1) = insert x (set (concat ns))" 
    using set_of_mset [of "concat ns1" "x # concat ns"] ms by (simp only: mset.simps list.set)
  then have d: "set xs \<inter> set (concat ns1) = {}" using Cons.prems(4) x(2) by auto
  obtain h' t' ns' where r: "rehash_chain h1 (t[i := x]) n (snext m) = Some (h', t')" "table_inv h' n t' ns'"
    "mset (concat ns') = mset xs + mset (concat ns1)" "info h' = info h1" "\<forall>y. y \<notin> set xs \<longrightarrow> h' y = h1 y"
    using Cons.IH [OF inv c _ d] Cons.prems(3) by auto
  have "rehash_chain h t n e = Some (h', t')"
    using r(1) m i by (subst rehash_chain.simps) (simp add: i_def h1_def nth_opt_def Let_def)
  moreover have "info h1 = info h" using info_link [of h x m "t ! i"] m(3) by (simp only: h1_def)
  moreover have "\<forall>y. y \<notin> set (x # xs) \<longrightarrow> h' y = h y" using r(5) by (simp add: h1_def)
  ultimately show ?case 
    using r(2,3,4) ms by (intro exI [of _ h'] exI [of _ t'] exI [of _ ns']) (simp only: mset.simps, simp)
qed (auto simp: rehash_chain.simps)

lemma rehash_from_ok:
  assumes "table_inv h n t ns" "list_all2 (chain h) es cs" "distinct (concat cs @ concat ns)"
  shows "\<exists>h' t' ns'. rehash_from h t n es = Some (h', t') \<and> table_inv h' n t' ns'
     \<and> mset (concat ns') = mset (concat cs) + mset (concat ns) \<and> info h' = info h"
  using assms
proof (induction es arbitrary: h t ns cs)
  case (Cons e es)
  then obtain c cs' where cs: "cs = c # cs'" "chain h e c" "list_all2 (chain h) es cs'" by (auto simp: list_all2_Cons1)
  have d: "distinct c" "set c \<inter> set (concat ns) = {}" "set c \<inter> set (concat cs') = {}"
    using Cons.prems(3) unfolding cs(1) by (auto simp del: set_concat)
  obtain h1 t1 ns1 where r: "rehash_chain h t n e = Some (h1, t1)" "table_inv h1 n t1 ns1"
    "mset (concat ns1) = mset c + mset (concat ns)" "info h1 = info h" "\<forall>y. y \<notin> set c \<longrightarrow> h1 y = h y"
    using rehash_chain_ok [OF Cons.prems(1) cs(2) d(1,2)] by blast
  have "h1 y = h y" if "y \<in> set (concat cs')" for y using that d(3) r(5) by (metis disjoint_iff)
  then have "list_all2 (chain h1) es cs'" by (rule chains_frame [OF cs(3)])
  moreover have "mset (concat cs' @ concat ns1) = mset (concat cs @ concat ns)" 
    unfolding cs(1) concat.simps mset_append r(3) by (simp only: ac_simps)
  then have "distinct (concat cs' @ concat ns1)" using Cons.prems(3) mset_eq_imp_distinct_iff by blast
  ultimately obtain h2 t2 ns2 where u: "rehash_from h1 t1 n es = Some (h2, t2)" "table_inv h2 n t2 ns2"
    "mset (concat ns2) = mset (concat cs') + mset (concat ns1)" "info h2 = info h1"
    using Cons.IH [OF r(2)] by blast
  have "mset (concat ns2) = mset (concat cs) + mset (concat ns)"
    unfolding cs(1) concat.simps mset_append u(3) r(3) by (simp only: ac_simps)
  moreover have "rehash_from h t n (e # es) = Some (h2, t2)" using r(1) u(1) by simp
  ultimately show ?case using u(2,4) r(4) by (intro exI conjI) (assumption | simp)+
qed auto

lemma table_inv_empty: "k \<le> 60 \<Longrightarrow> table_inv h (2 ^ k) (replicate (2 ^ k) NULL) (replicate (2 ^ k) [])"
  by (auto simp: table_inv_def list_all2_conv_all_nth)

lemma sock_insert_ok:
  assumes "table_inv (w_heap port) (sock_table_size port) (sock_table port) cs"
    and "w_heap port e = Some n" "e \<noteq> NULL" "e \<notin> set (concat cs)"
  obtains (full) "sock_insert room port e = Some (-1, port)" "\<not> room \<or> \<not> sock_table_size port * 16 < 2 ^ 64"
  | (linked) port' cs' where "sock_insert room port e = Some (0, port')"
    "table_inv (w_heap port') (sock_table_size port') (sock_table port') cs'"
    "mset (concat cs') = add_mset e (mset (concat cs))" "info (w_heap port') = info (w_heap port)"
    "sock_table_used port' = sock_table_used port + 1" "w_keys port' = w_keys port"
proof -
  let ?grow = "sock_table_used port * 2 \<ge> sock_table_size port" and ?m = "sock_table_size port * 2"
  have ins: thesis if p: "sock_insert room port e = do {
       n \<leftarrow> w_heap p e;
       let idx = sock_hash (sock n) (sock_table_size p);
       t \<leftarrow> nth_opt (sock_table p) idx;
       Some (0, p\<lparr>w_heap := (w_heap p)(e \<mapsto> n\<lparr>snext := t\<rparr>), sock_table := (sock_table p)[idx := e],
         sock_table_used := sock_table_used p + 1\<rparr>) }"
     and t: "table_inv (w_heap p) (sock_table_size p) (sock_table p) ns" "mset (concat ns) = mset (concat cs)"
     and k: "info (w_heap p) = info (w_heap port)" "sock_table_used p = sock_table_used port" "w_keys p = w_keys port" for p ns
  proof -
    have "info (w_heap p) e \<noteq> None" using k(1) assms(2) by (simp add: info_def)
    then obtain m where m: "w_heap p e = Some m" by (auto simp: info_def)
    define i where "i = sock_hash (sock m) (sock_table_size p)"
    have i: "i < length (sock_table p)" "i < length ns" using table_inv_hash [OF t(1)] table_inv_len [OF t(1)] by (auto simp: i_def)
    have "e \<notin> set (concat ns)" using assms(4) set_of_mset [OF t(2)] by (simp only: simp_thms)
    then have "table_inv ((w_heap p)(e \<mapsto> m\<lparr>snext := sock_table p ! i\<rparr>)) (sock_table_size p) ((sock_table p)[i := e]) (ns[i := e # ns ! i])"
      using table_inv_link [OF t(1) m assms(3) _ i_def] by blast
    moreover have "mset (concat (ns[i := e # ns ! i])) = add_mset e (mset (concat cs))" using mset_link [OF i(2)] t(2) by (simp only:)
    moreover have "info ((w_heap p)(e \<mapsto> m\<lparr>snext := sock_table p ! i\<rparr>)) = info (w_heap port)" using m k(1) by simp
    moreover have r: "sock_insert room port e = Some (0, p\<lparr>w_heap := (w_heap p)(e \<mapsto> m\<lparr>snext := sock_table p ! i\<rparr>),
         sock_table := (sock_table p)[i := e], sock_table_used := sock_table_used p + 1\<rparr>)"
      using i(1) m unfolding p by (simp add: i_def nth_opt_def Let_def)
    ultimately show thesis using k(2,3) by (intro linked [OF r]) simp_all
  qed
  consider "\<not> ?grow" | "?grow" "\<not> (room \<and> ?m * 8 < 2 ^ 64)" | "?grow" "room" "?m * 8 < 2 ^ 64" by blast
  then show thesis
  proof cases
    case 1
    then show thesis by (intro ins [of port cs]) (simp_all add: sock_insert_def Let_def assms(1))
  next
    case 2
    then show thesis by (intro full) (auto simp: sock_insert_def Let_def)
  next
    case 3
    obtain k where k: "k \<le> 60" "sock_table_size port = 2 ^ k" using assms(1) by (auto simp: table_inv_def)
    have "(2 :: nat) ^ (k + 4) < 2 ^ 64" using 3(3) k(2) by (simp add: power_add)
    then have "k + 4 < 64" by (rule power_less_imp_less_exp [rotated]) simp
    then have "table_inv (w_heap port) ?m (replicate ?m NULL) (replicate ?m [])"
      using table_inv_empty [of "Suc k"] k(2) by (simp add: mult.commute)
    moreover have "list_all2 (chain (w_heap port)) (sock_table port) cs" "distinct (concat cs)" using assms(1) by (simp_all only: table_inv_def)
    ultimately obtain h t ns where "rehash_from (w_heap port) (replicate ?m NULL) ?m (sock_table port) = Some (h, t)"
      "table_inv h ?m t ns" "mset (concat ns) = mset (concat cs)" "info h = info (w_heap port)"
      using rehash_from_ok [of "w_heap port" ?m "replicate ?m NULL" "replicate ?m []" "sock_table port" cs] by auto
    then show thesis
      using 3 by (intro ins [of "port\<lparr>w_heap := h, sock_table := t, sock_table_size := ?m\<rparr>" ns]) (simp_all add: sock_insert_def Let_def)
  qed
qed

section \<open>Unlinking\<close>

lemma chain_append_live: "chain h e (as @ x # bs) \<Longrightarrow> x \<noteq> NULL \<and> (\<exists>n. h x = Some n \<and> chain h (snext n) bs)"
  by (induction as arbitrary: e) auto

lemma unlink_absent: "chain h e xs \<Longrightarrow> \<forall>x \<in> set xs. skey h x \<noteq> s \<Longrightarrow> chain_unlink h t i prev e s = Some (NULL, h, t)"
proof (induction xs arbitrary: e prev)
  case (Cons x xs)
  then show ?case by (subst chain_unlink.simps) (auto simp: info_def)
qed (simp add: chain_unlink.simps)

lemma unlink_at:
  assumes "chain h e (as @ x # bs)" "\<forall>a \<in> set as. skey h a \<noteq> s" "skey h x = s" "h x = Some n"
  shows "chain_unlink h t i prev e s = (let q = last (prev # as) in
     if q = NULL then Some (x, h, t[i := snext n]) else do { p \<leftarrow> h q; Some (x, h(q \<mapsto> p\<lparr>snext := snext n\<rparr>), t) })"
  using assms
proof (induction as arbitrary: e prev)
  case Nil
  then show ?case by (subst chain_unlink.simps) (auto simp: info_def)
next
  case (Cons a as)
  then show ?case by (subst chain_unlink.simps) (auto simp: info_def)
qed

lemma chain_cut:
  assumes "chain h e (as @ x # bs)" "distinct (as @ x # bs)" "as \<noteq> []" "h (last as) = Some p" "h x = Some n"
  shows "chain (h(last as \<mapsto> p\<lparr>snext := snext n\<rparr>)) e (as @ bs)"
  using assms
proof (induction as arbitrary: e)
  case (Cons a as)
  show ?case
  proof (cases "as = []")
    case True
    have "chain (h(a \<mapsto> p\<lparr>snext := snext n\<rparr>)) q bs = chain h q bs" for q
      using Cons.prems(2) by (intro chain_frame) auto
    then show ?thesis using True Cons.prems by (simp add: fun_upd_def)
  next
    case False
    then have "a \<noteq> last as" using Cons.prems(2) by auto
    then show ?thesis using False Cons by auto
  qed
qed simp

lemma distinct_concat_update:
  assumes "distinct (concat cs)" "i < length cs" "distinct ys" "set ys \<subseteq> set (cs ! i)"
  shows "distinct (concat (cs[i := ys]))"
proof -
  have "concat cs = concat (take i cs) @ cs ! i @ concat (drop (Suc i) cs)"
    using assms(2) by (metis concat.simps(2) concat_append id_take_nth_drop)
  moreover have "concat (cs[i := ys]) = concat (take i cs) @ ys @ concat (drop (Suc i) cs)"
    using assms(2) by (simp add: upd_conv_take_nth_drop)
  ultimately show ?thesis using assms by (auto simp del: set_concat)
qed

end
