(* ===== verification/WepollCtl.thy ===== *)
theory WepollCtl
  imports WepollThms
begin

text \<open>
  \<open>epoll_ctl\<close>, \<open>epoll_wait\<close> and \<open>epoll_close\<close> of \<^verbatim>\<open>src/compat/wepoll.c\<close> against what they promise: a map of
  registered sockets, and the events of a list of completions.
\<close>

section \<open>Changing the map\<close>

lemma registered_eqI:
  assumes "port_rep port cs" "\<And>s d. (\<exists>x \<in> set (concat cs). info (w_heap port) x = Some (s, d)) \<longleftrightarrow> m s = Some d"
  shows "registered port = m"
proof
  show "registered port s = m s" for s
    using registered_iff [OF assms(1), of s] assms(2) [of s] by (metis not_None_eq)
qed

lemma registered_SomeD:
  "port_rep port cs \<Longrightarrow> registered port s = Some d \<Longrightarrow> \<exists>x \<in> set (concat cs). info (w_heap port) x = Some (s, d)"
  by (simp only: registered_iff)

text \<open>Adding a socket that is not there.\<close>

lemma ctl_add:
  assumes inv: "port_rep port cs" and new: "registered port s = None" and ret: "ret \<noteq> NULL" "w_heap port ret = None"
  obtains (full) "epoll_ctl ret room port EPOLL_CTL_ADD s ev d
      = Some (-1, Some ERROR_NOT_ENOUGH_MEMORY, port\<lparr>w_keys := (s, ret) # w_keys port\<rparr>)"
    "\<not> room \<or> \<not> sock_table_size port * 16 < 2 ^ 64"
  | (added) port' cs' where "epoll_ctl ret room port EPOLL_CTL_ADD s ev d = Some (0, None, port')" "port_rep port' cs'"
    "registered port' = (registered port)(s \<mapsto> (ev, d))" "w_keys port' = (s, ret) # w_keys port"
    "info (w_heap port') ret = Some (s, ev, d)" "ret \<in> set (concat cs')"
proof -
  let ?e = "\<lparr>sock = s, registered_events = ev, pending_events = 0, sdata = d, snext = NULL, deleted = 0\<rparr>"
  define p where "p = port\<lparr>w_heap := (w_heap port)(ret \<mapsto> ?e), w_keys := (s, ret) # w_keys port\<rparr>"
  have t: "table_inv (w_heap port) (sock_table_size port) (sock_table port) cs" and dom: "dom (w_heap port) = set (concat cs)"
    and dk: "distinct (map (skey (w_heap port)) (concat cs))" and used: "sock_table_used port = length (concat cs)"
    using inv by (simp_all only: port_rep_def)
  have fresh: "ret \<notin> set (concat cs)" using ret(2) dom by (metis domIff)
  have look: "sock_lookup port s = Some NULL" and none: "\<And>x. x \<in> set (concat cs) \<Longrightarrow> skey (w_heap port) x \<noteq> s"
  proof -
    have "sock_lookup port s = Some NULL \<and> (\<forall>x \<in> set (concat cs). skey (w_heap port) x \<noteq> s)"
    proof (cases rule: lookup_cases [OF inv, of s, case_names absent present])
      case (present x)
      then show ?thesis using new table_inv_live [OF t present(4)] by (simp add: info_def)
    qed blast
    then show "sock_lookup port s = Some NULL" "\<And>x. x \<in> set (concat cs) \<Longrightarrow> skey (w_heap port) x \<noteq> s" by blast+
  qed
  have inf: "info (w_heap p) = (info (w_heap port))(ret \<mapsto> (s, ev, d))" by (auto simp: p_def info_def)
  have same: "w_heap p x = w_heap port x" "info (w_heap p) x = info (w_heap port) x" if "x \<in> set (concat cs)" for x
  proof -
    have "x \<noteq> ret" using that fresh by metis
    then show "w_heap p x = w_heap port x" "info (w_heap p) x = info (w_heap port) x" by (simp_all add: p_def info_def)
  qed
  have tp: "table_inv (w_heap p) (sock_table_size p) (sock_table p) cs"
  proof -
    have "sock_table_size p = sock_table_size port" "sock_table p = sock_table port" by (simp_all add: p_def)
    then show ?thesis by (simp only:) (rule table_inv_frame [OF t], rule same(1))
  qed
  have ctl: "epoll_ctl ret room port EPOLL_CTL_ADD s ev d = do {
      (r, q) \<leftarrow> sock_insert room p ret;
      if r < 0 then Some (-1, Some ERROR_NOT_ENOUGH_MEMORY, q\<lparr>w_heap := (w_heap q)(ret := None)\<rparr>) else Some (0, None, q) }"
    using look ret(1) by (simp add: epoll_ctl_def p_def Let_def)
  have pe: "w_heap p ret = Some ?e" and pu: "sock_table_used p = sock_table_used port" by (simp_all add: p_def)
  show thesis
  proof (cases rule: sock_insert_ok [OF tp pe ret(1) fresh, of room, case_names full linked])
    case full
    have "p\<lparr>w_heap := (w_heap p)(ret := None)\<rparr> = port\<lparr>w_keys := (s, ret) # w_keys port\<rparr>"
      using ret(2) by (simp add: p_def fun_upd_idem)
    then show thesis using that(1) full ctl by (simp add: p_def)
  next
    case (linked port' cs')
    have cs': "set (concat cs') = insert ret (set (concat cs))" "length (concat cs') = length (concat cs) + 1"
      using linked(3) set_of_mset [of "concat cs'" "ret # concat cs"] mset_eq_length [of "concat cs'" "ret # concat cs"]
      by (simp_all only: mset.simps list.set list.size)
    have i': "info (w_heap port') = (info (w_heap port))(ret \<mapsto> (s, ev, d))" using linked(4) inf by (simp only:)
    have "dom (w_heap port') = set (concat cs')" unfolding cs'(1) dom [symmetric] dom_info i' by auto
    moreover have "distinct (map (skey (w_heap port')) (concat cs'))"
    proof -
      have "map (skey (w_heap port')) (concat cs) = map (skey (w_heap port)) (concat cs)"
        using same(2) inf linked(4) by (intro map_cong) (simp_all only:)
      moreover have "s \<notin> set (map (skey (w_heap port)) (concat cs))" unfolding set_map image_iff using none by metis
      moreover have "skey (w_heap port') ret = s" using i' by simp
      ultimately have "distinct (map (skey (w_heap port')) (ret # concat cs))" unfolding list.map(2) distinct.simps(2) using dk by metis
      moreover have "mset (map (skey (w_heap port')) (concat cs')) = mset (map (skey (w_heap port')) (ret # concat cs))"
        using linked(3) by (simp only: mset_map mset.simps)
      ultimately show ?thesis using mset_eq_imp_distinct_iff by blast
    qed
    moreover have "sock_table_used port' = length (concat cs')" using linked(5) used cs'(2) pu by (simp only:)
    ultimately have rep: "port_rep port' cs'" using linked(2) unfolding port_rep_def by blast
    have "(\<exists>x \<in> set (concat cs'). info (w_heap port') x = Some (u, f)) \<longleftrightarrow> ((registered port)(s \<mapsto> (ev, d))) u = Some f" for u f
    proof (cases "u = s")
      case True
      have "info (w_heap port') x \<noteq> Some (s, f)" if "x \<in> set (concat cs)" for x
        using none [OF that] same(2) [OF that] inf linked(4) by (metis fst_conv option.sel)
      then have "(\<exists>x \<in> set (concat cs'). info (w_heap port') x = Some (s, f)) \<longleftrightarrow> info (w_heap port') ret = Some (s, f)"
        unfolding cs'(1) by blast
      then show ?thesis using True i' by simp
    next
      case False
      have "info (w_heap port') x = info (w_heap port) x" if "x \<in> set (concat cs)" for x
        using same(2) [OF that] inf linked(4) by (simp only:)
      then have "(\<exists>x \<in> set (concat cs'). info (w_heap port') x = Some (u, f)) \<longleftrightarrow> (\<exists>x \<in> set (concat cs). info (w_heap port) x = Some (u, f))"
        unfolding cs'(1) using False i' by simp
      then show ?thesis unfolding registered_iff [OF inv, symmetric] using False by simp
    qed
    then have reg: "registered port' = (registered port)(s \<mapsto> (ev, d))" by (rule registered_eqI [OF rep])
    have "w_keys port' = (s, ret) # w_keys port" using linked(6) by (simp add: p_def)
    moreover have "epoll_ctl ret room port EPOLL_CTL_ADD s ev d = Some (0, None, port')" using ctl linked(1) by simp
    moreover have "info (w_heap port') ret = Some (s, ev, d)" using i' by simp
    moreover have "ret \<in> set (concat cs')" unfolding cs'(1) by (rule insertI1)
    ultimately show thesis using that(2) [OF _ rep reg] by blast
  qed
qed

text \<open>Changing what is registered for a socket that is there.\<close>

lemma ctl_mod:
  assumes inv: "port_rep port cs" and old: "registered port s = Some f"
  shows "\<exists>port'. epoll_ctl ret room port EPOLL_CTL_MOD s ev d = Some (0, None, port') \<and> port_rep port' cs
     \<and> registered port' = (registered port)(s \<mapsto> (ev, d))"
proof (cases rule: lookup_cases [OF inv, of s, case_names absent present])
  case absent
  then show ?thesis using old by simp
next
  case (present x)
  have t: "table_inv (w_heap port) (sock_table_size port) (sock_table port) cs" and dom: "dom (w_heap port) = set (concat cs)"
    and dk: "distinct (map (skey (w_heap port)) (concat cs))" and used: "sock_table_used port = length (concat cs)"
    using inv by (simp_all only: port_rep_def)
  obtain n where n: "w_heap port x = Some n" using table_inv_live [OF t present(4)] by auto
  then have s: "sock n = s" using present(5) by (simp add: info_def)
  define h where "h = (w_heap port)(x \<mapsto> n\<lparr>registered_events := ev, sdata := d\<rparr>)"
  have inf: "info h = (info (w_heap port))(x \<mapsto> (s, ev, d))" using n s by (auto simp: h_def info_def)
  have key: "skey h y = skey (w_heap port) y" for y using present(5) by (simp add: inf)
  have "table_inv h (sock_table_size port) (sock_table port) cs"
    by (rule table_inv_same [OF t]) (simp add: key, simp add: h_def n)
  moreover have "dom h = set (concat cs)" unfolding dom [symmetric] using n by (auto simp: h_def)
  ultimately have rep: "port_rep (port\<lparr>w_heap := h\<rparr>) cs" using dk used unfolding port_rep_def by (simp add: key)
  have inj: "y = x" if "y \<in> set (concat cs)" "skey (w_heap port) y = s" for y
    using dk that present(4,5) unfolding distinct_map by (metis inj_onD)
  have "(\<exists>y \<in> set (concat cs). info h y = Some (u, g)) \<longleftrightarrow> ((registered port)(s \<mapsto> (ev, d))) u = Some g" for u g
  proof (cases "u = s")
    case True
    have "y = x" if "y \<in> set (concat cs)" "info h y = Some (s, g)" for y
      using inj [OF that(1)] key [of y] that(2) by simp
    then have "(\<exists>y \<in> set (concat cs). info h y = Some (s, g)) \<longleftrightarrow> info h x = Some (s, g)" using present(4) by blast
    then show ?thesis using True by (simp add: inf)
  next
    case False
    have "info h y = Some (u, g) \<longleftrightarrow> info (w_heap port) y = Some (u, g)" for y
      using False present(5) n s by (auto simp: inf info_def)
    then show ?thesis unfolding registered_iff [OF inv, symmetric] using False by (simp add: registered_iff [OF inv])
  qed
  moreover have "w_heap (port\<lparr>w_heap := h\<rparr>) = h" by simp
  ultimately have "registered (port\<lparr>w_heap := h\<rparr>) = (registered port)(s \<mapsto> (ev, d))" by (intro registered_eqI [OF rep]) (simp only:)
  moreover have "epoll_ctl ret room port EPOLL_CTL_MOD s ev d = Some (0, None, port\<lparr>w_heap := h\<rparr>)"
    using present(1,2) n by (simp add: epoll_ctl_def EPOLL_CTL_ADD_def EPOLL_CTL_MOD_def h_def)
  ultimately show ?thesis using rep by blast
qed

text \<open>Deleting: the entry leaves its chain, wherever in it it was, and its memory is given back.\<close>

lemma table_inv_update:
  assumes t: "table_inv h n t cs" and i: "i < n" and c: "chain h' p ys" and ys: "distinct ys" "set ys \<subseteq> set (cs ! i)"
    and same: "\<And>y. y \<in> set (concat cs) \<Longrightarrow> y \<notin> set (cs ! i) \<Longrightarrow> h' y = h y"
    and key: "\<And>y. y \<in> set (concat (cs[i := ys])) \<Longrightarrow> skey h' y = skey h y"
  shows "table_inv h' n (t[i := p]) (cs[i := ys])"
proof -
  have len: "length t = n" "length cs = n" using table_inv_len [OF t] by auto
  have dis: "distinct (concat cs)" and size: "\<exists>k. k \<le> 60 \<and> n = 2 ^ k" using t by (simp_all only: table_inv_def)
  have slot: "sock_hash (skey h y) n = j" if "j < n" "y \<in> set (cs ! j)" for j y using t that by (simp add: table_inv_def)
  have other: "chain h' (t ! j) (cs ! j)" if "j < n" "j \<noteq> i" for j
  proof -
    have "h' y = h y" if y: "y \<in> set (cs ! j)" for y
    proof (rule same)
      show "y \<in> set (concat cs)" using y \<open>j < n\<close> len unfolding in_concat_nth by metis
      show "y \<notin> set (cs ! i)" using slot [OF \<open>j < n\<close> y] slot [OF i, of y] \<open>j \<noteq> i\<close> by blast
    qed
    then show ?thesis using chain_frame [of "cs ! j" h' h] table_inv_chain [OF t \<open>j < n\<close>] by blast
  qed
  have "list_all2 (chain h') (t[i := p]) (cs[i := ys])"
    using c other i len by (simp add: list_all2_conv_all_nth nth_list_update)
  moreover have "distinct (concat (cs[i := ys]))" using distinct_concat_update [OF dis _ ys] i len by simp
  moreover have "sock_hash (skey h' y) n = j" if "j < n" "y \<in> set (cs[i := ys] ! j)" for j y
  proof -
    have "y \<in> set (concat (cs[i := ys]))" using that len unfolding in_concat_nth by (metis length_list_update)
    moreover have "y \<in> set (cs ! j)" using that ys(2) i len by (auto simp: nth_list_update split: if_splits)
    ultimately show ?thesis using key slot that(1) by simp
  qed
  moreover have "length (t[i := p]) = n" using len by simp
  ultimately show ?thesis using size unfolding table_inv_def by blast
qed

lemma concat_cut:
  assumes "distinct (concat cs)" "i < length cs" "cs ! i = as @ x # bs"
  shows "set (concat (cs[i := as @ bs])) = set (concat cs) - {x}" "length (concat (cs[i := as @ bs])) = length (concat cs) - 1"
proof -
  have "concat cs = concat (take i cs) @ (as @ x # bs) @ concat (drop (Suc i) cs)"
    using assms(2,3) by (metis concat.simps(2) concat_append id_take_nth_drop)
  moreover have "concat (cs[i := as @ bs]) = concat (take i cs) @ (as @ bs) @ concat (drop (Suc i) cs)"
    using assms(2) by (simp add: upd_conv_take_nth_drop)
  ultimately show "set (concat (cs[i := as @ bs])) = set (concat cs) - {x}" "length (concat (cs[i := as @ bs])) = length (concat cs) - 1"
    using assms(1) by (auto simp del: set_concat)
qed

lemma unlink_present:
  assumes t: "table_inv h n t cs" and i: "i < n" and ab: "cs ! i = as @ x # bs" and di: "distinct (as @ x # bs)"
    and nas: "\<forall>a \<in> set as. skey h a \<noteq> s" and s: "skey h x = s"
  obtains h1 p where "chain_unlink h t i NULL (t ! i) s = Some (x, h1, t[i := p])" "chain h1 p (as @ bs)" "info h1 = info h"
    "\<And>y. y \<notin> set (cs ! i) \<Longrightarrow> h1 y = h y"
proof -
  have ch: "chain h (t ! i) (as @ x # bs)" using table_inv_chain [OF t i] ab by simp
  obtain m where m: "h x = Some m" "x \<noteq> NULL" "chain h (snext m) bs" using chain_append_live [OF ch] by blast
  note un = unlink_at [OF ch nas s m(1), of t i NULL]
  show thesis
  proof (cases "as = []")
    case True
    have "chain_unlink h t i NULL (t ! i) s = Some (x, h, t[i := snext m])" using un unfolding True by simp
    moreover have "chain h (snext m) (as @ bs)" using m(3) True by simp
    ultimately show thesis by (rule that) (rule refl)+
  next
    case False
    then have l: "last as \<in> set (cs ! i)" "last as \<noteq> NULL" "h (last as) \<noteq> None" using ab chain_not_null [OF ch, of "last as"] by auto
    then obtain q where q: "h (last as) = Some q" by blast
    let ?h = "h(last as \<mapsto> q\<lparr>snext := snext m\<rparr>)"
    have "chain_unlink h t i NULL (t ! i) s = Some (x, ?h, t[i := t ! i])" using un False l(2) q by simp
    then show thesis
    proof (rule that)
      show "chain ?h (t ! i) (as @ bs)" by (rule chain_cut [OF ch di False q m(1)])
      show "info ?h = info h" using q by (rule info_link)
      show "?h y = h y" if "y \<notin> set (cs ! i)" for y using that l(1) by auto
    qed
  qed
qed

lemma delete_rep:
  assumes inv: "port_rep port cs" and i: "i < sock_table_size port" and ab: "cs ! i = as @ x # bs" and di: "distinct (as @ x # bs)"
    and c: "chain h1 p (as @ bs)" and inf1: "info h1 = info (w_heap port)" and fr: "\<And>y. y \<notin> set (cs ! i) \<Longrightarrow> h1 y = w_heap port y"
  shows "port_rep (port\<lparr>w_heap := h1(x := None), sock_table := (sock_table port)[i := p], sock_table_used := sock_table_used port - 1\<rparr>)
     (cs[i := as @ bs])"
proof -
  let ?n = "sock_table_size port" and ?t = "sock_table port" and ?h = "w_heap port" and ?cs = "cs[i := as @ bs]" and ?h2 = "h1(x := None)"
  have t: "table_inv ?h ?n ?t cs" and dom: "dom ?h = set (concat cs)"
    and dk: "distinct (map (skey ?h) (concat cs))" and used: "sock_table_used port = length (concat cs)"
    using inv by (simp_all only: port_rep_def)
  have dis: "distinct (concat cs)" using t by (simp only: table_inv_def)
  have inf: "info ?h2 = (info ?h)(x := None)" unfolding inf1 [symmetric] by (auto simp: info_def)
  have cut: "set (concat ?cs) = set (concat cs) - {x}" "length (concat ?cs) = length (concat cs) - 1"
    using concat_cut [OF dis _ ab] i table_inv_len [OF t] by auto
  have "?h2 y = h1 y" if "y \<in> set (as @ bs)" for y using that di by auto
  then have c2: "chain ?h2 p (as @ bs)" using chain_frame [of "as @ bs" ?h2 h1 p] c by blast
  have key: "skey ?h2 y = skey ?h y" if "y \<in> set (concat ?cs)" for y using that unfolding cut(1) inf by auto
  have tab: "table_inv ?h2 ?n (?t[i := p]) ?cs"
  proof (rule table_inv_update [OF t i c2 _ _ _ key])
    show "distinct (as @ bs)" "set (as @ bs) \<subseteq> set (cs ! i)" using di ab by auto
    show "?h2 y = ?h y" if "y \<in> set (concat cs)" "y \<notin> set (cs ! i)" for y using that(2) fr [of y] ab by auto
  qed
  moreover have "dom ?h2 = set (concat ?cs)" unfolding cut(1) dom [symmetric] dom_info inf by auto
  moreover have "inj_on (skey ?h2) (set (concat ?cs)) = inj_on (skey ?h) (set (concat ?cs))" by (rule inj_on_cong) (rule key)
  then have "distinct (map (skey ?h2) (concat ?cs))"
    using tab dk inj_on_diff [of "skey ?h" "set (concat cs)" "{x}"] unfolding distinct_map table_inv_def cut(1) by blast
  ultimately show ?thesis unfolding port_rep_def using used cut(2) by (simp del: distinct_map set_concat length_concat)
qed

lemma ctl_del:
  assumes inv: "port_rep port cs" and old: "registered port s = Some f"
  obtains x port' cs' where "epoll_ctl ret room port EPOLL_CTL_DEL s ev d = Some (0, None, port')" "port_rep port' cs'"
    "registered port' = (registered port)(s := None)" "info (w_heap port) x = Some (s, f)" "w_heap port' x = None" "x \<noteq> NULL"
    "w_keys port' = w_keys port"
proof (cases rule: lookup_cases [OF inv, of s, case_names absent present])
  case absent
  then show thesis using old by simp
next
  case (present x)
  let ?n = "sock_table_size port" and ?t = "sock_table port" and ?h = "w_heap port"
  have t: "table_inv ?h ?n ?t cs" and dk: "distinct (map (skey ?h) (concat cs))" using inv by (simp_all only: port_rep_def)
  define i where "i = sock_hash s ?n"
  have i: "i < ?n" "length ?t = ?n" "length cs = ?n" using table_inv_hash [OF t] table_inv_len [OF t] by (auto simp: i_def)
  have dis: "distinct (concat cs)" using t by (simp only: table_inv_def)
  have inj: "y = x" if "y \<in> set (concat cs)" "skey ?h y = s" for y
    using dk that present(4,5) unfolding distinct_map by (metis inj_onD)
  obtain as bs where ab: "cs ! i = as @ x # bs" using present(3) split_list unfolding i_def by metis
  have row: "y \<in> set (concat cs)" if "y \<in> set (cs ! i)" for y using that i unfolding in_concat_nth by metis
  have di: "distinct (as @ x # bs)" using dis i ab by (metis distinct_concat_iff nth_mem)
  have nas: "\<forall>a \<in> set as. skey ?h a \<noteq> s"
  proof
    fix a assume "a \<in> set as"
    then have "a \<in> set (cs ! i)" "a \<noteq> x" using ab di by auto
    then show "skey ?h a \<noteq> s" using inj row by blast
  qed
  obtain h1 p where r: "chain_unlink ?h ?t i NULL (?t ! i) s = Some (x, h1, ?t[i := p])" "chain h1 p (as @ bs)" "info h1 = info ?h"
    "\<And>y. y \<notin> set (cs ! i) \<Longrightarrow> h1 y = ?h y"
    using unlink_present [OF t i(1) ab di nas present(5)] by blast
  define port' where "port' = port\<lparr>w_heap := h1(x := None), sock_table := ?t[i := p], sock_table_used := sock_table_used port - 1\<rparr>"
  have rep: "port_rep port' (cs[i := as @ bs])" unfolding port'_def by (rule delete_rep [OF inv i(1) ab di r(2,3,4)])
  have inf: "info (w_heap port') = (info ?h)(x := None)" unfolding r(3) [symmetric] by (auto simp: port'_def info_def)
  have cut: "set (concat (cs[i := as @ bs])) = set (concat cs) - {x}" using concat_cut [OF dis _ ab] i by auto
  have "(\<exists>y \<in> set (concat (cs[i := as @ bs])). info (w_heap port') y = Some (u, g)) \<longleftrightarrow> ((registered port)(s := None)) u = Some g" for u g
  proof -
    have u: "u \<noteq> s \<longleftrightarrow> y \<noteq> x" if "y \<in> set (concat cs)" "info ?h y = Some (u, g)" for y
      using inj [OF that(1)] that(2) present(5) by (metis fst_conv option.sel)
    have "(\<exists>y \<in> set (concat cs) - {x}. info (w_heap port') y = Some (u, g)) \<longleftrightarrow> (\<exists>y \<in> set (concat cs). info ?h y = Some (u, g) \<and> y \<noteq> x)"
      unfolding inf fun_upd_apply by (metis DiffE DiffI option.distinct(1) singletonD singletonI)
    also have "\<dots> \<longleftrightarrow> registered port u = Some g \<and> u \<noteq> s" unfolding registered_iff [OF inv] using u by blast
    finally show ?thesis unfolding cut by simp
  qed
  then have reg: "registered port' = (registered port)(s := None)" by (rule registered_eqI [OF rep])
  have "sock_remove port s = Some (x, port\<lparr>w_heap := h1, sock_table := ?t[i := p], sock_table_used := sock_table_used port - 1\<rparr>)"
    using r(1) i present(2) by (simp add: sock_remove_def nth_opt_def Let_def flip: i_def)
  then have "epoll_ctl ret room port EPOLL_CTL_DEL s ev d = Some (0, None, port')"
    using present(2) by (simp add: epoll_ctl_def EPOLL_CTL_ADD_def EPOLL_CTL_MOD_def EPOLL_CTL_DEL_def port'_def)
  moreover have "info ?h x = Some (s, f)" using present(5,6) old by (cases "info ?h x") auto
  moreover have "w_heap port' x = None" "w_keys port' = w_keys port" by (simp_all add: port'_def)
  ultimately show thesis using that [OF _ rep reg] present(2) by blast
qed

section \<open>The contract\<close>

text \<open>What the three operations are to do to the map, with the error they report.\<close>

definition ctl_spec ::
  "(socket \<rightharpoonup> u32 \<times> u64) \<Rightarrow> int \<Rightarrow> socket \<Rightarrow> u32 \<Rightarrow> u64 \<Rightarrow> int \<times> win_error option \<times> (socket \<rightharpoonup> u32 \<times> u64)" where
  "ctl_spec m op s ev d =
     (if op = EPOLL_CTL_ADD then
        (if m s \<noteq> None then (-1, Some ERROR_ALREADY_EXISTS, m) else (0, None, m(s \<mapsto> (ev, d))))
      else if op = EPOLL_CTL_MOD then
        (if m s = None then (-1, Some ERROR_NOT_FOUND, m) else (0, None, m(s \<mapsto> (ev, d))))
      else if op = EPOLL_CTL_DEL then
        (if m s = None then (-1, Some ERROR_NOT_FOUND, m) else (0, None, m(s := None)))
      else (-1, Some ERROR_INVALID_PARAMETER, m))"

definition no_memory :: "addr \<Rightarrow> bool \<Rightarrow> epoll_port \<Rightarrow> bool" where
  "no_memory ret room port \<longleftrightarrow> ret = NULL \<or> \<not> room \<or> \<not> sock_table_size port * 16 < 2 ^ 64"

lemma lookup_none: "port_rep port cs \<Longrightarrow> registered port s = None \<Longrightarrow> sock_lookup port s = Some NULL"
proof (cases rule: lookup_cases [of port cs s, case_names rep absent present])
  case (present x)
  assume "port_rep port cs" "registered port s = None"
  then have "info (w_heap port) x = None" using present(6) by simp
  moreover have "table_inv (w_heap port) (sock_table_size port) (sock_table port) cs" using \<open>port_rep port cs\<close> by (simp only: port_rep_def)
  ultimately show ?thesis using table_inv_live [OF _ present(4)] by (simp add: info_def)
qed

lemma lookup_some: "registered port s = Some f \<Longrightarrow> \<exists>x. sock_lookup port s = Some x \<and> x \<noteq> NULL"
  by (auto simp: registered_def split: option.splits if_splits)

lemma remove_none:
  assumes inv: "port_rep port cs" and "registered port s = None"
  shows "sock_remove port s = Some (NULL, port)"
proof -
  let ?i = "sock_hash s (sock_table_size port)"
  have t: "table_inv (w_heap port) (sock_table_size port) (sock_table port) cs" using inv by (simp only: port_rep_def)
  have i: "?i < length (sock_table port)" "?i < length cs" using table_inv_hash [OF t] table_inv_len [OF t] by auto
  have "skey (w_heap port) x \<noteq> s" if "x \<in> set (cs ! ?i)" for x
  proof
    assume "skey (w_heap port) x = s"
    moreover have x: "x \<in> set (concat cs)" using that i(2) unfolding in_concat_nth by metis
    ultimately obtain d where "info (w_heap port) x = Some (s, d)" using table_inv_live [OF t x] by (auto simp: info_def)
    then show False using x registered_iff [OF inv, of s d] assms(2) by (metis option.distinct(1))
  qed
  then have "chain_unlink (w_heap port) (sock_table port) ?i NULL (sock_table port ! ?i) s = Some (NULL, w_heap port, sock_table port)"
    using unlink_absent [OF table_inv_chain [OF t]] table_inv_hash [OF t] by blast
  then show ?thesis using i(1) by (simp add: sock_remove_def nth_opt_def Let_def)
qed

lemma rep_keys: "port_rep (port\<lparr>w_keys := k\<rparr>) cs = port_rep port cs" "registered (port\<lparr>w_keys := k\<rparr>) = registered port"
proof -
  show "port_rep (port\<lparr>w_keys := k\<rparr>) cs = port_rep port cs" by (simp add: port_rep_def)
  have "w_heap (port\<lparr>w_keys := k\<rparr>) = w_heap port" "sock_lookup (port\<lparr>w_keys := k\<rparr>) s = sock_lookup port s" for s
    by (simp_all add: sock_lookup_def)
  then show "registered (port\<lparr>w_keys := k\<rparr>) = registered port" unfolding registered_def [abs_def] by (intro ext) (simp only:)
qed

text \<open>
  C24 (refinement): the socket table of the epoll replacement is a map. On a table that is in order,
  \<open>epoll_ctl\<close> always returns, leaves the table in order, and adds, changes or deletes the registration of
  the socket with the errors of the contract; the only other outcome is that an addition reports that
  there is no memory and changes nothing.
\<close>

theorem epoll_ctl_refines:
  assumes "port_inv port" "ret = NULL \<or> w_heap port ret = None"
  shows "\<exists>r err port'. epoll_ctl ret room port op s ev d = Some (r, err, port') \<and> port_inv port'
     \<and> ((r, err, registered port') = ctl_spec (registered port) op s ev d
        \<or> op = EPOLL_CTL_ADD \<and> registered port s = None \<and> no_memory ret room port
          \<and> (r, err, registered port') = (-1, Some ERROR_NOT_ENOUGH_MEMORY, registered port))"
proof -
  note ops = EPOLL_CTL_ADD_def EPOLL_CTL_MOD_def EPOLL_CTL_DEL_def
  obtain cs where inv: "port_rep port cs" using assms(1) unfolding port_inv_def by blast
  show ?thesis
  proof (cases "registered port s")
    case None
    note look = lookup_none [OF inv None] remove_none [OF inv None]
    consider "op = EPOLL_CTL_ADD" "ret = NULL" | "op = EPOLL_CTL_ADD" "ret \<noteq> NULL" | "op \<noteq> EPOLL_CTL_ADD" by blast
    then show ?thesis
    proof cases
      case 1
      then show ?thesis using look assms(1) None by (simp add: epoll_ctl_def no_memory_def)
    next
      case 2
      then have "w_heap port ret = None" using assms(2) by blast
      with 2(2) show ?thesis
      proof (cases rule: ctl_add [OF inv None, of ret room ev d, case_names _ _ full added])
        case full
        moreover have "port_inv (port\<lparr>w_keys := (s, ret) # w_keys port\<rparr>)" using inv rep_keys(1) unfolding port_inv_def by blast
        ultimately show ?thesis using 2(1) None by (simp add: no_memory_def rep_keys)
      next
        case (added port' cs')
        then show ?thesis using 2(1) None by (intro exI [of _ 0] exI [of _ None] exI [of _ port']) (auto simp: port_inv_def ctl_spec_def)
      qed
    next
      case 3
      then show ?thesis using look assms(1) None by (simp add: epoll_ctl_def ctl_spec_def)
    qed
  next
    case (Some f)
    obtain x where x: "sock_lookup port s = Some x" "x \<noteq> NULL" using lookup_some [OF Some] by blast
    consider "op = EPOLL_CTL_MOD" | "op = EPOLL_CTL_DEL" | "op \<noteq> EPOLL_CTL_MOD" "op \<noteq> EPOLL_CTL_DEL" by blast
    then show ?thesis
    proof cases
      case 1
      then show ?thesis using ctl_mod [OF inv Some, of ret room ev d] Some by (auto simp: ctl_spec_def port_inv_def ops)
    next
      case 2
      obtain port' cs' where "epoll_ctl ret room port EPOLL_CTL_DEL s ev d = Some (0, None, port')" "port_rep port' cs'"
        "registered port' = (registered port)(s := None)" using ctl_del [OF inv Some] by metis
      then show ?thesis
        using 2 Some by (intro exI [of _ 0] exI [of _ None] exI [of _ port']) (auto simp: ctl_spec_def port_inv_def ops)
    next
      case 3
      then show ?thesis using x assms(1) Some by (simp add: epoll_ctl_def ctl_spec_def)
    qed
  qed
qed

text \<open>A new port is in order and empty.\<close>

lemma epoll_create1_empty:
  assumes "epoll_create1 a i b = Some port"
  shows "port_inv port \<and> registered port = Map.empty"
proof -
  have "port_rep port (replicate 64 [])"
    using assms table_inv_empty [of 6 Map.empty] by (auto simp: epoll_create1_def INITIAL_TABLE_SIZE_def port_rep_def split: if_splits)
  then show ?thesis using registered_eqI [of port "replicate 64 []" Map.empty] unfolding port_inv_def by auto
qed

definition demo_port :: epoll_port where
  "demo_port = \<lparr>iocp = 1, sock_table = replicate 64 NULL, sock_table_size = 64, sock_table_used = 0, w_heap = Map.empty, w_keys = []\<rparr>"

lemma demo_port_created: "epoll_create1 True 1 True = Some demo_port"
  by (simp add: epoll_create1_def demo_port_def INITIAL_TABLE_SIZE_def)

lemma demo_port_inv: "port_inv demo_port" and demo_port_none: "registered demo_port = Map.empty"
  using epoll_create1_empty [OF demo_port_created] by auto

theorem epoll_ctl_refines_witness:
  "\<exists>port'. epoll_ctl 4096 True demo_port EPOLL_CTL_ADD 5 1 77 = Some (0, None, port') \<and> port_inv port'
     \<and> registered port' = [5 \<mapsto> (1, 77)]"
proof -
  have "w_heap demo_port 4096 = None" by (simp add: demo_port_def)
  then obtain r err port' where "epoll_ctl 4096 True demo_port EPOLL_CTL_ADD 5 1 77 = Some (r, err, port')" "port_inv port'"
    "(r, err, registered port') = ctl_spec (registered demo_port) EPOLL_CTL_ADD 5 1 77 \<or> no_memory 4096 True demo_port"
    using epoll_ctl_refines [OF demo_port_inv, of 4096 True EPOLL_CTL_ADD 5 1 77] by blast
  moreover have "\<not> no_memory 4096 True demo_port" by (simp add: no_memory_def demo_port_def)
  moreover have "ctl_spec (registered demo_port) EPOLL_CTL_ADD 5 1 77 = (0, None, [5 \<mapsto> (1, 77)])"
    by (simp add: ctl_spec_def demo_port_none)
  ultimately show ?thesis by auto
qed

section \<open>Waiting\<close>

text \<open>What a completion is reported as, if at all.\<close>

definition report :: "epoll_port \<Rightarrow> completion \<Rightarrow> (u32 \<times> u64) option" where
  "report port c = (case c of (ok, key, packet) \<Rightarrow>
     if key = NULL then None
     else case w_heap port key of None \<Rightarrow> None
       | Some e \<Rightarrow> if completion_events ok e = 0 then None else Some (completion_events ok e, sdata e))"

definition live_key :: "epoll_port \<Rightarrow> completion \<Rightarrow> bool" where
  "live_key port c \<longleftrightarrow> fst (snd c) = NULL \<or> w_heap port (fst (snd c)) \<noteq> None"

definition packet_came :: "completion \<Rightarrow> bool" where
  "packet_came c \<longleftrightarrow> fst c \<or> snd (snd c)"

lemma wait_loop_reports:
  assumes "list_all (live_key port) cs" "length evs \<le> k" "evs = [] \<Longrightarrow> ms \<noteq> 0xFFFFFFFF"
  shows "wait_loop port k ms evs cs = Some (take k (evs @ List.map_filter (report port) (takeWhile packet_came cs)))"
  using assms
proof (induction cs arbitrary: evs)
  case (Cons c cs)
  obtain ok key packet where c: "c = (ok, key, packet)" by (cases c)
  consider "length evs = k" | "length evs < k" "\<not> packet_came c" | "length evs < k" "packet_came c" "report port c = None"
    | r where "length evs < k" "packet_came c" "report port c = Some r" using Cons.prems(2) by (cases "report port c") force+
  then show ?case
  proof cases
    case 1
    then show ?thesis using c by simp
  next
    case 2
    then show ?thesis using c by (simp add: packet_came_def map_filter_simps)
  next
    case 3
    then have "wait_loop port k ms evs (c # cs) = wait_loop port k ms evs cs"
      using Cons.prems(1) c by (auto simp: packet_came_def report_def live_key_def split: option.splits if_splits)
    then show ?thesis using Cons 3 by (simp add: map_filter_simps)
  next
    case 4
    then have "wait_loop port k ms evs (c # cs) = wait_loop port k ms (evs @ [r]) cs"
      using Cons.prems(1) c by (auto simp: packet_came_def report_def live_key_def split: option.splits if_splits)
    moreover have "wait_loop port k ms (evs @ [r]) cs = Some (take k ((evs @ [r]) @ List.map_filter (report port) (takeWhile packet_came cs)))"
      using Cons.prems 4(1) by (intro Cons.IH) auto
    ultimately show ?thesis using 4 by (simp add: map_filter_simps)
  qed
qed (simp add: map_filter_simps)


definition demo_listening :: epoll_port where
  "demo_listening = demo_port\<lparr>w_heap := [4096 \<mapsto> \<lparr>sock = 5, registered_events = 1, pending_events = 0, sdata = 77, snext = NULL, deleted = 0\<rparr>]\<rparr>"


text \<open>
  C39 (error): deleting a socket gives back the memory of its entry, while the completion port keeps the
  address of the entry as the key of the socket. A completion that arrives for it afterwards makes
  \<open>epoll_wait\<close> read memory that is no longer allocated.
\<close>

theorem completion_after_delete:
  assumes "port_inv port" "registered port s = None" "ret \<noteq> NULL" "w_heap port ret = None" "sock_table_size port * 16 < 2 ^ 64"
    and "0 < maxevents"
  shows "\<exists>port1 port2. epoll_ctl ret True port EPOLL_CTL_ADD s ev d = Some (0, None, port1)
     \<and> epoll_ctl ret' room port1 EPOLL_CTL_DEL s 0 0 = Some (0, None, port2)
     \<and> (s, ret) \<in> set (w_keys port2) \<and> epoll_wait port2 maxevents timeout ((ok, ret, True) # cs) = None"
proof -
  obtain c where inv: "port_rep port c" using assms(1) unfolding port_inv_def by blast
  obtain port1 cs1 where p1: "epoll_ctl ret True port EPOLL_CTL_ADD s ev d = Some (0, None, port1)" "port_rep port1 cs1"
    "registered port1 = (registered port)(s \<mapsto> (ev, d))" "w_keys port1 = (s, ret) # w_keys port" "info (w_heap port1) ret = Some (s, ev, d)"
    "ret \<in> set (concat cs1)"
    using ctl_add [OF inv assms(2,3,4), of True ev d] assms(5) by metis
  have r: "registered port1 s = Some (ev, d)" using p1(3) by simp
  obtain x port2 where p2: "epoll_ctl ret' room port1 EPOLL_CTL_DEL s 0 0 = Some (0, None, port2)"
    "info (w_heap port1) x = Some (s, ev, d)" "w_heap port2 x = None" "w_keys port2 = w_keys port1"
    using ctl_del [OF p1(2) r] by metis
  have "x = ret"
  proof -
    have "dom (w_heap port1) = set (concat cs1)" "inj_on (skey (w_heap port1)) (set (concat cs1))"
      using p1(2) unfolding port_rep_def distinct_map by blast+
    moreover have "x \<in> dom (w_heap port1)" "ret \<in> dom (w_heap port1)" using p1(5) p2(2) by (auto simp: dom_info)
    ultimately show ?thesis using p1(5) p2(2) by (metis fst_conv inj_onD option.sel)
  qed
  then have "epoll_wait port2 maxevents timeout ((ok, ret, True) # cs) = None"
    using p2(3) assms(3,6) by (simp add: epoll_wait_def)
  moreover have "(s, ret) \<in> set (w_keys port2)" using p2(4) p1(4) by simp
  ultimately show ?thesis using p1(1) p2(1) by blast
qed

theorem completion_after_delete_witness:
  "\<exists>port1 port2. epoll_ctl 4096 True demo_port EPOLL_CTL_ADD 5 1 77 = Some (0, None, port1)
     \<and> epoll_ctl 0 True port1 EPOLL_CTL_DEL 5 0 0 = Some (0, None, port2)
     \<and> (5, 4096) \<in> set (w_keys port2) \<and> epoll_wait port2 16 100 [(True, 4096, True)] = None"
  by (rule completion_after_delete [OF demo_port_inv]) (simp_all add: demo_port_none, simp_all add: demo_port_def)

section \<open>Closing\<close>

lemma free_chain_all: "chain h e xs \<Longrightarrow> distinct xs \<Longrightarrow> free_chain h e = Some (\<lambda>x. if x \<in> set xs then None else h x)"
proof (induction xs arbitrary: h e)
  case (Cons x xs)
  then obtain n where n: "e = x" "x \<noteq> NULL" "h x = Some n" "chain h (snext n) xs" by auto
  have "(h(x := None)) y = h y" if "y \<in> set xs" for y using that Cons.prems(2) by auto
  then have "chain (h(x := None)) (snext n) xs" using n(4) chain_frame [of xs "h(x := None)" h] by blast
  then have "free_chain (h(x := None)) (snext n) = Some (\<lambda>y. if y \<in> set xs then None else (h(x := None)) y)"
    using Cons.IH Cons.prems(2) by (meson distinct.simps(2))
  moreover have "(\<lambda>y. if y \<in> set xs then None else (h(x := None)) y) = (\<lambda>y. if y \<in> set (x # xs) then None else h y)" by auto
  ultimately show ?case using n(1-3) by (subst free_chain.simps) simp
qed (simp add: free_chain.simps)

lemma free_chains_all:
  "list_all2 (chain h) es cs \<Longrightarrow> distinct (concat cs) \<Longrightarrow> free_chains h es = Some (\<lambda>x. if x \<in> set (concat cs) then None else h x)"
proof (induction es arbitrary: h cs)
  case (Cons e es)
  then obtain c cs' where cs: "cs = c # cs'" "chain h e c" "list_all2 (chain h) es cs'" by (auto simp: list_all2_Cons1)
  have d: "distinct c" "distinct (concat cs')" "set c \<inter> set (concat cs') = {}" using Cons.prems(2) unfolding cs(1) by (simp_all del: set_concat)
  let ?h = "\<lambda>x. if x \<in> set c then None else h x"
  have "list_all2 (chain ?h) es cs'" using d(3) by (intro chains_frame [OF cs(3)]) (metis disjoint_iff)
  then have "free_chains ?h es = Some (\<lambda>x. if x \<in> set (concat cs') then None else ?h x)" using Cons.IH d(2) by blast
  moreover have "(\<lambda>x. if x \<in> set (concat cs') then None else ?h x) = (\<lambda>x. if x \<in> set (concat cs) then None else h x)"
    unfolding cs(1) by (auto simp del: set_concat)
  ultimately show ?case using free_chain_all [OF cs(2) d(1)] by simp
qed simp

text \<open>
  Closing a port frees every entry exactly once: the walk over all chains ends, meets no
  address that is not allocated, and leaves no entry behind.
\<close>

theorem epoll_close_frees_all:
  assumes "port_inv port"
  shows "epoll_close (Some port) = Some (0, Map.empty)"
proof -
  obtain cs where inv: "port_rep port cs" using assms unfolding port_inv_def by blast
  then have "list_all2 (chain (w_heap port)) (sock_table port) cs" "distinct (concat cs)" and dom: "dom (w_heap port) = set (concat cs)"
    unfolding port_rep_def table_inv_def by blast+
  then have "free_chains (w_heap port) (sock_table port) = Some (\<lambda>x. if x \<in> set (concat cs) then None else w_heap port x)"
    by (intro free_chains_all)
  moreover have "(\<lambda>x. if x \<in> set (concat cs) then None else w_heap port x) = Map.empty" unfolding dom [symmetric] by (auto simp: dom_def)
  ultimately show ?thesis by (simp add: epoll_close_def del: set_concat)
qed

theorem epoll_close_frees_all_witness: "epoll_close (Some demo_port) = Some (0, Map.empty)"
  by (rule epoll_close_frees_all [OF demo_port_inv])

section \<open>Event masks\<close>

text \<open>The two conversions, which nothing calls, agree on what can be asked for.\<close>

lemma afd_round_trip:
  "afd_to_epoll_events (epoll_events_to_afd ev) =
     (if ev AND (WEPOLLIN OR WEPOLLRDNORM) \<noteq> 0 then WEPOLLIN else 0) OR (if ev AND (WEPOLLOUT OR WEPOLLWRNORM) \<noteq> 0 then WEPOLLOUT else 0)
     OR (if ev AND WEPOLLRDHUP \<noteq> 0 then WEPOLLRDHUP OR WEPOLLIN else 0) OR WEPOLLERR OR WEPOLLHUP"
  unfolding epoll_events_to_afd_def afd_to_epoll_events_def
  by (cases "ev AND (WEPOLLIN OR WEPOLLRDNORM) = 0"; cases "ev AND (WEPOLLOUT OR WEPOLLWRNORM) = 0"; cases "ev AND WEPOLLRDHUP = 0")
    (simp_all only: simp_thms if_True if_False, simp_all)

end
