(* ===== verification/Compat.thy ===== *)
theory Compat
  imports Prelude "HOL-Library.Signed_Division"
begin

text \<open>
  The rest of the Windows layer that computes something: the memory maps of \<^verbatim>\<open>src/compat/mman.c\<close> and the
  clock, file control, signal sets and error numbers of \<^verbatim>\<open>src/compat/msvc.h\<close>. What the system returns is
  an argument; the calls made to it are recorded where their arguments or their balance matter.
\<close>

section \<open>Memory maps\<close>

definition PROT_NONE :: "32 word" where "PROT_NONE = 0"
definition PROT_READ :: "32 word" where "PROT_READ = 1"
definition PROT_WRITE :: "32 word" where "PROT_WRITE = 2"
definition PROT_EXEC :: "32 word" where "PROT_EXEC = 4"
definition MAP_SHARED :: "32 word" where "MAP_SHARED = 1"
definition MAP_PRIVATE :: "32 word" where "MAP_PRIVATE = 2"
definition MAP_ANONYMOUS :: "32 word" where "MAP_ANONYMOUS = 32"
definition MAP_FAILED :: u64 where "MAP_FAILED = - 1"

datatype win_page = PAGE_NOACCESS | PAGE_READONLY | PAGE_READWRITE | PAGE_EXECUTE_READ | PAGE_EXECUTE_READWRITE
datatype win_access = FILE_MAP_READ | FILE_MAP_WRITE

definition prot_to_page :: "32 word \<Rightarrow> 32 word \<Rightarrow> win_page" where
  "prot_to_page prot flags =
     (if prot = PROT_NONE then PAGE_NOACCESS
      else if prot AND PROT_EXEC \<noteq> 0 then (if prot AND PROT_WRITE \<noteq> 0 then PAGE_EXECUTE_READWRITE else PAGE_EXECUTE_READ)
      else if prot AND PROT_WRITE \<noteq> 0 then (if flags AND MAP_SHARED \<noteq> 0 then PAGE_READWRITE else PAGE_READWRITE)
      else PAGE_READONLY)"

definition prot_to_access :: "32 word \<Rightarrow> win_access" where
  "prot_to_access prot =
     (if prot AND PROT_WRITE \<noteq> 0 then FILE_MAP_WRITE else if prot AND PROT_READ \<noteq> 0 then FILE_MAP_READ else FILE_MAP_READ)"

text \<open>
  The calls to the system with their arguments, and what the system answers in \<open>mmap\<close>: the address of
  \<^verbatim>\<open>VirtualAlloc\<close>, the handle of the descriptor, the handle of the mapping and the address of the view. A
  failure is \<open>0\<close>, or all ones for the handle of the descriptor.
\<close>

datatype win_call = VirtualAlloc u64 win_page | CreateFileMapping u64 win_page u32 u32 | MapViewOfFile u64 win_access u32 u32 u64
  | CloseHandle u64 | UnmapViewOfFile u64 | VirtualFree u64

record map_env =
  me_alloc :: u64
  me_fh :: u64
  me_fmap :: u64
  me_view :: u64

datatype errno = EINVAL | ENOMEM | EBADF | EIO | EACCES | EAGAIN | EINPROGRESS | ECONNREFUSED | ETIMEDOUT | EHOSTUNREACH

definition mmap :: "map_env \<Rightarrow> u64 \<Rightarrow> 32 word \<Rightarrow> 32 word \<Rightarrow> u64 \<Rightarrow> u64 \<times> errno option \<times> win_call list" where
  "mmap me len prot flags off =
     (if len = 0 then (MAP_FAILED, Some EINVAL, [])
      else if flags AND MAP_ANONYMOUS \<noteq> 0 then
        (let calls = [VirtualAlloc len (prot_to_page prot flags)] in
         if me_alloc me = 0 then (MAP_FAILED, Some ENOMEM, calls) else (me_alloc me, None, calls))
      else if me_fh me = - 1 then (MAP_FAILED, Some EBADF, [])
      else
        (let size_hi = ucast (drop_bit 32 (len + off)); size_lo = ucast ((len + off) AND 0xFFFFFFFF);
             calls = [CreateFileMapping (me_fh me) (prot_to_page prot flags) size_hi size_lo] in
         if me_fmap me = 0 then (MAP_FAILED, Some ENOMEM, calls)
         else
           (let off_hi = ucast (drop_bit 32 off); off_lo = ucast (off AND 0xFFFFFFFF);
                calls = calls @ [MapViewOfFile (me_fmap me) (prot_to_access prot) off_hi off_lo len] in
            if me_view me = 0 then (MAP_FAILED, Some ENOMEM, calls @ [CloseHandle (me_fmap me)])
            else (me_view me, None, calls))))"

text \<open>The arguments say whether the two calls succeed.\<close>

definition munmap :: "bool \<Rightarrow> bool \<Rightarrow> u64 \<Rightarrow> int \<times> errno option \<times> win_call list" where
  "munmap unmapped freed a =
     (if a = 0 then (-1, Some EINVAL, [])
      else if unmapped then (0, None, [UnmapViewOfFile a])
      else if freed then (0, None, [UnmapViewOfFile a, VirtualFree a])
      else (-1, Some EINVAL, [UnmapViewOfFile a, VirtualFree a]))"

definition msync :: "bool \<Rightarrow> int \<times> errno option" where
  "msync flushed = (if flushed then (0, None) else (-1, Some EIO))"

definition mprotect :: "(win_page \<Rightarrow> bool) \<Rightarrow> 32 word \<Rightarrow> int \<times> errno option" where
  "mprotect protects prot = (if protects (prot_to_page prot MAP_PRIVATE) then (0, None) else (-1, Some EACCES))"

section \<open>Clock\<close>

definition CLOCK_MONOTONIC :: int where "CLOCK_MONOTONIC = 1"

text \<open>
  The counter and its frequency are signed 64-bit numbers, the system time a count of 100 ns since
  1601. The result is \<open>None\<close> for a frequency of 0, where the division traps; the product wraps at 64
  bits, and the nanoseconds are a \<^verbatim>\<open>long\<close>, of 32 bits.
\<close>

definition clock_gettime :: "int \<Rightarrow> int \<Rightarrow> int \<Rightarrow> u32 \<Rightarrow> u32 \<Rightarrow> (int \<times> int) option" where
  "clock_gettime clk freq cnt hi lo =
     (if clk = CLOCK_MONOTONIC then
        (if freq = 0 then None
         else Some (cnt sdiv freq,
           sint (of_int (sint (of_int ((cnt smod freq) * 1000000000) :: i64) sdiv freq) :: 32 word)))
      else
        (let t = (push_bit 32 (ucast hi) OR ucast lo) - 116444736000000000 :: u64 in
         Some (sint (t div 10000000), sint (ucast ((t mod 10000000) * 100) :: 32 word))))"

section \<open>Descriptors, signals and errors\<close>

definition F_GETFL :: int where "F_GETFL = 3"
definition F_SETFL :: int where "F_SETFL = 4"
definition O_NONBLOCK :: "32 word" where "O_NONBLOCK = 0x4000"

text \<open>The argument \<open>ioctl\<close> is what setting the mode of the socket returns.\<close>

definition vc_fcntl :: "(bool \<Rightarrow> int) \<Rightarrow> int \<Rightarrow> 32 word \<Rightarrow> int" where
  "vc_fcntl ioctl cmd a =
     (if cmd = F_SETFL \<and> a AND O_NONBLOCK \<noteq> 0 then (if ioctl True = 0 then 0 else -1)
      else if cmd = F_SETFL \<and> a AND O_NONBLOCK = 0 then (if ioctl False = 0 then 0 else -1)
      else if cmd = F_GETFL then 0
      else -1)"

definition sigemptyset :: "u32 \<Rightarrow> int \<times> u32" where
  "sigemptyset s = (0, 0)"

definition sigaddset :: "u32 \<Rightarrow> nat \<Rightarrow> int \<times> u32" where
  "sigaddset s sig = (0, s OR push_bit sig 1)"

datatype wsa_error = WSAEWOULDBLOCK | WSAEINPROGRESS | WSAECONNREFUSED | WSAETIMEDOUT | WSAEHOSTUNREACH | WSA_OTHER int

fun vc_socket_errno :: "wsa_error \<Rightarrow> errno" where
  "vc_socket_errno WSAEWOULDBLOCK = EAGAIN"
| "vc_socket_errno WSAEINPROGRESS = EINPROGRESS"
| "vc_socket_errno WSAECONNREFUSED = ECONNREFUSED"
| "vc_socket_errno WSAETIMEDOUT = ETIMEDOUT"
| "vc_socket_errno WSAEHOSTUNREACH = EHOSTUNREACH"
| "vc_socket_errno (WSA_OTHER e) = EIO"

section \<open>What holds of them\<close>

lemma sint_small: "- (2 ^ 63) \<le> x \<Longrightarrow> x < 2 ^ 63 \<Longrightarrow> sint (of_int x :: i64) = x"
  by (simp add: signed_of_int signed_take_bit_int_eq_self)

lemma sdiv_pos: "(0 :: int) < f \<Longrightarrow> 0 \<le> c \<Longrightarrow> c sdiv f = c div f \<and> c smod f = c mod f"
  by (cases "c = 0") (simp_all add: signed_divide_int_def signed_modulo_int_def)

lemma nanos_bound:
  assumes "(0 :: int) < freq"
  shows "0 \<le> (c mod freq) * 1000000000 div freq" "(c mod freq) * 1000000000 div freq < 1000000000"
proof -
  have m: "0 \<le> c mod freq" "c mod freq < freq" using assms by simp_all
  then show "0 \<le> (c mod freq) * 1000000000 div freq" using assms by (simp add: pos_imp_zdiv_nonneg_iff)
  have "(c mod freq) * 1000000000 div freq * freq \<le> (c mod freq) * 1000000000"
    using div_mult_mod_eq [of "(c mod freq) * 1000000000" freq] pos_mod_sign [OF assms, of "(c mod freq) * 1000000000"] by linarith
  also have "\<dots> < 1000000000 * freq" using m by simp
  finally show "(c mod freq) * 1000000000 div freq < 1000000000" using assms by (metis mult_less_cancel_right_pos)
qed

lemma clock_value:
  assumes "0 < freq" "freq \<le> 9000000000" "0 \<le> cnt"
  shows "clock_gettime CLOCK_MONOTONIC freq cnt hi lo = Some (cnt div freq, (cnt mod freq) * 1000000000 div freq)"
proof -
  have m: "0 \<le> cnt mod freq" "cnt mod freq < freq" using assms(1) by simp_all
  have "(cnt mod freq) * 1000000000 \<le> 9000000000 * 1000000000" using m assms(2) by (intro mult_right_mono) simp_all
  then have p: "sint (of_int ((cnt mod freq) * 1000000000) :: i64) = (cnt mod freq) * 1000000000"
    using m by (intro sint_small) simp_all
  have "sint (of_int ((cnt mod freq) * 1000000000 div freq) :: 32 word) = (cnt mod freq) * 1000000000 div freq"
    using nanos_bound [OF assms(1), of cnt] by (simp add: signed_of_int signed_take_bit_int_eq_self)
  moreover have "cnt sdiv freq = cnt div freq" "cnt smod freq = cnt mod freq"
    using sdiv_pos [OF assms(1,3)] by simp_all
  moreover have "((cnt mod freq) * 1000000000) sdiv freq = (cnt mod freq) * 1000000000 div freq"
    using sdiv_pos [OF assms(1)] m by simp
  ultimately show ?thesis using assms(1) p by (simp add: clock_gettime_def)
qed

text \<open>
  Up to a frequency of 9 GHz, seconds and nanoseconds of the monotonic clock are the exact
  time of the counter, rounded down to the nanosecond, the nanoseconds below one second; so the clock
  never runs backwards.
\<close>

theorem clock_monotonic:
  assumes "0 < freq" "freq \<le> 9000000000" "0 \<le> cnt" "cnt \<le> cnt'"
  shows "\<exists>s n s' n'. clock_gettime CLOCK_MONOTONIC freq cnt hi lo = Some (s, n)
     \<and> clock_gettime CLOCK_MONOTONIC freq cnt' hi' lo' = Some (s', n')
     \<and> 0 \<le> n \<and> n < 1000000000 \<and> s * 1000000000 + n = cnt * 1000000000 div freq
     \<and> s * 1000000000 + n \<le> s' * 1000000000 + n'"
proof -
  have time: "c div freq * 1000000000 + (c mod freq) * 1000000000 div freq = c * 1000000000 div freq" for c
  proof -
    define q r where "q = c div freq" and "r = c mod freq"
    have "c = q * freq + r" by (simp add: q_def r_def)
    then have "c * 1000000000 = r * 1000000000 + (q * 1000000000) * freq" by (simp only: distrib_right mult_ac add.commute)
    moreover have "(r * 1000000000 + (q * 1000000000) * freq) div freq = q * 1000000000 + r * 1000000000 div freq"
      using assms(1) by (intro div_mult_self1) simp
    ultimately have "c * 1000000000 div freq = q * 1000000000 + r * 1000000000 div freq" by (simp only:)
    then show ?thesis by (simp only: q_def r_def)
  qed
  have "cnt * 1000000000 div freq \<le> cnt' * 1000000000 div freq" using assms(1,4) by (intro zdiv_mono1) simp_all
  then show ?thesis using assms time nanos_bound [OF assms(1), of cnt] by (simp add: clock_value)
qed

theorem clock_monotonic_witness:
  "\<exists>s n s' n'. clock_gettime CLOCK_MONOTONIC 10000000 25000001 0 0 = Some (s, n)
     \<and> clock_gettime CLOCK_MONOTONIC 10000000 40000000 0 0 = Some (s', n')
     \<and> s * 1000000000 + n = 2500000100 \<and> s * 1000000000 + n \<le> s' * 1000000000 + n'"
  using clock_monotonic [of 10000000 25000001 40000000 0 0 0 0] by auto

text \<open>The 64-bit size and offset of a file mapping reach the system whole, in two halves.\<close>

lemma halves: "push_bit 32 (ucast (ucast (drop_bit 32 x) :: u32)) OR ucast (ucast (x AND 0xFFFFFFFF) :: u32) = (x :: u64)"
proof -
  have "(0xFFFFFFFF :: u64) = mask 32" by (simp add: mask_eq_exp_minus_1)
  then have "bit (push_bit 32 (ucast (ucast (drop_bit 32 x) :: u32)) OR ucast (ucast (x AND 0xFFFFFFFF) :: u32) :: u64) n = bit x n"
    if "n < LENGTH(64)" for n
    using that by (cases "n < 32") (simp_all only: bit_simps, auto)
  then show ?thesis by (rule bit_word_eqI)
qed

text \<open>
  A failed mapping leaves no handle open; a file mapping that succeeds leaves the handle of the mapping
  open, and unmapping it makes no call that closes it.
\<close>

definition opened :: "u64 \<Rightarrow> win_call list \<Rightarrow> nat" where
  "opened h cs = length (filter (\<lambda>c. \<exists>x a b n. c = MapViewOfFile h x a b n) cs)"

definition closed :: "u64 \<Rightarrow> win_call list \<Rightarrow> nat" where
  "closed h cs = length (filter (\<lambda>c. c = CloseHandle h) cs)"

lemma mmap_handles:
  "mmap me len prot flags off = (a, err, cs) \<Longrightarrow>
     (if err \<noteq> None \<or> flags AND MAP_ANONYMOUS \<noteq> 0 then opened h cs = closed h cs
      else opened (me_fmap me) cs = 1 \<and> closed (me_fmap me) cs = 0)"
  by (auto simp: mmap_def opened_def closed_def Let_def split: if_splits)

lemma munmap_closes_nothing: "munmap u f a = (r, err, cs) \<Longrightarrow> closed h cs = 0"
  by (auto simp: munmap_def closed_def split: if_splits)

end
