(* ===== verification/Smoke.thy ===== *)
theory Smoke
  imports CacheThms CString
begin

text \<open>
  The demonstration program \<^verbatim>\<open>src/src/main.c\<close>: it creates a cache, sets, reads, deletes and overwrites keys
  with an assertion after every call, prints the statistics and destroys the cache. The theory shows
  that no assertion fails, with what the refinement theorems say of the operations.
\<close>

section \<open>The program\<close>

text \<open>An assertion ends the program at its line when it does not hold.\<close>

definition assert_at :: "nat \<Rightarrow> bool \<Rightarrow> (nat + 'a) option \<Rightarrow> (nat + 'a) option" where
  "assert_at line b k = (if b then k else Some (Inl line))"

text \<open>What \<^verbatim>\<open>%.*s\<close> prints of a value.\<close>

definition shown_text :: "bytes \<Rightarrow> bytes" where
  "shown_text v = takeWhile (\<lambda>b. b \<noteq> 0) v"

text \<open>
  The result is the line of the assertion that failed, or the output and the memory at the end. The
  calls run with the environments \<open>env 0\<close>, \<open>env 1\<close> and so on; \<open>stats\<close> is the text of the statistics.
\<close>

definition smoke_main :: "(vc_global_stats \<Rightarrow> bytes) \<Rightarrow> create_env \<Rightarrow> (nat \<Rightarrow> env) \<Rightarrow> cmem \<Rightarrow> (nat + bytes \<times> cmem) option" where
  "smoke_main stats ce env m = do {
     (r, m) \<leftarrow> vc_create ce m (256 * 1024 * 1024) False 4096;
     case r of None \<Rightarrow> Some (Inl 15) | Some c \<Rightarrow> do {
     (e, c) \<leftarrow> vc_set (env 0) c (Some (ascii ''greeting'')) (Some (ascii ''hello, world'')) 0;
     assert_at 18 (e = VC_OK) (do {
     (e, c) \<leftarrow> vc_set (env 1) c (Some (ascii ''counter'')) (Some [0, 0, 0, 1]) 0;
     assert_at 19 (e = VC_OK) (do {
     (e, c) \<leftarrow> vc_set (env 2) c (Some (ascii ''ttl_key'')) (Some (ascii ''expires soon'')) 2;
     assert_at 20 (e = VC_OK) (do {
     (e, v, vl, c) \<leftarrow> vc_get (env 3) c (Some (ascii ''greeting''));
     assert_at 24 (e = VC_OK) (do {
     v1 \<leftarrow> cptr_read c v vl;
     (e, c) \<leftarrow> vc_del (env 4) c (Some (ascii ''counter''));
     assert_at 28 (e = VC_OK) (do {
     (e, v, vl, c) \<leftarrow> vc_get (env 5) c (Some (ascii ''counter''));
     assert_at 29 (e = VC_ERR_NOTFND) (do {
     (e, v, vl, c) \<leftarrow> vc_get (env 6) c (Some (ascii ''nope''));
     assert_at 33 (e = VC_ERR_NOTFND) (do {
     (e, c) \<leftarrow> vc_set (env 7) c (Some (ascii ''greeting'')) (Some (ascii ''OVERWRITTEN'')) 0;
     assert_at 37 (e = VC_OK) (do {
     (e, v, vl, c) \<leftarrow> vc_get (env 8) c (Some (ascii ''greeting''));
     assert_at 38 (e = VC_OK) (do {
     v2 \<leftarrow> cptr_read c v vl;
     m \<leftarrow> vc_destroy c;
     Some (Inr (ascii ''VoidCache '' @ [226, 128, 147] @ ascii '' smoke test'' @ [10, 10]
       @ ascii ''greeting  = '' @ [34] @ shown_text v1 @ [34, 10]
       @ ascii ''counter   deleted OK'' @ [10] @ ascii ''nope      not found  OK'' @ [10]
       @ ascii ''greeting  = '' @ [34] @ shown_text v2 @ [34] @ ascii '' (after overwrite)'' @ [10, 10]
       @ stats (vc_stats c) @ [10] @ ascii ''All assertions passed.'' @ [10], m))
     })})})})})})})})})}}"

section \<open>What the operations leave alone\<close>

text \<open>The capacity of every shard, and a log that is switched off.\<close>

definition caps :: "vc_cache \<Rightarrow> u32 list" where
  "caps c = map s_cap (c_shards c)"

lemma insert_loop_cap: "shard_insert_loop n s e h = Some s' \<Longrightarrow> s_cap s' = s_cap s"
  by (induction n arbitrary: s e h) (auto simp: Let_def split: if_splits Option.bind_splits)

lemma insert_cap: "shard_insert s e = Some s' \<Longrightarrow> s_cap s' = s_cap s"
  by (auto simp: shard_insert_def dest: insert_loop_cap)

lemma evict_loop_cap: "shard_evict_loop n m sl s h = Some (r, m', sl', s') \<Longrightarrow> s_cap s' = s_cap s"
proof (induction n arbitrary: s h)
  case (Suc n)
  from Suc.prems show ?case by (auto simp: Let_def split: if_splits Option.bind_splits dest: Suc.IH)
qed simp

lemma evict_cap: "evict_if_full s m sl = Some (s', m', sl') \<Longrightarrow> s_cap s' = s_cap s"
  by (auto simp: evict_if_full_def shard_evict_one_def dest: evict_loop_cap split: if_splits Option.bind_splits)

lemma kill_cap: "kill_slot s m sl i = Some (s', m', sl') \<Longrightarrow> s_cap s' = s_cap s"
  by (auto simp: kill_slot_def split: Option.bind_splits)

lemma lock_cap: "shard_lock s = Some s' \<Longrightarrow> s_cap s' = s_cap s"
  by (auto simp: shard_lock_def split: if_splits)

lemma commit_cap: "set_commit now s m sl key h ne = Some (s', m', sl') \<Longrightarrow> s_cap s' = s_cap s"
  by (auto simp: set_commit_def Let_def seq_write_begin_def seq_write_end_def shard_unlock_def
      dest!: insert_cap evict_cap kill_cap lock_cap split: Option.bind_splits if_splits)

lemma caps_update: "s_cap s' = s_cap (ss ! i) \<Longrightarrow> map s_cap (ss[i := s']) = map s_cap ss"
  by (cases "i < length ss") (simp_all add: map_update list_update_same_conv list_update_beyond)

lemma wal_off: "w_ring w = None \<Longrightarrow> wal_append w op k kl v vl ttl wl = Some w' \<Longrightarrow> w' = w"
  by (simp add: wal_append_def)

lemma build_frame: "set_build env c key val ttl h = Some (e, ne, c') \<Longrightarrow> c_shards c' = c_shards c \<and> c_wal c' = c_wal c"
  by (auto simp: set_build_def Let_def split: if_splits Option.bind_splits prod.splits option.splits)

lemma set_frame:
  assumes "vc_set env c (Some key) (Some val) ttl = Some (e, c')" "w_ring (c_wal c) = None"
  shows "caps c' = caps c \<and> c_wal c' = c_wal c"
  using assms(1)
  by (auto simp: vc_set_def caps_def Let_def nth_opt_def split: if_splits Option.bind_splits
      dest!: wal_off [OF assms(2)] build_frame commit_cap intro!: caps_update)

lemma del_frame:
  assumes "vc_del env c (Some key) = Some (e, c')" "w_ring (c_wal c) = None"
  shows "caps c' = caps c \<and> c_wal c' = c_wal c"
  using assms(1)
  by (auto simp: vc_del_def caps_def Let_def nth_opt_def put_shard_def seq_write_begin_def seq_write_end_def shard_unlock_def
      split: if_splits Option.bind_splits dest!: wal_off [OF assms(2)] kill_cap lock_cap intro!: caps_update)

lemma get_fast_frame: "vc_get_fast n now c key h si = Some (Some (e, p, k, c')) \<Longrightarrow> caps c' = caps c \<and> c_wal c' = c_wal c"
proof (induction n)
  case (Suc n)
  then show ?case
    by (auto simp: nth_opt_def put_shard_def touch_def caps_def split: if_splits Option.bind_splits intro!: caps_update)
qed simp

lemma get_frame:
  assumes "vc_get env c (Some key) = Some (e, p, k, c')"
  shows "caps c' = caps c \<and> c_wal c' = c_wal c"
  using assms
  by (auto simp: vc_get_def vc_get_locked_def Let_def nth_opt_def put_shard_def touch_def shard_unlock_def caps_def
      split: if_splits Option.bind_splits option.splits dest: get_fast_frame dest!: lock_cap intro!: caps_update)

section \<open>Small caches\<close>

text \<open>
  A cache with few keys in shards of 4096 slots: no shard is anywhere near full, so nothing is evicted.
\<close>

definition small :: "vc_cache \<Rightarrow> bool" where
  "small c \<longleftrightarrow> cache_inv c \<and> keys_distinct c \<and> w_ring (c_wal c) = None \<and> caps c = replicate 64 4096"

definition few :: "vc_cache \<Rightarrow> bool" where
  "few c \<longleftrightarrow> finite (dom (cache_map c)) \<and> card (dom (cache_map c)) \<le> 100"

lemma size_part: "x \<in># S \<Longrightarrow> size (f x :: 'b multiset) \<le> size (\<Sum>\<^sub># (image_mset f S))"
  by (auto dest!: multi_member_split)

lemma shard_few:
  assumes "small c" "few c" "i < 64"
  shows "size (lives (s_table (c_shards c ! i))) \<le> 100"
proof -
  have len: "length (c_shards c) = 64" using assms(1) by (simp add: small_def cache_inv_def)
  then have "size (lives (s_table (c_shards c ! i))) \<le> size (shards_lives (mset (c_shards c)))"
    unfolding shards_lives_def using assms(3) by (intro size_part) simp
  also have "\<dots> = length (cache_list c)" using arg_cong [OF mset_cache_list, of size] by simp
  also have "\<dots> = card (dom (cache_map c))"
    using assms(1) distinct_card [of "map fst (cache_list c)"]
    by (simp add: small_def keys_distinct_def cache_map_def dom_map_of_conv_image_fst)
  also have "\<dots> \<le> 100" using assms(2) by (simp add: few_def)
  finally show ?thesis .
qed

lemma shard_free:
  assumes "small c" "few c" "i < 64"
  shows "can_make_room (c_shards c ! i)" "s_count (c_shards c ! i) * 100 div s_cap (c_shards c ! i) < 85"
proof -
  let ?s = "c_shards c ! i"
  have len: "length (c_shards c) = 64" and ok: "shard_inv (c_mem c) i ?s"
    using assms(1,3) by (simp_all add: small_def cache_inv_def)
  have "map s_cap (c_shards c) ! i = replicate 64 4096 ! i" using assms(1) by (simp add: small_def caps_def)
  then have cap: "s_cap ?s = 4096" using assms(3) len by simp
  then have T: "length (s_table ?s) = 4096" using ok by (simp add: shard_inv_def shard_ok_def)
  have "has_room (s_table ?s)"
  proof (rule ccontr)
    assume "\<not> has_room (s_table ?s)"
    then show False using full_lives shard_few [OF assms] T by fastforce
  qed
  then show "can_make_room ?s" by (simp add: can_make_room_def)
  define k where "k = size (lives (s_table ?s))"
  have k: "k \<le> 100" using shard_few [OF assms] by (simp add: k_def)
  have "s_count ?s = of_nat k" using ok by (simp add: shard_inv_def count_ok_def k_def)
  moreover have "unat (of_nat k * 100 :: u32) = k * 100"
    using k by (simp add: unat_word_ariths unsigned_of_nat take_bit_nat_eq_self)
  then have "unat (of_nat k * 100 div (4096 :: u32)) \<le> 2" using k by (simp add: unat_div)
  ultimately show "s_count ?s * 100 div s_cap ?s < 85" using cap by (simp add: word_less_nat_alt)
qed

lemma small_set:
  assumes c: "small c" "few c" and env: "ret_malloc env = None" "ret_mmap env = None"
    and kv: "key \<noteq> []" "val \<noteq> []" "length key + length val \<le> 32" and st: "not_stale c (clk2 env) key"
  shows "\<exists>c'. vc_set env c (Some key) (Some val) ttl = Some (VC_OK, c') \<and> small c'
     \<and> cache_map c' key = Some (val, set_expiry env ttl)
     \<and> (cache_map c key = None \<longrightarrow> cache_map c' = (cache_map c)(key \<mapsto> (val, set_expiry env ttl)))"
proof -
  have i: "shard_of key < 64" by (rule shard_idx_less)
  have inv: "cache_inv c" "keys_distinct c" "w_ring (c_wal c) = None" using c(1) by (simp_all add: small_def)
  have eo: "env_ok (c_mem c) env" using env by (simp add: env_ok_def)
  have len: "length key < 2 ^ 32" using kv(3) by simp
  have wal: "wal_accepts (c_wal c) key val" using inv(3) by (simp add: wal_accepts_def)
  have mem: "alloc_fails env (c_slab c) key val = False" using kv(3) by (simp add: alloc_fails_def)
  note set = set_refines [OF inv(1,2) eo kv(1,2) len wal shard_free(1) [OF c i] st, of ttl, unfolded mem if_False]
  obtain c' V where r: "vc_set env c (Some key) (Some val) ttl = Some (VC_OK, c')" "cache_inv c'" "keys_distinct c'" "key \<notin> V"
    "cache_map c key = None \<longrightarrow> V = {}" "cache_map c' = (cache_map c |` (- V))(key \<mapsto> (take 65535 val, set_expiry env ttl))"
    using set shard_free(2) [OF c i] by blast
  have "small c'" using r(2,3) set_frame [OF r(1) inv(3)] c(1) by (simp add: small_def)
  moreover have "take 65535 val = val" using kv(3) by simp
  ultimately show ?thesis using r by auto
qed

lemma small_get:
  assumes c: "small c" and key: "length key < 2 ^ 32" and clk: "sint (clk1 env) \<le> sint (clk2 env)"
  shows "\<exists>err p n c'. vc_get env c (Some key) = Some (err, p, n, c') \<and> small c' \<and> cache_map c' = cache_map c
     \<and> (\<forall>v. cache_map c key = Some (v, 0) \<longrightarrow> err = VC_OK \<and> cptr_read c' p n = Some v)
     \<and> (cache_map c key = None \<longrightarrow> err = VC_ERR_NOTFND)"
proof -
  obtain err p n c' where r: "vc_get env c (Some key) = Some (err, p, n, c')" "cache_inv c'" "mset (cache_list c') = mset (cache_list c)"
    "err = VC_OK \<and> (\<exists>v. visible (cache_map c) (clk1 env) key = Some v \<and> n = length v \<and> cptr_read c' p n = Some v)
        \<or> err = VC_ERR_NOTFND \<and> (visible (cache_map c) (clk1 env) key = None \<or> visible (cache_map c) (clk2 env) key = None)"
    using get_refines [of c key env] c key by (auto simp: small_def)
  have "cache_map c' = cache_map c" "keys_distinct c'" using cache_map_cong [OF r(3)] c by (auto simp: small_def)
  moreover have "small c'" using calculation r(2) get_frame [OF r(1)] c by (simp add: small_def)
  moreover have "visible (cache_map c) t key = Some v" if "cache_map c key = Some (v, 0)" for t v
    using that by (simp add: visible_def expired_at_def)
  moreover have "visible (cache_map c) t key = None" if "cache_map c key = None" for t
    using that by (simp add: visible_def)
  ultimately show ?thesis using r(1,4) by (intro exI conjI) (assumption | fastforce)+
qed

lemma small_del:
  assumes c: "small c" and key: "length key < 2 ^ 32" and "cache_map c key = Some (v, 0)"
  shows "\<exists>c'. vc_del env c (Some key) = Some (VC_OK, c') \<and> small c' \<and> cache_map c' = (cache_map c)(key := None)"
proof -
  have inv: "cache_inv c" "keys_distinct c" "w_ring (c_wal c) = None" using c by (simp_all add: small_def)
  have "wal_accepts (c_wal c) key []" using inv(3) by (simp add: wal_accepts_def)
  then obtain c' where r: "vc_del env c (Some key) = Some (VC_OK, c')" "cache_inv c'" "keys_distinct c'" "cache_map c' = (cache_map c)(key := None)"
    using del_refines [OF inv(1,2) key, of env] assms(3) by (auto simp: visible_def expired_at_def)
  then show ?thesis using del_frame [OF r(1) inv(3)] c by (simp add: small_def)
qed

lemma small_create:
  assumes "create_ok ce m False" "blocks m = Map.empty"
  shows "\<exists>c m'. vc_create ce m mm False 4096 = Some (Some c, m') \<and> small c \<and> cache_map c = Map.empty"
proof -
  obtain c m' where c: "vc_create ce m mm False 4096 = Some (Some c, m')" "cache_inv c" "shards_lives (mset (c_shards c)) = {#}"
    "\<forall>i<64. s_cap (c_shards c ! i) = next_pow2_32 (if (4096 :: u32) \<noteq> 0 then 4096 else 1024)"
    using vc_create_ok [OF assms, of 4096 mm] by auto
  have "cache_list c = []" using c(3) mset_cache_list [of c] by simp
  moreover have "next_pow2_32 4096 = 4096" by code_simp
  then have "caps c = replicate 64 4096" using c(2,4) by (intro nth_equalityI) (simp_all add: caps_def cache_inv_def)
  moreover have "w_ring (c_wal c) = None"
    using c(1) by (auto simp: vc_create_def wal_init_def Let_def split: if_splits Option.bind_splits option.splits)
  ultimately show ?thesis using c(1,2) by (simp add: small_def keys_distinct_def cache_map_def)
qed

section \<open>The run\<close>

lemma few_upd: "cache_map c' = M \<Longrightarrow> finite (dom M) \<Longrightarrow> card (dom M) \<le> 100 \<Longrightarrow> few c'"
  by (simp add: few_def)

lemma ascii_empty [simp]: "ascii s = [] \<longleftrightarrow> s = []"
  by (simp add: ascii_def)

lemma text_differs:
  "ascii ''greeting'' \<noteq> ascii ''counter''" "ascii ''greeting'' \<noteq> ascii ''ttl_key''" "ascii ''counter'' \<noteq> ascii ''ttl_key''"
  "ascii ''nope'' \<noteq> ascii ''greeting''" "ascii ''nope'' \<noteq> ascii ''ttl_key''"
  by (simp_all add: ascii_def)

text \<open>
  C17 (functional): the demonstration program runs through. From a memory in which the cache can be
  created, with a clock that does not run backwards within a lookup and an allocator that may refuse
  everything afterwards, no assertion fails, the two values printed are the one set first and the one
  it was overwritten with, and at the end no memory is allocated outside the slabs.
\<close>

theorem smoke_passes:
  assumes "create_ok ce m False" "blocks m = Map.empty"
    and "\<forall>i. ret_malloc (env i) = None \<and> ret_mmap (env i) = None \<and> sint (clk1 (env i)) \<le> sint (clk2 (env i))"
  shows "\<exists>out st m'. smoke_main stats ce env m = Some (Inr (out, m'))
     \<and> out = ascii ''VoidCache '' @ [226, 128, 147] @ ascii '' smoke test'' @ [10, 10]
         @ ascii ''greeting  = '' @ [34] @ ascii ''hello, world'' @ [34, 10]
         @ ascii ''counter   deleted OK'' @ [10] @ ascii ''nope      not found  OK'' @ [10]
         @ ascii ''greeting  = '' @ [34] @ ascii ''OVERWRITTEN'' @ [34] @ ascii '' (after overwrite)'' @ [10, 10]
         @ stats st @ [10] @ ascii ''All assertions passed.'' @ [10]
     \<and> (\<forall>p k bs. blocks m' p = Some (k, bs) \<longrightarrow> k = SlabBlk)"
proof -
  let ?g = "ascii ''greeting''" and ?k = "ascii ''counter''" and ?t = "ascii ''ttl_key''" and ?n = "ascii ''nope''"
  have env: "ret_malloc (env i) = None" "ret_mmap (env i) = None" "sint (clk1 (env i)) \<le> sint (clk2 (env i))" for i using assms(3) by auto
  have ex: "set_expiry e 0 = 0" for e by (simp add: set_expiry_def)
  obtain c0 m0 where c0: "vc_create ce m (256 * 1024 * 1024) False 4096 = Some (Some c0, m0)" "small c0" "cache_map c0 = Map.empty"
    using small_create [OF assms(1,2)] by blast
  obtain c1 where c1: "vc_set (env 0) c0 (Some ?g) (Some (ascii ''hello, world'')) 0 = Some (VC_OK, c1)" "small c1"
    "cache_map c1 = [?g \<mapsto> (ascii ''hello, world'', 0)]"
    using small_set [OF c0(2) _ env(1) [of 0] env(2) [of 0], where key = ?g and val = "ascii ''hello, world''" and ttl = 0] c0(3) ex
    by (auto simp: few_def not_stale_def ascii_def)
  obtain c2 where c2: "vc_set (env 1) c1 (Some ?k) (Some [0, 0, 0, 1]) 0 = Some (VC_OK, c2)" "small c2"
    "cache_map c2 = [?g \<mapsto> (ascii ''hello, world'', 0), ?k \<mapsto> ([0, 0, 0, 1], 0)]"
    using small_set [OF c1(2) few_upd [OF c1(3)] env(1) [of 1] env(2) [of 1], where key = ?k and val = "[0, 0, 0, 1]" and ttl = 0] text_differs ex
    by (auto simp: c1(3) not_stale_def)
  obtain x c3 where c3: "vc_set (env 2) c2 (Some ?t) (Some (ascii ''expires soon'')) 2 = Some (VC_OK, c3)" "small c3"
    "cache_map c3 = [?g \<mapsto> (ascii ''hello, world'', 0), ?k \<mapsto> ([0, 0, 0, 1], 0), ?t \<mapsto> (ascii ''expires soon'', x)]"
    using small_set [OF c2(2) few_upd [OF c2(3)] env(1) [of 2] env(2) [of 2], where key = ?t and val = "ascii ''expires soon''" and ttl = 2] text_differs
    by (auto simp: c2(3) not_stale_def)
  obtain p4 n4 c4 where c4: "vc_get (env 3) c3 (Some ?g) = Some (VC_OK, p4, n4, c4)" "small c4" "cache_map c4 = cache_map c3"
    "cptr_read c4 p4 n4 = Some (ascii ''hello, world'')"
    using small_get [OF c3(2) _ env(3) [of 3], of ?g] text_differs by (auto simp: c3(3))
  obtain c5 where c5: "vc_del (env 4) c4 (Some ?k) = Some (VC_OK, c5)" "small c5" "cache_map c5 = (cache_map c3)(?k := None)"
    using small_del [OF c4(2), of ?k "[0, 0, 0, 1]" "env 4"] c4(3) text_differs by (auto simp: c3(3))
  obtain p6 n6 c6 where c6: "vc_get (env 5) c5 (Some ?k) = Some (VC_ERR_NOTFND, p6, n6, c6)" "small c6" "cache_map c6 = cache_map c5"
    using small_get [OF c5(2) _ env(3) [of 5], of ?k] by (auto simp: c5(3))
  obtain p7 n7 c7 where c7: "vc_get (env 6) c6 (Some ?n) = Some (VC_ERR_NOTFND, p7, n7, c7)" "small c7" "cache_map c7 = cache_map c5"
    using small_get [OF c6(2) _ env(3) [of 6], of ?n] c6(3) text_differs by (auto simp: c5(3) c3(3))
  have m7: "cache_map c7 ?g = Some (ascii ''hello, world'', 0)" using c7(3) c5(3) c3(3) text_differs by simp
  have "few c7" using c7(3) by (intro few_upd [OF c7(3)]) (simp_all add: c5(3) c3(3) insert_Diff_if card_insert_if)
  then obtain c8 where c8: "vc_set (env 7) c7 (Some ?g) (Some (ascii ''OVERWRITTEN'')) 0 = Some (VC_OK, c8)" "small c8"
    "cache_map c8 ?g = Some (ascii ''OVERWRITTEN'', 0)"
    using small_set [OF c7(2) _ env(1) [of 7] env(2) [of 7], where key = ?g and val = "ascii ''OVERWRITTEN''" and ttl = 0] m7 ex
    by (auto simp: not_stale_def expired_at_def ascii_def)
  obtain p9 n9 c9 where c9: "vc_get (env 8) c8 (Some ?g) = Some (VC_OK, p9, n9, c9)" "small c9"
    "cptr_read c9 p9 n9 = Some (ascii ''OVERWRITTEN'')"
    using small_get [OF c8(2) _ env(3) [of 8], of ?g] c8(3) by auto
  obtain m' where m': "vc_destroy c9 = Some m'" "\<forall>p k bs. blocks m' p = Some (k, bs) \<longrightarrow> k = SlabBlk"
    using destroy_releases [of c9] c9(2) by (auto simp: small_def)
  have tx: "shown_text (ascii ''hello, world'') = ascii ''hello, world''" "shown_text (ascii ''OVERWRITTEN'') = ascii ''OVERWRITTEN''"
    by (simp_all add: shown_text_def ascii_def)
  have "smoke_main stats ce env m = Some (Inr (ascii ''VoidCache '' @ [226, 128, 147] @ ascii '' smoke test'' @ [10, 10]
       @ ascii ''greeting  = '' @ [34] @ ascii ''hello, world'' @ [34, 10]
       @ ascii ''counter   deleted OK'' @ [10] @ ascii ''nope      not found  OK'' @ [10]
       @ ascii ''greeting  = '' @ [34] @ ascii ''OVERWRITTEN'' @ [34] @ ascii '' (after overwrite)'' @ [10, 10]
       @ stats (vc_stats c9) @ [10] @ ascii ''All assertions passed.'' @ [10], m'))"
    unfolding smoke_main_def assert_at_def c0(1)
    by (simp only: Option.bind.bind_lunit prod.case option.case simp_thms if_True c1(1) c2(1) c3(1) c4(1,4) c5(1) c6(1) c7(1) c8(1) c9(1,3) m'(1) tx)
  then show ?thesis using m'(2) by blast
qed

theorem smoke_passes_witness:
  "\<exists>out m'. smoke_main (\<lambda>_. []) demo_create (\<lambda>_. demo_env\<lparr>ret_malloc := None, ret_mmap := None\<rparr>) \<lparr>blocks = Map.empty, tails = []\<rparr>
     = Some (Inr (out, m'))"
proof -
  let ?e = "demo_env\<lparr>ret_malloc := None, ret_mmap := None\<rparr>"
  have "\<forall>i :: nat. ret_malloc ?e = None \<and> ret_mmap ?e = None \<and> sint (clk1 ?e) \<le> sint (clk2 ?e)" by (simp add: demo_env_def)
  then show ?thesis using smoke_passes [OF demo_create_ok, of "\<lambda>_. ?e" "\<lambda>_. []"] by auto
qed

end
