(* ===== verification/Spec2Isabelle.thy ===== *)
theory Spec2Isabelle
  imports CacheThms Resp Value Auth CounterThms TypedThms ServerBoot ClusterWire VcliWire VcliOpts Interleave Treiber WepollCtl Compat Smoke
begin

text \<open>
  VoidCache is an in-memory key-value cache in C: a storage engine (\<^verbatim>\<open>src/src/voidcache.c\<close>), a reader
  and writer of the RESP protocol (\<^verbatim>\<open>src/net/proto.c\<close>), users and permissions (\<^verbatim>\<open>src/net/auth.c\<close>), the
  commands (\<^verbatim>\<open>src/net/commands.c\<close>), a server of worker threads on epoll (\<^verbatim>\<open>src/net/server.c\<close>), a
  client for clusters (\<^verbatim>\<open>src/net/cluster.c\<close>), a command line program that is client and server
  (\<^verbatim>\<open>src/cli/vcli.c\<close>), and a layer for Windows (\<^verbatim>\<open>src/compat\<close>). A worker reads bytes from a socket into the read buffer
  of a connection, parses commands from it, dispatches each to its handler, which checks the
  permissions of the user and works on the cache, and writes the replies from the write buffer.

  \<^bold>\<open>How code becomes definitions.\<close> A definition has the name of the C function it models; parts of a
  long function have names of their own. State is passed explicitly as records named like the
  structs. The result \<^term>\<open>None\<close> of a definition stands for an access to memory that is not valid, a
  null pointer that is followed, or a loop that does not end, so that a theorem that gives a result
  \<^term>\<open>Some\<close> also shows the absence of these. Integers are words of their width wherever they can
  wrap. What the system and the TLS library return (clock, allocations, random numbers, results of
  calls on sockets, text of floating-point numbers) is an argument.

  \<^bold>\<open>Storage engine.\<close> \<^verbatim>\<open>Prelude\<close> holds what all theories share, \<^verbatim>\<open>Hashing\<close> the two hash functions,
  \<^verbatim>\<open>Memory\<close> a byte memory of blocks, \<^verbatim>\<open>Slab\<close> the allocator with its free lists, \<^verbatim>\<open>Entry\<close> the entries with
  inline and external payload, \<^verbatim>\<open>Shard\<close> the Robin Hood table with CLOCK eviction, \<^verbatim>\<open>Wal\<close> the log ring
  and \<^verbatim>\<open>Cache\<close> the operations of the public header. \<^verbatim>\<open>CacheInv\<close>, \<^verbatim>\<open>CacheOps\<close> and \<^verbatim>\<open>CacheSafe\<close> give the
  invariant (ownership of blocks, lengths, counters), that every operation keeps it and that every
  operation returns; \<^verbatim>\<open>CacheSpec\<close> is the abstract store, a map with expiry, as a locale; \<^verbatim>\<open>CacheThms\<close>
  shows that the operations refine it.

  \<^bold>\<open>Protocol and users.\<close> \<^verbatim>\<open>CString\<close> models the functions of the C library the sources use, \<^verbatim>\<open>Buffer\<close>
  the growable buffer and every writer of replies, \<^verbatim>\<open>Resp\<close> the incremental parser with its round
  trip, prefix and bounds theorems, \<^verbatim>\<open>Value\<close> the release of reply trees, \<^verbatim>\<open>Auth\<close> SHA-256, tokens, the
  ACL file and the table of users.

  \<^bold>\<open>Commands.\<close> \<^verbatim>\<open>Session\<close> has the server and connection records and the reply macros, \<^verbatim>\<open>Commands\<close> one
  definition per handler and \<^verbatim>\<open>CommandTable\<close> the table and the dispatcher. \<^verbatim>\<open>SessionLogic\<close> and
  \<^verbatim>\<open>CommandSafe\<close> show that handlers keep a session well formed, \<^verbatim>\<open>CommandAuth\<close> that every command
  returns and what a user without a permission can do, \<^verbatim>\<open>CommandThms\<close>, \<^verbatim>\<open>CounterThms\<close> and \<^verbatim>\<open>TypedThms\<close>
  what the commands do. \<^verbatim>\<open>CommandFrame\<close> shows, by locales over the relation that is kept, that a
  command that logs nobody in leaves the cache alone.

  \<^bold>\<open>Server.\<close> \<^verbatim>\<open>Server\<close> models the pool of connections, reading, dispatching and flushing, the TLS
  handshake, the events of a worker and the idle sweep; \<^verbatim>\<open>ServerBoot\<close> creating, starting and stopping
  the server. \<^verbatim>\<open>ServerFlow\<close> has the lemmas on the loops, \<^verbatim>\<open>ServerThms\<close> the theorems from bytes read to
  bytes written, \<^verbatim>\<open>ServerLive\<close> the delivery of replies that did not fit the socket at once, \<^verbatim>\<open>ServerPool\<close>
  the invariant of the pool as reachability under events in any order.

  \<^bold>\<open>Cluster client.\<close> \<^verbatim>\<open>Slots\<close> has the CRC and the slot of a key, against a CRC worked out bit by bit,
  \<^verbatim>\<open>Cluster\<close> sockets, connection pools, topology, health check and commands, \<^verbatim>\<open>ClusterThms\<close> the
  invariant of the client, \<^verbatim>\<open>ClusterWire\<close> formatting, replies and the topology of the own server.

  \<^bold>\<open>Command line program.\<close> \<^verbatim>\<open>Vcli\<close> has the words of a line, the encoding of a command, sending, and the
  printer of replies; \<^verbatim>\<open>VcliMain\<close> the options, the session of a client with its greeting, pipe mode and
  prompt, the cluster mode and the server mode. \<^verbatim>\<open>VcliThms\<close> shows that the printer prints what a recursive
  definition on reply trees says and that words and commands survive their encoding, \<^verbatim>\<open>VcliWire\<close> that
  client and server understand each other from the typed line to the printed value, \<^verbatim>\<open>VcliOpts\<close> what
  the options do. \<^verbatim>\<open>Smoke\<close> is the demonstration program \<^verbatim>\<open>src/src/main.c\<close> and shows that none of its
  assertions fails.

  \<^bold>\<open>Threads.\<close> \<^verbatim>\<open>Interleave\<close> has the lock and the sequence counter of a shard as steps of any number of
  threads in any order: at most one thread writes, and what a reader without the lock has seen is true
  if the counter has not moved, while a key it follows may have been freed. \<^verbatim>\<open>Treiber\<close> has the accesses of
  the lock-free free list, which can hand out a block twice.

  \<^bold>\<open>Windows.\<close> \<^verbatim>\<open>Wepoll\<close> is the replacement of epoll, with the entries of its socket table on a heap;
  \<^verbatim>\<open>WepollThms\<close> gives the invariant of the table through rehashing and unlinking, \<^verbatim>\<open>WepollCtl\<close> the contract
  of the operations as a map of sockets. \<^verbatim>\<open>Compat\<close> has memory maps, clock and error numbers.

  \<^bold>\<open>Bounds.\<close> No loop of the model has fuel that is chosen: loops are structural recursion on the data
  or on the number the C loop counts, recursion with a termination proof, or
  \<^verbatim>\<open>partial_function (option)\<close>, for which the theorems give a result. Hypotheses bound lengths where
  the code computes in 64 bits, as stated with each theorem.

  \<^bold>\<open>Not modelled.\<close> Threads that run at the same time outside the two theories named above: a cache
  operation, an event of a worker and a step of the cluster client are atomic in the others, and memory
  is sequentially consistent in all. Calls that only pass options to the system (socket options,
  signals, advice on memory). The text of floating-point numbers and parsing them, and the text of the
  statistics, which are parameters. Of the Windows layer \<^verbatim>\<open>src/compat/pthread_win32.h\<close>,
  \<^verbatim>\<open>src/compat/windows.h\<close> and the rest of \<^verbatim>\<open>src/compat/msvc.h\<close>, where each function is one call of the
  system. The declarations of OpenSSL in \<^verbatim>\<open>src/net/vc_ssl_abi.h\<close>, the benchmark
  \<^verbatim>\<open>src/bench/benchmark.c\<close>, which measures and prints times, and the tests.
\<close>

end
